(* ===== verification/LC3_Prelude.thy ===== *)
theory LC3_Prelude
  imports Main "HOL-Library.Word"
begin

text \<open>
  Shared ground of the development: names for the machine's integer types, the ways a run of a
  C function can end, the part of the C library that the sources use on bytes and characters,
  and the facts on words that the components rely on.
\<close>

unbundle bit_operations_syntax

section \<open>Types\<close>

type_synonym u8 = "8 word"
type_synonym u16 = "16 word"

text \<open>
  A C function returns, leaves the process with a status, stops at a failed assertion, or
  does something the language leaves undefined (a division by zero, a read past an object).
\<close>

datatype 'a outcome = Ret 'a | Exit int | Abort | Undef

fun bind_outcome :: "'a outcome \<Rightarrow> ('a \<Rightarrow> 'b outcome) \<Rightarrow> 'b outcome" where
  "bind_outcome (Ret a) f = f a"
| "bind_outcome (Exit n) f = Exit n"
| "bind_outcome Abort f = Abort"
| "bind_outcome Undef f = Undef"

lemma bind_outcome_assoc: "bind_outcome (bind_outcome m f) g = bind_outcome m (\<lambda>a. bind_outcome (f a) g)"
  by (cases m) simp_all

lemma bind_outcome_eq_Ret [simp]:
  "bind_outcome m f = Ret b \<longleftrightarrow> (\<exists>a. m = Ret a \<and> f a = Ret b)"
  by (cases m) auto

fun foldM :: "('x \<Rightarrow> 's \<Rightarrow> 's outcome) \<Rightarrow> 'x list \<Rightarrow> 's \<Rightarrow> 's outcome" where
  "foldM f [] s = Ret s"
| "foldM f (x # xs) s = bind_outcome (f x s) (foldM f xs)"

section \<open>Long integers\<close>

text \<open>
  The C types long and unsigned long of 64 bits: a signed result outside its type is undefined,
  conversions reduce modulo 2 ^ 64.
\<close>

definition long :: "int \<Rightarrow> bool" where
  "long v \<longleftrightarrow> - (2 ^ 63) \<le> v \<and> v < 2 ^ 63"

definition chk_long :: "int \<Rightarrow> int outcome" where
  "chk_long v = (if long v then Ret v else Undef)"

definition ulong :: "int \<Rightarrow> int" where
  "ulong v = v mod 2 ^ 64"

definition slong :: "int \<Rightarrow> int" where
  "slong u = (u + 2 ^ 63) mod 2 ^ 64 - 2 ^ 63"

lemma slong_id: "long v \<Longrightarrow> slong v = v"
  by (simp add: slong_def long_def)

lemma long_slong: "long (slong u)"
  by (simp add: slong_def long_def)

lemma chk_long_Ret [simp]: "chk_long v = Ret w \<longleftrightarrow> long v \<and> w = v"
  by (auto simp: chk_long_def)

section \<open>Object files\<close>

text \<open>An object file as the assembler writes it: origin and words, high byte first.\<close>

definition be16 :: "u16 \<Rightarrow> u8 list" where
  "be16 w = [ucast (drop_bit 8 w), ucast w]"

definition obj_file :: "u16 \<Rightarrow> u16 list \<Rightarrow> u8 list" where
  "obj_file org ws = be16 org @ concat (map be16 ws)"

section \<open>Facts on words\<close>

named_theorems word_field \<open>bounds on the bit fields of an instruction\<close>

lemma unat_and_mask_less:
  fixes w :: "'a::len word"
  assumes "n < LENGTH('a)"
  shows "unat (w AND mask n) < 2 ^ n"
  using assms by (simp add: take_bit_eq_mask [symmetric] unsigned_take_bit_eq)

lemma unat_and_7_less [word_field]: "unat ((w :: u16) AND 7) < 8"
  using unat_and_mask_less [of 3 w] by (simp add: mask_eq_exp_minus_1)

lemma unat_and_255_less [word_field]: "unat ((w :: u16) AND 255) < 256"
  using unat_and_mask_less [of 8 w] by (simp add: mask_eq_exp_minus_1)

lemma unat_drop_12_less [word_field]: "unat (drop_bit 12 (w :: u16)) < 16"
proof -
  have "unat w < 2 ^ LENGTH(16)"
    by (rule unsigned_less)
  then show ?thesis
    unfolding unat_drop_bit_eq by (simp add: drop_bit_eq_div)
qed

end
