(* ===== verification/VM_Machine.thy ===== *)
theory VM_Machine
  imports LC3_Prelude
begin

text \<open>
  The virtual machine of lc3sim-c (vm.c, vm.h, types.h and main.c) in its 16-bit build: the
  memory and register arrays, the device registers, the object-file loader, one function per
  opcode of vm_perform, the run loop and the command-line driver.  The process's standard
  streams are part of the state; what select answers is an environment function of the number
  of calls made so far.
\<close>

section \<open>Types and constants\<close>

definition VM_ADDR_MAX :: u16 where "VM_ADDR_MAX = 0xFFFF"
definition VM_ADDR_INITIAL :: u16 where "VM_ADDR_INITIAL = 0x3000"
definition VM_SIGN_BIT :: u16 where "VM_SIGN_BIT = push_bit 15 1"
definition VM_STATUS_BIT :: u16 where "VM_STATUS_BIT = push_bit 15 1"

datatype vm_opcode =
    VM_OPCODE_ADD | VM_OPCODE_AND | VM_OPCODE_BR | VM_OPCODE_JMP
  | VM_OPCODE_JSR | VM_OPCODE_LD | VM_OPCODE_LDI | VM_OPCODE_LDR
  | VM_OPCODE_LEA | VM_OPCODE_NOT | VM_OPCODE_RTI | VM_OPCODE_ST
  | VM_OPCODE_STI | VM_OPCODE_STR | VM_OPCODE_TRAP | VM_OPCODE_RESERVED

text \<open>The cast of \<open>instr >> 12\<close> to the enumeration, by the values vm.c gives it.\<close>

definition vm_opcode_of :: "u16 \<Rightarrow> vm_opcode" where
  "vm_opcode_of n =
     (if n = 0b0001 then VM_OPCODE_ADD
      else if n = 0b0101 then VM_OPCODE_AND
      else if n = 0b0000 then VM_OPCODE_BR
      else if n = 0b1100 then VM_OPCODE_JMP
      else if n = 0b0100 then VM_OPCODE_JSR
      else if n = 0b0010 then VM_OPCODE_LD
      else if n = 0b1010 then VM_OPCODE_LDI
      else if n = 0b0110 then VM_OPCODE_LDR
      else if n = 0b1110 then VM_OPCODE_LEA
      else if n = 0b1001 then VM_OPCODE_NOT
      else if n = 0b1000 then VM_OPCODE_RTI
      else if n = 0b0011 then VM_OPCODE_ST
      else if n = 0b1011 then VM_OPCODE_STI
      else if n = 0b0111 then VM_OPCODE_STR
      else if n = 0b1111 then VM_OPCODE_TRAP
      else VM_OPCODE_RESERVED)"

definition VM_ADDR_KBSR :: u16 where "VM_ADDR_KBSR = 0xfe00"
definition VM_ADDR_KBDR :: u16 where "VM_ADDR_KBDR = 0xfe02"
definition VM_ADDR_DSR :: u16 where "VM_ADDR_DSR = 0xfe04"
definition VM_ADDR_DDR :: u16 where "VM_ADDR_DDR = 0xfe06"
definition VM_ADDR_MCR :: u16 where "VM_ADDR_MCR = 0xfffe"

lemmas vm_addr_special_defs =
  VM_ADDR_KBSR_def VM_ADDR_KBDR_def VM_ADDR_DSR_def VM_ADDR_DDR_def VM_ADDR_MCR_def

text \<open>Indices of the register array: the general registers are 0 to 7.\<close>

definition VM_REG_PC :: nat where "VM_REG_PC = 8"
definition VM_REG_PSR :: nat where "VM_REG_PSR = 9"
definition VM_REG_COUNT :: nat where "VM_REG_COUNT = 10"

definition VM_FLAG_NEGATIVE :: u16 where "VM_FLAG_NEGATIVE = 0b100"
definition VM_FLAG_ZERO :: u16 where "VM_FLAG_ZERO = 0b010"
definition VM_FLAG_POSITIVE :: u16 where "VM_FLAG_POSITIVE = 0b001"

lemmas vm_const_defs =
  VM_ADDR_MAX_def VM_ADDR_INITIAL_def VM_SIGN_BIT_def VM_STATUS_BIT_def
  VM_REG_PC_def VM_REG_PSR_def VM_REG_COUNT_def
  VM_FLAG_NEGATIVE_def VM_FLAG_ZERO_def VM_FLAG_POSITIVE_def

datatype vm_load_result = VM_LOAD_SUCCESS | VM_INPUT_NOT_FOUND | VM_INPUT_TOO_LARGE

datatype vm_result =
    VM_SUCCESS | VM_OPCODE_NOP | VM_RES_ADDR_MCR
  | VM_OPCODE_NOT_IMPLEMENTED | VM_ERROR_ADDRES_OUT_OF_RANGE

record vm_impl =
  mem :: "u16 \<Rightarrow> u16"
  reg :: "nat \<Rightarrow> u16"

text \<open>
  The process around the machine: unread standard input, what has been written to standard
  output, the value of the n-th call of select, and the number of calls made.
\<close>

record vm_process = vm_impl +
  std_in :: "u8 list"
  std_out :: "u8 list"
  select_fd :: "nat \<Rightarrow> int"
  selects :: nat

definition getchar_c :: "vm_process \<Rightarrow> int \<times> vm_process" where
  "getchar_c vm =
     (case std_in vm of
        [] \<Rightarrow> (- 1, vm)
      | c # cs \<Rightarrow> (uint c, vm\<lparr>std_in := cs\<rparr>))"

definition putchar_c :: "u16 \<Rightarrow> vm_process \<Rightarrow> vm_process" where
  "putchar_c val vm = vm\<lparr>std_out := std_out vm @ [ucast val]\<rparr>"

definition set_reg :: "nat \<Rightarrow> u16 \<Rightarrow> vm_process \<Rightarrow> vm_process" where
  "set_reg i v vm = vm\<lparr>reg := (reg vm)(i := v)\<rparr>"

section \<open>Helpers and creation\<close>

definition sextend :: "u16 \<Rightarrow> nat \<Rightarrow> u16" where
  "sextend val n =
     (let m = push_bit (n - 1) 1; val = val AND (push_bit n 1 - 1)
      in (val XOR m) - m)"

definition vm_create :: "vm_impl" where
  "vm_create =
     \<lparr>mem = (\<lambda>_. 0)(VM_ADDR_MCR := VM_STATUS_BIT),
      reg = (\<lambda>_. 0)(VM_REG_PC := VM_ADDR_INITIAL, VM_REG_PSR := VM_FLAG_ZERO)\<rparr>"

section \<open>Memory\<close>

text \<open>
  A read leaves its out parameter alone unless it succeeds, so its result is either the error
  code or the value stored.
\<close>

definition vm_mem_read :: "('a) vm_impl_scheme \<Rightarrow> u16 \<Rightarrow> vm_result + u16" where
  "vm_mem_read vm addr =
     (if addr \<ge> VM_ADDR_MAX then Inl VM_ERROR_ADDRES_OUT_OF_RANGE else Inr (mem vm addr))"

definition read_KBSR :: "vm_process \<Rightarrow> u16 \<times> vm_process" where
  "read_KBSR vm =
     (if select_fd vm (selects vm) \<noteq> 0 then VM_STATUS_BIT else 0,
      vm\<lparr>selects := Suc (selects vm)\<rparr>)"

definition vm_read :: "vm_process \<Rightarrow> u16 \<Rightarrow> (vm_result + u16) \<times> vm_process" where
  "vm_read vm addr =
     (if addr = VM_ADDR_KBSR then (case read_KBSR vm of (v, vm) \<Rightarrow> (Inr v, vm))
      else if addr = VM_ADDR_KBDR then
        (case read_KBSR vm of (kbsr, vm) \<Rightarrow>
           if kbsr \<noteq> 0 then (case getchar_c vm of (c, vm) \<Rightarrow> (Inr (word_of_int c), vm))
           else (Inr 0, vm))
      else if addr = VM_ADDR_DSR then (Inr VM_STATUS_BIT, vm)
      else if addr = VM_ADDR_DDR then (Inr 0, vm)
      else (vm_mem_read vm addr, vm))"

definition vm_write :: "vm_process \<Rightarrow> u16 \<Rightarrow> u16 \<Rightarrow> vm_result \<times> vm_process" where
  "vm_write vm addr val =
     (if addr = VM_ADDR_KBSR \<or> addr = VM_ADDR_KBDR \<or> addr = VM_ADDR_DSR then (VM_SUCCESS, vm)
      else if addr = VM_ADDR_DDR then (VM_SUCCESS, putchar_c val vm)
      else if addr \<ge> VM_ADDR_MAX then (VM_ERROR_ADDRES_OUT_OF_RANGE, vm)
      else (VM_SUCCESS, vm\<lparr>mem := (mem vm)(addr := val)\<rparr>))"

section \<open>Loading\<close>

text \<open>A 16-bit object at the start of a byte array, on the little-endian host.\<close>

definition host_load16 :: "u8 \<Rightarrow> u8 \<Rightarrow> u16" where
  "host_load16 b0 b1 = ucast b0 OR push_bit 8 (ucast b1)"

definition SWAP_16 :: "u16 \<Rightarrow> u16" where
  "SWAP_16 val = push_bit 8 val OR drop_bit 8 val"

text \<open>The copy loop, one word of the source per round.\<close>

fun load_words :: "(u16 \<Rightarrow> u16) \<Rightarrow> nat \<Rightarrow> u8 list \<Rightarrow> (u16 \<Rightarrow> u16)" where
  "load_words m dest (b0 # b1 # bs) =
     load_words (m(of_nat dest := SWAP_16 (host_load16 b0 b1))) (Suc dest) bs"
| "load_words m dest _ = m"

text \<open>
  The \<open>ndebug\<close> flag says whether the assertions are compiled out.  An input of fewer than two
  bytes is read past its end.
\<close>

definition vm_load_data ::
  "bool \<Rightarrow> vm_process \<Rightarrow> u8 list \<Rightarrow> (vm_load_result \<times> vm_process) outcome" where
  "vm_load_data ndebug vm data =
     (case data of
        b0 # b1 # source \<Rightarrow>
          (let load_addr = SWAP_16 (host_load16 b0 b1);
               load_length = (length data - 2) div 2
           in if \<not> ndebug \<and> \<not> unat load_addr + load_length < unat VM_ADDR_MAX then Abort
              else if unat load_addr + load_length \<ge> unat VM_ADDR_MAX
                then Ret (VM_INPUT_TOO_LARGE, vm)
              else Ret (VM_LOAD_SUCCESS,
                set_reg VM_REG_PC load_addr
                  (vm\<lparr>mem := load_words (mem vm) (unat load_addr) source\<rparr>)))
      | _ \<Rightarrow> Undef)"

text \<open>What opening, measuring and mapping the named file gives.\<close>

datatype file_map = Open_Failed | Fstat_Failed | Mmap_Failed | Mapped "u8 list"

definition vm_load_file ::
  "bool \<Rightarrow> vm_process \<Rightarrow> file_map \<Rightarrow> (vm_load_result \<times> vm_process) outcome" where
  "vm_load_file ndebug vm file =
     (case file of
        Open_Failed \<Rightarrow> Ret (VM_INPUT_NOT_FOUND, vm)
      | Fstat_Failed \<Rightarrow> Ret (VM_INPUT_NOT_FOUND, vm)
      | Mmap_Failed \<Rightarrow> Ret (VM_INPUT_NOT_FOUND, vm)
      | Mapped data \<Rightarrow> vm_load_data ndebug vm data)"

definition vm_load_os ::
  "bool \<Rightarrow> u8 list \<Rightarrow> vm_process \<Rightarrow> (vm_load_result \<times> vm_process) outcome" where
  "vm_load_os ndebug lc3os_bin_data vm =
     bind_outcome (vm_load_data ndebug vm lc3os_bin_data) (\<lambda>(res, vm).
       if \<not> ndebug \<and> res \<noteq> VM_LOAD_SUCCESS then Abort else Ret (res, vm))"

section \<open>Execution\<close>

definition vm_sign_flag :: "u16 \<Rightarrow> u16" where
  "vm_sign_flag val =
     (if val = 0 then VM_FLAG_ZERO
      else if val AND VM_SIGN_BIT \<noteq> 0 then VM_FLAG_NEGATIVE
      else VM_FLAG_POSITIVE)"

definition vm_setcc :: "vm_process \<Rightarrow> nat \<Rightarrow> vm_process" where
  "vm_setcc vm r = set_reg VM_REG_PSR (vm_sign_flag (reg vm r)) vm"

text \<open>The fields of an instruction word.\<close>

definition bits_9 :: "u16 \<Rightarrow> nat" where "bits_9 instr = unat (drop_bit 9 instr AND 0b111)"
definition bits_6 :: "u16 \<Rightarrow> nat" where "bits_6 instr = unat (drop_bit 6 instr AND 0b111)"
definition bits_0 :: "u16 \<Rightarrow> nat" where "bits_0 instr = unat (instr AND 0b111)"

definition perform_ADD :: "vm_process \<Rightarrow> u16 \<Rightarrow> vm_result \<times> vm_process" where
  "perform_ADD vm instr =
     (let dr = bits_9 instr; sr1 = bits_6 instr;
          vm = (if instr AND push_bit 5 1 \<noteq> 0
                then set_reg dr (reg vm sr1 + sextend instr 5) vm
                else set_reg dr (reg vm sr1 + reg vm (bits_0 instr)) vm)
      in (VM_SUCCESS, vm_setcc vm dr))"

definition perform_AND :: "vm_process \<Rightarrow> u16 \<Rightarrow> vm_result \<times> vm_process" where
  "perform_AND vm instr =
     (let dr = bits_9 instr; sr1 = bits_6 instr;
          vm = (if instr AND push_bit 5 1 \<noteq> 0
                then set_reg dr (reg vm sr1 AND sextend instr 5) vm
                else set_reg dr (reg vm sr1 AND reg vm (bits_0 instr)) vm)
      in (VM_SUCCESS, vm_setcc vm dr))"

definition perform_BR :: "vm_process \<Rightarrow> u16 \<Rightarrow> vm_result \<times> vm_process" where
  "perform_BR vm instr =
     (let current_nzp = reg vm VM_REG_PSR AND 0b111;
          desired_nzp = drop_bit 9 instr AND 0b111;
          vm = (if current_nzp AND desired_nzp \<noteq> 0
                then set_reg VM_REG_PC (reg vm VM_REG_PC + sextend instr 9) vm else vm)
      in if instr = 0 then (VM_OPCODE_NOP, vm) else (VM_SUCCESS, vm))"

definition perform_JMP :: "vm_process \<Rightarrow> u16 \<Rightarrow> vm_result \<times> vm_process" where
  "perform_JMP vm instr = (VM_SUCCESS, set_reg VM_REG_PC (reg vm (bits_6 instr)) vm)"

definition perform_JSR :: "vm_process \<Rightarrow> u16 \<Rightarrow> vm_result \<times> vm_process" where
  "perform_JSR vm instr =
     (if instr AND push_bit 11 1 \<noteq> 0 then
        (let vm = set_reg 7 (reg vm VM_REG_PC) vm
         in (VM_SUCCESS, set_reg VM_REG_PC (reg vm VM_REG_PC + sextend instr 11) vm))
      else
        (let tmp = reg vm (bits_6 instr);
             vm = set_reg 7 (reg vm VM_REG_PC) vm
         in (VM_SUCCESS, set_reg VM_REG_PC tmp vm)))"

text \<open>Reading into a register, then the condition codes: the tail shared by the loads.\<close>

definition load_reg :: "vm_process \<Rightarrow> u16 \<Rightarrow> nat \<Rightarrow> vm_result \<times> vm_process" where
  "load_reg vm addr dr =
     (case vm_read vm addr of
        (Inl ret, vm) \<Rightarrow> (ret, vm)
      | (Inr v, vm) \<Rightarrow> (VM_SUCCESS, vm_setcc (set_reg dr v vm) dr))"

definition perform_LD :: "vm_process \<Rightarrow> u16 \<Rightarrow> vm_result \<times> vm_process" where
  "perform_LD vm instr = load_reg vm (reg vm VM_REG_PC + sextend instr 9) (bits_9 instr)"

definition perform_LDI :: "vm_process \<Rightarrow> u16 \<Rightarrow> vm_result \<times> vm_process" where
  "perform_LDI vm instr =
     (case vm_read vm (reg vm VM_REG_PC + sextend instr 9) of
        (Inl ret, vm) \<Rightarrow> (ret, vm)
      | (Inr addr, vm) \<Rightarrow> load_reg vm addr (bits_9 instr))"

definition perform_LDR :: "vm_process \<Rightarrow> u16 \<Rightarrow> vm_result \<times> vm_process" where
  "perform_LDR vm instr = load_reg vm (reg vm (bits_6 instr) + sextend instr 6) (bits_9 instr)"

definition perform_LEA :: "vm_process \<Rightarrow> u16 \<Rightarrow> vm_result \<times> vm_process" where
  "perform_LEA vm instr =
     (let dr = bits_9 instr
      in (VM_SUCCESS, vm_setcc (set_reg dr (reg vm VM_REG_PC + sextend instr 9) vm) dr))"

definition perform_NOT :: "vm_process \<Rightarrow> u16 \<Rightarrow> vm_result \<times> vm_process" where
  "perform_NOT vm instr =
     (let dr = bits_9 instr
      in (VM_SUCCESS, vm_setcc (set_reg dr (NOT (reg vm (bits_6 instr))) vm) dr))"

definition perform_ST :: "vm_process \<Rightarrow> u16 \<Rightarrow> vm_result \<times> vm_process" where
  "perform_ST vm instr =
     vm_write vm (reg vm VM_REG_PC + sextend instr 9) (reg vm (bits_9 instr))"

definition perform_STI :: "vm_process \<Rightarrow> u16 \<Rightarrow> vm_result \<times> vm_process" where
  "perform_STI vm instr =
     (case vm_read vm (reg vm VM_REG_PC + sextend instr 9) of
        (Inl ret, vm) \<Rightarrow> (ret, vm)
      | (Inr addr, vm) \<Rightarrow> vm_write vm addr (reg vm (bits_9 instr)))"

definition perform_STR :: "vm_process \<Rightarrow> u16 \<Rightarrow> vm_result \<times> vm_process" where
  "perform_STR vm instr =
     vm_write vm (reg vm (bits_6 instr) + sextend instr 6) (reg vm (bits_9 instr))"

definition perform_TRAP :: "vm_process \<Rightarrow> u16 \<Rightarrow> vm_result \<times> vm_process" where
  "perform_TRAP vm instr =
     (let trapvect8 = instr AND 0xff
      in if trapvect8 = 0x20 then
           (case getchar_c vm of (c, vm) \<Rightarrow> (VM_SUCCESS, set_reg 0 (word_of_int c) vm))
         else
           (let vm = set_reg 7 (reg vm VM_REG_PC) vm
            in case vm_read vm trapvect8 of
                 (Inl ret, vm) \<Rightarrow> (ret, vm)
               | (Inr v, vm) \<Rightarrow> (VM_SUCCESS, set_reg VM_REG_PC v vm)))"

definition vm_perform :: "vm_process \<Rightarrow> u16 \<Rightarrow> vm_result \<times> vm_process" where
  "vm_perform vm instr =
     (case vm_opcode_of (drop_bit 12 instr) of
        VM_OPCODE_ADD \<Rightarrow> perform_ADD vm instr
      | VM_OPCODE_AND \<Rightarrow> perform_AND vm instr
      | VM_OPCODE_BR \<Rightarrow> perform_BR vm instr
      | VM_OPCODE_JMP \<Rightarrow> perform_JMP vm instr
      | VM_OPCODE_JSR \<Rightarrow> perform_JSR vm instr
      | VM_OPCODE_LD \<Rightarrow> perform_LD vm instr
      | VM_OPCODE_LDI \<Rightarrow> perform_LDI vm instr
      | VM_OPCODE_LDR \<Rightarrow> perform_LDR vm instr
      | VM_OPCODE_LEA \<Rightarrow> perform_LEA vm instr
      | VM_OPCODE_NOT \<Rightarrow> perform_NOT vm instr
      | VM_OPCODE_RTI \<Rightarrow> (VM_OPCODE_NOT_IMPLEMENTED, vm)
      | VM_OPCODE_ST \<Rightarrow> perform_ST vm instr
      | VM_OPCODE_STI \<Rightarrow> perform_STI vm instr
      | VM_OPCODE_STR \<Rightarrow> perform_STR vm instr
      | VM_OPCODE_TRAP \<Rightarrow> perform_TRAP vm instr
      | VM_OPCODE_RESERVED \<Rightarrow> (VM_OPCODE_NOT_IMPLEMENTED, vm))"

text \<open>One round of the run loop: a result other than success leaves the loop.\<close>

definition vm_round :: "vm_process \<Rightarrow> vm_result \<times> vm_process" where
  "vm_round vm =
     (case vm_read vm VM_ADDR_MCR of
        (Inl res, vm) \<Rightarrow> (res, vm)
      | (Inr stop, vm) \<Rightarrow>
          if stop AND VM_STATUS_BIT = 0 then (VM_RES_ADDR_MCR, vm)
          else
            (case vm_read vm (reg vm VM_REG_PC) of
               (Inl res, vm) \<Rightarrow> (res, vm)
             | (Inr instr, vm) \<Rightarrow>
                 vm_perform (set_reg VM_REG_PC (reg vm VM_REG_PC + 1) vm) instr))"

partial_function (option) vm_run :: "vm_process \<Rightarrow> (vm_result \<times> vm_process) option" where
  "vm_run vm =
     (case vm_round vm of
        (res, vm) \<Rightarrow> if res \<noteq> VM_SUCCESS then Some (res, vm) else vm_run vm)"

section \<open>The driver\<close>

definition VM_EXIT_SUCCESS :: int where "VM_EXIT_SUCCESS = 0"
definition VM_EXIT_USAGE :: int where "VM_EXIT_USAGE = 1"
definition VM_EXIT_INPUT_INVALID :: int where "VM_EXIT_INPUT_INVALID = 2"
definition VM_EXIT_OPCODE_INVALID :: int where "VM_EXIT_OPCODE_INVALID = 3"

lemmas vm_exit_defs =
  VM_EXIT_SUCCESS_def VM_EXIT_USAGE_def VM_EXIT_INPUT_INVALID_def VM_EXIT_OPCODE_INVALID_def

definition run_exit :: "vm_result \<Rightarrow> int" where
  "run_exit run_res =
     (case run_res of
        VM_SUCCESS \<Rightarrow> VM_EXIT_SUCCESS
      | VM_OPCODE_NOP \<Rightarrow> VM_EXIT_SUCCESS
      | VM_RES_ADDR_MCR \<Rightarrow> VM_EXIT_SUCCESS
      | VM_OPCODE_NOT_IMPLEMENTED \<Rightarrow> VM_EXIT_OPCODE_INVALID
      | VM_ERROR_ADDRES_OUT_OF_RANGE \<Rightarrow> VM_EXIT_OPCODE_INVALID)"

text \<open>
  The driver on a process with fresh machine memory.  \<open>None\<close> is a run that does not end;
  \<open>file\<close> is what the file named by the only argument holds.
\<close>

definition vm_start :: "u8 list \<Rightarrow> (nat \<Rightarrow> int) \<Rightarrow> vm_process" where
  "vm_start inp sel =
     \<lparr>mem = mem vm_create, reg = reg vm_create,
      std_in = inp, std_out = [], select_fd = sel, selects = 0\<rparr>"

definition vm_main ::
  "bool \<Rightarrow> u8 list \<Rightarrow> nat \<Rightarrow> file_map \<Rightarrow> u8 list \<Rightarrow> (nat \<Rightarrow> int)
   \<Rightarrow> (int \<times> vm_process) outcome option" where
  "vm_main ndebug lc3os_bin_data argc file inp sel =
     (let vm = vm_start inp sel
      in if argc \<noteq> 2 then Some (Ret (VM_EXIT_USAGE, vm))
         else
           (case bind_outcome (vm_load_os ndebug lc3os_bin_data vm) (\<lambda>(res, vm).
                   if res = VM_LOAD_SUCCESS then vm_load_file ndebug vm file
                   else Ret (res, vm)) of
              Ret (VM_LOAD_SUCCESS, vm) \<Rightarrow>
                map_option (\<lambda>(res, vm). Ret (run_exit res, vm)) (vm_run vm)
            | Ret (_, vm) \<Rightarrow> Some (Ret (VM_EXIT_INPUT_INVALID, vm))
            | Exit n \<Rightarrow> Some (Exit n)
            | Abort \<Rightarrow> Some Abort
            | Undef \<Rightarrow> Some Undef))"

end
