(* ===== verification/VM_Correct.thy ===== *)
theory VM_Correct
  imports VM_Machine
begin

text \<open>
  What the lc3sim-c machine guarantees: sign extension, the frame of every instruction (which
  memory cells, registers and streams it may touch), the condition-code invariant, the object
  loader, the run loop against its step relation, and the driver's exit codes.
\<close>

section \<open>Sign extension\<close>

lemma xor_exp_word:
  fixes t :: "'a::len word"
  shows "t XOR push_bit k 1 = (if bit t k then t - push_bit k 1 else t + push_bit k 1)"
proof (cases "bit t k")
  case False
  have "t + push_bit k 1 = t OR push_bit k 1"
    by (rule disjunctive_add) (auto simp: bit_simps False)
  also have "\<dots> = t XOR push_bit k 1"
    using False by (intro bit_word_eqI) (auto simp: bit_simps)
  finally show ?thesis using False by simp
next
  case True
  have "(t XOR push_bit k 1) + push_bit k 1 = (t XOR push_bit k 1) OR push_bit k 1"
    using True by (intro disjunctive_add) (auto simp: bit_simps)
  also have "\<dots> = t"
    using True by (intro bit_word_eqI) (auto simp: bit_simps)
  finally have "t XOR push_bit k 1 = t - push_bit k 1"
    by (simp add: eq_diff_eq)
  with True show ?thesis by simp
qed

lemma sextend_eq: "sextend w (Suc k) = signed_take_bit k w"
proof -
  have t: "w AND (push_bit (Suc k) 1 - 1) = take_bit (Suc k) w"
    by (simp add: take_bit_eq_mask mask_eq_exp_minus_1 push_bit_eq_mult)
  have "sextend w (Suc k) = (take_bit (Suc k) w XOR push_bit k 1) - push_bit k 1"
    unfolding sextend_def Let_def t by simp
  then show ?thesis
    unfolding xor_exp_word
    by (simp add: signed_take_bit_eq_take_bit_minus bit_take_bit_iff push_bit_eq_mult)
qed

lemma sint_signed_take_bit:
  fixes w :: "'a::len word"
  assumes "k < LENGTH('a)"
  shows "sint (signed_take_bit k w) = signed_take_bit k (uint w)"
  using assms by (intro bit_eqI) (auto simp: bit_simps min_def)

section \<open>What an operation may touch\<close>

text \<open>Addresses whose cells an instruction never writes.\<close>

definition vm_reserved :: "u16 \<Rightarrow> bool" where
  "vm_reserved a \<longleftrightarrow>
     a = VM_ADDR_KBSR \<or> a = VM_ADDR_KBDR \<or> a = VM_ADDR_DSR \<or> a = VM_ADDR_DDR \<or> a \<ge> VM_ADDR_MAX"

text \<open>
  \<open>vm_frame vm vm'\<close>: from \<open>vm\<close> to \<open>vm'\<close> no reserved cell and no entry past the register array
  changes, input is only consumed from the front and output only appended.
\<close>

definition vm_frame :: "vm_process \<Rightarrow> vm_process \<Rightarrow> bool" where
  "vm_frame vm vm' \<longleftrightarrow>
     (\<forall>a. vm_reserved a \<longrightarrow> mem vm' a = mem vm a) \<and>
     (\<forall>i\<ge>VM_REG_COUNT. reg vm' i = reg vm i) \<and>
     (\<exists>ws. std_in vm = ws @ std_in vm') \<and>
     (\<exists>ws. std_out vm' = std_out vm @ ws) \<and>
     select_fd vm' = select_fd vm \<and> selects vm \<le> selects vm'"

lemma vm_frame_refl [simp, intro]: "vm_frame vm vm"
  by (simp add: vm_frame_def)

lemma vm_frame_trans [trans]: "vm_frame vm1 vm2 \<Longrightarrow> vm_frame vm2 vm3 \<Longrightarrow> vm_frame vm1 vm3"
  unfolding vm_frame_def by (metis append.assoc le_trans)

lemma vm_frame_set_reg [simp]:
  "i < VM_REG_COUNT \<Longrightarrow> vm_frame vm (set_reg i v vm') \<longleftrightarrow> vm_frame vm vm'"
  "i < VM_REG_COUNT \<Longrightarrow> vm_frame (set_reg i v vm) vm' \<longleftrightarrow> vm_frame vm vm'"
  by (auto simp: vm_frame_def set_reg_def)

lemma reg_index_less [simp]:
  "bits_9 instr < VM_REG_COUNT" "bits_6 instr < VM_REG_COUNT" "bits_0 instr < VM_REG_COUNT"
  "VM_REG_PC < VM_REG_COUNT" "VM_REG_PSR < VM_REG_COUNT"
  "0 < VM_REG_COUNT" "7 < VM_REG_COUNT"
  using unat_and_7_less [of "drop_bit 9 instr"] unat_and_7_less [of "drop_bit 6 instr"]
    unat_and_7_less [of instr]
  by (simp_all add: bits_9_def bits_6_def bits_0_def vm_const_defs)

lemma vm_frame_setcc [simp]: "vm_frame vm (vm_setcc vm' r) \<longleftrightarrow> vm_frame vm vm'"
  by (simp add: vm_setcc_def)

lemma vm_frame_getchar: "getchar_c vm = (c, vm') \<Longrightarrow> vm_frame vm vm'"
  by (auto simp: getchar_c_def vm_frame_def split: list.splits)

lemma vm_frame_KBSR: "read_KBSR vm = (v, vm') \<Longrightarrow> vm_frame vm vm'"
  by (auto simp: read_KBSR_def vm_frame_def)

lemma vm_read_frame:
  assumes "vm_read vm a = (r, vm')"
  shows "vm_frame vm vm'"
  using assms
  by (auto simp: vm_read_def split: prod.splits if_splits
           intro: vm_frame_trans dest!: vm_frame_KBSR vm_frame_getchar)

lemma vm_read_keeps:
  assumes "vm_read vm a = (r, vm')"
  shows "mem vm' = mem vm" and "reg vm' = reg vm" and "std_out vm' = std_out vm"
  using assms
  by (auto simp: vm_read_def read_KBSR_def getchar_c_def split: prod.splits if_splits list.splits)

lemma vm_write_frame: "vm_write vm a v = (r, vm') \<Longrightarrow> vm_frame vm vm'"
  by (auto simp: vm_write_def vm_frame_def vm_reserved_def putchar_c_def split: if_splits)

lemma load_reg_frame: "load_reg vm a dr = (r, vm') \<Longrightarrow> dr < VM_REG_COUNT \<Longrightarrow> vm_frame vm vm'"
  by (auto simp: load_reg_def split: prod.splits sum.splits dest: vm_read_frame)

lemmas perform_defs =
  perform_ADD_def perform_AND_def perform_BR_def perform_JMP_def perform_JSR_def perform_LD_def
  perform_LDI_def perform_LDR_def perform_LEA_def perform_NOT_def perform_ST_def perform_STI_def
  perform_STR_def perform_TRAP_def

lemma vm_perform_frame:
  assumes "vm_perform vm instr = (r, vm')"
  shows "vm_frame vm vm'"
  using assms
  by (cases "vm_opcode_of (drop_bit 12 instr)")
     (auto simp: vm_perform_def perform_defs Let_def
           split: if_splits prod.splits sum.splits
           dest!: vm_read_frame vm_write_frame load_reg_frame vm_frame_getchar
           intro: vm_frame_trans)

section \<open>Condition codes\<close>

definition vm_psr_ok :: "vm_process \<Rightarrow> bool" where
  "vm_psr_ok vm \<longleftrightarrow> reg vm VM_REG_PSR \<in> {VM_FLAG_NEGATIVE, VM_FLAG_ZERO, VM_FLAG_POSITIVE}"

lemma bits_less_8: "bits_9 instr < 8" "bits_6 instr < 8" "bits_0 instr < 8"
  by (simp_all add: bits_9_def bits_6_def bits_0_def word_field)

lemma reg_set_reg [simp]: "reg (set_reg i v vm) j = (if j = i then v else reg vm j)"
  by (simp add: set_reg_def)

lemma bits_neq_special [simp]:
  "bits_9 instr \<noteq> VM_REG_PSR" "bits_6 instr \<noteq> VM_REG_PSR" "bits_0 instr \<noteq> VM_REG_PSR"
  "bits_9 instr \<noteq> VM_REG_PC" "bits_6 instr \<noteq> VM_REG_PC" "bits_0 instr \<noteq> VM_REG_PC"
  "VM_REG_PSR \<noteq> VM_REG_PC" "VM_REG_PC \<noteq> VM_REG_PSR" "VM_REG_PSR \<noteq> 7" "VM_REG_PC \<noteq> 7" "VM_REG_PSR \<noteq> 0" "VM_REG_PC \<noteq> 0"
  "7 \<noteq> VM_REG_PSR" "7 \<noteq> VM_REG_PC" "0 \<noteq> VM_REG_PSR" "0 \<noteq> VM_REG_PC"
  using bits_less_8 [of instr] by (auto simp: vm_const_defs)

lemma vm_psr_ok_setcc [simp]: "vm_psr_ok (vm_setcc vm r)"
  by (simp add: vm_psr_ok_def vm_setcc_def vm_sign_flag_def)

lemma vm_psr_ok_set_reg [simp]: "i \<noteq> VM_REG_PSR \<Longrightarrow> vm_psr_ok (set_reg i v vm) = vm_psr_ok vm"
  by (auto simp: vm_psr_ok_def)

lemma vm_psr_ok_read: "vm_read vm a = (r, vm') \<Longrightarrow> vm_psr_ok vm' = vm_psr_ok vm"
  by (simp add: vm_psr_ok_def vm_read_keeps)

lemma vm_write_keeps: "vm_write vm a v = (r, vm') \<Longrightarrow> reg vm' = reg vm \<and> std_in vm' = std_in vm"
  by (auto simp: vm_write_def putchar_c_def split: if_splits)

lemma vm_psr_ok_write: "vm_write vm a v = (r, vm') \<Longrightarrow> vm_psr_ok vm' = vm_psr_ok vm"
  by (simp add: vm_psr_ok_def vm_write_keeps)

lemma vm_psr_ok_getchar: "getchar_c vm = (c, vm') \<Longrightarrow> vm_psr_ok vm' = vm_psr_ok vm"
  by (auto simp: getchar_c_def vm_psr_ok_def split: list.splits)

lemma vm_psr_ok_load_reg: "load_reg vm a dr = (r, vm') \<Longrightarrow> vm_psr_ok vm \<Longrightarrow> vm_psr_ok vm'"
  by (auto simp: load_reg_def vm_psr_ok_read split: prod.splits sum.splits)

lemma vm_perform_psr:
  assumes "vm_perform vm instr = (r, vm')" and "vm_psr_ok vm"
  shows "vm_psr_ok vm'"
  using assms
  by (cases "vm_opcode_of (drop_bit 12 instr)")
     (auto simp: vm_perform_def perform_defs Let_def
           split: if_splits prod.splits sum.splits
           dest!: vm_psr_ok_read vm_psr_ok_write vm_psr_ok_load_reg vm_psr_ok_getchar)

section \<open>The run loop\<close>

lemma vm_round_cases:
  obtains (mcr) "vm_round vm = (VM_RES_ADDR_MCR, vm)" "mem vm VM_ADDR_MCR AND VM_STATUS_BIT = 0"
  | (fetch) res vm1 where "vm_round vm = (res, vm1)" "mem vm VM_ADDR_MCR AND VM_STATUS_BIT \<noteq> 0"
      "vm_read vm (reg vm VM_REG_PC) = (Inl res, vm1)"
  | (exec) instr vm1 where "mem vm VM_ADDR_MCR AND VM_STATUS_BIT \<noteq> 0"
      "vm_read vm (reg vm VM_REG_PC) = (Inr instr, vm1)"
      "vm_round vm = vm_perform (set_reg VM_REG_PC (reg vm1 VM_REG_PC + 1) vm1) instr"
proof -
  have mcr: "vm_read vm VM_ADDR_MCR = (Inr (mem vm VM_ADDR_MCR), vm)"
    by (simp add: vm_read_def vm_mem_read_def vm_addr_special_defs vm_const_defs)
  obtain r vm1 where rd: "vm_read vm (reg vm VM_REG_PC) = (r, vm1)"
    by (cases "vm_read vm (reg vm VM_REG_PC)")
  show thesis
  proof (cases "mem vm VM_ADDR_MCR AND VM_STATUS_BIT = 0")
    case True
    with mcr show thesis by (intro that(1)) (simp_all add: vm_round_def)
  next
    case False
    show thesis
    proof (cases r)
      case (Inl e)
      with False mcr rd show thesis by (intro that(2) [of e vm1]) (simp_all add: vm_round_def)
    next
      case (Inr i)
      with False mcr rd show thesis by (intro that(3) [of i vm1]) (simp_all add: vm_round_def)
    qed
  qed
qed

lemma vm_round_frame: "vm_round vm = (r, vm') \<Longrightarrow> vm_frame vm vm'"
  by (cases vm rule: vm_round_cases)
     (auto dest!: vm_perform_frame vm_read_frame intro: vm_frame_trans)

lemma vm_round_psr: "vm_round vm = (r, vm') \<Longrightarrow> vm_psr_ok vm \<Longrightarrow> vm_psr_ok vm'"
  by (cases vm rule: vm_round_cases) (auto dest!: vm_psr_ok_read vm_perform_psr)

text \<open>The rounds that go on: the machine's step relation.\<close>

inductive vm_steps :: "vm_process \<Rightarrow> vm_process \<Rightarrow> bool" where
  vm_steps_refl: "vm_steps vm vm"
| vm_steps_round: "vm_round vm = (VM_SUCCESS, vm1) \<Longrightarrow> vm_steps vm1 vm2 \<Longrightarrow> vm_steps vm vm2"

lemma vm_steps_frame: "vm_steps vm vm' \<Longrightarrow> vm_frame vm vm'"
  by (induction rule: vm_steps.induct) (auto dest: vm_round_frame intro: vm_frame_trans)

lemma vm_steps_psr: "vm_steps vm vm' \<Longrightarrow> vm_psr_ok vm \<Longrightarrow> vm_psr_ok vm'"
  by (induction rule: vm_steps.induct) (auto dest: vm_round_psr)

lemma vm_run_sound:
  assumes "vm_run vm = Some (res, vm')"
  shows "\<exists>vm1. vm_steps vm vm1 \<and> vm_round vm1 = (res, vm') \<and> res \<noteq> VM_SUCCESS"
proof -
  have "case r of (res, vm') \<Rightarrow>
      \<exists>vm1. vm_steps vm vm1 \<and> vm_round vm1 = (res, vm') \<and> res \<noteq> VM_SUCCESS"
    if "vm_run vm = Some r" for r
    using that
  proof (rule vm_run.raw_induct [where P = "\<lambda>vm r. case r of (res, vm') \<Rightarrow>
      \<exists>vm1. vm_steps vm vm1 \<and> vm_round vm1 = (res, vm') \<and> res \<noteq> VM_SUCCESS", rotated])
    fix f vm r
    assume IH: "\<And>vm r. f vm = Some r \<Longrightarrow> case r of (res, vm') \<Rightarrow>
        \<exists>vm1. vm_steps vm vm1 \<and> vm_round vm1 = (res, vm') \<and> res \<noteq> VM_SUCCESS"
      and eq: "(case vm_round vm of (res, vm) \<Rightarrow>
        if res \<noteq> VM_SUCCESS then Some (res, vm) else f vm) = Some r"
    obtain res vm1 where rd: "vm_round vm = (res, vm1)" by (cases "vm_round vm")
    show "case r of (res, vm') \<Rightarrow>
        \<exists>vm1. vm_steps vm vm1 \<and> vm_round vm1 = (res, vm') \<and> res \<noteq> VM_SUCCESS"
    proof (cases "res = VM_SUCCESS")
      case True
      with eq rd have "f vm1 = Some r" by simp
      from IH [OF this] rd True show ?thesis by (auto intro: vm_steps_round)
    next
      case False
      with eq rd show ?thesis by (auto intro: vm_steps_refl)
    qed
  qed
  from this [OF assms] show ?thesis by simp
qed

lemma vm_run_complete:
  assumes "vm_steps vm vm1" and "vm_round vm1 = (res, vm')" and "res \<noteq> VM_SUCCESS"
  shows "vm_run vm = Some (res, vm')"
  using assms by (induction rule: vm_steps.induct) (simp_all add: vm_run.simps)

section \<open>The object loader\<close>

lemma swap_host_be16: "SWAP_16 (host_load16 (ucast (drop_bit 8 w)) (ucast w)) = w"
  by (rule bit_word_eqI) (auto simp: SWAP_16_def host_load16_def bit_simps)

lemma length_obj_file: "length (obj_file org ws) = 2 + 2 * length ws"
  by (simp add: obj_file_def be16_def length_concat comp_def sum_list_triv)

lemma load_words_step:
  "load_words m dest (be16 w @ bs) = load_words (m(of_nat dest := w)) (Suc dest) bs"
  by (simp add: be16_def swap_host_be16)

lemma load_words_be16:
  assumes "dest + length ws \<le> 65536"
  shows "load_words m dest (concat (map be16 ws)) a =
    (if dest \<le> unat a \<and> unat a < dest + length ws then ws ! (unat a - dest) else m a)"
  using assms
proof (induction ws arbitrary: m dest)
  case Nil
  then show ?case by auto
next
  case (Cons w ws)
  have "a = of_nat dest \<longleftrightarrow> unat a = dest"
    using Cons.prems by (auto simp: unat_of_nat take_bit_nat_eq_self)
  with Cons show ?case
    by (auto simp: load_words_step nth_Cons')
qed

lemma vm_load_data_obj:
  "vm_load_data ndebug vm (obj_file org ws) =
     (if unat org + length ws < 0xFFFF
      then Ret (VM_LOAD_SUCCESS, set_reg VM_REG_PC org
             (vm\<lparr>mem := load_words (mem vm) (unat org) (concat (map be16 ws))\<rparr>))
      else if ndebug then Ret (VM_INPUT_TOO_LARGE, vm) else Abort)"
proof -
  have "obj_file org ws = ucast (drop_bit 8 org) # ucast org # concat (map be16 ws)"
    by (simp add: obj_file_def be16_def)
  then show ?thesis
    using length_obj_file [of org ws]
    by (simp add: vm_load_data_def swap_host_be16 VM_ADDR_MAX_def Let_def)
qed

section \<open>Properties\<close>

text \<open>
  The n-bit field of an instruction is sign-extended by sextend: read as a two's
  complement number the result is the value of the field's n bits, for every field width that
  fits a register.
\<close>

lemma sextend_sint:
  "1 \<le> n \<Longrightarrow> n \<le> 16 \<Longrightarrow> sint (sextend w n) = signed_take_bit (n - 1) (uint w)"
  by (cases n) (simp_all add: sextend_eq sint_signed_take_bit)

text \<open>
  Loading an object file of an origin and words that fit below the memory limit
  succeeds, places the i-th word at the i-th address from the origin, leaves every other cell,
  every register but the program counter and the process streams alone, and points the program
  counter at the origin.
\<close>

lemma vm_load_data_places:
  assumes "unat org + length ws < 0xFFFF"
  shows "\<exists>vm'. vm_load_data ndebug vm (obj_file org ws) = Ret (VM_LOAD_SUCCESS, vm') \<and>
    (\<forall>i < length ws. mem vm' (org + of_nat i) = ws ! i) \<and>
    (\<forall>a. unat a < unat org \<or> unat org + length ws \<le> unat a \<longrightarrow> mem vm' a = mem vm a) \<and>
    reg vm' = (reg vm)(VM_REG_PC := org) \<and>
    std_in vm' = std_in vm \<and> std_out vm' = std_out vm"
proof -
  let ?m = "load_words (mem vm) (unat org) (concat (map be16 ws))"
  have m: "?m a = (if unat org \<le> unat a \<and> unat a < unat org + length ws
      then ws ! (unat a - unat org) else mem vm a)" for a
    using assms by (intro load_words_be16) simp
  have addr: "unat (org + of_nat i) = unat org + i" if "i < length ws" for i
    using assms that by (simp add: unat_word_ariths unat_of_nat take_bit_nat_eq_self)
  show ?thesis
    using assms by (simp add: vm_load_data_obj m addr set_reg_def)
qed

text \<open>
  With the assertions compiled in, an object file that reaches the memory limit
  aborts the process; the result VM_INPUT_TOO_LARGE that vm.h declares for it is only produced
  when they are compiled out.
\<close>

lemma vm_load_data_too_large:
  assumes "0xFFFF \<le> unat org + length ws"
  shows "vm_load_data False vm (obj_file org ws) = Abort \<and>
    vm_load_data True vm (obj_file org ws) = Ret (VM_INPUT_TOO_LARGE, vm)"
  using assms by (simp add: vm_load_data_obj)

text \<open>
  Vm_run returns a result exactly when finitely many successful rounds lead to a
  round that does not succeed, and it then returns that round's result and state; so it never
  returns VM_SUCCESS.
\<close>

lemma vm_run_iff:
  "vm_run vm = Some (res, vm') \<longleftrightarrow>
     res \<noteq> VM_SUCCESS \<and> (\<exists>vm1. vm_steps vm vm1 \<and> vm_round vm1 = (res, vm'))"
  using vm_run_sound vm_run_complete by blast

text \<open>
  Claim C20: however long the machine runs, it changes no memory cell that backs a device
  register or lies past the memory array, no entry past the register array, takes input only
  from the front of the stream and only appends to the output.
\<close>

theorem vm_run_frame:
  assumes "vm_run vm = Some (res, vm')"
  shows "(\<forall>a. vm_reserved a \<longrightarrow> mem vm' a = mem vm a) \<and>
    (\<forall>i \<ge> VM_REG_COUNT. reg vm' i = reg vm i) \<and>
    (\<exists>ws. std_in vm = ws @ std_in vm') \<and> (\<exists>ws. std_out vm' = std_out vm @ ws)"
proof -
  from vm_run_sound [OF assms] have "vm_frame vm vm'"
    by (auto intro: vm_frame_trans dest!: vm_steps_frame vm_round_frame)
  then show ?thesis by (simp add: vm_frame_def)
qed

lemma vm_run_blank:
  "vm_run (vm_start inp sel) =
     Some (VM_OPCODE_NOP, set_reg VM_REG_PC 0x3001 (vm_start inp sel))"
  by (simp add: vm_run.simps vm_round_def vm_read_def vm_mem_read_def vm_start_def vm_create_def
      vm_addr_special_defs vm_const_defs vm_perform_def vm_opcode_of_def perform_BR_def Let_def
      set_reg_def)

theorem vm_run_frame_witness:
  "let vm = vm_start [7] (\<lambda>_. 0); vm' = set_reg VM_REG_PC 0x3001 vm
   in (\<forall>a. vm_reserved a \<longrightarrow> mem vm' a = mem vm a) \<and> (\<exists>ws. std_in vm = ws @ std_in vm')"
  using vm_run_frame [OF vm_run_blank [of "[7]" "\<lambda>_. 0"]] by (auto simp: Let_def)

text \<open>
  Claim C21: from a created machine on, whatever is loaded, the condition-code register holds
  exactly one of the three flags in every state the run passes through and in the final one.
\<close>

theorem vm_run_psr_one_flag:
  assumes "vm_load_data ndebug (vm_start inp sel) data = Ret (VM_LOAD_SUCCESS, vm)"
    and "vm_steps vm vm1" and "vm_round vm1 = (res, vm2)"
  shows "reg vm1 VM_REG_PSR \<in> {VM_FLAG_NEGATIVE, VM_FLAG_ZERO, VM_FLAG_POSITIVE} \<and>
    reg vm2 VM_REG_PSR \<in> {VM_FLAG_NEGATIVE, VM_FLAG_ZERO, VM_FLAG_POSITIVE}"
proof -
  from assms(1) have "vm_psr_ok vm"
    by (auto simp: vm_load_data_def Let_def vm_psr_ok_def vm_start_def vm_create_def
        split: list.splits if_splits)
  with assms(2) have "vm_psr_ok vm1" by (rule vm_steps_psr)
  moreover from this assms(3) have "vm_psr_ok vm2" by (blast intro: vm_round_psr)
  ultimately show ?thesis by (simp add: vm_psr_ok_def)
qed

theorem vm_run_psr_one_flag_witness:
  "let vm = set_reg VM_REG_PC 0x4000 ((vm_start [] (\<lambda>_. 0))\<lparr>mem := (mem vm_create)(0x4000 := 0x1021)\<rparr>);
       vm2 = snd (vm_round vm)
   in reg vm2 VM_REG_PSR \<in> {VM_FLAG_NEGATIVE, VM_FLAG_ZERO, VM_FLAG_POSITIVE}"
proof -
  let ?start = "vm_start [] (\<lambda>_. 0)"
  let ?loaded = "set_reg VM_REG_PC 0x4000 (?start\<lparr>mem := (mem vm_create)(0x4000 := 0x1021)\<rparr>)"
  have "vm_load_data False ?start (obj_file 0x4000 [0x1021]) = Ret (VM_LOAD_SUCCESS, ?loaded)"
    unfolding vm_load_data_obj
    by (simp add: load_words_step [of _ _ _ "[]", simplified] vm_start_def)
  from vm_run_psr_one_flag [OF this vm_steps_refl, of "fst (vm_round ?loaded)" "snd (vm_round ?loaded)"]
  show ?thesis by (simp add: Let_def)
qed

text \<open>
  Claim C22: a program stops the machine through the machine control register: after a word
  whose top bit is clear is written there, the next round ends the run with VM_RES_ADDR_MCR and
  executes nothing more.
\<close>

theorem vm_mcr_stops:
  assumes "vm_write vm VM_ADDR_MCR v = (res, vm')" and "\<not> bit v 15"
  shows "res = VM_SUCCESS \<and> vm_run vm' = Some (VM_RES_ADDR_MCR, vm')"
proof -
  have w: "res = VM_SUCCESS" "mem vm' VM_ADDR_MCR = v"
    using assms(1) by (auto simp: vm_write_def vm_addr_special_defs vm_const_defs)
  have "v AND VM_STATUS_BIT = 0"
    using assms(2) and_exp_eq_0_iff_not_bit [of v 15] by (simp add: VM_STATUS_BIT_def)
  with w have "vm_round vm' = (VM_RES_ADDR_MCR, vm')"
    by (simp add: vm_round_def vm_read_def vm_mem_read_def vm_addr_special_defs VM_ADDR_MAX_def)
  with w show ?thesis by (simp add: vm_run.simps)
qed

theorem vm_mcr_stops_witness:
  "vm_run (snd (vm_write (vm_start [] (\<lambda>_. 0)) VM_ADDR_MCR 0)) =
     Some (VM_RES_ADDR_MCR, snd (vm_write (vm_start [] (\<lambda>_. 0)) VM_ADDR_MCR 0))"
  using vm_mcr_stops [of "vm_start [] (\<lambda>_. 0)" 0] by (metis bit_0_eq bot_apply bot_bool_def prod.collapse)

text \<open>
  The driver leaves with status 0 exactly when it got one file name, the system image
  and the file loaded, and the run ended at the all-zero instruction or through the machine
  control register.
\<close>

lemma vm_main_success_iff:
  "vm_main ndebug os argc file inp sel = Some (Ret (VM_EXIT_SUCCESS, vm')) \<longleftrightarrow>
     argc = 2 \<and>
     (\<exists>vm1 vm2 res. vm_load_os ndebug os (vm_start inp sel) = Ret (VM_LOAD_SUCCESS, vm1) \<and>
        vm_load_file ndebug vm1 file = Ret (VM_LOAD_SUCCESS, vm2) \<and>
        vm_run vm2 = Some (res, vm') \<and> res \<in> {VM_OPCODE_NOP, VM_RES_ADDR_MCR})"
proof -
  let ?load = "bind_outcome (vm_load_os ndebug os (vm_start inp sel)) (\<lambda>(res, vm).
      if res = VM_LOAD_SUCCESS then vm_load_file ndebug vm file else Ret (res, vm))"
  have load: "?load = Ret (VM_LOAD_SUCCESS, vm2) \<longleftrightarrow>
      (\<exists>vm1. vm_load_os ndebug os (vm_start inp sel) = Ret (VM_LOAD_SUCCESS, vm1) \<and>
        vm_load_file ndebug vm1 file = Ret (VM_LOAD_SUCCESS, vm2))" for vm2
    by (auto split: if_splits)
  have ex: "run_exit res = VM_EXIT_SUCCESS \<longleftrightarrow> res \<in> {VM_SUCCESS, VM_OPCODE_NOP, VM_RES_ADDR_MCR}"
    for res by (cases res) (simp_all add: run_exit_def vm_exit_defs)
  obtain l where l: "?load = l" by simp
  have "vm_main ndebug os argc file inp sel = Some (Ret (VM_EXIT_SUCCESS, vm')) \<longleftrightarrow>
     argc = 2 \<and> (\<exists>vm2 res. ?load = Ret (VM_LOAD_SUCCESS, vm2) \<and>
        vm_run vm2 = Some (res, vm') \<and> run_exit res = VM_EXIT_SUCCESS)"
    unfolding vm_main_def Let_def l
    by (cases l) (auto simp: vm_exit_defs split: vm_load_result.splits)
  also have "\<dots> \<longleftrightarrow> argc = 2 \<and> (\<exists>vm2 res. ?load = Ret (VM_LOAD_SUCCESS, vm2) \<and>
        vm_run vm2 = Some (res, vm') \<and> res \<in> {VM_OPCODE_NOP, VM_RES_ADDR_MCR})"
    unfolding ex using vm_run_sound by blast
  finally show ?thesis unfolding load by blast
qed
end
