(* ===== verification/LC3_ISA.thy ===== *)
theory LC3_ISA
  imports LC3_Prelude
begin

text \<open>
  The instruction set both simulators implement, as a specification: the LC-3 on the
  canonical encodings of its instructions, with every access to an address below the device
  page.  The step is partial: it says nothing of a reserved or malformed word, of RTI, of an
  access to a device, of the word x0000 (one simulator stops there, the other goes on) and of
  TRAP x20 (one simulator reads the character itself, the other runs the service routine).

  The interface \<open>lc3_simulator\<close> is what a program that runs LC-3 code promises.
\<close>

section \<open>Instructions\<close>

datatype instr =
    Addr nat nat nat | Addi nat nat u16 | Andr nat nat nat | Andi nat nat u16
  | Br bool bool bool u16 | Jmp nat | Jsr u16 | Jsrr nat
  | Ld nat u16 | Ldi nat u16 | Ldr nat nat u16 | Lea nat u16 | Notr nat nat
  | St nat u16 | Sti nat u16 | Str nat nat u16 | Trap u16

abbreviation sext :: "nat \<Rightarrow> u16 \<Rightarrow> u16" where "sext \<equiv> signed_take_bit"

definition fld :: "nat \<Rightarrow> u16 \<Rightarrow> nat" where
  "fld k w = unat (drop_bit k w AND 7)"

definition decode :: "u16 \<Rightarrow> instr option" where
  "decode w =
     (let op = drop_bit 12 w; d = fld 9 w; b = fld 6 w in
      if op = 1 then
        (if bit w 5 then Some (Addi d b (sext 4 w))
         else if bit w 4 \<or> bit w 3 then None else Some (Addr d b (fld 0 w)))
      else if op = 5 then
        (if bit w 5 then Some (Andi d b (sext 4 w))
         else if bit w 4 \<or> bit w 3 then None else Some (Andr d b (fld 0 w)))
      else if op = 0 then
        (if w = 0 then None else Some (Br (bit w 11) (bit w 10) (bit w 9) (sext 8 w)))
      else if op = 12 then (if w AND 0x0E3F = 0 then Some (Jmp b) else None)
      else if op = 4 then
        (if bit w 11 then Some (Jsr (sext 10 w))
         else if w AND 0x0E3F = 0 then Some (Jsrr b) else None)
      else if op = 2 then Some (Ld d (sext 8 w))
      else if op = 10 then Some (Ldi d (sext 8 w))
      else if op = 6 then Some (Ldr d b (sext 5 w))
      else if op = 14 then Some (Lea d (sext 8 w))
      else if op = 9 then (if w AND 0x3F = 0x3F then Some (Notr d b) else None)
      else if op = 3 then Some (St d (sext 8 w))
      else if op = 11 then Some (Sti d (sext 8 w))
      else if op = 7 then Some (Str d b (sext 5 w))
      else if op = 15 then
        (if w AND 0x0F00 = 0 \<and> w AND 0xFF \<noteq> 0x20 then Some (Trap (w AND 0xFF)) else None)
      else None)"

section \<open>Machine\<close>

datatype cond = Negative | Zero | Positive

definition sign :: "u16 \<Rightarrow> cond" where
  "sign v = (if v = 0 then Zero else if bit v 15 then Negative else Positive)"

record isa =
  gpr :: "nat \<Rightarrow> u16"
  pc :: u16
  cc :: cond
  imem :: "u16 \<Rightarrow> u16"

definition plain :: "u16 \<Rightarrow> bool" where
  "plain a \<longleftrightarrow> a < 0xFE00"

definition put :: "nat \<Rightarrow> u16 \<Rightarrow> isa \<Rightarrow> isa" where
  "put d v m = m\<lparr>gpr := (gpr m)(d := v), cc := sign v\<rparr>"

definition load :: "u16 \<Rightarrow> isa \<Rightarrow> u16 option" where
  "load a m = (if plain a then Some (imem m a) else None)"

definition store :: "u16 \<Rightarrow> u16 \<Rightarrow> isa \<Rightarrow> isa option" where
  "store a v m = (if plain a then Some (m\<lparr>imem := (imem m)(a := v)\<rparr>) else None)"

definition link :: "isa \<Rightarrow> isa" where
  "link m = m\<lparr>gpr := (gpr m)(7 := pc m)\<rparr>"

fun taken :: "bool \<Rightarrow> bool \<Rightarrow> bool \<Rightarrow> cond \<Rightarrow> bool" where
  "taken n z p Negative = n"
| "taken n z p Zero = z"
| "taken n z p Positive = p"

fun exec :: "instr \<Rightarrow> isa \<Rightarrow> isa option" where
  "exec (Addr d a b) m = Some (put d (gpr m a + gpr m b) m)"
| "exec (Addi d a i) m = Some (put d (gpr m a + i) m)"
| "exec (Andr d a b) m = Some (put d (gpr m a AND gpr m b) m)"
| "exec (Andi d a i) m = Some (put d (gpr m a AND i) m)"
| "exec (Br n z p off) m = Some (if taken n z p (cc m) then m\<lparr>pc := pc m + off\<rparr> else m)"
| "exec (Jmp b) m = Some (m\<lparr>pc := gpr m b\<rparr>)"
| "exec (Jsr off) m = Some ((link m)\<lparr>pc := pc m + off\<rparr>)"
| "exec (Jsrr b) m = Some ((link m)\<lparr>pc := gpr m b\<rparr>)"
| "exec (Ld d off) m = map_option (\<lambda>v. put d v m) (load (pc m + off) m)"
| "exec (Ldi d off) m =
     Option.bind (load (pc m + off) m) (\<lambda>a. map_option (\<lambda>v. put d v m) (load a m))"
| "exec (Ldr d b off) m = map_option (\<lambda>v. put d v m) (load (gpr m b + off) m)"
| "exec (Lea d off) m = Some (put d (pc m + off) m)"
| "exec (Notr d a) m = Some (put d (NOT (gpr m a)) m)"
| "exec (St r off) m = store (pc m + off) (gpr m r) m"
| "exec (Sti r off) m = Option.bind (load (pc m + off) m) (\<lambda>a. store a (gpr m r) m)"
| "exec (Str r b off) m = store (gpr m b + off) (gpr m r) m"
| "exec (Trap v) m = map_option (\<lambda>a. (link m)\<lparr>pc := a\<rparr>) (load v m)"

definition isa_step :: "isa \<Rightarrow> isa option" where
  "isa_step m =
     Option.bind (load (pc m) m) (\<lambda>w. Option.bind (decode w) (\<lambda>i. exec i (m\<lparr>pc := pc m + 1\<rparr>)))"

fun run_steps :: "('s \<Rightarrow> 's option) \<Rightarrow> nat \<Rightarrow> 's \<Rightarrow> 's option" where
  "run_steps step 0 s = Some s"
| "run_steps step (Suc n) s = Option.bind (step s) (run_steps step n)"

section \<open>What a simulator promises\<close>

locale lc3_simulator =
  fixes step :: "'s \<Rightarrow> 's option" and abstract :: "'s \<Rightarrow> isa" and ok :: "'s \<Rightarrow> bool"
  assumes simulates: "ok s \<Longrightarrow> isa_step (abstract s) = Some m \<Longrightarrow>
    \<exists>s'. step s = Some s' \<and> abstract s' = m \<and> ok s'"
begin

lemma simulates_run:
  "ok s \<Longrightarrow> run_steps isa_step n (abstract s) = Some m \<Longrightarrow>
   \<exists>s'. run_steps step n s = Some s' \<and> abstract s' = m \<and> ok s'"
proof (induction n arbitrary: s)
  case (Suc n)
  then obtain m1 where m1: "isa_step (abstract s) = Some m1" "run_steps isa_step n m1 = Some m"
    by (auto simp: bind_eq_Some_conv)
  with simulates [OF Suc.prems(1) m1(1)] Suc.IH show ?case by fastforce
qed simp

end

text \<open>Two simulators from the same machine state stay together.\<close>

locale two_simulators =
  A: lc3_simulator step_a abstract_a ok_a + B: lc3_simulator step_b abstract_b ok_b
  for step_a :: "'s \<Rightarrow> 's option" and abstract_a ok_a
    and step_b :: "'t \<Rightarrow> 't option" and abstract_b ok_b
begin

lemma agree:
  assumes "ok_a s" "ok_b t" "abstract_a s = abstract_b t"
    and "run_steps isa_step n (abstract_a s) \<noteq> None"
  shows "\<exists>s' t'. run_steps step_a n s = Some s' \<and> run_steps step_b n t = Some t' \<and>
    abstract_a s' = abstract_b t'"
proof -
  obtain m where "run_steps isa_step n (abstract_a s) = Some m" using assms(4) by blast
  with A.simulates_run [of s n m] B.simulates_run [of t n m] assms(1-3) show ?thesis by metis
qed

end

lemma fld_less [simp]: "fld k w < 8"
  by (simp add: fld_def word_field)

lemma load_Some: "load a m = Some v \<longleftrightarrow> plain a \<and> v = imem m a"
  by (auto simp: load_def)

lemma store_Some: "store a v m = Some m' \<longleftrightarrow> plain a \<and> m' = m\<lparr>imem := (imem m)(a := v)\<rparr>"
  by (auto simp: store_def)

section \<open>Inversion of decode\<close>

lemma decode_inv:
  "decode w = Some (Addr d b c) \<Longrightarrow> drop_bit 12 w = 1 \<and> \<not> bit w 5 \<and> \<not> bit w 4 \<and> \<not> bit w 3 \<and>
     d = fld 9 w \<and> b = fld 6 w \<and> c = fld 0 w"
  "decode w = Some (Addi d b off) \<Longrightarrow> drop_bit 12 w = 1 \<and> bit w 5 \<and>
     d = fld 9 w \<and> b = fld 6 w \<and> off = sext 4 w"
  "decode w = Some (Andr d b c) \<Longrightarrow> drop_bit 12 w = 5 \<and> \<not> bit w 5 \<and> \<not> bit w 4 \<and> \<not> bit w 3 \<and>
     d = fld 9 w \<and> b = fld 6 w \<and> c = fld 0 w"
  "decode w = Some (Andi d b off) \<Longrightarrow> drop_bit 12 w = 5 \<and> bit w 5 \<and>
     d = fld 9 w \<and> b = fld 6 w \<and> off = sext 4 w"
  "decode w = Some (Br n z p off) \<Longrightarrow> drop_bit 12 w = 0 \<and> w \<noteq> 0 \<and>
     n = bit w 11 \<and> z = bit w 10 \<and> p = bit w 9 \<and> off = sext 8 w"
  "decode w = Some (Jmp b) \<Longrightarrow> drop_bit 12 w = 12 \<and> w AND 0x0E3F = 0 \<and>
     b = fld 6 w"
  "decode w = Some (Jsr off) \<Longrightarrow> drop_bit 12 w = 4 \<and> bit w 11 \<and>
     off = sext 10 w"
  "decode w = Some (Jsrr b) \<Longrightarrow> drop_bit 12 w = 4 \<and> \<not> bit w 11 \<and> w AND 0x0E3F = 0 \<and>
     b = fld 6 w"
  "decode w = Some (Ld d off) \<Longrightarrow> drop_bit 12 w = 2 \<and>
     d = fld 9 w \<and> off = sext 8 w"
  "decode w = Some (Ldi d off) \<Longrightarrow> drop_bit 12 w = 10 \<and>
     d = fld 9 w \<and> off = sext 8 w"
  "decode w = Some (Ldr d b off) \<Longrightarrow> drop_bit 12 w = 6 \<and>
     d = fld 9 w \<and> b = fld 6 w \<and> off = sext 5 w"
  "decode w = Some (Lea d off) \<Longrightarrow> drop_bit 12 w = 14 \<and>
     d = fld 9 w \<and> off = sext 8 w"
  "decode w = Some (Notr d b) \<Longrightarrow> drop_bit 12 w = 9 \<and> w AND 0x3F = 0x3F \<and>
     d = fld 9 w \<and> b = fld 6 w"
  "decode w = Some (St d off) \<Longrightarrow> drop_bit 12 w = 3 \<and>
     d = fld 9 w \<and> off = sext 8 w"
  "decode w = Some (Sti d off) \<Longrightarrow> drop_bit 12 w = 11 \<and>
     d = fld 9 w \<and> off = sext 8 w"
  "decode w = Some (Str d b off) \<Longrightarrow> drop_bit 12 w = 7 \<and>
     d = fld 9 w \<and> b = fld 6 w \<and> off = sext 5 w"
  "decode w = Some (Trap v) \<Longrightarrow> drop_bit 12 w = 15 \<and> w AND 0x0F00 = 0 \<and> w AND 0xFF \<noteq> 0x20 \<and>
     v = w AND 0xFF"
  unfolding decode_def Let_def by (simp split: if_splits)+

section \<open>Words bit by bit\<close>

lemma all_less_16: "(\<forall>n<16. P n) \<longleftrightarrow>
    P 0 \<and> P 1 \<and> P 2 \<and> P 3 \<and> P 4 \<and> P 5 \<and> P 6 \<and> P 7 \<and> P 8 \<and> P 9 \<and> P 10 \<and> P 11 \<and> P 12 \<and> P 13 \<and>
    P 14 \<and> P (15::nat)"
  by (simp add: numeral_eq_Suc All_less_Suc conj_ac)

lemma word16_eq_iff: "(x :: u16) = y \<longleftrightarrow> (\<forall>n<16. bit x n = bit y n)"
  by (auto intro: bit_word_eqI)

lemma bit_beyond_16: "16 \<le> n \<Longrightarrow> \<not> bit (w :: u16) n"
  using bit_imp_le_length [of w n] by auto

lemmas bits16 = word16_eq_iff all_less_16 bit_drop_bit_eq bit_and_iff bit_beyond_16

section \<open>An example\<close>

text \<open>One step of ADD R0, R0, #5 at x3000.\<close>

lemma isa_step_add_5:
  assumes "pc m = 0x3000" "imem m 0x3000 = 0x1025"
  shows "isa_step m = Some (put 0 (gpr m 0 + 5) (m\<lparr>pc := 0x3001\<rparr>))"
  using assms by (simp add: isa_step_def load_def plain_def decode_def fld_def)

end
