(* ===== verification/VM_ISA.thy ===== *)
theory VM_ISA
  imports VM_Correct LC3_ISA
begin

text \<open>
  The lc3sim-c machine implements the instruction set: a round of vm_run from a machine whose
  clock is enabled takes the step of the specification wherever that is defined.
\<close>

definition vm_cc :: "u16 \<Rightarrow> cond" where
  "vm_cc psr = (if bit psr 2 then Negative else if bit psr 1 then Zero else Positive)"

definition vm_abstract :: "vm_process \<Rightarrow> isa" where
  "vm_abstract vm =
     \<lparr>gpr = (\<lambda>i. if i < 8 then reg vm i else 0), pc = reg vm VM_REG_PC,
      cc = vm_cc (reg vm VM_REG_PSR), imem = (\<lambda>a. if plain a then mem vm a else 0)\<rparr>"

definition vm_enabled :: "vm_process \<Rightarrow> bool" where
  "vm_enabled vm \<longleftrightarrow> mem vm VM_ADDR_MCR AND VM_STATUS_BIT \<noteq> 0 \<and> vm_psr_ok vm"

definition vm_step :: "vm_process \<Rightarrow> vm_process option" where
  "vm_step vm = (case vm_round vm of (res, vm') \<Rightarrow> if res = VM_SUCCESS then Some vm' else None)"

section \<open>Plain addresses\<close>

lemma plain_not_special:
  assumes "plain a"
  shows "a \<noteq> VM_ADDR_KBSR" "a \<noteq> VM_ADDR_KBDR" "a \<noteq> VM_ADDR_DSR" "a \<noteq> VM_ADDR_DDR" "a \<noteq> VM_ADDR_MCR" "VM_ADDR_MCR \<noteq> a"
    "\<not> VM_ADDR_MAX \<le> a"
  using assms by (auto simp: plain_def vm_addr_special_defs VM_ADDR_MAX_def word_le_nat_alt word_less_nat_alt)

lemma vm_read_plain: "plain a \<Longrightarrow> vm_read vm a = (Inr (mem vm a), vm)"
  by (simp add: vm_read_def vm_mem_read_def plain_not_special)

lemma vm_write_plain: "plain a \<Longrightarrow> vm_write vm a v = (VM_SUCCESS, vm\<lparr>mem := (mem vm)(a := v)\<rparr>)"
  by (simp add: vm_write_def plain_not_special)

lemma bits_fld: "bits_9 w = fld 9 w" "bits_6 w = fld 6 w" "bits_0 w = fld 0 w"
  by (simp_all add: bits_9_def bits_6_def bits_0_def fld_def)

lemma sextend_sext: "sextend w 5 = sext 4 w" "sextend w 6 = sext 5 w" "sextend w 9 = sext 8 w" "sextend w 11 = sext 10 w"
  using sextend_eq [of w 4] sextend_eq [of w 5] sextend_eq [of w 8] sextend_eq [of w 10] by simp_all

lemma and_bit_5: "(w :: u16) AND 32 = 0 \<longleftrightarrow> \<not> bit w 5"
  and and_bit_11: "w AND 2048 = 0 \<longleftrightarrow> \<not> bit w 11"
  and and_bit_15: "w AND VM_SIGN_BIT = 0 \<longleftrightarrow> \<not> bit w 15"
  using and_exp_eq_0_iff_not_bit [of w 5] and_exp_eq_0_iff_not_bit [of w 11] and_exp_eq_0_iff_not_bit [of w 15]
  by (simp_all add: VM_SIGN_BIT_def push_bit_eq_mult)

lemma vm_cc_sign [simp]: "vm_cc (vm_sign_flag v) = sign v"
  unfolding vm_sign_flag_def and_bit_15
  by (simp add: vm_cc_def sign_def vm_const_defs)

lemma vm_cc_taken:
  assumes "psr \<in> {VM_FLAG_NEGATIVE, VM_FLAG_ZERO, VM_FLAG_POSITIVE}"
  shows "(psr AND 7) AND (drop_bit 9 w AND 7) \<noteq> 0 \<longleftrightarrow> taken (bit w 11) (bit w 10) (bit w 9) (vm_cc psr)"
  using assms by (auto simp: vm_const_defs vm_cc_def bits16)

section \<open>Updates\<close>

lemma vm_abstract_sel [simp]:
  "i < 8 \<Longrightarrow> gpr (vm_abstract vm) i = reg vm i"
  "pc (vm_abstract vm) = reg vm VM_REG_PC" "cc (vm_abstract vm) = vm_cc (reg vm VM_REG_PSR)"
  "plain a \<Longrightarrow> imem (vm_abstract vm) a = mem vm a"
  by (simp_all add: vm_abstract_def)

lemma reg_index_distinct [simp]:
  "i < 8 \<Longrightarrow> i \<noteq> VM_REG_PC" "i < 8 \<Longrightarrow> i \<noteq> VM_REG_PSR" "i < 8 \<Longrightarrow> VM_REG_PC \<noteq> i" "i < 8 \<Longrightarrow> VM_REG_PSR \<noteq> i"
  by (simp_all add: vm_const_defs)

lemma not_special_less_8 [simp]: "\<not> VM_REG_PC < 8" "\<not> VM_REG_PSR < 8"
  by (simp_all add: vm_const_defs)

lemma abstract_put: "d < 8 \<Longrightarrow> vm_abstract (vm_setcc (set_reg d v vm) d) = put d v (vm_abstract vm)"
  by (auto simp: vm_abstract_def put_def vm_setcc_def set_reg_def fun_eq_iff)

lemma abstract_pc: "vm_abstract (set_reg VM_REG_PC v vm) = (vm_abstract vm)\<lparr>pc := v\<rparr>"
  by (auto simp: vm_abstract_def set_reg_def fun_eq_iff)

lemma abstract_link: "vm_abstract (set_reg 7 (reg vm VM_REG_PC) vm) = link (vm_abstract vm)"
  by (auto simp: vm_abstract_def set_reg_def link_def fun_eq_iff)

lemma abstract_store:
  "plain a \<Longrightarrow> vm_abstract (vm\<lparr>mem := (mem vm)(a := v)\<rparr>) = (vm_abstract vm)\<lparr>imem := (imem (vm_abstract vm))(a := v)\<rparr>"
  by (auto simp: vm_abstract_def fun_eq_iff)

lemmas vm_abstract_updates = abstract_put abstract_pc abstract_link abstract_store

lemma load_reg_plain: "plain a \<Longrightarrow> load_reg vm a d = (VM_SUCCESS, vm_setcc (set_reg d (mem vm a) vm) d)"
  by (simp add: load_reg_def vm_read_plain)

lemma vm_mem_set [simp]: "mem (set_reg i v vm) = mem vm" "mem (vm_setcc vm i) = mem vm"
  by (simp_all add: set_reg_def vm_setcc_def)

lemmas vm_step_simps = vm_abstract_updates load_Some store_Some load_reg_plain vm_read_plain vm_write_plain
  bits_fld sextend_sext and_bit_5 and_bit_11 plain_not_special bind_eq_Some_conv Let_def

lemma vm_perform_BR:
  assumes "vm_psr_ok vm" "decode w = Some (Br n z p off)" "exec (Br n z p off) (vm_abstract vm) = Some m"
  shows "\<exists>vm'. vm_perform vm w = (VM_SUCCESS, vm') \<and> vm_abstract vm' = m \<and>
    mem vm' VM_ADDR_MCR = mem vm VM_ADDR_MCR"
  using assms(3) decode_inv(5) [OF assms(2)] vm_cc_taken [OF assms(1) [unfolded vm_psr_ok_def], of w]
  by (auto simp: vm_perform_def vm_opcode_of_def perform_BR_def vm_step_simps)

text \<open>An instruction with a defined meaning is performed as specified.\<close>

lemma vm_perform_simulates:
  "vm_psr_ok vm \<Longrightarrow> decode w = Some i \<Longrightarrow> exec i (vm_abstract vm) = Some m \<Longrightarrow>
   \<exists>vm'. vm_perform vm w = (VM_SUCCESS, vm') \<and> vm_abstract vm' = m \<and>
     mem vm' VM_ADDR_MCR = mem vm VM_ADDR_MCR"
  by (cases i; hypsubst)
     (erule (2) vm_perform_BR |
      (drule decode_inv, clarsimp simp: vm_perform_def vm_opcode_of_def perform_defs vm_step_simps))+

section \<open>Simulation\<close>

lemma vm_step_simulates:
  assumes ok: "vm_enabled vm" and step: "isa_step (vm_abstract vm) = Some m"
  shows "\<exists>vm'. vm_step vm = Some vm' \<and> vm_abstract vm' = m \<and> vm_enabled vm'"
proof -
  let ?pc = "reg vm VM_REG_PC" and ?vm = "set_reg VM_REG_PC (reg vm VM_REG_PC + 1) vm"
  from step obtain i where pc: "plain ?pc" and dec: "decode (mem vm ?pc) = Some i"
    and ex: "exec i (vm_abstract ?vm) = Some m"
    by (auto simp: isa_step_def bind_eq_Some_conv load_Some abstract_pc)
  have psr: "vm_psr_ok ?vm" using ok by (simp add: vm_enabled_def)
  from vm_perform_simulates [OF psr dec ex] obtain vm' where
    vm': "vm_perform ?vm (mem vm ?pc) = (VM_SUCCESS, vm')" "vm_abstract vm' = m"
      "mem vm' VM_ADDR_MCR = mem vm VM_ADDR_MCR"
    by auto
  have mcr: "vm_read vm VM_ADDR_MCR = (Inr (mem vm VM_ADDR_MCR), vm)"
    by (simp add: vm_read_def vm_mem_read_def vm_addr_special_defs vm_const_defs)
  have "vm_round vm = (VM_SUCCESS, vm')"
    using ok vm'(1) by (simp add: vm_round_def mcr vm_read_plain [OF pc] vm_enabled_def)
  moreover have "vm_psr_ok vm'" using vm_perform_psr [OF vm'(1) psr] .
  ultimately show ?thesis
    using ok vm' by (simp add: vm_step_def vm_enabled_def)
qed

interpretation vm_sim: lc3_simulator vm_step vm_abstract vm_enabled
  by unfold_locales (rule vm_step_simulates)

text \<open>
  Claim C2: the machine of vm.c implements the LC-3: whenever the specification can take n steps
  from the state of an enabled machine, n rounds of vm_run succeed and end in that state.
\<close>

theorem vm_implements_isa:
  assumes "vm_enabled vm" "run_steps isa_step n (vm_abstract vm) = Some m"
  shows "\<exists>vm'. run_steps vm_step n vm = Some vm' \<and> vm_abstract vm' = m \<and> vm_enabled vm'"
  using assms by (rule vm_sim.simulates_run)

theorem vm_implements_isa_witness:
  "\<exists>vm'. run_steps vm_step 1 ((vm_start [] (\<lambda>_. 0))\<lparr>mem := (mem vm_create)(0x3000 := 0x1025)\<rparr>) = Some vm' \<and>
     gpr (vm_abstract vm') 0 = 5"
proof -
  let ?vm = "(vm_start [] (\<lambda>_. 0))\<lparr>mem := (mem vm_create)(0x3000 := 0x1025)\<rparr>"
  have ok: "vm_enabled ?vm"
    by (simp add: vm_enabled_def vm_psr_ok_def vm_start_def vm_create_def vm_const_defs vm_addr_special_defs)
  have run: "run_steps isa_step 1 (vm_abstract ?vm) = Some (put 0 5 ((vm_abstract ?vm)\<lparr>pc := 0x3001\<rparr>))"
    using isa_step_add_5 [of "vm_abstract ?vm"]
    by (simp add: vm_abstract_def vm_start_def vm_create_def vm_const_defs plain_def)
  from vm_implements_isa [OF ok run] show ?thesis by (auto simp: put_def simp del: vm_abstract_sel)
qed

end
