(* ===== verification/C_Strings.thy ===== *)
theory C_Strings
  imports LC3_Prelude
begin

text \<open>
  The part of the C library on characters and strings that the lc3tools sources call: the ctype
  classes of the C locale, case-insensitive comparison, the sscanf conversions %s, %d and %x
  (a value that the type of the conversion cannot hold is undefined) and the printf conversions used for numbers and padded strings.  A string has no NUL character in it.
\<close>

section \<open>Characters\<close>

abbreviation code_of :: "char \<Rightarrow> nat" where "code_of \<equiv> of_char"

definition tolower :: "char \<Rightarrow> char" where
  "tolower c = (if 65 \<le> code_of c \<and> code_of c \<le> 90 then char_of (code_of c + 32) else c)"

text \<open>
  The argument of the C functions is an int with the value of an unsigned char: a plain char, which is
  signed, is only allowed when it is below 128.
\<close>

definition tolower_plain :: "char \<Rightarrow> char outcome" where
  "tolower_plain c = (if code_of c < 128 then Ret (tolower c) else Undef)"

definition isspace :: "char \<Rightarrow> bool" where
  "isspace c \<longleftrightarrow> 9 \<le> code_of c \<and> code_of c \<le> 13 \<or> code_of c = 32"

text \<open>The loop that skips white space with isspace on a plain char.\<close>

definition skip_spaces :: "string \<Rightarrow> string outcome" where
  "skip_spaces s =
     (let t = dropWhile isspace s in if t \<noteq> [] \<and> 128 \<le> code_of (hd t) then Undef else Ret t)"

definition isprint_code :: "int \<Rightarrow> bool" where
  "isprint_code n \<longleftrightarrow> 32 \<le> n \<and> n \<le> 126"

definition digit_val :: "char \<Rightarrow> nat option" where
  "digit_val c =
     (let n = code_of c
      in if 48 \<le> n \<and> n \<le> 57 then Some (n - 48)
         else if 97 \<le> n \<and> n \<le> 102 then Some (n - 87)
         else if 65 \<le> n \<and> n \<le> 70 then Some (n - 55)
         else None)"

section \<open>Comparison\<close>

abbreviation lower :: "string \<Rightarrow> string" where "lower \<equiv> map tolower"

definition strcasecmp_eq :: "string \<Rightarrow> string \<Rightarrow> bool" where
  "strcasecmp_eq s t \<longleftrightarrow> lower s = lower t"

definition strncasecmp_eq :: "string \<Rightarrow> string \<Rightarrow> nat \<Rightarrow> bool" where
  "strncasecmp_eq s t n \<longleftrightarrow> lower (take n s) = lower (take n t)"

section \<open>Scanning\<close>

text \<open>\<open>%<width>s\<close>: skip white space, then take at most \<open>width\<close> other characters, at least one.\<close>

definition scan_s :: "nat \<Rightarrow> string \<Rightarrow> (string \<times> string) option" where
  "scan_s width s =
     (let s = dropWhile isspace s; w = take width (takeWhile (\<lambda>c. \<not> isspace c) s)
      in if w = [] then None else Some (w, drop (length w) s))"

fun scan_digits :: "nat \<Rightarrow> nat \<Rightarrow> string \<Rightarrow> nat \<times> string" where
  "scan_digits base acc [] = (acc, [])"
| "scan_digits base acc (c # cs) =
     (case digit_val c of
        Some d \<Rightarrow> if d < base then scan_digits base (base * acc + d) cs else (acc, c # cs)
      | None \<Rightarrow> (acc, c # cs))"

definition is_digit_in :: "nat \<Rightarrow> string \<Rightarrow> bool" where
  "is_digit_in base s = (case s of [] \<Rightarrow> False | c # _ \<Rightarrow> (case digit_val c of None \<Rightarrow> False | Some d \<Rightarrow> d < base))"

text \<open>The low 32 bits of a value, read as an int.\<close>

definition to_int32 :: "int \<Rightarrow> int" where
  "to_int32 v = signed_take_bit 31 v"

definition scan_sign :: "string \<Rightarrow> bool \<times> string" where
  "scan_sign s =
     (case s of
        [] \<Rightarrow> (False, s)
      | c # cs \<Rightarrow> if c = CHR ''-'' then (True, cs) else if c = CHR ''+'' then (False, cs) else (False, s))"

text \<open>\<open>%d\<close>: the value must fit an int.  \<open>Ret None\<close>: there is no number to convert.\<close>

definition scan_d :: "string \<Rightarrow> (int \<times> string) option outcome" where
  "scan_d s =
     (case scan_sign (dropWhile isspace s) of (neg, s) \<Rightarrow>
        if is_digit_in 10 s then
          (case scan_digits 10 0 s of (n, rest) \<Rightarrow>
             let v = (if neg then - int n else int n)
             in if - (2 ^ 31) \<le> v \<and> v < 2 ^ 31 then Ret (Some (v, rest)) else Undef)
        else Ret None)"

text \<open>The optional prefix of a hexadecimal number, for strtol only when a digit follows it.\<close>

definition skip_0x :: "string \<Rightarrow> string" where
  "skip_0x s =
     (case s of
        z # x # rest \<Rightarrow> if z = CHR ''0'' \<and> tolower x = CHR ''x'' \<and> is_digit_in 16 rest then rest else s
      | _ \<Rightarrow> s)"

definition drop_0x :: "string \<Rightarrow> string" where
  "drop_0x s =
     (case s of
        z # x # rest \<Rightarrow> if z = CHR ''0'' \<and> tolower x = CHR ''x'' then rest else s
      | _ \<Rightarrow> s)"

text \<open>\<open>%x\<close> into an int: the value must fit an unsigned int, whose bits the int then has.\<close>

definition scan_x :: "string \<Rightarrow> (int \<times> string) option outcome" where
  "scan_x s =
     (case scan_sign (dropWhile isspace s) of (neg, s) \<Rightarrow>
        let s = drop_0x s
        in if is_digit_in 16 s then
             (case scan_digits 16 0 s of (n, rest) \<Rightarrow>
                if n < 2 ^ 32 then Ret (Some (to_int32 (if neg then - int n else int n), rest)) else Undef)
           else Ret None)"

section \<open>Printing\<close>

definition hex_digit :: "nat \<Rightarrow> char" where
  "hex_digit d = (if d < 10 then char_of (48 + d) else char_of (55 + d))"

definition lower_hex_digit :: "nat \<Rightarrow> char" where
  "lower_hex_digit d = (if d < 10 then char_of (48 + d) else char_of (87 + d))"

fun radix_digits :: "nat \<Rightarrow> nat \<Rightarrow> nat list" where
  "radix_digits base n =
     (if base < 2 \<or> n < base then [n] else radix_digits base (n div base) @ [n mod base])"

declare radix_digits.simps [simp del]

definition pad_left :: "char \<Rightarrow> nat \<Rightarrow> string \<Rightarrow> string" where
  "pad_left c width s = replicate (width - length s) c @ s"

definition pad_right :: "nat \<Rightarrow> string \<Rightarrow> string" where
  "pad_right width s = s @ replicate (width - length s) (CHR '' '')"

text \<open>\<open>%0<width>X\<close> of an int: its 32-bit pattern.\<close>

definition fmt_X :: "nat \<Rightarrow> int \<Rightarrow> string" where
  "fmt_X width v = pad_left (CHR ''0'') width (map hex_digit (radix_digits 16 (nat (v mod 2 ^ 32))))"

definition fmt_x :: "nat \<Rightarrow> int \<Rightarrow> string" where
  "fmt_x width v =
     pad_left (CHR ''0'') width (map lower_hex_digit (radix_digits 16 (nat (v mod 2 ^ 32))))"

definition fmt_d :: "int \<Rightarrow> string" where
  "fmt_d v = (if v < 0 then ''-'' else '''') @ map hex_digit (radix_digits 10 (nat \<bar>v\<bar>))"

section \<open>Facts\<close>

lemma strcasecmp_eq_refl [simp]: "strcasecmp_eq s s"
  by (simp add: strcasecmp_eq_def)

lemma tolower_idem [simp]: "tolower (tolower c) = tolower c"
proof (cases "65 \<le> code_of c \<and> code_of c \<le> 90")
  case True
  then have "code_of (char_of (code_of c + 32) :: char) = code_of c + 32"
    by simp
  with True show ?thesis by (simp add: tolower_def)
next
  case False
  then show ?thesis by (auto simp: tolower_def)
qed

lemma length_pad_left: "length (pad_left c w s) = max w (length s)"
  by (simp add: pad_left_def)

lemma scan_s_length: "scan_s n s = Some (w, rest) \<Longrightarrow> 0 < length w \<and> length w \<le> n"
  by (auto simp: scan_s_def Let_def split: if_splits)

lemma scan_s_no_space: "scan_s n s = Some (w, rest) \<Longrightarrow> c \<in> set w \<Longrightarrow> \<not> isspace c"
  by (auto simp: scan_s_def Let_def split: if_splits dest!: in_set_takeD set_takeWhileD)

lemma skip_spaces_Cons: "\<not> isspace c \<Longrightarrow> code_of c < 128 \<Longrightarrow> skip_spaces (c # s) = Ret (c # s)"
  "isspace c \<Longrightarrow> skip_spaces (c # s) = skip_spaces s"
  by (simp_all add: skip_spaces_def)

section \<open>Text with short numbers\<close>

text \<open>At most seven hexadecimal digits in a row, k of them before the string.\<close>

fun short_numbers :: "nat \<Rightarrow> string \<Rightarrow> bool" where
  "short_numbers k [] = True"
| "short_numbers k (c # cs) = (if digit_val c = None then short_numbers 0 cs else k < 7 \<and> short_numbers (Suc k) cs)"

lemma short_numbers_mono: "short_numbers k s \<Longrightarrow> j \<le> k \<Longrightarrow> short_numbers j s"
  by (induction s arbitrary: j k) (auto split: if_splits)

lemma short_numbers_tl: "short_numbers k s \<Longrightarrow> short_numbers 0 (tl s)"
  by (cases s) (auto intro: short_numbers_mono split: if_splits)

lemma short_numbers_drop: "short_numbers 0 s \<Longrightarrow> short_numbers 0 (drop n s)"
  by (induction n arbitrary: s) (simp_all add: drop_Suc short_numbers_tl)

lemma short_numbers_suffix: "short_numbers 0 (p @ s) \<Longrightarrow> short_numbers 0 s"
  using short_numbers_drop [of "p @ s" "length p"] by simp

lemma short_numbers_prefix: "short_numbers k (s @ p) \<Longrightarrow> short_numbers k s"
  by (induction s arbitrary: k) (auto split: if_splits)

lemma short_number_value:
  assumes "short_numbers k s" "k \<le> 7" "acc < 16 ^ k" "b \<le> 16"
  shows "fst (scan_digits b acc s) < 16 ^ 7"
  using assms
proof (induction s arbitrary: k acc)
  case Nil
  then show ?case using power_increasing [of k 7 "16 :: nat"] by (simp add: less_le_trans)
next
  case (Cons c s)
  have stop: "acc < 16 ^ 7" using Cons.prems(2,3) power_increasing [of k 7 "16 :: nat"] by (simp add: less_le_trans)
  show ?case
  proof (cases "digit_val c")
    case (Some d)
    show ?thesis
    proof (cases "d < b")
      case True
      have "b * acc + d < b * Suc acc" using True by simp
      also have "\<dots> \<le> 16 * 16 ^ k" using Cons.prems(3,4) by (intro mult_le_mono) auto
      finally have "b * acc + d < 16 ^ Suc k" by simp
      with Cons.IH [of "Suc k" "b * acc + d"] Cons.prems Some True show ?thesis by simp
    qed (use Some stop in simp)
  qed (use stop in simp)
qed

lemma scan_sign_suffix: "scan_sign s = (neg, t) \<Longrightarrow> \<exists>p. s = p @ t"
  by (auto simp: scan_sign_def split: list.splits if_splits)

lemma drop_0x_suffix: "\<exists>p. s = p @ drop_0x s"
  by (cases s rule: list.exhaust [case_product list.exhaust [of "tl s"]]) (auto simp: drop_0x_def split: list.splits)

lemma scan_short_defined:
  assumes "short_numbers 0 s" shows "scan_d s \<noteq> Undef" "scan_x s \<noteq> Undef"
proof -
  obtain neg t where t: "scan_sign (dropWhile isspace s) = (neg, t)" by (cases "scan_sign (dropWhile isspace s)")
  from scan_sign_suffix [OF this] obtain p where "dropWhile isspace s = p @ t" by blast
  with assms have st: "short_numbers 0 t"
    using short_numbers_suffix [of "takeWhile isspace s" "p @ t"] short_numbers_suffix [of p t] takeWhile_dropWhile_id [of isspace s]
    by metis
  moreover have "short_numbers 0 (drop_0x t)" using drop_0x_suffix [of t] st short_numbers_suffix by metis
  ultimately have "fst (scan_digits 10 0 t) < 16 ^ 7" "fst (scan_digits 16 0 (drop_0x t)) < 16 ^ 7"
    using short_number_value [of 0 _ 0] by simp_all
  then show "scan_d s \<noteq> Undef" "scan_x s \<noteq> Undef"
    by (auto simp: scan_d_def scan_x_def t Let_def split: prod.split)
qed

text \<open>ASCII text with short numbers, and the words in it.\<close>

definition plain_text :: "string \<Rightarrow> bool" where
  "plain_text s \<longleftrightarrow> (\<forall>c \<in> set s. code_of c < 128) \<and> short_numbers 0 s"

lemma plain_text_part: "plain_text (p @ s @ t) \<Longrightarrow> plain_text s"
  using short_numbers_suffix [of p "s @ t"] short_numbers_prefix [of 0 s t] by (auto simp: plain_text_def)

lemma scan_s_parts: "scan_s n s = Some (w, rest) \<Longrightarrow> \<exists>p. s = p @ w @ rest"
proof -
  assume s: "scan_s n s = Some (w, rest)"
  let ?t = "dropWhile isspace s"
  have w: "w = take n (takeWhile (\<lambda>c. \<not> isspace c) ?t)" "rest = drop (length w) ?t"
    using s by (auto simp: scan_s_def Let_def split: if_splits)
  have "?t = w @ rest"
    using takeWhile_eq_take [of "\<lambda>c. \<not> isspace c" ?t] append_take_drop_id [of "length w" ?t] w
    by (metis append_eq_conv_conj append_take_drop_id takeWhile_dropWhile_id append_assoc)
  then show ?thesis using takeWhile_dropWhile_id [of isspace s] by metis
qed

section \<open>Printed numbers are read back\<close>

lemma code_hex_digit: "d < 16 \<Longrightarrow> code_of (hex_digit d) = (if d < 10 then 48 + d else 55 + d)"
  by (simp add: hex_digit_def)

lemma hex_digit_facts:
  assumes "d < 16"
  shows "digit_val (hex_digit d) = Some d" "\<not> isspace (hex_digit d)" "hex_digit d \<noteq> CHR ''-''"
    "hex_digit d \<noteq> CHR ''+''" "tolower (hex_digit d) \<noteq> CHR ''x''"
proof -
  note c = code_hex_digit [OF assms]
  show "digit_val (hex_digit d) = Some d" "\<not> isspace (hex_digit d)"
    using assms by (auto simp: digit_val_def isspace_def c)
  have "code_of (hex_digit d) \<noteq> 45" "code_of (hex_digit d) \<noteq> 43" using assms by (auto simp: c)
  then show "hex_digit d \<noteq> CHR ''-''" "hex_digit d \<noteq> CHR ''+''" by auto
  have "code_of (tolower (hex_digit d)) \<noteq> 120" using assms by (auto simp: tolower_def c)
  then show "tolower (hex_digit d) \<noteq> CHR ''x''" by auto
qed

abbreviation digits_value :: "nat \<Rightarrow> nat \<Rightarrow> nat list \<Rightarrow> nat" where
  "digits_value b \<equiv> foldl (\<lambda>acc d. b * acc + d)"

lemma scan_digits_map:
  "\<forall>d \<in> set ds. d < b \<Longrightarrow> b \<le> 16 \<Longrightarrow> \<not> is_digit_in b rest \<Longrightarrow>
   scan_digits b acc (map hex_digit ds @ rest) = (digits_value b acc ds, rest)"
proof (induction ds arbitrary: acc)
  case Nil
  then show ?case by (cases rest) (auto simp: is_digit_in_def split: option.splits)
qed (simp add: hex_digit_facts)

lemma radix_digits_less: "2 \<le> b \<Longrightarrow> d \<in> set (radix_digits b n) \<Longrightarrow> d < b"
proof (induction b n arbitrary: d rule: radix_digits.induct)
  case (1 b n)
  have "radix_digits b n = (if b < 2 \<or> n < b then [n] else radix_digits b (n div b) @ [n mod b])"
    by (rule radix_digits.simps)
  with 1 show ?case by (auto split: if_splits)
qed

lemma digits_value_radix: "2 \<le> b \<Longrightarrow> digits_value b 0 (radix_digits b n) = n"
proof (induction b n rule: radix_digits.induct)
  case (1 b n)
  then show ?case by (subst radix_digits.simps) auto
qed

lemma digits_value_zeros: "digits_value b 0 (replicate k 0 @ ds) = digits_value b 0 ds"
  by (induction k) simp_all

lemma radix_digits_nonempty [simp]: "radix_digits b n \<noteq> []"
  by (subst radix_digits.simps) simp

lemma to_int32_id: "- (2 ^ 31) \<le> v \<Longrightarrow> v < 2 ^ 31 \<Longrightarrow> to_int32 v = v"
  by (simp add: to_int32_def signed_take_bit_int_eq_self)

lemma decimal_digits: "d \<in> set (radix_digits 10 n) \<Longrightarrow> d < 10"
  by (rule radix_digits_less) simp_all

lemma scan_decimal:
  assumes "\<not> is_digit_in 10 rest"
  shows "scan_digits 10 0 (map hex_digit (radix_digits 10 n) @ rest) = (n, rest)"
  using scan_digits_map [of "radix_digits 10 n" 10 rest 0] assms decimal_digits digits_value_radix [of 10 n] by auto

lemma decimal_head:
  obtains d cs where "map hex_digit (radix_digits 10 n) = hex_digit d # cs" "d < 10"
proof (cases "radix_digits 10 n")
  case (Cons d ds)
  then show thesis using that [of d "map hex_digit ds"] decimal_digits [of d n] by simp
qed simp

section \<open>Lines of a text file\<close>

text \<open>fgets with a buffer of n + 1 characters: at most n characters, up to a newline.\<close>

fun take_line :: "nat \<Rightarrow> string \<Rightarrow> string \<times> string" where
  "take_line 0 s = ([], s)"
| "take_line (Suc n) [] = ([], [])"
| "take_line (Suc n) (c # cs) =
     (if c = CHR 0x0A then ([c], cs) else (case take_line n cs of (l, rest) \<Rightarrow> (c # l, rest)))"

lemma take_line_append: "take_line n s = (l, rest) \<Longrightarrow> s = l @ rest"
  by (induction n s arbitrary: l rest rule: take_line.induct) (auto split: if_splits prod.splits)

lemma take_line_nonempty: "take_line (Suc n) (c # cs) = (l, rest) \<Longrightarrow> l \<noteq> []"
  by (auto split: if_splits prod.splits)

function text_lines :: "nat \<Rightarrow> string \<Rightarrow> string list" where
  "text_lines n s =
     (if s = [] \<or> n = 0 then [] else (case take_line n s of (l, rest) \<Rightarrow> l # text_lines n rest))"
  by pat_completeness auto
termination
proof (relation "measure (\<lambda>(n, s). length s)", goal_cases)
  case (2 n s l rest)
  then obtain m c cs where "n = Suc m" "s = c # cs" "take_line (Suc m) (c # cs) = (l, rest)"
    by (cases n; cases s) auto
  then show ?case
    using take_line_append [of n s l rest] take_line_nonempty [of m c cs l rest] by auto
qed simp

declare text_lines.simps [simp del]

end
