(* ===== verification/Sim_Symbols.thy ===== *)
theory Sim_Symbols
  imports C_Strings
begin

text \<open>
  The symbol table of the LC-3 assembler and simulator (lc3tools/symbol.c, symbol.h) as the
  simulator builds it, with the chains by location.  A symbol is a heap node with an address of
  its own, shared by its hash chain and its location chain; a chain through a next field is the
  list of its nodes.
\<close>

section \<open>State\<close>

record symbol_t =
  name :: string
  addr :: int

record symtab =
  nodes :: "nat \<Rightarrow> symbol_t"
  fresh :: nat
  lc3_sym_hash :: "nat \<Rightarrow> nat list"
  lc3_sym_names :: "int \<Rightarrow> nat list"

definition SYMBOL_HASH :: int where "SYMBOL_HASH = 997"

text \<open>The tables after bzero: no symbol.\<close>

definition empty_symtab :: symtab where
  "empty_symtab =
     \<lparr>nodes = (\<lambda>_. \<lparr>name = '''', addr = 0\<rparr>), fresh = 0,
      lc3_sym_hash = (\<lambda>_. []), lc3_sym_names = (\<lambda>_. [])\<rparr>"

section \<open>Operations\<close>

fun hash_loop :: "int \<Rightarrow> string \<Rightarrow> int" where
  "hash_loop h [] = h"
| "hash_loop h (c # cs) = hash_loop (h * int (code_of (tolower c)) mod SYMBOL_HASH) cs"

definition symbol_hash :: "string \<Rightarrow> nat" where
  "symbol_hash symbol = nat (hash_loop 1 symbol)"

definition find_symbol :: "symtab \<Rightarrow> string \<Rightarrow> nat option" where
  "find_symbol st symbol =
     find (\<lambda>p. strcasecmp_eq symbol (name (nodes st p))) (lc3_sym_hash st (symbol_hash symbol))"

text \<open>The location chains are an array of 65536 entries.\<close>

definition loc_in_range :: "int \<Rightarrow> bool" where
  "loc_in_range a \<longleftrightarrow> 0 \<le> a \<and> a < 65536"

definition add_symbol :: "string \<Rightarrow> int \<Rightarrow> bool \<Rightarrow> symtab \<Rightarrow> (int \<times> symtab) outcome" where
  "add_symbol symbol a dup_ok st =
     (case find_symbol st symbol of
        None \<Rightarrow>
          if \<not> loc_in_range a then Undef
          else
            (let p = fresh st; h = symbol_hash symbol
             in Ret (0, st\<lparr>nodes := (nodes st)(p := \<lparr>name = symbol, addr = a\<rparr>),
                           fresh := Suc p,
                           lc3_sym_hash := (lc3_sym_hash st)(h := p # lc3_sym_hash st h),
                           lc3_sym_names := (lc3_sym_names st)(a := p # lc3_sym_names st a)\<rparr>))
      | Some p \<Rightarrow>
          if \<not> dup_ok then Ret (- 1, st)
          else Ret (0, st\<lparr>nodes := (nodes st)(p := (nodes st p)\<lparr>addr := a\<rparr>)\<rparr>))"

text \<open>
  Unlinking one node: the search through the hash chain runs past the end, and reads through a
  null pointer, when the node is not in it.
\<close>

definition unlink_hash :: "nat \<Rightarrow> symtab \<Rightarrow> symtab outcome" where
  "unlink_hash s st =
     (let h = symbol_hash (name (nodes st s))
      in if s \<in> set (lc3_sym_hash st h)
         then Ret (st\<lparr>lc3_sym_hash := (lc3_sym_hash st)(h := remove1 s (lc3_sym_hash st h))\<rparr>)
         else Undef)"

fun remove_chain :: "int \<Rightarrow> nat list \<Rightarrow> symtab \<Rightarrow> symtab outcome" where
  "remove_chain a [] st = Ret st"
| "remove_chain a (s # ss) st =
     bind_outcome (unlink_hash s st) (\<lambda>st.
       remove_chain a ss (st\<lparr>lc3_sym_names := (lc3_sym_names st)(a := ss)\<rparr>))"

definition remove_symbol_at_addr :: "int \<Rightarrow> symtab \<Rightarrow> symtab outcome" where
  "remove_symbol_at_addr a st =
     (if loc_in_range a then remove_chain a (lc3_sym_names st a) st else Undef)"

section \<open>Hashing\<close>

lemma hash_loop_range: "0 \<le> h \<Longrightarrow> h < 997 \<Longrightarrow> 0 \<le> hash_loop h s \<and> hash_loop h s < 997"
proof (induction s arbitrary: h)
  case (Cons c s)
  have "0 \<le> h * int (code_of (tolower c)) mod 997" "h * int (code_of (tolower c)) mod 997 < 997"
    by simp_all
  then show ?case using Cons.IH by (simp add: SYMBOL_HASH_def)
qed simp

lemma hash_loop_lower: "hash_loop h (lower s) = hash_loop h s"
  by (induction s arbitrary: h) simp_all

lemma symbol_hash_cong: "lower s = lower t \<Longrightarrow> symbol_hash s = symbol_hash t"
  unfolding symbol_hash_def by (metis hash_loop_lower)

section \<open>Invariant\<close>

text \<open>
  Every node of a hash chain is allocated, hashes there and is in exactly one location chain;
  every node of a location chain is in its hash chain; no two nodes have the same name up to
  case.
\<close>

definition live :: "symtab \<Rightarrow> nat set" where
  "live st = {s. s \<in> set (lc3_sym_hash st (symbol_hash (name (nodes st s))))}"

definition hash_ok :: "symtab \<Rightarrow> bool" where
  "hash_ok st \<longleftrightarrow>
     (\<forall>h. distinct (lc3_sym_hash st h) \<and>
        (\<forall>s \<in> set (lc3_sym_hash st h). s < fresh st \<and> symbol_hash (name (nodes st s)) = h))"

definition locs_ok :: "symtab \<Rightarrow> bool" where
  "locs_ok st \<longleftrightarrow>
     (\<forall>a. distinct (lc3_sym_names st a) \<and> set (lc3_sym_names st a) \<subseteq> live st) \<and>
     (\<forall>s \<in> live st. \<exists>!a. s \<in> set (lc3_sym_names st a))"

definition names_ok :: "symtab \<Rightarrow> bool" where
  "names_ok st \<longleftrightarrow> inj_on (\<lambda>s. lower (name (nodes st s))) (live st)"

definition symtab_inv :: "symtab \<Rightarrow> bool" where
  "symtab_inv st \<longleftrightarrow> hash_ok st \<and> locs_ok st \<and> names_ok st"

text \<open>The table as a map from names up to case to addresses.\<close>

definition sym_map :: "symtab \<Rightarrow> string \<Rightarrow> int option" where
  "sym_map st k =
     map_option (\<lambda>s. addr (nodes st s)) (find_symbol st k)"

lemma live_iff:
  assumes "symtab_inv st"
  shows "s \<in> live st \<longleftrightarrow> (\<exists>h. s \<in> set (lc3_sym_hash st h))"
  using assms by (auto simp: live_def symtab_inv_def hash_ok_def)

lemma live_fresh: "symtab_inv st \<Longrightarrow> s \<in> live st \<Longrightarrow> s < fresh st"
  by (auto simp: live_def symtab_inv_def hash_ok_def)

lemma find_symbol_SomeD:
  assumes "symtab_inv st" and "find_symbol st k = Some s"
  shows "s \<in> live st \<and> lower (name (nodes st s)) = lower k"
  using assms by (auto simp: find_symbol_def find_Some_iff strcasecmp_eq_def live_iff dest: nth_mem)

lemma find_symbol_Some_iff:
  assumes inv: "symtab_inv st"
  shows "find_symbol st k = Some s \<longleftrightarrow> s \<in> live st \<and> lower (name (nodes st s)) = lower k"
proof
  assume s: "s \<in> live st \<and> lower (name (nodes st s)) = lower k"
  then have "s \<in> set (lc3_sym_hash st (symbol_hash k))"
    using symbol_hash_cong [of "name (nodes st s)" k] by (simp add: live_def)
  with s have "find_symbol st k \<noteq> None"
    by (auto simp: find_symbol_def find_None_iff strcasecmp_eq_def)
  then obtain t where t: "find_symbol st k = Some t" by blast
  with find_symbol_SomeD [OF inv t] s inv have "t = s"
    by (auto simp: symtab_inv_def names_ok_def inj_on_def)
  with t show "find_symbol st k = Some s" by simp
qed (use assms find_symbol_SomeD in blast)

lemma find_symbol_None_iff:
  "symtab_inv st \<Longrightarrow> find_symbol st k = None \<longleftrightarrow> (\<forall>s \<in> live st. lower (name (nodes st s)) \<noteq> lower k)"
  using find_symbol_Some_iff by (metis not_None_eq)

lemma sym_map_cong: "lower k = lower k' \<Longrightarrow> sym_map st k = sym_map st k'"
  unfolding sym_map_def find_symbol_def strcasecmp_eq_def using symbol_hash_cong [of k k'] by simp

lemma symtab_inv_empty: "symtab_inv empty_symtab"
  by (simp add: symtab_inv_def hash_ok_def locs_ok_def names_ok_def live_def empty_symtab_def)

lemma sym_map_empty: "sym_map empty_symtab k = None"
  by (simp add: sym_map_def find_symbol_def empty_symtab_def)

section \<open>Adding\<close>

definition push_symbol :: "string \<Rightarrow> int \<Rightarrow> symtab \<Rightarrow> symtab" where
  "push_symbol k a st =
     (let p = fresh st; h = symbol_hash k
      in st\<lparr>nodes := (nodes st)(p := \<lparr>name = k, addr = a\<rparr>), fresh := Suc p,
            lc3_sym_hash := (lc3_sym_hash st)(h := p # lc3_sym_hash st h),
            lc3_sym_names := (lc3_sym_names st)(a := p # lc3_sym_names st a)\<rparr>)"

lemma live_push:
  assumes "symtab_inv st"
  shows "live (push_symbol k a st) = insert (fresh st) (live st)"
  using assms by (auto simp: live_def push_symbol_def Let_def symtab_inv_def hash_ok_def)

lemma nodes_push: 
  "nodes (push_symbol k a st) = (nodes st)(fresh st := \<lparr>name = k, addr = a\<rparr>)"
  "fresh (push_symbol k a st) = Suc (fresh st)"
  by (simp_all add: push_symbol_def Let_def)

lemma fresh_not_live: "symtab_inv st \<Longrightarrow> fresh st \<notin> live st"
  using live_fresh by blast

lemma locs_ok_push:
  assumes inv: "symtab_inv st"
  shows "locs_ok (push_symbol k a st)"
proof -
  have new: "fresh st \<notin> set (lc3_sym_names st b)" for b
    using inv fresh_not_live [OF inv] by (auto simp: symtab_inv_def locs_ok_def)
  have mem: "s \<in> set (lc3_sym_names (push_symbol k a st) b) \<longleftrightarrow>
      s \<in> set (lc3_sym_names st b) \<or> s = fresh st \<and> b = a" for s b
    by (auto simp: push_symbol_def Let_def)
  have "distinct (lc3_sym_names (push_symbol k a st) b)" for b
    using inv new by (simp add: push_symbol_def Let_def symtab_inv_def locs_ok_def)
  moreover have "\<exists>!b. s \<in> set (lc3_sym_names (push_symbol k a st) b)"
    if "s \<in> insert (fresh st) (live st)" for s
    using that inv new unfolding mem by (cases "s = fresh st") (auto simp: symtab_inv_def locs_ok_def)
  moreover have "set (lc3_sym_names (push_symbol k a st) b) \<subseteq> insert (fresh st) (live st)" for b
    using inv mem by (auto simp: symtab_inv_def locs_ok_def)
  ultimately show ?thesis unfolding locs_ok_def live_push [OF inv] by blast
qed

lemma symtab_inv_push:
  assumes inv: "symtab_inv st" and new: "find_symbol st k = None"
  shows "symtab_inv (push_symbol k a st)"
proof -
  have "hash_ok (push_symbol k a st)"
    using inv fresh_not_live [OF inv] live_iff [OF inv]
    by (auto simp: symtab_inv_def hash_ok_def push_symbol_def Let_def less_Suc_eq)
  moreover have "names_ok (push_symbol k a st)"
    using inv new fresh_not_live [OF inv] find_symbol_None_iff [OF inv, of k]
    unfolding names_ok_def live_push [OF inv] nodes_push
    by (auto simp: symtab_inv_def names_ok_def inj_on_def)
  ultimately show ?thesis
    using locs_ok_push [OF inv] by (simp add: symtab_inv_def)
qed

lemma sym_map_push:
  assumes inv: "symtab_inv st" and new: "find_symbol st k = None"
  shows "sym_map (push_symbol k a st) j = (if lower j = lower k then Some a else sym_map st j)"
proof -
  have "find_symbol (push_symbol k a st) j =
      (if lower j = lower k then Some (fresh st) else find_symbol st j)"
  proof (cases "lower j = lower k")
    case True
    then show ?thesis
      using find_symbol_Some_iff [OF symtab_inv_push [OF inv new], of a j "fresh st"]
      by (simp add: live_push [OF inv] nodes_push)
  next
    case False
    have "find_symbol (push_symbol k a st) j = Some s \<longleftrightarrow> find_symbol st j = Some s" for s
      using False fresh_not_live [OF inv]
      unfolding find_symbol_Some_iff [OF symtab_inv_push [OF inv new]] find_symbol_Some_iff [OF inv]
        live_push [OF inv] nodes_push
      by auto
    with False show ?thesis by (metis not_None_eq)
  qed
  moreover have "s \<noteq> fresh st" if "find_symbol st j = Some s" for s
    using that find_symbol_SomeD [OF inv that] fresh_not_live [OF inv] by auto
  ultimately show ?thesis
    by (cases "find_symbol st j") (auto simp: sym_map_def nodes_push)
qed

text \<open>Redefining a symbol changes the address in its node and no chain.\<close>

definition readdress :: "nat \<Rightarrow> int \<Rightarrow> symtab \<Rightarrow> symtab" where
  "readdress s a st = st\<lparr>nodes := (nodes st)(s := (nodes st s)\<lparr>addr := a\<rparr>)\<rparr>"

lemma readdress_keeps [simp]:
  "name (nodes (readdress s a st) t) = name (nodes st t)"
  "lc3_sym_hash (readdress s a st) = lc3_sym_hash st"
  "lc3_sym_names (readdress s a st) = lc3_sym_names st"
  "fresh (readdress s a st) = fresh st"
  "addr (nodes (readdress s a st) t) = (if t = s then a else addr (nodes st t))"
  "live (readdress s a st) = live st"
  "find_symbol (readdress s a st) k = find_symbol st k"
  by (simp_all add: readdress_def live_def find_symbol_def) (auto intro!: arg_cong2 [where f = find])

lemma symtab_inv_readdress: "symtab_inv (readdress s a st) = symtab_inv st"
  by (simp add: symtab_inv_def hash_ok_def locs_ok_def names_ok_def)

lemma add_symbol_cases:
  "add_symbol k a dup_ok st =
     (case find_symbol st k of
        None \<Rightarrow> if loc_in_range a then Ret (0, push_symbol k a st) else Undef
      | Some s \<Rightarrow> if dup_ok then Ret (0, readdress s a st) else Ret (- 1, st))"
  by (auto simp: add_symbol_def push_symbol_def readdress_def Let_def split: option.splits)

lemma add_symbol_inv:
  "symtab_inv st \<Longrightarrow> add_symbol k a dup_ok st = Ret (r, st') \<Longrightarrow> symtab_inv st'"
  by (auto simp: add_symbol_cases symtab_inv_push symtab_inv_readdress split: option.splits if_splits)

lemma add_symbol_map:
  assumes inv: "symtab_inv st" and add: "add_symbol k a dup_ok st = Ret (r, st')"
  shows "sym_map st' j = (if r = 0 \<and> lower j = lower k then Some a else sym_map st j)"
proof (cases "find_symbol st k")
  case None
  with add sym_map_push [OF inv None] show ?thesis
    by (auto simp: add_symbol_cases split: if_splits)
next
  case (Some s)
  have key: "find_symbol st j = Some s \<longleftrightarrow> lower j = lower k"
    using Some find_symbol_Some_iff [OF inv] by auto
  have "sym_map (readdress s a st) j = (if lower j = lower k then Some a else sym_map st j)"
    using key by (cases "find_symbol st j") (auto simp: sym_map_def)
  with Some add show ?thesis by (auto simp: add_symbol_cases split: if_splits)
qed

lemma add_symbol_ok:
  assumes "loc_in_range a"
  shows "\<exists>st'. add_symbol k a True st = Ret (0, st')"
  using assms by (cases "find_symbol st k") (simp_all add: add_symbol_cases)

section \<open>Removing\<close>

definition drop_symbol :: "int \<Rightarrow> nat \<Rightarrow> nat list \<Rightarrow> symtab \<Rightarrow> symtab" where
  "drop_symbol a s ss st =
     (let h = symbol_hash (name (nodes st s))
      in st\<lparr>lc3_sym_hash := (lc3_sym_hash st)(h := remove1 s (lc3_sym_hash st h)),
            lc3_sym_names := (lc3_sym_names st)(a := ss)\<rparr>)"

lemma remove_chain_step:
  "s \<in> live st \<Longrightarrow> remove_chain a (s # ss) st = remove_chain a ss (drop_symbol a s ss st)"
  by (simp add: unlink_hash_def drop_symbol_def live_def Let_def)

lemma nodes_drop [simp]:
  "nodes (drop_symbol a s ss st) = nodes st"
  "fresh (drop_symbol a s ss st) = fresh st"
  "lc3_sym_names (drop_symbol a s ss st) = (lc3_sym_names st)(a := ss)"
  by (simp_all add: drop_symbol_def Let_def)

lemma live_drop: "symtab_inv st \<Longrightarrow> live (drop_symbol a s ss st) = live st - {s}"
  by (auto simp: live_def drop_symbol_def Let_def symtab_inv_def hash_ok_def)

lemma symtab_inv_drop:
  assumes inv: "symtab_inv st" and loc: "lc3_sym_names st a = s # ss"
  shows "symtab_inv (drop_symbol a s ss st)"
proof -
  let ?st = "drop_symbol a s ss st"
  have s: "s \<in> live st" "s \<notin> set ss"
    using inv loc unfolding symtab_inv_def locs_ok_def by (metis list.set_intros(1) subsetD, metis distinct.simps(2))
  have one: "s \<in> set (lc3_sym_names st b) \<longleftrightarrow> b = a" for b
    using inv loc s(1) unfolding symtab_inv_def locs_ok_def by (metis list.set_intros(1))
  have mem: "t \<in> set (lc3_sym_names ?st b) \<longleftrightarrow> t \<in> set (lc3_sym_names st b) \<and> t \<noteq> s" for t b
    using one s(2) loc by auto
  have "distinct (lc3_sym_names ?st b)" for b
    using inv loc unfolding symtab_inv_def locs_ok_def nodes_drop by (metis distinct.simps(2) fun_upd_apply)
  then have "locs_ok ?st"
    using inv unfolding symtab_inv_def locs_ok_def live_drop [OF inv] subset_iff mem by blast
  moreover have "hash_ok ?st"
    using inv by (auto simp: symtab_inv_def hash_ok_def drop_symbol_def Let_def)
  moreover have "names_ok ?st"
    using inv unfolding symtab_inv_def names_ok_def live_drop [OF inv] nodes_drop
    by (blast intro: inj_on_subset)
  ultimately show ?thesis by (simp add: symtab_inv_def)
qed

lemma remove_chain_spec:
  assumes "symtab_inv st" and "lc3_sym_names st a = ss"
  shows "\<exists>st'. remove_chain a ss st = Ret st' \<and> symtab_inv st' \<and> nodes st' = nodes st \<and>
    live st' = live st - set ss \<and> lc3_sym_names st' = (lc3_sym_names st)(a := [])"
  using assms
proof (induction ss arbitrary: st)
  case Nil
  then show ?case by auto
next
  case (Cons s ss)
  have s: "s \<in> live st"
    using Cons.prems unfolding symtab_inv_def locs_ok_def by (metis list.set_intros(1) subsetD)
  have "lc3_sym_names (drop_symbol a s ss st) a = ss"
    by simp
  from Cons.IH [OF symtab_inv_drop [OF Cons.prems] this]
  show ?case
    unfolding remove_chain_step [OF s] live_drop [OF Cons.prems(1)] nodes_drop fun_upd_upd
      list.set Diff_insert2 [symmetric] .
qed

lemma remove_symbol_at_addr_spec:
  assumes inv: "symtab_inv st" and rng: "loc_in_range a"
  shows "\<exists>st'. remove_symbol_at_addr a st = Ret st' \<and> symtab_inv st' \<and>
    (\<forall>k. find_symbol st' k =
       (case find_symbol st k of None \<Rightarrow> None
        | Some s \<Rightarrow> if s \<in> set (lc3_sym_names st a) then None else Some s)) \<and>
    nodes st' = nodes st \<and> lc3_sym_names st' = (lc3_sym_names st)(a := [])"
proof -
  obtain st' where rm: "remove_chain a (lc3_sym_names st a) st = Ret st'"
    and st': "symtab_inv st'" "nodes st' = nodes st" "live st' = live st - set (lc3_sym_names st a)"
      "lc3_sym_names st' = (lc3_sym_names st)(a := [])"
    using remove_chain_spec [OF inv refl, of a] by (elim exE conjE)
  have iff: "find_symbol st' k = Some s \<longleftrightarrow>
      find_symbol st k = Some s \<and> s \<notin> set (lc3_sym_names st a)" for k s
    unfolding find_symbol_Some_iff [OF st'(1)] find_symbol_Some_iff [OF inv] st'(2,3) by blast
  have "find_symbol st' k = (case find_symbol st k of None \<Rightarrow> None
        | Some s \<Rightarrow> if s \<in> set (lc3_sym_names st a) then None else Some s)" for k
  proof (cases "find_symbol st' k")
    case None
    then show ?thesis using iff [of k "the (find_symbol st k)"]
      by (cases "find_symbol st k") simp_all
  next
    case (Some s)
    then show ?thesis using iff [of k s] by simp
  qed
  moreover have "remove_symbol_at_addr a st = Ret st'"
    using rm rng by (simp only: remove_symbol_at_addr_def if_True)
  ultimately show ?thesis using st' by (intro exI [of _ st']) simp
qed

section \<open>The table as an interface\<close>

text \<open>
  What the simulator relies on: a table of names up to case, in which a definition is found
  again until it is replaced, and which refuses a second definition when asked to.
\<close>

locale symbol_table =
  fixes empty :: "'t"
    and add :: "string \<Rightarrow> int \<Rightarrow> bool \<Rightarrow> 't \<Rightarrow> (int \<times> 't) outcome"
    and lookup :: "'t \<Rightarrow> string \<Rightarrow> int option"
    and inv :: "'t \<Rightarrow> bool"
    and in_range :: "int \<Rightarrow> bool"
  assumes inv_empty: "inv empty"
    and lookup_empty: "lookup empty k = None"
    and inv_add: "inv t \<Longrightarrow> add k a d t = Ret (r, t') \<Longrightarrow> inv t'"
    and lookup_add: "inv t \<Longrightarrow> add k a d t = Ret (r, t') \<Longrightarrow>
      lookup t' j = (if r = 0 \<and> lower j = lower k then Some a else lookup t j)"
    and add_total: "in_range a \<Longrightarrow> \<exists>t'. add k a True t = Ret (0, t')"
    and add_dup: "inv t \<Longrightarrow> lookup t k \<noteq> None \<Longrightarrow> add k a False t = Ret (- 1, t)"
begin

lemma add_all_lookup:
  assumes "inv t" and "\<forall>(k, a) \<in> set ps. in_range a"
  shows "\<exists>t'. foldM (\<lambda>(k, a) t. bind_outcome (add k a True t) (\<lambda>(r, t). Ret t)) ps t = Ret t' \<and>
    inv t' \<and>
    (\<forall>j. lookup t' j =
       (case map_of (rev (map (\<lambda>(k, a). (lower k, a)) ps)) (lower j) of
          Some a \<Rightarrow> Some a | None \<Rightarrow> lookup t j))"
  using assms
proof (induction ps arbitrary: t)
  case Nil
  then show ?case by simp
next
  case (Cons p ps)
  obtain k a where p: "p = (k, a)" by (cases p)
  obtain t1 where t1: "add k a True t = Ret (0, t1)"
    using add_total Cons.prems p by fastforce
  from inv_add [OF Cons.prems(1) t1] Cons.prems(2) Cons.IH [of t1] obtain t' where
    t': "foldM (\<lambda>(k, a) t. bind_outcome (add k a True t) (\<lambda>(r, t). Ret t)) ps t1 = Ret t'" "inv t'"
      "\<forall>j. lookup t' j =
         (case map_of (rev (map (\<lambda>(k, a). (lower k, a)) ps)) (lower j) of
            Some a \<Rightarrow> Some a | None \<Rightarrow> lookup t1 j)"
    by auto
  show ?case
    using t1 t' lookup_add [OF Cons.prems(1) t1]
    by (intro exI [of _ t']) (auto simp: p map_add_def split: option.splits)
qed

end

interpretation lc3_symbols: symbol_table empty_symtab add_symbol sym_map symtab_inv loc_in_range
proof unfold_locales
  show "symtab_inv empty_symtab" by (rule symtab_inv_empty)
  show "sym_map empty_symtab k = None" for k by (rule sym_map_empty)
  show "symtab_inv t'" if "symtab_inv t" "add_symbol k a d t = Ret (r, t')" for t k a d r t'
    using that by (rule add_symbol_inv)
  show "sym_map t' j = (if r = 0 \<and> lower j = lower k then Some a else sym_map t j)"
    if "symtab_inv t" "add_symbol k a d t = Ret (r, t')" for t k a d r t' j
    using that by (rule add_symbol_map)
  show "\<exists>t'. add_symbol k a True t = Ret (0, t')" if "loc_in_range a" for a k t
    using that by (rule add_symbol_ok)
  show "add_symbol k a False t = Ret (- 1, t)" if "symtab_inv t" "sym_map t k \<noteq> None" for t k a
    using that by (auto simp: sym_map_def add_symbol_cases)
qed

section \<open>Properties\<close>

text \<open>
  Claim C23: adding a symbol at an address of the location array succeeds when duplicates are
  allowed or the name is new; the name is then found, in any mixture of cases, at that address,
  every other name is found where it was, and the table's invariant is kept.
\<close>

theorem add_symbol_found:
  assumes "symtab_inv st" and "loc_in_range a" and "dup_ok \<or> find_symbol st k = None"
  shows "\<exists>st'. add_symbol k a dup_ok st = Ret (0, st') \<and> symtab_inv st' \<and>
    (\<forall>j. sym_map st' j = (if lower j = lower k then Some a else sym_map st j))"
proof -
  obtain st' where st': "add_symbol k a dup_ok st = Ret (0, st')"
    using assms(2,3) by (cases "find_symbol st k") (auto simp: add_symbol_cases)
  with add_symbol_inv [OF assms(1) st'] add_symbol_map [OF assms(1) st'] show ?thesis by simp
qed

theorem add_symbol_found_witness:
  "\<exists>st'. add_symbol ''Loop'' 0x3000 False empty_symtab = Ret (0, st') \<and>
    sym_map st' ''LOOP'' = Some 0x3000"
proof -
  have "lower ''LOOP'' = lower ''Loop''" by code_simp
  moreover have "find_symbol empty_symtab ''Loop'' = None"
    by (simp add: find_symbol_def empty_symtab_def)
  ultimately show ?thesis
    using add_symbol_found [OF symtab_inv_empty, of "0x3000" False "''Loop''"]
    by (auto simp: loc_in_range_def)
qed

text \<open>
  Removing the symbols of an address never follows a dangling chain: it ends with
  the invariant kept, exactly the symbols entered in that address's chain are no longer found,
  and the chain is empty.
\<close>

lemma remove_symbol_at_addr_removes:
  assumes "symtab_inv st" and "loc_in_range a"
  shows "\<exists>st'. remove_symbol_at_addr a st = Ret st' \<and> symtab_inv st' \<and> lc3_sym_names st' a = [] \<and>
    (\<forall>k. sym_map st' k =
       (case find_symbol st k of None \<Rightarrow> None
        | Some s \<Rightarrow> if s \<in> set (lc3_sym_names st a) then None else Some (addr (nodes st s))))"
proof -
  from remove_symbol_at_addr_spec [OF assms] obtain st' where
    st': "remove_symbol_at_addr a st = Ret st'" "symtab_inv st'" "nodes st' = nodes st"
      "lc3_sym_names st' = (lc3_sym_names st)(a := [])"
    and fs: "find_symbol st' k = (case find_symbol st k of None \<Rightarrow> None
        | Some s \<Rightarrow> if s \<in> set (lc3_sym_names st a) then None else Some s)" for k
    by (elim exE conjE) auto
  from st' show ?thesis
    by (intro exI [of _ st']) (auto simp: sym_map_def fs split: option.split)
qed

text \<open>
  Redefining a symbol moves its address but not its place in the location chains, so
  clearing the symbols of its old address deletes the symbol although it now lies elsewhere.
\<close>

lemma redefined_symbol_lost:
  assumes "symtab_inv st" and "find_symbol st k = None" and "loc_in_range a" and "loc_in_range b"
  shows "\<exists>st1 st2 st3. add_symbol k a True st = Ret (0, st1) \<and>
    add_symbol k b True st1 = Ret (0, st2) \<and> sym_map st2 k = Some b \<and>
    remove_symbol_at_addr a st2 = Ret st3 \<and> sym_map st3 k = None"
proof -
  let ?st1 = "push_symbol k a st" and ?st2 = "readdress (fresh st) b (push_symbol k a st)"
  have inv1: "symtab_inv ?st1" by (rule symtab_inv_push [OF assms(1,2)])
  have find1: "find_symbol ?st1 k = Some (fresh st)"
    unfolding find_symbol_Some_iff [OF inv1] live_push [OF assms(1)] nodes_push by simp
  have inv2: "symtab_inv ?st2" using inv1 by (simp add: symtab_inv_readdress)
  have chain: "fresh st \<in> set (lc3_sym_names ?st2 a)"
    by (simp add: push_symbol_def Let_def)
  obtain st3 where st3: "remove_symbol_at_addr a ?st2 = Ret st3"
    "find_symbol st3 k = (case find_symbol ?st2 k of None \<Rightarrow> None
       | Some s \<Rightarrow> if s \<in> set (lc3_sym_names ?st2 a) then None else Some s)"
    using remove_symbol_at_addr_spec [OF inv2 assms(3)] by blast
  have "add_symbol k a True st = Ret (0, ?st1)" "add_symbol k b True ?st1 = Ret (0, ?st2)"
    using assms(2,3) find1 by (simp_all add: add_symbol_cases)
  moreover have "sym_map ?st2 k = Some b" "sym_map st3 k = None"
    using st3(2) find1 chain by (simp_all add: sym_map_def)
  ultimately show ?thesis using st3(1) by (intro exI conjI)
qed

end
