(* ===== verification/C_Monad.thy ===== *)
theory C_Monad
  imports LC3_Prelude
begin

text \<open>
  Stateful C functions as state transformers with an outcome, and the rules that carry a
  property of the state through their composition: \<open>preserves\<close> for an invariant of every
  normal return, \<open>safe\<close> for the absence of undefined behaviour.
\<close>

type_synonym ('a, 's) cfun = "'s \<Rightarrow> ('a \<times> 's) outcome"

definition returnS :: "'a \<Rightarrow> ('a, 's) cfun" where
  "returnS a s = Ret (a, s)"

definition bindS :: "('a, 's) cfun \<Rightarrow> ('a \<Rightarrow> ('b, 's) cfun) \<Rightarrow> ('b, 's) cfun" where
  "bindS m f s = bind_outcome (m s) (\<lambda>(a, s'). f a s')"

definition seqS :: "('a, 's) cfun \<Rightarrow> ('b, 's) cfun \<Rightarrow> ('b, 's) cfun" where
  "seqS m n = bindS m (\<lambda>_. n)"

definition getS :: "('s \<Rightarrow> 'a) \<Rightarrow> ('a, 's) cfun" where
  "getS f s = Ret (f s, s)"

definition putS :: "('s \<Rightarrow> 's) \<Rightarrow> (unit, 's) cfun" where
  "putS f s = Ret ((), f s)"

definition exitS :: "int \<Rightarrow> ('a, 's) cfun" where
  "exitS n s = Exit n"

definition undefS :: "('a, 's) cfun" where
  "undefS s = Undef"

definition whenS :: "bool \<Rightarrow> (unit, 's) cfun \<Rightarrow> (unit, 's) cfun" where
  "whenS b m = (if b then m else returnS ())"

definition mapS :: "('a \<Rightarrow> 'b) \<Rightarrow> ('a, 's) cfun \<Rightarrow> ('b, 's) cfun" where
  "mapS f m = bindS m (\<lambda>a. returnS (f a))"

text \<open>A function that does not use the state.\<close>

definition lift_out :: "'a outcome \<Rightarrow> ('a, 's) cfun" where
  "lift_out r s = bind_outcome r (\<lambda>a. Ret (a, s))"

fun forS :: "('x \<Rightarrow> (unit, 's) cfun) \<Rightarrow> 'x list \<Rightarrow> (unit, 's) cfun" where
  "forS f [] = returnS ()"
| "forS f (x # xs) = seqS (f x) (forS f xs)"

lemmas cfun_defs =
  returnS_def bindS_def seqS_def getS_def putS_def exitS_def undefS_def whenS_def mapS_def

section \<open>Running a composition\<close>

lemma bindS_Ret [simp]:
  "bindS m f s = Ret (b, s'') \<longleftrightarrow> (\<exists>a s'. m s = Ret (a, s') \<and> f a s' = Ret (b, s''))"
  by (auto simp: bindS_def)

lemma bindS_cong [fundef_cong]:
  "m = m' \<Longrightarrow> s = s' \<Longrightarrow> (\<And>a t. m' s' = Ret (a, t) \<Longrightarrow> f a t = f' a t) \<Longrightarrow> bindS m f s = bindS m' f' s'"
  by (cases "m' s'") (auto simp: bindS_def)

lemma bindS_assoc: "bindS (bindS m f) g = bindS m (\<lambda>a. bindS (f a) g)"
proof
  fix s show "bindS (bindS m f) g s = bindS m (\<lambda>a. bindS (f a) g) s"
    by (cases "m s") (auto simp: bindS_def split: prod.splits)
qed

lemma return_bindS [simp]: "bindS (returnS a) f = f a"
  by (rule ext) (simp add: cfun_defs)

lemma bind_getS: "bindS (getS f) g s = g (f s) s"
  by (simp add: bindS_def getS_def)

section \<open>Invariants\<close>

named_theorems pres \<open>rules for invariants of C functions\<close>

definition preserves :: "('s \<Rightarrow> bool) \<Rightarrow> ('a, 's) cfun \<Rightarrow> bool" where
  "preserves I m \<longleftrightarrow> (\<forall>s a s'. I s \<longrightarrow> m s = Ret (a, s') \<longrightarrow> I s')"

lemma preservesD: "preserves I m \<Longrightarrow> I s \<Longrightarrow> m s = Ret (a, s') \<Longrightarrow> I s'"
  by (auto simp: preserves_def)

lemma preserves_return [pres, intro!, simp]: "preserves I (returnS a)"
  by (simp add: preserves_def cfun_defs)

lemma preserves_bind [pres]:
  "preserves I m \<Longrightarrow> (\<And>a. preserves I (f a)) \<Longrightarrow> preserves I (bindS m f)"
  unfolding preserves_def by (metis bindS_Ret)

lemma preserves_seq [pres]: "preserves I m \<Longrightarrow> preserves I n \<Longrightarrow> preserves I (seqS m n)"
  by (simp add: seqS_def preserves_bind)

lemma preserves_get [pres, intro!, simp]: "preserves I (getS f)"
  by (simp add: preserves_def cfun_defs)

lemma preserves_put [pres]: "(\<And>s. I s \<Longrightarrow> I (f s)) \<Longrightarrow> preserves I (putS f)"
  by (auto simp: preserves_def cfun_defs)

lemma preserves_exit [pres, intro!, simp]: "preserves I (exitS n)"
  by (simp add: preserves_def cfun_defs)

lemma preserves_undef [pres, intro!, simp]: "preserves I undefS"
  by (simp add: preserves_def cfun_defs)

lemma preserves_when [pres]: "(b \<Longrightarrow> preserves I m) \<Longrightarrow> preserves I (whenS b m)"
  by (simp add: whenS_def)

lemma preserves_map [pres]: "preserves I m \<Longrightarrow> preserves I (mapS f m)"
  by (simp add: mapS_def preserves_bind)

lemma preserves_if [pres]:
  "(b \<Longrightarrow> preserves I m) \<Longrightarrow> (\<not> b \<Longrightarrow> preserves I n) \<Longrightarrow> preserves I (if b then m else n)"
  by simp

lemma preserves_lift_out [pres, intro!, simp]: "preserves I (lift_out r)"
  by (simp add: preserves_def lift_out_def)

lemma preserves_for [pres]: "(\<And>x. preserves I (f x)) \<Longrightarrow> preserves I (forS f xs)"
  by (induction xs) (auto intro: preserves_seq)

lemma preserves_option [pres]:
  "(x = None \<Longrightarrow> preserves I m) \<Longrightarrow> (\<And>a. x = Some a \<Longrightarrow> preserves I (f a)) \<Longrightarrow>
   preserves I (case x of None \<Rightarrow> m | Some a \<Rightarrow> f a)"
  by (cases x) auto

lemma preserves_list [pres]:
  "(x = [] \<Longrightarrow> preserves I m) \<Longrightarrow> (\<And>a as. x = a # as \<Longrightarrow> preserves I (f a as)) \<Longrightarrow>
   preserves I (case x of [] \<Rightarrow> m | a # as \<Rightarrow> f a as)"
  by (cases x) auto

lemma preserves_prod [pres]:
  "(\<And>a b. x = (a, b) \<Longrightarrow> preserves I (f a b)) \<Longrightarrow> preserves I (case x of (a, b) \<Rightarrow> f a b)"
  by (cases x) auto

section \<open>Total results\<close>

text \<open>
  \<open>safe I P m\<close>: from a state with \<open>I\<close> the call has no undefined behaviour and no failed
  assertion, and a normal return satisfies \<open>P\<close> and keeps \<open>I\<close>; it may leave the process.
\<close>

definition safe :: "('s \<Rightarrow> bool) \<Rightarrow> ('a \<Rightarrow> bool) \<Rightarrow> ('a, 's) cfun \<Rightarrow> bool" where
  "safe I P m \<longleftrightarrow> (\<forall>s. I s \<longrightarrow> m s \<noteq> Undef \<and> m s \<noteq> Abort \<and>
     (\<forall>a s'. m s = Ret (a, s') \<longrightarrow> P a \<and> I s'))"

named_theorems safe_rules \<open>rules for the absence of undefined behaviour\<close>
named_theorems safe_prim \<open>calls known to be safe, with what they return\<close>

lemma safe_return [safe_rules]: "P a \<Longrightarrow> safe I P (returnS a)"
  by (simp add: safe_def cfun_defs)

lemma safe_bind:
  assumes m: "safe I P m" and f: "\<And>a. P a \<Longrightarrow> safe I Q (f a)"
  shows "safe I Q (bindS m f)"
  unfolding safe_def
proof (intro allI impI)
  fix s assume s: "I s"
  show "bindS m f s \<noteq> Undef \<and> bindS m f s \<noteq> Abort \<and>
      (\<forall>a s'. bindS m f s = Ret (a, s') \<longrightarrow> Q a \<and> I s')"
  proof (cases "m s")
    case (Ret x)
    then obtain a s' where "m s = Ret (a, s')" by (cases x) auto
    with m s have "P a" "I s'" by (auto simp: safe_def)
    with f [of a] \<open>m s = Ret (a, s')\<close> show ?thesis by (auto simp: safe_def bindS_def)
  qed (use m s in \<open>auto simp: safe_def bindS_def\<close>)
qed

lemma safe_seq [safe_rules]: "safe I (\<lambda>_. True) m \<Longrightarrow> safe I Q n \<Longrightarrow> safe I Q (seqS m n)"
  by (auto simp: seqS_def intro: safe_bind)

lemma safe_put [safe_rules]: "(\<And>s. I s \<Longrightarrow> I (f s)) \<Longrightarrow> safe I (\<lambda>_. True) (putS f)"
  by (auto simp: safe_def cfun_defs)

lemma safe_get: "(\<And>s. I s \<Longrightarrow> P (f s)) \<Longrightarrow> safe I P (getS f)"
  by (auto simp: safe_def cfun_defs)

lemma safe_getS [safe_prim]: "safe I (\<lambda>_. True) (getS f)"
  by (simp add: safe_get)

lemma safe_exit [safe_rules]: "safe I P (exitS n)"
  by (simp add: safe_def cfun_defs)

lemma safe_when [safe_rules]: "(b \<Longrightarrow> safe I (\<lambda>_. True) m) \<Longrightarrow> safe I (\<lambda>_. True) (whenS b m)"
  by (auto simp: whenS_def intro: safe_return)

lemma safe_if [safe_rules]:
  "(b \<Longrightarrow> safe I P m) \<Longrightarrow> (\<not> b \<Longrightarrow> safe I P n) \<Longrightarrow> safe I P (if b then m else n)"
  by simp

lemma safe_option [safe_rules]:
  "(x = None \<Longrightarrow> safe I P m) \<Longrightarrow> (\<And>a. x = Some a \<Longrightarrow> safe I P (f a)) \<Longrightarrow>
   safe I P (case x of None \<Rightarrow> m | Some a \<Rightarrow> f a)"
  by (cases x) auto

lemma safe_list [safe_rules]:
  "(x = [] \<Longrightarrow> safe I P m) \<Longrightarrow> (\<And>a as. x = a # as \<Longrightarrow> safe I P (f a as)) \<Longrightarrow>
   safe I P (case x of [] \<Rightarrow> m | a # as \<Rightarrow> f a as)"
  by (cases x) auto

lemma safe_prod [safe_rules]:
  "(\<And>a b. x = (a, b) \<Longrightarrow> safe I P (f a b)) \<Longrightarrow> safe I P (case x of (a, b) \<Rightarrow> f a b)"
  by (cases x) auto

lemma safe_for [safe_rules]:
  "(\<And>x. x \<in> set xs \<Longrightarrow> safe I (\<lambda>_. True) (f x)) \<Longrightarrow> safe I (\<lambda>_. True) (forS f xs)"
  by (induction xs) (auto intro: safe_seq safe_return)

lemma safe_map: "safe I P m \<Longrightarrow> (\<And>a. P a \<Longrightarrow> Q (f a)) \<Longrightarrow> safe I Q (mapS f m)"
  unfolding mapS_def by (rule safe_bind, assumption) (simp add: safe_return)

text \<open>A state read at the start of a block has the invariant.\<close>

lemma safe_bind_state:
  assumes "\<And>s. I s \<Longrightarrow> safe I Q (f s)" shows "safe I Q (bindS (getS id) f)"
  by (rule safe_bind [OF safe_get [where P = I]]) (simp_all add: assms)

lemma safe_weaken: "safe I P m \<Longrightarrow> (\<And>a. P a \<Longrightarrow> Q a) \<Longrightarrow> safe I Q m"
  by (auto simp: safe_def)

lemma safe_preserves: "safe I P m \<Longrightarrow> preserves I m"
  by (auto simp: safe_def preserves_def)

section \<open>Triples\<close>

text \<open>
  \<open>triple P m Q\<close>: from a state with \<open>P\<close> the call has no undefined behaviour and no failed assertion,
  and a normal return ends with \<open>Q\<close>.
\<close>

definition triple :: "('s \<Rightarrow> bool) \<Rightarrow> ('a, 's) cfun \<Rightarrow> ('a \<Rightarrow> 's \<Rightarrow> bool) \<Rightarrow> bool" where
  "triple P m Q \<longleftrightarrow> (\<forall>s. P s \<longrightarrow> m s \<noteq> Undef \<and> m s \<noteq> Abort \<and> (\<forall>a s'. m s = Ret (a, s') \<longrightarrow> Q a s'))"

lemma triple_bind:
  assumes m: "triple P m R" and f: "\<And>a. triple (R a) (f a) Q"
  shows "triple P (bindS m f) Q"
  unfolding triple_def
proof (intro allI impI)
  fix s assume s: "P s"
  show "bindS m f s \<noteq> Undef \<and> bindS m f s \<noteq> Abort \<and> (\<forall>a s'. bindS m f s = Ret (a, s') \<longrightarrow> Q a s')"
  proof (cases "m s")
    case (Ret x)
    then obtain a s' where r: "m s = Ret (a, s')" by (cases x) auto
    then have "R a s'" using m s by (auto simp: triple_def)
    then show ?thesis using f [of a] r by (auto simp: triple_def bindS_def)
  qed (use m s in \<open>auto simp: triple_def bindS_def\<close>)
qed

lemma triple_seq: "triple P m (\<lambda>_. R) \<Longrightarrow> triple R n Q \<Longrightarrow> triple P (seqS m n) Q"
  unfolding seqS_def by (rule triple_bind)

lemma triple_return: "(\<And>s. P s \<Longrightarrow> Q a s) \<Longrightarrow> triple P (returnS a) Q"
  by (simp add: triple_def returnS_def)

lemma triple_get: "triple P (getS f) (\<lambda>a s. P s \<and> a = f s)"
  by (simp add: triple_def getS_def)

lemma triple_when: "(b \<Longrightarrow> triple P m (\<lambda>_. P)) \<Longrightarrow> triple P (whenS b m) (\<lambda>_. P)"
  by (simp add: whenS_def triple_return)

lemma triple_conseq: "triple P m Q \<Longrightarrow> (\<And>s. P' s \<Longrightarrow> P s) \<Longrightarrow> (\<And>a s. Q a s \<Longrightarrow> Q' a s) \<Longrightarrow> triple P' m Q'"
  unfolding triple_def by blast

lemma triple_if: "(b \<Longrightarrow> triple P m Q) \<Longrightarrow> (\<not> b \<Longrightarrow> triple P n Q) \<Longrightarrow> triple P (if b then m else n) Q"
  by simp

section \<open>Loops that may not end\<close>

text \<open>
  A function with a loop that may run forever gives no outcome at all, \<open>None\<close>, when it does.
  Its equation is a \<open>partial_function\<close> over this composition.
\<close>

definition bind_run :: "('a \<times> 's) outcome option \<Rightarrow> ('a \<Rightarrow> 's \<Rightarrow> ('b \<times> 't) outcome option)
    \<Rightarrow> ('b \<times> 't) outcome option" where
  "bind_run m f =
     Option.bind m (\<lambda>r. case r of
        Ret (a, s) \<Rightarrow> f a s
      | Exit n \<Rightarrow> Some (Exit n)
      | Abort \<Rightarrow> Some Abort
      | Undef \<Rightarrow> Some Undef)"

lemma bind_run_mono [partial_function_mono]:
  fixes F :: "('a \<Rightarrow> 'b option) \<Rightarrow> ('c \<times> 's) outcome option"
  assumes "monotone (fun_ord option_ord) option_ord F" "\<And>a s. monotone (fun_ord option_ord) option_ord (\<lambda>f. G f a s)"
  shows "monotone (fun_ord option_ord) option_ord (\<lambda>f. bind_run (F f) (G f))"
  unfolding bind_run_def
proof (rule bind_mono [OF assms(1)], rule monotoneI)
  fix r and x y :: "'a \<Rightarrow> 'b option"
  assume "option.le_fun x y"
  then show "option_ord (case r of Ret (a, s) \<Rightarrow> G x a s | Exit n \<Rightarrow> Some (Exit n) | Abort \<Rightarrow> Some Abort | Undef \<Rightarrow> Some Undef)
      (case r of Ret (a, s) \<Rightarrow> G y a s | Exit n \<Rightarrow> Some (Exit n) | Abort \<Rightarrow> Some Abort | Undef \<Rightarrow> Some Undef)"
    using monotoneD [OF assms(2)] by (auto simp: option.leq_refl split: outcome.split)
qed

lemma const_run_mono: "monotone (fun_ord option_ord) option_ord (\<lambda>f. c)"
  by (rule monotoneI) (rule option.leq_refl)

end
