(* ===== verification/Sim_State.thy ===== *)
theory Sim_State
  imports Sim_Symbols C_Monad "HOL-Library.Signed_Division"
begin

text \<open>
  The LC-3 simulator lc3sim (lc3tools/lc3sim.c, lc3sim.h, lc3.def), built as CMakeLists.txt
  builds it (no readline, no I/O emulator): its global variables as one record, the instruction
  definition file as a table, and the register and memory primitives.

  The record also holds the process around the simulator: the unread characters of each open
  stream, the file system, what the n-th call of poll and of random answers, and the output
  written so far, in order, with the stream each piece went to.
\<close>

section \<open>Constants of lc3sim.h and lc3sim.c\<close>

definition R_R7 :: nat where "R_R7 = 7"
definition R_PC :: nat where "R_PC = 8"
definition R_IR :: nat where "R_IR = 9"
definition R_PSR :: nat where "R_PSR = 10"
definition NUM_REGS :: nat where "NUM_REGS = 11"

lemmas reg_num_defs = R_R7_def R_PC_def R_IR_def R_PSR_def NUM_REGS_def

definition MAX_SCRIPT_DEPTH :: int where "MAX_SCRIPT_DEPTH = 10"
definition MAX_FINISH_DEPTH :: int where "MAX_FINISH_DEPTH = 10000000"

definition F_DR :: "int \<Rightarrow> nat" where "F_DR i = nat (drop_bit 9 i AND 0x7)"
definition F_SR1 :: "int \<Rightarrow> nat" where "F_SR1 i = nat (drop_bit 6 i AND 0x7)"
definition F_SR2 :: "int \<Rightarrow> nat" where "F_SR2 i = nat (i AND 0x7)"
definition F_CC :: "int \<Rightarrow> int" where "F_CC i = i AND 0x0E00"
definition F_vec8 :: "int \<Rightarrow> int" where "F_vec8 i = i AND 0xFF"
definition F_immu3 :: "int \<Rightarrow> int" where "F_immu3 i = i AND 0x0007"
definition F_imm5 :: "int \<Rightarrow> int" where
  "F_imm5 i = (if i AND 0x010 = 0 then i AND 0x00F else i OR NOT 0x00F)"
definition F_imm6 :: "int \<Rightarrow> int" where
  "F_imm6 i = (if i AND 0x020 = 0 then i AND 0x01F else i OR NOT 0x01F)"
definition F_imm9 :: "int \<Rightarrow> int" where
  "F_imm9 i = (if i AND 0x100 = 0 then i AND 0x1FF else i OR NOT 0x1FF)"
definition F_imm11 :: "int \<Rightarrow> int" where
  "F_imm11 i = (if i AND 0x400 = 0 then i AND 0x3FF else i OR NOT 0x3FF)"

definition FMT_R1 :: int where "FMT_R1 = 0x001"
definition FMT_R2 :: int where "FMT_R2 = 0x002"
definition FMT_R3 :: int where "FMT_R3 = 0x004"
definition FMT_CC :: int where "FMT_CC = 0x008"
definition FMT_IMM5 :: int where "FMT_IMM5 = 0x010"
definition FMT_IMM6 :: int where "FMT_IMM6 = 0x020"
definition FMT_VEC8 :: int where "FMT_VEC8 = 0x040"
definition FMT_ASC8 :: int where "FMT_ASC8 = 0x080"
definition FMT_IMM9 :: int where "FMT_IMM9 = 0x100"
definition FMT_IMM11 :: int where "FMT_IMM11 = 0x200"
definition FMT_IMM16 :: int where "FMT_IMM16 = 0x400"
definition FMT_IMMU3 :: int where "FMT_IMMU3 = 0x800"

definition FMT_none :: int where "FMT_none = 0"
definition FMT_RRR :: int where "FMT_RRR = FMT_R1 OR FMT_R2 OR FMT_R3"
definition FMT_RRI :: int where "FMT_RRI = FMT_R1 OR FMT_R2 OR FMT_IMM5"
definition FMT_CL :: int where "FMT_CL = FMT_CC OR FMT_IMM9"
definition FMT_R :: int where "FMT_R = FMT_R2"
definition FMT_L :: int where "FMT_L = FMT_IMM11"
definition FMT_RL :: int where "FMT_RL = FMT_R1 OR FMT_IMM9"
definition FMT_RRIU3 :: int where "FMT_RRIU3 = FMT_R1 OR FMT_R2 OR FMT_IMMU3"
definition FMT_RRI6 :: int where "FMT_RRI6 = FMT_R1 OR FMT_R2 OR FMT_IMM6"
definition FMT_RR :: int where "FMT_RR = FMT_R1 OR FMT_R2"
definition FMT_V :: int where "FMT_V = FMT_VEC8"
definition FMT_A :: int where "FMT_A = FMT_ASC8"
definition FMT_16 :: int where "FMT_16 = FMT_IMM16"

lemmas fmt_defs =
  FMT_R1_def FMT_R2_def FMT_R3_def FMT_CC_def FMT_IMM5_def FMT_IMM6_def FMT_VEC8_def FMT_ASC8_def
  FMT_IMM9_def FMT_IMM11_def FMT_IMM16_def FMT_IMMU3_def FMT_none_def FMT_RRR_def FMT_RRI_def
  FMT_CL_def FMT_R_def FMT_L_def FMT_RL_def FMT_RRIU3_def FMT_RRI6_def FMT_RR_def FMT_V_def
  FMT_A_def FMT_16_def

definition FLG_NONE :: int where "FLG_NONE = 0"
definition FLG_SUBROUTINE :: int where "FLG_SUBROUTINE = 1"
definition FLG_RETURN :: int where "FLG_RETURN = 2"

lemmas flg_defs = FLG_NONE_def FLG_SUBROUTINE_def FLG_RETURN_def

section \<open>The instruction definition file\<close>

text \<open>The code blocks of lc3.def, by the instruction they belong to.\<close>

datatype inst_code =
    C_ADD_RRR | C_ADD_RRI | C_AND_RRR | C_AND_RRI | C_BR | C_JMP | C_JSR | C_JSRR
  | C_LD | C_LDI | C_LDR | C_LEA | C_NOT | C_RTI | C_ST | C_STI | C_STR | C_TRAP
  | C_SLL_RRR | C_SRA_RRR | C_DIV | C_MOD | C_MUL | C_SLL_RRI | C_SRA_RRI

text \<open>One entry of the file; a pseudo-op has no code.\<close>

record inst_def =
  d_name :: string
  d_format :: int
  d_mask :: int
  d_match :: int
  d_flags :: int
  d_code :: "inst_code option"

definition DEF_INST :: "string \<Rightarrow> int \<Rightarrow> int \<Rightarrow> int \<Rightarrow> int \<Rightarrow> inst_code \<Rightarrow> inst_def" where
  "DEF_INST nm fmt mask0 match flags code =
     \<lparr>d_name = nm, d_format = fmt, d_mask = mask0, d_match = match, d_flags = flags, d_code = Some code\<rparr>"

definition DEF_P_OP :: "string \<Rightarrow> int \<Rightarrow> int \<Rightarrow> int \<Rightarrow> inst_def" where
  "DEF_P_OP nm fmt mask0 match =
     \<lparr>d_name = nm, d_format = fmt, d_mask = mask0, d_match = match, d_flags = FLG_NONE, d_code = None\<rparr>"

definition lc3_def :: "inst_def list" where
  "lc3_def =
     [DEF_INST ''ADD'' FMT_RRR 0xF038 0x1000 FLG_NONE C_ADD_RRR,
      DEF_INST ''ADD'' FMT_RRI 0xF020 0x1020 FLG_NONE C_ADD_RRI,
      DEF_INST ''AND'' FMT_RRR 0xF038 0x5000 FLG_NONE C_AND_RRR,
      DEF_INST ''AND'' FMT_RRI 0xF020 0x5020 FLG_NONE C_AND_RRI,
      DEF_P_OP ''NOP'' FMT_none 0xFFFF 0x0000,
      DEF_P_OP ''.FILL'' FMT_A 0xFF00 0x0000,
      DEF_P_OP ''NOP'' FMT_none 0xF1FF 0x0000,
      DEF_P_OP ''NOP'' FMT_none 0xFE00 0x0000,
      DEF_INST ''BR'' FMT_CL 0xF000 0x0000 FLG_NONE C_BR,
      DEF_P_OP ''RET'' FMT_none 0xFFFF 0xC1C0,
      DEF_INST ''JMP'' FMT_R 0xFE3F 0xC000 FLG_NONE C_JMP,
      DEF_INST ''JSR'' FMT_L 0xF800 0x4800 FLG_SUBROUTINE C_JSR,
      DEF_INST ''JSRR'' FMT_R 0xFE3F 0x4000 FLG_SUBROUTINE C_JSRR,
      DEF_INST ''LD'' FMT_RL 0xF000 0x2000 FLG_NONE C_LD,
      DEF_INST ''LDI'' FMT_RL 0xF000 0xA000 FLG_NONE C_LDI,
      DEF_INST ''LDR'' FMT_RRI6 0xF000 0x6000 FLG_NONE C_LDR,
      DEF_INST ''LEA'' FMT_RL 0xF000 0xE000 FLG_NONE C_LEA,
      DEF_INST ''NOT'' FMT_RR 0xF03F 0x903F FLG_NONE C_NOT,
      DEF_INST ''RTI'' FMT_RRI6 0xF000 0x8000 FLG_NONE C_RTI,
      DEF_INST ''ST'' FMT_RL 0xF000 0x3000 FLG_NONE C_ST,
      DEF_INST ''STI'' FMT_RL 0xF000 0xB000 FLG_NONE C_STI,
      DEF_INST ''STR'' FMT_RRI6 0xF000 0x7000 FLG_NONE C_STR,
      DEF_P_OP ''GETC'' FMT_none 0xFFFF 0xF020,
      DEF_P_OP ''OUT'' FMT_none 0xFFFF 0xF021,
      DEF_P_OP ''PUTS'' FMT_none 0xFFFF 0xF022,
      DEF_P_OP ''IN'' FMT_none 0xFFFF 0xF023,
      DEF_P_OP ''PUTSP'' FMT_none 0xFFFF 0xF024,
      DEF_P_OP ''HALT'' FMT_none 0xFFFF 0xF025,
      DEF_INST ''TRAP'' FMT_V 0xFF00 0xF000 FLG_SUBROUTINE C_TRAP,
      DEF_INST ''SLL'' FMT_RRR 0xD038 0xD000 FLG_NONE C_SLL_RRR,
      DEF_INST ''SRA'' FMT_RRR 0xD038 0xD008 FLG_NONE C_SRA_RRR,
      DEF_INST ''DIV'' FMT_RRR 0xD038 0xD010 FLG_NONE C_DIV,
      DEF_INST ''MOD'' FMT_RRR 0xD038 0xD018 FLG_NONE C_MOD,
      DEF_INST ''MUL'' FMT_RRR 0xD038 0xD020 FLG_NONE C_MUL,
      DEF_INST ''SLL'' FMT_RRIU3 0xD038 0xD028 FLG_NONE C_SLL_RRI,
      DEF_INST ''SRA'' FMT_RRIU3 0xD038 0xD030 FLG_NONE C_SRA_RRI,
      DEF_P_OP ''.FILL'' FMT_16 0x0000 0x0000]"

definition def_matches :: "int \<Rightarrow> inst_def \<Rightarrow> bool" where
  "def_matches inst d \<longleftrightarrow> inst AND d_mask d = d_match d"

section \<open>State\<close>

datatype chan = Stdout | Lc3out | Traceout

text \<open>Streams are numbered; standard input is 0 and the GUI socket is 1.\<close>

record sim =
  lc3_register :: "nat \<Rightarrow> int"
  lc3_memory :: "int \<Rightarrow> int"
  lc3_show_later :: "int \<Rightarrow> bool"
  lc3_breakpoints :: "int \<Rightarrow> bool"
  symbols :: symtab
  start_script :: "string option"
  start_file :: "string option"
  trace_file :: "string option"
  should_halt :: bool
  last_KBSR_read :: bool
  last_DSR_read :: bool
  gui_mode :: bool
  interrupted_at_gui_request :: bool
  stop_scripts :: bool
  in_init :: bool
  have_mem_to_dump :: bool
  need_a_stop_notice :: bool
  sys_bpt_addr :: int
  finish_depth :: int
  last_flags :: int
  flush_on_start :: bool
  keep_input_on_stop :: bool
  rand_device :: bool
  delay_mem_update :: bool
  script_uses_stdin :: bool
  script_depth :: int
  traceout :: "string option"
  lc3in :: nat
  lc3out :: nat
  sim_in :: nat
  dump_last_end :: int
  list_last_end :: int
  next_stream :: nat
  unread :: "nat \<Rightarrow> string"
  files :: "string \<Rightarrow> string option"
  env_poll :: "nat \<Rightarrow> bool"
  polls :: nat
  env_random :: "nat \<Rightarrow> int"
  randoms :: nat
  written :: "(chan \<times> string) list"

text \<open>
  The initial values of the variables, in a process with the given standard input and files and
  the given answers of poll and random.
\<close>

definition sim_globals ::
  "string \<Rightarrow> (string \<Rightarrow> string option) \<Rightarrow> (nat \<Rightarrow> bool) \<Rightarrow> (nat \<Rightarrow> int) \<Rightarrow> sim" where
  "sim_globals inp fs poll random =
     \<lparr>lc3_register = (\<lambda>_. 0), lc3_memory = (\<lambda>_. 0), lc3_show_later = (\<lambda>_. False),
      lc3_breakpoints = (\<lambda>_. False), symbols = empty_symtab,
      start_script = None, start_file = None, trace_file = None,
      should_halt = True, last_KBSR_read = False, last_DSR_read = False, gui_mode = False,
      interrupted_at_gui_request = False, stop_scripts = False, in_init = False,
      have_mem_to_dump = False, need_a_stop_notice = False,
      sys_bpt_addr = - 1, finish_depth = 0, last_flags = FLG_NONE,
      flush_on_start = True, keep_input_on_stop = True, rand_device = True, delay_mem_update = True,
      script_uses_stdin = True, script_depth = 0,
      traceout = None, lc3in = 0, lc3out = 0, sim_in = 0,
      dump_last_end = 0, list_last_end = 0,
      next_stream = 2, unread = (\<lambda>_. [])(0 := inp), files = fs,
      env_poll = poll, polls = 0, env_random = random, randoms = 0, written = []\<rparr>"

type_synonym 'a act = "('a, sim) cfun"

definition REG :: "nat \<Rightarrow> int act" where
  "REG i = getS (\<lambda>s. lc3_register s i)"

definition set_REG :: "nat \<Rightarrow> int \<Rightarrow> unit act" where
  "set_REG i v = putS (\<lambda>s. s\<lparr>lc3_register := (lc3_register s)(i := v)\<rparr>)"

definition emit :: "chan \<Rightarrow> string \<Rightarrow> unit act" where
  "emit ch str = putS (\<lambda>s. s\<lparr>written := written s @ [(ch, str)]\<rparr>)"

definition puts_c :: "string \<Rightarrow> unit act" where
  "puts_c str = emit Stdout (str @ ''\<newline>'')"

text \<open>Whether poll finds input on a stream; one answer per call.\<close>

definition poll_c :: "bool act" where
  "poll_c s = Ret (env_poll s (polls s), s\<lparr>polls := Suc (polls s)\<rparr>)"

definition random_c :: "int act" where
  "random_c s = Ret (env_random s (randoms s), s\<lparr>randoms := Suc (randoms s)\<rparr>)"

definition fgetc_c :: "nat \<Rightarrow> int act" where
  "fgetc_c st s =
     (case unread s st of
        [] \<Rightarrow> Ret (- 1, s)
      | c # cs \<Rightarrow> Ret (int (code_of c), s\<lparr>unread := (unread s)(st := cs)\<rparr>))"

section \<open>Memory\<close>

definition mem_at :: "int \<Rightarrow> int act" where
  "mem_at a s = (if 0 \<le> a \<and> a < 65536 then Ret (lc3_memory s a, s) else Undef)"

text \<open>A device is ready at random when the option says so.\<close>

definition device_ready :: "bool act" where
  "device_ready =
     bindS (getS rand_device) (\<lambda>rd.
       if \<not> rd then returnS True else mapS (\<lambda>r. r AND 15 = 0) random_c)"

definition read_memory :: "int \<Rightarrow> int act" where
  "read_memory a =
     (if a = 0xFE00 then
        bindS (getS last_KBSR_read) (\<lambda>kb.
          seqS
            (whenS (\<not> kb)
               (bindS poll_c (\<lambda>inp. whenS inp
                  (bindS device_ready (\<lambda>r. putS (\<lambda>s. s\<lparr>last_KBSR_read := r\<rparr>))))))
            (getS (\<lambda>s. if last_KBSR_read s then 0x8000 else 0x0000)))
      else if a = 0xFE02 then
        bindS (getS last_KBSR_read) (\<lambda>kb.
          seqS
            (whenS kb
               (bindS (getS lc3in) (\<lambda>st. bindS (fgetc_c st) (\<lambda>c.
                  seqS (putS (\<lambda>s. s\<lparr>lc3_memory := (lc3_memory s)(0xFE02 := c)\<rparr>))
                    (whenS (c = - 1)
                       (seqS (bindS (getS gui_mode) (\<lambda>g.
                                puts_c (if g then ''ERR {LC-3 read past end of input stream.}''
                                        else ''LC-3 read past end of input stream.'')))
                             (exitS 3)))))))
            (seqS (putS (\<lambda>s. s\<lparr>last_KBSR_read := False\<rparr>))
                  (getS (\<lambda>s. lc3_memory s 0xFE02))))
      else if a = 0xFE04 then
        bindS (getS last_DSR_read) (\<lambda>ds.
          seqS
            (whenS (\<not> ds) (bindS device_ready (\<lambda>r. putS (\<lambda>s. s\<lparr>last_DSR_read := r\<rparr>))))
            (getS (\<lambda>s. if last_DSR_read s then 0x8000 else 0x0000)))
      else if a = 0xFE06 then returnS 0x0000
      else if a = 0xFFFE then returnS 0x8000
      else mem_at a)"

definition read_memory_traced :: "int \<Rightarrow> int act" where
  "read_memory_traced a =
     bindS (read_memory a) (\<lambda>ret.
       seqS
         (bindS (getS traceout) (\<lambda>t. whenS (t \<noteq> None)
            (emit Traceout (''MEM['' @ fmt_x 4 (a AND 0xFFFF) @ ''] RD '' @ fmt_x 4 (ret AND 0xFFFF) @ ''\<newline>''))))
         (returnS ret))"

end
