(* ===== verification/Sim_Disasm.thy ===== *)
theory Sim_Disasm
  imports Sim_State
begin

text \<open>
  The simulator's disassembler and memory dump (print_operands, disassemble_one_int,
  disassemble, dump_memory) and write_memory, which shows a changed cell in GUI mode.  Reading
  an address for display goes through read_memory and so touches the devices like a load does.
\<close>

section \<open>Operands\<close>

definition label_at :: "symtab \<Rightarrow> int \<Rightarrow> string option" where
  "label_at st a = (case lc3_sym_names st a of [] \<Rightarrow> None | p # _ \<Rightarrow> Some (name (nodes st p)))"

text \<open>Printing the fields that are present, with a comma before each but the first.\<close>

fun join_fields :: "bool \<Rightarrow> (bool \<times> string) list \<Rightarrow> string" where
  "join_fields found [] = ''''"
| "join_fields found ((present, str) # fs) =
     (if present then (if found then '','' else '''') @ str @ join_fields True fs
      else join_fields found fs)"

definition quoted :: "string \<Rightarrow> string" where
  "quoted str = [CHR 0x27] @ str @ [CHR 0x27]"

definition escaped :: "char \<Rightarrow> string" where
  "escaped c = quoted [CHR 0x5C, c]"

definition asc8 :: "int \<Rightarrow> string" where
  "asc8 v =
     (if v = 7 then escaped (CHR ''a'')
      else if v = 8 then escaped (CHR ''b'')
      else if v = 9 then escaped (CHR ''t'')
      else if v = 10 then escaped (CHR ''n'')
      else if v = 11 then escaped (CHR ''v'')
      else if v = 12 then escaped (CHR ''f'')
      else if v = 13 then escaped (CHR ''r'')
      else if v = 27 then escaped (CHR ''e'')
      else if v = 34 then escaped (CHR 0x22)
      else if v = 44 then escaped (CHR 0x27)
      else if v = 92 then escaped (CHR 0x5C)
      else if isprint_code v then quoted [char_of (nat v)]
      else ''x'' @ fmt_X 2 v)"

definition target_text :: "symtab \<Rightarrow> int \<Rightarrow> string" where
  "target_text st tgt = (case label_at st tgt of Some l \<Rightarrow> l | None \<Rightarrow> ''x'' @ fmt_X 4 tgt)"

definition print_operands :: "symtab \<Rightarrow> int \<Rightarrow> int \<Rightarrow> int \<Rightarrow> string" where
  "print_operands st a inst fmt =
     join_fields False
       [(fmt AND FMT_R1 \<noteq> 0, ''R'' @ fmt_d (int (F_DR inst))),
        (fmt AND FMT_R2 \<noteq> 0, ''R'' @ fmt_d (int (F_SR1 inst))),
        (fmt AND FMT_R3 \<noteq> 0, ''R'' @ fmt_d (int (F_SR2 inst))),
        (fmt AND FMT_IMMU3 \<noteq> 0, ''#'' @ fmt_d (F_immu3 inst)),
        (fmt AND FMT_IMM5 \<noteq> 0, ''#'' @ fmt_d (F_imm5 inst)),
        (fmt AND FMT_IMM6 \<noteq> 0, ''#'' @ fmt_d (F_imm6 inst)),
        (fmt AND FMT_VEC8 \<noteq> 0, ''x'' @ fmt_X 2 (F_vec8 inst)),
        (fmt AND FMT_ASC8 \<noteq> 0, asc8 (F_vec8 inst)),
        (fmt AND FMT_IMM9 \<noteq> 0, target_text st ((a + 1 + F_imm9 inst) AND 0xFFFF)),
        (fmt AND FMT_IMM11 \<noteq> 0, target_text st ((a + 1 + F_imm11 inst) AND 0xFFFF)),
        (fmt AND FMT_IMM16 \<noteq> 0, target_text st inst)]"

section \<open>One line of disassembly\<close>

definition dis_cc :: "int \<Rightarrow> string" where
  "dis_cc n = ['''', ''P'', ''Z'', ''ZP'', ''N'', ''NP'', ''NZ'', ''NZP''] ! nat n"

definition OPCODE_WIDTH :: nat where "OPCODE_WIDTH = 6"

text \<open>The first entry of the definition file that the instruction matches.\<close>

definition disassemble_def :: "int \<Rightarrow> inst_def option" where
  "disassemble_def inst = find (def_matches inst) lc3_def"

definition inst_text :: "symtab \<Rightarrow> int \<Rightarrow> int \<Rightarrow> string" where
  "inst_text st a inst =
     (case disassemble_def inst of
        Some d \<Rightarrow>
          (if d_format d AND FMT_CC \<noteq> 0
           then d_name d @ pad_right (OPCODE_WIDTH - length (d_name d)) (dis_cc (drop_bit 9 (F_CC inst)))
           else pad_right OPCODE_WIDTH (d_name d)) @ print_operands st a inst (d_format d)
      | None \<Rightarrow> pad_right OPCODE_WIDTH ''???'')"

definition line_head :: "sim \<Rightarrow> int \<Rightarrow> int \<Rightarrow> string" where
  "line_head s a inst =
     (if lc3_breakpoints s a then ''B'' else '' '') @ '' '' @
     (case label_at (symbols s) a of
        Some l \<Rightarrow> pad_left (CHR '' '') 16 (take 16 l) @ '' ''
      | None \<Rightarrow> replicate 17 (CHR '' '')) @
     ''x'' @ fmt_X 4 a @ '' x'' @ fmt_X 4 inst @ '' ''"

definition gui_prefix :: "sim \<Rightarrow> int \<Rightarrow> string" where
  "gui_prefix s a =
     ''CODE'' @ (if \<not> in_init s \<and> a = lc3_register s R_PC then ''P'' else '' '') @
     pad_left (CHR '' '') 5 (fmt_d (a + 1))"

text \<open>A cell shown as data is looked up in the location array by its value.\<close>

definition shown_past_table :: "int \<Rightarrow> bool" where
  "shown_past_table inst =
     (case disassemble_def inst of
        Some d \<Rightarrow> d_format d AND FMT_IMM16 \<noteq> 0 \<and> \<not> loc_in_range inst
      | None \<Rightarrow> False)"

definition disassemble_one_int :: "chan \<Rightarrow> int \<Rightarrow> unit act" where
  "disassemble_one_int out a =
     bindS (read_memory a) (\<lambda>inst.
       if \<not> loc_in_range a \<or> shown_past_table inst then undefS
       else
         bindS (getS id) (\<lambda>s.
           seqS (whenS (gui_mode s \<and> out = Stdout) (emit Stdout (gui_prefix s a)))
             (emit out (line_head s a inst @ inst_text (symbols s) a inst @ ''\<newline>''))))"

definition disassemble_one :: "int \<Rightarrow> unit act" where
  "disassemble_one a = disassemble_one_int Stdout a"

section \<open>Ranges of addresses\<close>

text \<open>
  The addresses the do loop of disassemble visits, wrapping round at the top of memory.  The
  loop does not end for an end address that is not one, so there is no list for it.
\<close>

lemma wrap_measure:
  assumes "0 \<le> e" "e < 65536" "(s + 1) AND 0xFFFF \<noteq> (e::int)"
  shows "nat ((e - ((s + 1) AND 0xFFFF) - 1) mod 65536) < nat ((e - s - 1) mod 65536)"
proof -
  let ?d = "(e - s - 1) mod 65536"
  have m: "(s + 1) AND 0xFFFF = (s + 1) mod 65536"
    using take_bit_eq_mask [of 16 "s + 1"] by (simp add: take_bit_eq_mod mask_eq_exp_minus_1)
  have "?d \<noteq> 0"
  proof
    assume "?d = 0"
    then have "65536 dvd e - (s + 1)" by (simp add: mod_eq_0_iff_dvd algebra_simps)
    then have "e mod 65536 = (s + 1) mod 65536" by (simp add: mod_eq_dvd_iff)
    with assms m show False by simp
  qed
  then have "0 < ?d" by (simp add: order_less_le)
  have "(e - ((s + 1) AND 0xFFFF) - 1) mod 65536 = (e - s - 1 - 1) mod 65536"
    unfolding m using mod_diff_right_eq [of "e - 1" "s + 1" 65536] by (simp add: algebra_simps)
  also have "\<dots> = (?d - 1) mod 65536"
    by (simp add: mod_diff_left_eq)
  also have "\<dots> = ?d - 1"
    using \<open>0 < ?d\<close> by (intro mod_pos_pos_trivial) (auto intro: less_trans [OF _ pos_mod_bound])
  finally show ?thesis using \<open>0 < ?d\<close> by simp
qed

function wrap_addrs :: "int \<Rightarrow> int \<Rightarrow> int list" where
  "wrap_addrs s e =
     (if 0 \<le> e \<and> e < 65536
      then s # (if (s + 1) AND 0xFFFF = e then [] else wrap_addrs ((s + 1) AND 0xFFFF) e)
      else [])"
  by pat_completeness auto
termination
proof (relation "measure (\<lambda>(s, e). nat ((e - s - 1) mod 65536))")
  fix s e :: int
  assume "0 \<le> e \<and> e < 65536" "(s + 1) AND 0xFFFF \<noteq> e"
  then show "(((s + 1) AND 0xFFFF, e), s, e) \<in> measure (\<lambda>(s, e). nat ((e - s - 1) mod 65536))"
    unfolding in_measure prod.case by (intro wrap_measure) simp_all
qed simp

declare wrap_addrs.simps [simp del]

definition disassemble :: "int \<Rightarrow> int \<Rightarrow> unit act" where
  "disassemble addr_s addr_e =
     (if loc_in_range addr_e then forS disassemble_one (wrap_addrs addr_s addr_e) else undefS)"

section \<open>Dumping memory\<close>

definition in_dump :: "int \<Rightarrow> int \<Rightarrow> int \<Rightarrow> bool" where
  "in_dump addr_s addr_e a \<longleftrightarrow> addr_s \<le> a \<and> a < addr_e"

definition row_values :: "int \<Rightarrow> int \<Rightarrow> int list \<Rightarrow> (int option list) act" where
  "row_values addr_s addr_e as =
     foldr (\<lambda>a rest.
       bindS (if in_dump addr_s addr_e a
              then bindS (read_memory (a AND 0xFFFF)) (\<lambda>v.
                     seqS (emit Stdout (fmt_X 4 v @ '' '')) (returnS (Some v)))
              else seqS (emit Stdout ''     '') (returnS None))
         (\<lambda>x. mapS (\<lambda>xs. x # xs) rest)) as (returnS [])"

definition row_char :: "int option \<Rightarrow> string" where
  "row_char x =
     (case x of
        None \<Rightarrow> '' ''
      | Some v \<Rightarrow> if v < 0x100 \<and> isprint_code (v AND 0xFF) then [char_of (nat v)] else ''.'')"

definition dump_row :: "int \<Rightarrow> int \<Rightarrow> int \<Rightarrow> unit act" where
  "dump_row addr_s addr_e start =
     seqS (emit Stdout (fmt_X 4 (start AND 0xFFFF) @ '': ''))
       (bindS (row_values addr_s addr_e (map (\<lambda>i. start + int i) [0..<12])) (\<lambda>vs.
          seqS (emit Stdout '' '')
            (seqS (emit Stdout (concat (map row_char vs))) (puts_c ''''))))"

function dump_starts :: "int \<Rightarrow> int \<Rightarrow> int list" where
  "dump_starts start addr_e = (if start < addr_e then start # dump_starts (start + 12) addr_e else [])"
  by pat_completeness auto
termination by (relation "measure (\<lambda>(start, addr_e). nat (addr_e - start))") auto

declare dump_starts.simps [simp del]

definition dump_memory :: "int \<Rightarrow> int \<Rightarrow> unit act" where
  "dump_memory addr_s addr_e =
     (let addr_e = (if addr_s \<ge> addr_e then addr_e + 0x10000 else addr_e)
      in forS (dump_row addr_s addr_e) (dump_starts ((addr_s div 12) * 12) addr_e))"

section \<open>Writing\<close>

definition store_mem :: "int \<Rightarrow> int \<Rightarrow> unit act" where
  "store_mem a v =
     bindS (mem_at a) (\<lambda>old.
       whenS (v \<noteq> old)
         (seqS (putS (\<lambda>s. s\<lparr>lc3_memory := (lc3_memory s)(a := v)\<rparr>))
           (bindS (getS id) (\<lambda>s.
              whenS (gui_mode s)
                (if \<not> delay_mem_update s then disassemble_one a
                 else putS (\<lambda>s. s\<lparr>lc3_show_later := (lc3_show_later s)(a := True),
                                  have_mem_to_dump := True\<rparr>))))))"

definition write_memory :: "int \<Rightarrow> int \<Rightarrow> unit act" where
  "write_memory a v =
     (if a = 0xFE00 \<or> a = 0xFE02 \<or> a = 0xFE04 then returnS ()
      else if a = 0xFE06 then
        bindS (getS last_DSR_read) (\<lambda>ds.
          whenS ds
            (seqS (emit Lc3out [char_of (nat (v mod 256))])
                  (putS (\<lambda>s. s\<lparr>last_DSR_read := False\<rparr>))))
      else if a = 0xFFFE then whenS (v AND 0x8000 = 0) (putS (\<lambda>s. s\<lparr>should_halt := True\<rparr>))
      else store_mem a v)"

definition write_memory_traced :: "int \<Rightarrow> int \<Rightarrow> unit act" where
  "write_memory_traced a v =
     seqS
       (bindS (getS traceout) (\<lambda>t. whenS (t \<noteq> None)
          (emit Traceout (''MEM['' @ fmt_x 4 (a AND 0xFFFF) @ ''] WR '' @ fmt_x 4 (v AND 0xFFFF) @ ''\<newline>''))))
       (write_memory a v)"

end
