(* ===== verification/Sim_Exec.thy ===== *)
theory Sim_Exec
  imports Sim_Disasm
begin

text \<open>
  Execution in the simulator: the code blocks of lc3.def, execute_instruction with its stop
  conditions, the interrupt handler and the loop of run_until_stopped.
\<close>

section \<open>The code blocks of lc3.def\<close>

definition I_DR :: "nat act" where "I_DR = mapS F_DR (REG R_IR)"
definition I_SR1 :: "nat act" where "I_SR1 = mapS F_SR1 (REG R_IR)"
definition I_SR2 :: "nat act" where "I_SR2 = mapS F_SR2 (REG R_IR)"

definition SET_CC :: "unit act" where
  "SET_CC =
     bindS I_DR (\<lambda>dr. bindS (REG dr) (\<lambda>v. bindS (REG R_PSR) (\<lambda>psr.
       set_REG R_PSR ((psr AND NOT 0x0E00) OR
         (if v AND 0x8000 \<noteq> 0 then 0x0800 else if v = 0 then 0x0400 else 0x0200)))))"

text \<open>Store a result in the destination register, then set the condition codes.\<close>

definition put_DR :: "int \<Rightarrow> unit act" where
  "put_DR v = bindS I_DR (\<lambda>dr. seqS (set_REG dr v) SET_CC)"

text \<open>An operation on the two source registers.\<close>

definition on_SR1_SR2 :: "(int \<Rightarrow> int \<Rightarrow> unit act) \<Rightarrow> unit act" where
  "on_SR1_SR2 f =
     bindS I_SR1 (\<lambda>r1. bindS (REG r1) (\<lambda>a. bindS I_SR2 (\<lambda>r2. bindS (REG r2) (\<lambda>b. f a b))))"

definition on_SR1_imm :: "(int \<Rightarrow> int) \<Rightarrow> (int \<Rightarrow> int \<Rightarrow> unit act) \<Rightarrow> unit act" where
  "on_SR1_imm imm f =
     bindS I_SR1 (\<lambda>r1. bindS (REG r1) (\<lambda>a. bindS (REG R_IR) (\<lambda>i. f a (imm i))))"

definition PC_plus :: "(int \<Rightarrow> int) \<Rightarrow> int act" where
  "PC_plus imm = bindS (REG R_PC) (\<lambda>pc. mapS (\<lambda>i. (pc + imm i) AND 0xFFFF) (REG R_IR))"

definition Base_plus :: "int act" where
  "Base_plus =
     bindS I_SR1 (\<lambda>r. bindS (REG r) (\<lambda>b. mapS (\<lambda>i. (b + F_imm6 i) AND 0xFFFF) (REG R_IR)))"

definition int16 :: "int \<Rightarrow> int" where
  "int16 v = signed_take_bit 15 v"

text \<open>A left shift of an int is defined when the count is below 32 and the result fits.\<close>

definition shift_left :: "int \<Rightarrow> int \<Rightarrow> unit act" where
  "shift_left a n =
     (if 0 \<le> n \<and> n < 32 \<and> 0 \<le> a \<and> push_bit (nat n) a < 2 ^ 31
      then put_DR (push_bit (nat n) a AND 0xFFFF) else undefS)"

definition shift_right :: "int \<Rightarrow> int \<Rightarrow> unit act" where
  "shift_right a n =
     (if 0 \<le> n \<and> n < 32 then put_DR (drop_bit (nat n) (int16 a) AND 0xFFFF) else undefS)"

definition ADD_FLAGS :: "int \<Rightarrow> unit act" where
  "ADD_FLAGS v = putS (\<lambda>s. s\<lparr>last_flags := last_flags s OR v\<rparr>)"

fun run_code :: "inst_code \<Rightarrow> unit act" where
  "run_code C_ADD_RRR = on_SR1_SR2 (\<lambda>a b. put_DR ((a + b) AND 0xFFFF))"
| "run_code C_ADD_RRI = on_SR1_imm F_imm5 (\<lambda>a i. put_DR ((a + i) AND 0xFFFF))"
| "run_code C_AND_RRR = on_SR1_SR2 (\<lambda>a b. put_DR (a AND b))"
| "run_code C_AND_RRI = on_SR1_imm F_imm5 (\<lambda>a i. put_DR (a AND i))"
| "run_code C_BR =
     bindS (REG R_PSR) (\<lambda>psr. bindS (REG R_IR) (\<lambda>i.
       whenS (psr AND F_CC i \<noteq> 0) (bindS (PC_plus F_imm9) (set_REG R_PC))))"
| "run_code C_JMP =
     bindS I_SR1 (\<lambda>base.
       seqS (whenS (base = R_R7) (ADD_FLAGS FLG_RETURN)) (bindS (REG base) (set_REG R_PC)))"
| "run_code C_JSR =
     seqS (bindS (REG R_PC) (set_REG R_R7)) (bindS (PC_plus F_imm11) (set_REG R_PC))"
| "run_code C_JSRR =
     bindS I_SR1 (\<lambda>base. bindS (REG base) (\<lambda>tmp.
       seqS (bindS (REG R_PC) (set_REG R_R7)) (set_REG R_PC tmp)))"
| "run_code C_LD = bindS (PC_plus F_imm9) (\<lambda>a. bindS (read_memory_traced a) put_DR)"
| "run_code C_LDI =
     bindS (PC_plus F_imm9) (\<lambda>a. bindS (read_memory_traced a) (\<lambda>b. bindS (read_memory_traced b) put_DR))"
| "run_code C_LDR = bindS Base_plus (\<lambda>a. bindS (read_memory_traced a) put_DR)"
| "run_code C_LEA = bindS (PC_plus F_imm9) put_DR"
| "run_code C_NOT = bindS I_SR1 (\<lambda>r. bindS (REG r) (\<lambda>a. put_DR (a XOR 0xFFFF)))"
| "run_code C_RTI =
     bindS I_DR (\<lambda>dr. bindS (REG dr) (\<lambda>v1. bindS I_SR1 (\<lambda>sr. bindS (REG sr) (\<lambda>v2.
       bindS (REG R_IR) (\<lambda>i. emit Stdout
         (''RTI Operation reg1 = '' @ fmt_d v1 @ '' reg2 = '' @ fmt_d v2 @ '' val = '' @
          fmt_d (F_imm9 i) @ ''\<newline>''))))))"
| "run_code C_ST =
     bindS (PC_plus F_imm9) (\<lambda>a. bindS I_DR (\<lambda>sr. bindS (REG sr) (write_memory_traced a)))"
| "run_code C_STI =
     bindS (PC_plus F_imm9) (\<lambda>a. bindS (read_memory_traced a) (\<lambda>b.
       bindS I_DR (\<lambda>sr. bindS (REG sr) (write_memory_traced b))))"
| "run_code C_STR =
     bindS Base_plus (\<lambda>a. bindS I_DR (\<lambda>sr. bindS (REG sr) (write_memory_traced a)))"
| "run_code C_TRAP =
     seqS (bindS (REG R_PC) (set_REG R_R7))
       (bindS (REG R_IR) (\<lambda>i. bindS (read_memory_traced (F_vec8 i)) (set_REG R_PC)))"
| "run_code C_SLL_RRR = on_SR1_SR2 shift_left"
| "run_code C_SRA_RRR = on_SR1_SR2 shift_right"
| "run_code C_DIV =
     on_SR1_SR2 (\<lambda>a b. if int16 b = 0 then undefS else put_DR ((int16 a sdiv int16 b) AND 0xFFFF))"
| "run_code C_MOD =
     on_SR1_SR2 (\<lambda>a b. if int16 b = 0 then undefS else put_DR ((int16 a smod int16 b) AND 0xFFFF))"
| "run_code C_MUL = on_SR1_SR2 (\<lambda>a b. put_DR ((int16 a * int16 b) AND 0xFFFF))"
| "run_code C_SLL_RRI = on_SR1_imm F_immu3 shift_left"
| "run_code C_SRA_RRI = on_SR1_imm F_immu3 shift_right"

text \<open>The first entry with code that the instruction matches.\<close>

definition executable_def :: "int \<Rightarrow> inst_def option" where
  "executable_def inst = find (\<lambda>d. d_code d \<noteq> None \<and> def_matches inst d) lc3_def"

section \<open>execute\_instruction\<close>

definition illegal_text :: "bool \<Rightarrow> int \<Rightarrow> string" where
  "illegal_text gui pc =
     (if gui then ''ERR {Illegal instruction at x'' @ fmt_X 4 pc @ ''!}\<newline>''
      else ''Illegal instruction at x'' @ fmt_X 4 pc @ ''!\<newline>'')"

definition trace_regs :: "unit act" where
  "trace_regs =
     bindS (getS id) (\<lambda>s. whenS (traceout s \<noteq> None)
       (emit Traceout
         (''newPC '' @ fmt_x 4 (lc3_register s R_PC AND 0xFFFF) @
          '', PSR '' @ fmt_x 4 (lc3_register s R_PSR AND 0xFFFF) @ '', GPR:'' @
          concat (map (\<lambda>r. '' '' @ (if r = 4 then '' '' else '''') @ fmt_x 4 (lc3_register s r AND 0xFFFF)) [0..<8]) @
          ''\<newline>'')))"

text \<open>The depth count of the finish command; true when the machine is to stop.\<close>

definition finish_check :: "bool act" where
  "finish_check =
     bindS (getS id) (\<lambda>s.
       if finish_depth s > 0 then
         (if last_flags s AND FLG_SUBROUTINE \<noteq> 0 then
            (let d = finish_depth s + 1
             in if d = MAX_FINISH_DEPTH then
                  seqS (puts_c (if gui_mode s
                          then ''ERR {Stopping due to possibly infinite recursion.}''
                          else ''Stopping due to possibly infinite recursion.''))
                    (seqS (putS (\<lambda>s. s\<lparr>finish_depth := 0\<rparr>)) (returnS True))
                else
                  seqS (putS (\<lambda>s. s\<lparr>finish_depth := d\<rparr>))
                    (if last_flags s AND FLG_RETURN \<noteq> 0 then
                       seqS (putS (\<lambda>s. s\<lparr>finish_depth := d - 1\<rparr>)) (returnS (d - 1 = 0))
                     else returnS False))
          else if last_flags s AND FLG_RETURN \<noteq> 0 then
            seqS (putS (\<lambda>s. s\<lparr>finish_depth := finish_depth s - 1\<rparr>)) (returnS (finish_depth s - 1 = 0))
          else returnS False)
       else returnS False)"

definition gui_check :: "bool act" where
  "gui_check =
     bindS (getS id) (\<lambda>s.
       if \<not> in_init s \<and> gui_mode s then
         bindS poll_c (\<lambda>inp.
           if inp then seqS (putS (\<lambda>s. s\<lparr>interrupted_at_gui_request := True\<rparr>)) (returnS True)
           else returnS False)
       else returnS False)"

text \<open>After an instruction has been executed: whether to go on.\<close>

definition after_instruction :: "bool act" where
  "after_instruction =
     seqS trace_regs
       (bindS (getS id) (\<lambda>s.
          if \<not> loc_in_range (lc3_register s R_PC) then undefS
          else if lc3_breakpoints s (lc3_register s R_PC) then
            seqS (whenS (\<not> gui_mode s) (emit Stdout ''The LC-3 hit a breakpoint...\<newline>'')) (returnS False)
          else if lc3_register s R_PC = sys_bpt_addr s then returnS False
          else
            bindS finish_check (\<lambda>stop.
              if stop then returnS False
              else bindS gui_check (\<lambda>stop. returnS (\<not> stop)))))"

definition fetch :: "unit act" where
  "fetch =
     seqS
       (bindS (getS id) (\<lambda>s. whenS (traceout s \<noteq> None)
          (seqS (emit Traceout ''; '') (disassemble_one_int Traceout (lc3_register s R_PC)))))
       (bindS (REG R_PC) (\<lambda>pc. bindS (read_memory_traced pc) (\<lambda>i.
          seqS (set_REG R_IR i) (bindS (REG R_PC) (\<lambda>pc. set_REG R_PC ((pc + 1) AND 0xFFFF))))))"

definition execute_instruction :: "bool act" where
  "execute_instruction =
     seqS fetch
       (bindS (REG R_IR) (\<lambda>inst.
          case executable_def inst of
            Some d \<Rightarrow>
              seqS (putS (\<lambda>s. s\<lparr>last_flags := d_flags d\<rparr>))
                (seqS (case d_code d of Some c \<Rightarrow> run_code c | None \<Rightarrow> returnS ()) after_instruction)
          | None \<Rightarrow>
              seqS (bindS (REG R_PC) (\<lambda>pc. set_REG R_PC ((pc - 1) AND 0xFFFF)))
                (bindS (getS id) (\<lambda>s.
                   seqS (emit Stdout (illegal_text (gui_mode s) (lc3_register s R_PC))) (returnS False)))))"

section \<open>Interrupt and display of the state\<close>

definition halt_lc3 :: "unit act" where
  "halt_lc3 = putS (\<lambda>s. s\<lparr>should_halt := True, need_a_stop_notice := True\<rparr>)"

definition ccodes :: "int \<Rightarrow> string" where
  "ccodes n = [''BAD_CC'', ''POSITIVE'', ''ZERO'', ''BAD_CC'',
               ''NEGATIVE'', ''BAD_CC'', ''BAD_CC'', ''BAD_CC''] ! nat n"

definition print_register :: "nat \<Rightarrow> unit act" where
  "print_register which =
     bindS (getS id) (\<lambda>s.
       seqS (emit Stdout (''REG R'' @ fmt_d (int which) @ '' x'' @ fmt_X 4 (lc3_register s which) @ ''\<newline>''))
         (seqS (whenS (which = R_PSR)
                  (emit Stdout (''REG R'' @ fmt_d (int NUM_REGS) @ '' '' @
                     ccodes (drop_bit 9 (lc3_register s R_PSR) AND 7) @ ''\<newline>'')))
               (emit Stdout ''TOCODE\<newline>'')))"

definition print_registers :: "unit act" where
  "print_registers =
     bindS (getS id) (\<lambda>s.
       let cc = ccodes (drop_bit 9 (lc3_register s R_PSR) AND 7) in
       if \<not> gui_mode s then
         seqS (emit Stdout (''PC=x'' @ fmt_X 4 (lc3_register s R_PC) @ '' IR=x'' @ fmt_X 4 (lc3_register s R_IR) @
                 '' PSR=x'' @ fmt_X 4 (lc3_register s R_PSR) @ '' ('' @ cc @ '')\<newline>''))
           (seqS (forS (\<lambda>r. emit Stdout (''R'' @ fmt_d (int r) @ ''=x'' @ fmt_X 4 (lc3_register s r) @ '' '')) [0..<R_PC])
             (seqS (puts_c '''') (disassemble_one (lc3_register s R_PC))))
       else
         seqS (forS (\<lambda>r. emit Stdout (''REG R'' @ fmt_d (int r) @ '' x'' @ fmt_X 4 (lc3_register s r) @ ''\<newline>'')) [0..<NUM_REGS])
           (emit Stdout (''REG R'' @ fmt_d (int NUM_REGS) @ '' '' @ cc @ ''\<newline>'')))"

definition dump_delayed_mem_updates :: "unit act" where
  "dump_delayed_mem_updates =
     bindS (getS have_mem_to_dump) (\<lambda>h. whenS h
       (seqS (putS (\<lambda>s. s\<lparr>have_mem_to_dump := False\<rparr>))
         (forS (\<lambda>a. bindS (getS (\<lambda>s. lc3_show_later s a)) (\<lambda>l. whenS l
            (seqS (disassemble_one a)
                  (putS (\<lambda>s. s\<lparr>lc3_show_later := (lc3_show_later s)(a := False)\<rparr>)))))
            (map int [0..<65536]))))"

definition show_state_if_stop_visible :: "unit act" where
  "show_state_if_stop_visible =
     bindS (getS id) (\<lambda>s. whenS (\<not> interrupted_at_gui_request s)
       (seqS (whenS (gui_mode s \<and> delay_mem_update s) dump_delayed_mem_updates) print_registers))"

section \<open>The run loop\<close>

text \<open>
  \<open>None\<close> is a run that does not end.  \<open>tty\<close> says whether the console is a terminal whose
  attributes can be read; pending input is then dropped at the stop unless the option keeps it.
\<close>

partial_function (option) run_loop :: "sim \<Rightarrow> (unit \<times> sim) outcome option" where
  "run_loop s =
     (if should_halt s then Some (Ret ((), s))
      else
        (case execute_instruction s of
           Ret (go_on, s') \<Rightarrow> if go_on then run_loop s' else Some (Ret ((), s'))
         | Exit n \<Rightarrow> Some (Exit n)
         | Abort \<Rightarrow> Some Abort
         | Undef \<Rightarrow> Some Undef))"

definition before_run :: "unit act" where
  "before_run =
     seqS (putS (\<lambda>s. s\<lparr>should_halt := False\<rparr>))
       (bindS (getS gui_mode) (\<lambda>g. whenS g (emit Stdout ''CONT\<newline>'')))"

definition after_run :: "bool \<Rightarrow> unit act" where
  "after_run tty =
     seqS (bindS (getS id) (\<lambda>s. whenS (tty \<and> \<not> gui_mode s \<and> \<not> keep_input_on_stop s)
             (putS (\<lambda>s. s\<lparr>unread := (unread s)(lc3in s := [])\<rparr>))))
       (seqS (bindS (getS need_a_stop_notice) (\<lambda>n. whenS n
                (seqS (emit Stdout ''\<newline>LC-3 stopped.\<newline>\<newline>'')
                      (putS (\<lambda>s. s\<lparr>need_a_stop_notice := False\<rparr>)))))
         (seqS (bindS (getS interrupted_at_gui_request) (\<lambda>i. whenS (\<not> i)
                  (putS (\<lambda>s. s\<lparr>sys_bpt_addr := - 1, finish_depth := 0\<rparr>))))
               show_state_if_stop_visible))"

definition run_until_stopped :: "bool \<Rightarrow> sim \<Rightarrow> (unit \<times> sim) outcome option" where
  "run_until_stopped tty s =
     bind_run (Some (before_run s)) (\<lambda>_ s.
       bind_run (run_loop s) (\<lambda>_ s. Some (after_run tty s)))"

end
