(* ===== verification/Sim_Safety.thy ===== *)
theory Sim_Safety
  imports Sim_Exec
begin

text \<open>
  The value invariant of the simulator: registers and memory hold 16-bit values.  Every
  instruction keeps it, and from a state that has it nothing is read or written outside the
  simulator's arrays.  An instruction is undefined exactly for the named operands of divisions,
  remainders and shifts, and a run exactly when it comes to such an instruction.
\<close>

section \<open>Values of 16 bits\<close>

abbreviation val16 :: "int \<Rightarrow> bool" where "val16 \<equiv> loc_in_range"

lemma and_FFFF: "(x :: int) AND 0xFFFF = x mod 65536"
  using take_bit_eq_mask [of 16 x] by (simp add: take_bit_eq_mod mask_eq_exp_minus_1)

lemma val16_and_FFFF [simp]: "val16 (x AND 0xFFFF)"
  by (simp add: loc_in_range_def and_FFFF)

lemma val16_take_bit: "val16 x \<longleftrightarrow> take_bit 16 x = x"
  by (auto simp: loc_in_range_def take_bit_int_eq_self_iff)

lemma val16_and [simp]: "val16 a \<Longrightarrow> val16 (a AND b)"
  by (simp add: val16_take_bit bit_eq_iff bit_simps) blast

lemma val16_or: "val16 a \<Longrightarrow> val16 b \<Longrightarrow> val16 (a OR b)"
  by (simp add: val16_take_bit bit_eq_iff bit_simps)

lemma val16_xor: "val16 a \<Longrightarrow> val16 b \<Longrightarrow> val16 (a XOR b)"
  by (simp add: val16_take_bit bit_eq_iff bit_simps)

lemma val16_numerals [simp]:
  "val16 0" "val16 0x8000" "val16 0xFFFF" "val16 0x0800" "val16 0x0400" "val16 0x0200"
  by (simp_all add: loc_in_range_def)

section \<open>The invariant\<close>

definition sim_ok :: "sim \<Rightarrow> bool" where
  "sim_ok s \<longleftrightarrow> (\<forall>i < NUM_REGS. val16 (lc3_register s i)) \<and> (\<forall>a. val16 a \<longrightarrow> val16 (lc3_memory s a))"

text \<open>Updates of other fields do not matter to it.\<close>

lemma sim_ok_more [simp]:
  "sim_ok (s\<lparr>written := w\<rparr>) = sim_ok s"
  "sim_ok (s\<lparr>polls := n\<rparr>) = sim_ok s"
  "sim_ok (s\<lparr>randoms := n\<rparr>) = sim_ok s"
  "sim_ok (s\<lparr>unread := u\<rparr>) = sim_ok s"
  "sim_ok (s\<lparr>last_KBSR_read := b\<rparr>) = sim_ok s"
  "sim_ok (s\<lparr>last_DSR_read := b\<rparr>) = sim_ok s"
  "sim_ok (s\<lparr>should_halt := b\<rparr>) = sim_ok s"
  "sim_ok (s\<lparr>need_a_stop_notice := b\<rparr>) = sim_ok s"
  "sim_ok (s\<lparr>last_flags := fl\<rparr>) = sim_ok s"
  "sim_ok (s\<lparr>finish_depth := d\<rparr>) = sim_ok s"
  "sim_ok (s\<lparr>sys_bpt_addr := d\<rparr>) = sim_ok s"
  "sim_ok (s\<lparr>interrupted_at_gui_request := b\<rparr>) = sim_ok s"
  "sim_ok (s\<lparr>lc3_show_later := l\<rparr>) = sim_ok s"
  "sim_ok (s\<lparr>have_mem_to_dump := b\<rparr>) = sim_ok s"
  by (simp_all add: sim_ok_def)

lemma sim_ok_reg: "sim_ok s \<Longrightarrow> val16 v \<Longrightarrow> sim_ok (s\<lparr>lc3_register := (lc3_register s)(i := v)\<rparr>)"
  by (simp add: sim_ok_def)

lemma sim_ok_mem: "sim_ok s \<Longrightarrow> val16 v \<Longrightarrow> sim_ok (s\<lparr>lc3_memory := (lc3_memory s)(a := v)\<rparr>)"
  by (simp add: sim_ok_def)

lemma F_less [simp]: "F_DR i < 8" "F_SR1 i < 8" "F_SR2 i < 8"
proof -
  have "x AND 7 < 8" for x :: int
    using take_bit_eq_mask [of 3 x] take_bit_int_less_exp [of 3 x] by (simp add: mask_eq_exp_minus_1)
  then have "nat (x AND 7) < 8" for x :: int
    by (simp add: nat_less_iff)
  then show "F_DR i < 8" "F_SR1 i < 8" "F_SR2 i < 8"
    by (simp_all add: F_DR_def F_SR1_def F_SR2_def)
qed

section \<open>Primitives\<close>

lemma safe_emit [safe_rules, safe_prim]: "safe sim_ok (\<lambda>_. True) (emit ch str)"
  by (simp add: emit_def safe_put)

lemma safe_puts [safe_rules, safe_prim]: "safe sim_ok (\<lambda>_. True) (puts_c str)"
  by (simp add: puts_c_def safe_emit)

lemma safe_poll [safe_prim]: "safe sim_ok (\<lambda>_. True) poll_c"
  by (simp add: safe_def poll_c_def)

lemma safe_random [safe_prim]: "safe sim_ok (\<lambda>_. True) random_c"
  by (simp add: safe_def random_c_def)

lemma safe_REG [safe_prim]: "i < NUM_REGS \<Longrightarrow> safe sim_ok val16 (REG i)"
  by (auto simp: REG_def sim_ok_def intro: safe_get)

lemma safe_set_REG [safe_rules, safe_prim]: "val16 v \<Longrightarrow> safe sim_ok (\<lambda>_. True) (set_REG i v)"
  by (auto simp: set_REG_def sim_ok_reg intro: safe_put)

lemma safe_mem_at [safe_prim]: "val16 a \<Longrightarrow> safe sim_ok val16 (mem_at a)"
  by (auto simp: safe_def mem_at_def sim_ok_def loc_in_range_def)

lemma safe_device_ready [safe_prim]: "safe sim_ok (\<lambda>_. True) device_ready"
  unfolding device_ready_def mapS_def by (((rule safe_bind, rule safe_prim) | rule safe_rules | simp)+)

lemma code_of_less: "code_of c < 65536"
  by (rule less_trans [OF nat_of_char_less_256]) simp

lemma fgetc_cases:
  obtains "unread s st = []" "fgetc_c st s = Ret (- 1, s)"
  | c cs where "val16 (int (code_of c))" "fgetc_c st s = Ret (int (code_of c), s\<lparr>unread := (unread s)(st := cs)\<rparr>)"
proof (cases "unread s st")
  case Nil
  then show thesis by (intro that(1)) (simp_all add: fgetc_c_def)
next
  case (Cons c cs)
  then show thesis by (intro that(2) [of c cs]) (simp_all add: fgetc_c_def loc_in_range_def code_of_less)
qed

lemma safe_fgetc [safe_prim]: "safe sim_ok (\<lambda>c. c = - 1 \<or> val16 c) (fgetc_c st)"
  unfolding safe_def
proof (intro allI impI)
  fix s assume "sim_ok s"
  then show "fgetc_c st s \<noteq> Undef \<and> fgetc_c st s \<noteq> Abort \<and>
      (\<forall>a s'. fgetc_c st s = Ret (a, s') \<longrightarrow> (a = - 1 \<or> val16 a) \<and> sim_ok s')"
    by (cases rule: fgetc_cases [of s st]) auto
qed

section \<open>Memory\<close>

text \<open>The keyboard data register takes the end of input only on the way out of the process.\<close>

lemma safe_read_KBDR: "safe sim_ok val16 (read_memory 0xFE02)"
  unfolding safe_def
proof (intro allI impI)
  fix s assume ok: "sim_ok s"
  then have m: "val16 (lc3_memory s 0xFE02)" by (simp add: sim_ok_def loc_in_range_def)
  show "read_memory 0xFE02 s \<noteq> Undef \<and> read_memory 0xFE02 s \<noteq> Abort \<and>
      (\<forall>a s'. read_memory 0xFE02 s = Ret (a, s') \<longrightarrow> val16 a \<and> sim_ok s')"
  proof (cases "last_KBSR_read s")
    case False
    with ok m show ?thesis by (simp add: read_memory_def cfun_defs)
  next
    case True
    show ?thesis
    proof (cases rule: fgetc_cases [of s "lc3in s"])
      case 1
      with True show ?thesis by (simp add: read_memory_def cfun_defs puts_c_def emit_def)
    next
      case (2 c cs)
      from ok have "sim_ok (s\<lparr>unread := (unread s)(lc3in s := cs),
          lc3_memory := (lc3_memory s)(0xFE02 := int (code_of c)), last_KBSR_read := False\<rparr>)"
        using 2(1) by (simp add: sim_ok_def)
      with 2 True show ?thesis by (simp add: read_memory_def cfun_defs)
    qed
  qed
qed

lemma safe_read_KBSR: "safe sim_ok val16 (read_memory 0xFE00)"
  unfolding read_memory_def
  by (simp, ((rule safe_bind, rule safe_prim) | rule safe_rules | rule safe_get | simp)+)

lemma safe_read_DSR: "safe sim_ok val16 (read_memory 0xFE04)"
  unfolding read_memory_def
  by (simp, ((rule safe_bind, rule safe_prim) | rule safe_rules | rule safe_get | simp)+)

lemma safe_read_memory [safe_prim]:
  assumes a: "val16 a" shows "safe sim_ok val16 (read_memory a)"
proof -
  consider "a = 0xFE00" | "a = 0xFE02" | "a = 0xFE04" | "a = 0xFE06" | "a = 0xFFFE" |
    "a \<noteq> 0xFE00" "a \<noteq> 0xFE02" "a \<noteq> 0xFE04" "a \<noteq> 0xFE06" "a \<noteq> 0xFFFE"
    by blast
  then show ?thesis
  proof cases
    case 6
    with a show ?thesis by (simp add: read_memory_def safe_mem_at)
  qed (use safe_read_KBDR safe_read_KBSR safe_read_DSR in \<open>simp_all\<close>,
       simp_all add: read_memory_def safe_return)
qed

lemma safe_read_memory_traced [safe_prim]:
  "val16 a \<Longrightarrow> safe sim_ok val16 (read_memory_traced a)"
  unfolding read_memory_traced_def
  by (((rule safe_bind, rule safe_prim) | rule safe_rules | simp)+)

lemma shown_in_table [simp]: "val16 i \<Longrightarrow> \<not> shown_past_table i"
  by (simp add: shown_past_table_def split: option.split)

lemma safe_disassemble_one_int [safe_rules, safe_prim]:
  "val16 a \<Longrightarrow> safe sim_ok (\<lambda>_. True) (disassemble_one_int out a)"
  unfolding disassemble_one_int_def
  by (((rule safe_bind, rule safe_prim) | rule safe_rules | simp)+)

lemma safe_disassemble_one [safe_rules, safe_prim]:
  "val16 a \<Longrightarrow> safe sim_ok (\<lambda>_. True) (disassemble_one a)"
  by (simp add: disassemble_one_def safe_disassemble_one_int)

lemma safe_store_mem [safe_rules]:
  "val16 a \<Longrightarrow> val16 v \<Longrightarrow> safe sim_ok (\<lambda>_. True) (store_mem a v)"
  unfolding store_mem_def
  by (((rule safe_bind, rule safe_prim) | rule safe_rules | simp add: sim_ok_mem)+)

lemma safe_write_memory [safe_rules]:
  "val16 a \<Longrightarrow> val16 v \<Longrightarrow> safe sim_ok (\<lambda>_. True) (write_memory a v)"
  unfolding write_memory_def
  by (((rule safe_bind, rule safe_prim) | rule safe_rules | simp)+)

lemma safe_write_memory_traced [safe_rules]:
  "val16 a \<Longrightarrow> val16 v \<Longrightarrow> safe sim_ok (\<lambda>_. True) (write_memory_traced a v)"
  unfolding write_memory_traced_def
  by (((rule safe_bind, rule safe_prim) | rule safe_rules | simp)+)

section \<open>Instructions\<close>

lemma reg_less [simp]:
  "i < 8 \<Longrightarrow> i < NUM_REGS" "R_IR < NUM_REGS" "R_PC < NUM_REGS" "R_PSR < NUM_REGS" "R_R7 < NUM_REGS"
  by (simp_all add: reg_num_defs)

lemma safe_fields [safe_prim]:
  "safe sim_ok (\<lambda>r. r < 8) I_DR" "safe sim_ok (\<lambda>r. r < 8) I_SR1" "safe sim_ok (\<lambda>r. r < 8) I_SR2"
  unfolding I_DR_def I_SR1_def I_SR2_def by (rule safe_map [OF safe_REG], simp, simp)+

lemma safe_PC_plus [safe_prim]: "safe sim_ok val16 (PC_plus imm)"
  unfolding PC_plus_def mapS_def by (((rule safe_bind, rule safe_prim) | rule safe_rules | simp)+)

lemma safe_Base_plus [safe_prim]: "safe sim_ok val16 Base_plus"
  unfolding Base_plus_def mapS_def by (((rule safe_bind, rule safe_prim) | rule safe_rules | simp)+)

lemma safe_SET_CC [safe_rules]: "safe sim_ok (\<lambda>_. True) SET_CC"
  unfolding SET_CC_def by (((rule safe_bind, rule safe_prim) | rule safe_rules | simp add: val16_or)+)

lemma safe_put_DR [safe_rules]: "val16 v \<Longrightarrow> safe sim_ok (\<lambda>_. True) (put_DR v)"
  unfolding put_DR_def by (((rule safe_bind, rule safe_prim) | rule safe_rules | simp)+)

lemma safe_on_SR1_SR2 [safe_rules]:
  "(\<And>a b. val16 a \<Longrightarrow> val16 b \<Longrightarrow> safe sim_ok (\<lambda>_. True) (f a b)) \<Longrightarrow> safe sim_ok (\<lambda>_. True) (on_SR1_SR2 f)"
  unfolding on_SR1_SR2_def by (((rule safe_bind, rule safe_prim) | rule safe_rules | simp)+)

lemma safe_on_SR1_imm [safe_rules]:
  "(\<And>a i. val16 a \<Longrightarrow> safe sim_ok (\<lambda>_. True) (f a (imm i))) \<Longrightarrow> safe sim_ok (\<lambda>_. True) (on_SR1_imm imm f)"
  unfolding on_SR1_imm_def by (((rule safe_bind, rule safe_prim) | rule safe_rules | simp)+)

lemma safe_ADD_FLAGS [safe_rules]: "safe sim_ok (\<lambda>_. True) (ADD_FLAGS v)"
  unfolding ADD_FLAGS_def by (rule safe_rules) simp

lemma immu3_bounds: "0 \<le> F_immu3 i \<and> F_immu3 i < 8"
proof -
  have "F_immu3 i = take_bit 3 i"
    using take_bit_eq_mask [of 3 i] by (simp add: F_immu3_def mask_eq_exp_minus_1)
  then show ?thesis using take_bit_int_less_exp [of 3 i] by simp
qed

lemma val16_vec8 [simp]: "val16 (F_vec8 i)"
proof -
  have "F_vec8 i = take_bit 8 i"
    using take_bit_eq_mask [of 8 i] by (simp add: F_vec8_def mask_eq_exp_minus_1)
  then show ?thesis using take_bit_int_less_exp [of 8 i] by (simp add: loc_in_range_def)
qed

lemma safe_shift_left_imm [safe_rules]:
  assumes "val16 a" shows "safe sim_ok (\<lambda>_. True) (shift_left a (F_immu3 i))"
proof -
  let ?n = "nat (F_immu3 i)"
  have "push_bit ?n a \<le> a * 2 ^ 7"
    unfolding push_bit_eq_mult using immu3_bounds [of i] assms
    by (intro mult_left_mono power_increasing) (auto simp: loc_in_range_def)
  then have "push_bit ?n a < 2 ^ 31" using assms by (simp add: loc_in_range_def)
  then show ?thesis
    using immu3_bounds [of i] assms
    by (simp add: shift_left_def loc_in_range_def safe_put_DR [unfolded loc_in_range_def] and_FFFF)
qed

lemma safe_shift_right_imm [safe_rules]: "safe sim_ok (\<lambda>_. True) (shift_right a (F_immu3 i))"
  using immu3_bounds [of i] by (simp add: shift_right_def safe_put_DR)

text \<open>The instructions whose effect C leaves undefined for some operands.\<close>

definition partial_codes :: "inst_code set" where
  "partial_codes = {C_SLL_RRR, C_SRA_RRR, C_DIV, C_MOD}"

lemma safe_run_code:
  assumes "c \<notin> partial_codes" shows "safe sim_ok (\<lambda>_. True) (run_code c)"
  using assms unfolding partial_codes_def
  by (cases c; simp only: run_code.simps insert_iff empty_iff simp_thms not_True_eq_False)
     (((rule safe_bind, rule safe_prim) | rule safe_rules | simp add: val16_xor)+)

section \<open>Around an instruction\<close>

lemma safe_trace_regs [safe_rules]: "safe sim_ok (\<lambda>_. True) trace_regs"
  unfolding trace_regs_def by (((rule safe_bind, rule safe_prim) | rule safe_rules | simp)+)

lemma safe_finish_check [safe_prim]: "safe sim_ok (\<lambda>_. True) finish_check"
  unfolding finish_check_def Let_def by (((rule safe_bind, rule safe_prim) | rule safe_rules | simp)+)

lemma safe_gui_check [safe_prim]: "safe sim_ok (\<lambda>_. True) gui_check"
  unfolding gui_check_def by (((rule safe_bind, rule safe_prim) | rule safe_rules | simp)+)

lemma sim_ok_PC: "sim_ok s \<Longrightarrow> val16 (lc3_register s R_PC)"
  by (simp add: sim_ok_def)

lemma safe_after_instruction [safe_rules]: "safe sim_ok (\<lambda>_. True) after_instruction"
  unfolding after_instruction_def
  by ((rule safe_bind_state | (rule safe_bind, rule safe_prim) | rule safe_rules | simp add: sim_ok_PC)+)

lemma safe_fetch [safe_rules]: "safe sim_ok (\<lambda>_. True) fetch"
  unfolding fetch_def
  by ((rule safe_bind_state | (rule safe_bind, rule safe_prim) | rule safe_rules | simp add: sim_ok_PC)+)

section \<open>Undefined operands\<close>

definition operands_undefined :: "inst_code \<Rightarrow> sim \<Rightarrow> bool" where
  "operands_undefined c s =
     (let i = lc3_register s R_IR; a = lc3_register s (F_SR1 i); b = lc3_register s (F_SR2 i)
      in case c of
           C_SLL_RRR \<Rightarrow> 32 \<le> b \<or> 2 ^ 31 \<le> a * 2 ^ nat b
         | C_SRA_RRR \<Rightarrow> 32 \<le> b
         | C_DIV \<Rightarrow> b = 0
         | C_MOD \<Rightarrow> b = 0
         | _ \<Rightarrow> False)"

lemma int16_zero: "val16 b \<Longrightarrow> int16 b = 0 \<longleftrightarrow> b = 0"
proof
  assume b: "val16 b" "int16 b = 0"
  then have "take_bit 16 (signed_take_bit 15 b) = 0" by (simp add: int16_def)
  then have "take_bit 16 b = 0" by (simp add: take_bit_signed_take_bit)
  with b show "b = 0" by (simp add: val16_take_bit)
qed (simp add: int16_def)

lemma on_SR1_SR2_eq:
  "on_SR1_SR2 f s =
     (let i = lc3_register s R_IR in f (lc3_register s (F_SR1 i)) (lc3_register s (F_SR2 i)) s)"
  by (simp add: on_SR1_SR2_def I_SR1_def I_SR2_def REG_def cfun_defs Let_def)

lemma safe_put_DR_state:
  "sim_ok s \<Longrightarrow> put_DR (v AND 0xFFFF) s \<noteq> Undef \<and> put_DR (v AND 0xFFFF) s \<noteq> Abort \<and>
   (\<forall>a s'. put_DR (v AND 0xFFFF) s = Ret (a, s') \<longrightarrow> sim_ok s')"
  using safe_put_DR [of "v AND 0xFFFF"] unfolding safe_def by simp

text \<open>What a code block does from a state with the invariant.\<close>

lemma run_code_cases:
  assumes ok: "sim_ok s"
  shows "run_code c s = Undef \<longleftrightarrow> operands_undefined c s"
    and "run_code c s \<noteq> Abort" and "run_code c s = Ret (u, s') \<Longrightarrow> sim_ok s'"
proof -
  define i where "i = lc3_register s R_IR"
  let ?a = "lc3_register s (F_SR1 i)" and ?b = "lc3_register s (F_SR2 i)"
  have a: "0 \<le> ?a" "?a < 65536" and b: "0 \<le> ?b" "?b < 65536" "val16 ?b"
    using ok by (simp_all add: sim_ok_def loc_in_range_def NUM_REGS_def less_trans [OF F_less(2)] less_trans [OF F_less(3)])
  have "(run_code c s = Undef \<longleftrightarrow> operands_undefined c s) \<and> run_code c s \<noteq> Abort \<and>
      (\<forall>u s'. run_code c s = Ret (u, s') \<longrightarrow> sim_ok s')"
  proof (cases "c \<in> partial_codes")
    case False
    then have "\<not> operands_undefined c s"
      by (cases c) (simp_all add: operands_undefined_def partial_codes_def)
    with safe_run_code [OF False] ok show ?thesis by (simp add: safe_def)
  next
    case True
    with a b safe_put_DR_state [OF ok] int16_zero [OF b(3)] show ?thesis
      by (auto simp: partial_codes_def operands_undefined_def on_SR1_SR2_eq i_def [symmetric] Let_def
          shift_left_def shift_right_def undefS_def push_bit_eq_mult split: if_splits)
  qed
  then show "run_code c s = Undef \<longleftrightarrow> operands_undefined c s" "run_code c s \<noteq> Abort"
    "run_code c s = Ret (u, s') \<Longrightarrow> sim_ok s'" by blast+
qed

lemma executable_def_code: "executable_def i = Some d \<Longrightarrow> \<exists>c. d_code d = Some c"
  by (auto simp: executable_def_def find_Some_iff)

text \<open>
  The outcome of a composition whose first part is safe and whose second part is described by
  \<open>bad\<close>, the states from which it is undefined.
\<close>

definition undef_on :: "(sim \<Rightarrow> bool) \<Rightarrow> ('a, sim) cfun \<Rightarrow> bool" where
  "undef_on bad m \<longleftrightarrow> (\<forall>s. sim_ok s \<longrightarrow> (m s = Undef \<longleftrightarrow> bad s) \<and> m s \<noteq> Abort \<and>
     (\<forall>a s'. m s = Ret (a, s') \<longrightarrow> sim_ok s'))"

lemma undef_onD:
  "undef_on bad m \<Longrightarrow> sim_ok s \<Longrightarrow>
   (m s = Undef \<longleftrightarrow> bad s) \<and> m s \<noteq> Abort \<and> (\<forall>a s'. m s = Ret (a, s') \<longrightarrow> sim_ok s')"
  unfolding undef_on_def by blast

lemma undef_on_run_code: "undef_on (operands_undefined c) (run_code c)"
  using run_code_cases unfolding undef_on_def by blast

lemma undef_on_safe: "safe sim_ok P m \<longleftrightarrow> undef_on (\<lambda>_. False) m \<and> (\<forall>s a s'. sim_ok s \<longrightarrow> m s = Ret (a, s') \<longrightarrow> P a)"
  by (auto simp: safe_def undef_on_def)

lemma undef_on_seq:
  assumes m: "undef_on b1 m" and n: "undef_on b2 n"
  shows "undef_on (\<lambda>s. b1 s \<or> (\<exists>a s'. m s = Ret (a, s') \<and> b2 s')) (seqS m n)"
  unfolding undef_on_def
proof (intro allI impI)
  fix s assume ok: "sim_ok s"
  show "(seqS m n s = Undef \<longleftrightarrow> b1 s \<or> (\<exists>a s'. m s = Ret (a, s') \<and> b2 s')) \<and> seqS m n s \<noteq> Abort \<and>
      (\<forall>a s'. seqS m n s = Ret (a, s') \<longrightarrow> sim_ok s')"
  proof (cases "m s")
    case (Ret x)
    then obtain a s' where ms: "m s = Ret (a, s')" by (cases x) auto
    with m ok have "sim_ok s'" "\<not> b1 s" by (auto simp: undef_on_def)
    with n ms show ?thesis by (auto simp: undef_on_def seqS_def bindS_def)
  qed (use m ok in \<open>auto simp: undef_on_def seqS_def bindS_def\<close>)
qed

definition step_undefined :: "sim \<Rightarrow> bool" where
  "step_undefined s =
     (case executable_def (lc3_register s R_IR) of
        Some d \<Rightarrow> (case d_code d of Some c \<Rightarrow> operands_undefined c s | None \<Rightarrow> False)
      | None \<Rightarrow> False)"

definition execute_fetched :: "bool act" where
  "execute_fetched =
     bindS (REG R_IR) (\<lambda>inst.
       case executable_def inst of
         Some d \<Rightarrow>
           seqS (putS (\<lambda>s. s\<lparr>last_flags := d_flags d\<rparr>))
             (seqS (case d_code d of Some c \<Rightarrow> run_code c | None \<Rightarrow> returnS ()) after_instruction)
       | None \<Rightarrow>
           seqS (bindS (REG R_PC) (\<lambda>pc. set_REG R_PC ((pc - 1) AND 0xFFFF)))
             (bindS (getS id) (\<lambda>s.
                seqS (emit Stdout (illegal_text (gui_mode s) (lc3_register s R_PC))) (returnS False))))"

lemma execute_instruction_split: "execute_instruction = seqS fetch execute_fetched"
  by (simp add: execute_instruction_def execute_fetched_def)

lemma safe_undef_on: "safe sim_ok P m \<Longrightarrow> undef_on (\<lambda>_. False) m"
  by (auto simp: safe_def undef_on_def)

lemma undef_on_execute_fetched: "undef_on step_undefined execute_fetched"
  unfolding undef_on_def
proof (intro allI impI)
  fix s assume ok: "sim_ok s"
  show "(execute_fetched s = Undef \<longleftrightarrow> step_undefined s) \<and> execute_fetched s \<noteq> Abort \<and>
      (\<forall>a s'. execute_fetched s = Ret (a, s') \<longrightarrow> sim_ok s')"
  proof (cases "executable_def (lc3_register s R_IR)")
    case None
    then show ?thesis
      using ok by (auto simp: execute_fetched_def step_undefined_def cfun_defs REG_def set_REG_def emit_def sim_ok_reg)
  next
    case (Some d)
    then obtain c where c: "d_code d = Some c" using executable_def_code by blast
    let ?s = "s\<lparr>last_flags := d_flags d\<rparr>"
    have e: "execute_fetched s = seqS (run_code c) after_instruction ?s"
      by (simp add: execute_fetched_def REG_def cfun_defs Some c)
    have "operands_undefined c ?s = operands_undefined c s"
      by (simp add: operands_undefined_def Let_def cong: inst_code.case_cong)
    moreover have "undef_on (operands_undefined c) (seqS (run_code c) after_instruction)"
      using undef_on_seq [OF undef_on_run_code safe_undef_on [OF safe_after_instruction]] by simp
    moreover from ok have "sim_ok ?s" by simp
    ultimately show ?thesis
      unfolding e using undef_onD [of "operands_undefined c" _ ?s] by (simp add: step_undefined_def Some c)
  qed
qed

text \<open>A machine about to execute one given word, and a division by zero.\<close>

definition demo_sim :: "int \<Rightarrow> sim" where
  "demo_sim w = (sim_globals [] (\<lambda>_. None) (\<lambda>_. False) (\<lambda>_. 0))
     \<lparr>should_halt := False, lc3_register := (\<lambda>_. 0)(R_PC := 0x3000, R_PSR := 0x400),
      lc3_memory := (\<lambda>_. 0)(0x3000 := w)\<rparr>"

lemma demo_sim_ok: "val16 w \<Longrightarrow> sim_ok (demo_sim w)"
  by (simp add: demo_sim_def sim_ok_def sim_globals_def loc_in_range_def)

lemma demo_divide_fetch:
  "\<exists>s1. fetch (demo_sim 0xD090) = Ret ((), s1) \<and> step_undefined s1"
  by (simp add: fetch_def read_memory_traced_def read_memory_def mem_at_def demo_sim_def sim_globals_def reg_num_defs
        REG_def set_REG_def cfun_defs step_undefined_def executable_def_def
        lc3_def_def DEF_INST_def DEF_P_OP_def def_matches_def operands_undefined_def F_SR1_def F_SR2_def)

text \<open>
  Claim C7: from a state whose registers and memory hold 16-bit values, executing one instruction
  reads and writes inside the simulator's arrays and does nothing C leaves undefined, except
  exactly when the fetched instruction is a division or remainder by zero or a shift by a register
  whose count or result does not fit an int; whenever it returns, the values are still 16-bit.
\<close>

theorem execute_instruction_undefined_iff:
  assumes "sim_ok s"
  shows "(execute_instruction s = Undef \<longleftrightarrow> (\<exists>s1. fetch s = Ret ((), s1) \<and> step_undefined s1)) \<and>
    execute_instruction s \<noteq> Abort \<and>
    (\<forall>go_on s'. execute_instruction s = Ret (go_on, s') \<longrightarrow> sim_ok s')"
  using undef_on_seq [OF safe_undef_on [OF safe_fetch] undef_on_execute_fetched] assms
  unfolding execute_instruction_split [symmetric] undef_on_def by auto

theorem execute_instruction_undefined_iff_witness: "execute_instruction (demo_sim 0xD090) = Undef"
  using execute_instruction_undefined_iff [OF demo_sim_ok [of "0xD090"]] demo_divide_fetch
  by (simp add: loc_in_range_def)

section \<open>Runs\<close>

lemma execute_instruction_ok:
  assumes "sim_ok s"
  shows "execute_instruction s \<noteq> Abort" "execute_instruction s = Ret (g, s') \<Longrightarrow> sim_ok s'"
  using undef_on_seq [OF safe_undef_on [OF safe_fetch] undef_on_execute_fetched] assms
  unfolding execute_instruction_split [symmetric] undef_on_def by auto

text \<open>
  The states at the start of the instructions of a run, and the states from which the next
  instruction does something undefined.
\<close>

inductive runs_to :: "sim \<Rightarrow> sim \<Rightarrow> bool" where
  runs_here [intro]: "runs_to s s"
| runs_on [intro]: "\<not> should_halt s \<Longrightarrow> execute_instruction s = Ret (True, s') \<Longrightarrow> runs_to s' t \<Longrightarrow> runs_to s t"

definition next_undefined :: "sim \<Rightarrow> bool" where
  "next_undefined s \<longleftrightarrow> \<not> should_halt s \<and> (\<exists>s1. fetch s = Ret ((), s1) \<and> step_undefined s1)"

lemma next_undefined_iff: "sim_ok s \<Longrightarrow> next_undefined s \<longleftrightarrow> \<not> should_halt s \<and> execute_instruction s = Undef"
  using undef_onD [OF undef_on_seq [OF safe_undef_on [OF safe_fetch] undef_on_execute_fetched]]
  by (auto simp: next_undefined_def execute_instruction_split)

text \<open>What the loop gives, when it ends.\<close>

definition loop_result :: "sim \<Rightarrow> (unit \<times> sim) outcome \<Rightarrow> bool" where
  "loop_result s r =
     (case r of Ret (_, s') \<Rightarrow> sim_ok s' | Exit _ \<Rightarrow> True | Abort \<Rightarrow> False
      | Undef \<Rightarrow> (\<exists>t. runs_to s t \<and> next_undefined t))"

lemma run_loop_result: "run_loop s = Some r \<Longrightarrow> sim_ok s \<longrightarrow> loop_result s r"
proof (rule run_loop.raw_induct [where P = "\<lambda>s r. sim_ok s \<longrightarrow> loop_result s r"])
  fix run s r
  assume IH: "\<And>s r. run s = Some r \<Longrightarrow> sim_ok s \<longrightarrow> loop_result s r"
    and r: "(if should_halt s then Some (Ret ((), s))
      else case execute_instruction s of
             Ret (go_on, s') \<Rightarrow> if go_on then run s' else Some (Ret ((), s'))
           | Exit n \<Rightarrow> Some (Exit n) | Abort \<Rightarrow> Some Abort | Undef \<Rightarrow> Some Undef) = Some r"
  have "loop_result s r" if ok: "sim_ok s"
  proof (cases "should_halt s")
    case True
    with r ok show ?thesis by (auto simp: loop_result_def)
  next
    case False
    show ?thesis
    proof (cases "execute_instruction s")
      case (Ret x)
      then obtain g s' where x: "execute_instruction s = Ret (g, s')" by (cases x) auto
      note s' = execute_instruction_ok(2) [OF ok x]
      show ?thesis
      proof (cases g)
        case True
        with False r x IH [of s' r] s' have "loop_result s' r" by simp
        then show ?thesis using False x True by (auto simp: loop_result_def split: outcome.splits)
      qed (use False r x s' in \<open>auto simp: loop_result_def\<close>)
    next
      case Undef
      with False ok have "next_undefined s" by (simp add: next_undefined_iff)
      with False r Undef show ?thesis by (auto simp: loop_result_def)
    qed (use False r execute_instruction_ok(1) [OF ok] in \<open>auto simp: loop_result_def\<close>)
  qed
  then show "sim_ok s \<longrightarrow> loop_result s r" by blast
qed

lemma run_loop_Undef: "runs_to s t \<Longrightarrow> next_undefined t \<Longrightarrow> sim_ok s \<Longrightarrow> run_loop s = Some Undef"
proof (induction rule: runs_to.induct)
  case (runs_here s)
  then show ?case by (subst run_loop.simps) (simp add: next_undefined_iff)
next
  case (runs_on s s' t)
  then show ?case using execute_instruction_ok(2) by (subst run_loop.simps) simp
qed

lemma run_loop_undefined_iff:
  assumes "sim_ok s" shows "run_loop s = Some Undef \<longleftrightarrow> (\<exists>t. runs_to s t \<and> next_undefined t)"
  using run_loop_result [of s Undef] run_loop_Undef [of s] assms by (auto simp: loop_result_def)

lemma safe_print_registers [safe_rules]: "safe sim_ok (\<lambda>_. True) print_registers"
  unfolding print_registers_def Let_def
  by ((rule safe_bind_state | (rule safe_bind, rule safe_prim) | rule safe_rules | simp add: sim_ok_PC)+)

lemma safe_print_register [safe_rules]: "safe sim_ok (\<lambda>_. True) (print_register r)"
  unfolding print_register_def by (((rule safe_bind, rule safe_prim) | rule safe_rules | simp)+)

lemma safe_dump_delayed [safe_rules]: "safe sim_ok (\<lambda>_. True) dump_delayed_mem_updates"
  unfolding dump_delayed_mem_updates_def
  by (((rule safe_bind, rule safe_prim) | rule safe_rules | force simp: loc_in_range_def)+)

lemma safe_show_state [safe_rules]: "safe sim_ok (\<lambda>_. True) show_state_if_stop_visible"
  unfolding show_state_if_stop_visible_def
  by (((rule safe_bind, rule safe_prim) | rule safe_rules | simp)+)

lemma safe_before_run: "safe sim_ok (\<lambda>_. True) before_run"
  unfolding before_run_def by (((rule safe_bind, rule safe_prim) | rule safe_rules | simp)+)

lemma safe_after_run: "safe sim_ok (\<lambda>_. True) (after_run tty)"
  unfolding after_run_def by (((rule safe_bind, rule safe_prim) | rule safe_rules | simp)+)

text \<open>
  Claim C8: a run of the machine from a state with 16-bit values reaches undefined behaviour
  exactly when some instruction on its way is fetched with the undefined operands of a division,
  remainder or shift, and whenever it returns, registers and memory hold 16-bit values.
\<close>

theorem run_until_stopped_ok:
  assumes "sim_ok s"
  shows "(run_until_stopped tty s = Some Undef \<longleftrightarrow>
      (\<exists>u s0 t. before_run s = Ret (u, s0) \<and> runs_to s0 t \<and> \<not> should_halt t \<and> (\<exists>s1. fetch t = Ret ((), s1) \<and> step_undefined s1))) \<and>
    (\<forall>u s'. run_until_stopped tty s = Some (Ret (u, s')) \<longrightarrow> sim_ok s')"
proof (cases "before_run s")
  case (Ret x)
  then obtain s0 where b: "before_run s = Ret ((), s0)" by (cases x) auto
  with assms safe_before_run have s0: "sim_ok s0" by (auto simp: safe_def)
  note run = run_until_stopped_def bind_run_def b
  show ?thesis
  proof (cases "run_loop s0")
    case None
    then show ?thesis using run_loop_undefined_iff [OF s0] b by (simp add: run next_undefined_def)
  next
    case (Some r)
    with run_loop_result s0 have "loop_result s0 r" by blast
    then show ?thesis
      using run_loop_undefined_iff [OF s0] safe_after_run [of tty] b Some
      by (cases r) (auto simp: run next_undefined_def loop_result_def safe_def)
  qed
qed (use assms safe_before_run in \<open>auto simp: run_until_stopped_def bind_run_def safe_def\<close>)

text \<open>An addition with a breakpoint behind it, where the run returns; the flag keeps it from printing the registers.\<close>

definition demo_stop :: sim where
  "demo_stop = (demo_sim 0x1265)\<lparr>lc3_breakpoints := (\<lambda>a. a = 0x3001), interrupted_at_gui_request := True\<rparr>"

lemma demo_stop_ok: "sim_ok demo_stop"
  using demo_sim_ok [of "0x1265"] by (simp add: demo_stop_def sim_ok_def loc_in_range_def)

definition demo_fetched :: sim where
  "demo_fetched = demo_stop\<lparr>lc3_register := (lc3_register demo_stop)(R_IR := 0x1265, R_PC := 0x3001)\<rparr>"

lemma demo_stop_fetch: "fetch demo_stop = Ret ((), demo_fetched)"
  by (simp add: fetch_def read_memory_traced_def read_memory_def mem_at_def demo_stop_def demo_sim_def demo_fetched_def
        sim_globals_def reg_num_defs REG_def set_REG_def cfun_defs)

lemma demo_stop_decode: "\<exists>d. executable_def 0x1265 = Some d \<and> d_code d = Some C_ADD_RRI"
  by (simp add: executable_def_def lc3_def_def DEF_INST_def DEF_P_OP_def def_matches_def)

lemma demo_add: "\<exists>s'. run_code C_ADD_RRI (demo_fetched\<lparr>last_flags := f\<rparr>) = Ret ((), s') \<and> lc3_register s' 1 = 5 \<and>
    lc3_register s' R_PC = 0x3001 \<and> lc3_breakpoints s' 0x3001 \<and> interrupted_at_gui_request s' \<and> \<not> need_a_stop_notice s' \<and>
    traceout s' = None \<and> \<not> gui_mode s'"
  by (simp add: on_SR1_imm_def put_DR_def SET_CC_def I_DR_def I_SR1_def demo_fetched_def demo_stop_def demo_sim_def sim_globals_def
        reg_num_defs REG_def set_REG_def cfun_defs F_SR1_def F_DR_def F_imm5_def)

lemma demo_stop_step: "\<exists>s'. execute_instruction demo_stop = Ret (False, s') \<and> lc3_register s' 1 = 5 \<and>
    interrupted_at_gui_request s' \<and> \<not> need_a_stop_notice s'"
proof -
  obtain d where d: "executable_def 0x1265 = Some d" "d_code d = Some C_ADD_RRI" using demo_stop_decode by blast
  obtain s' where s': "run_code C_ADD_RRI (demo_fetched\<lparr>last_flags := d_flags d\<rparr>) = Ret ((), s')" "lc3_register s' 1 = 5"
    "lc3_register s' R_PC = 0x3001" "lc3_breakpoints s' 0x3001" "interrupted_at_gui_request s'" "\<not> need_a_stop_notice s'"
    "traceout s' = None" "\<not> gui_mode s'" using demo_add [of "d_flags d"] by blast
  have ir: "lc3_register demo_fetched R_IR = 0x1265" by (simp add: demo_fetched_def reg_num_defs)
  have "execute_instruction demo_stop = seqS (run_code C_ADD_RRI) after_instruction (demo_fetched\<lparr>last_flags := d_flags d\<rparr>)"
    by (simp add: execute_instruction_split execute_fetched_def seqS_def bindS_def REG_def getS_def putS_def demo_stop_fetch ir d del: run_code.simps)
  then have "execute_instruction demo_stop = after_instruction s'" by (simp add: seqS_def bindS_def s'(1) del: run_code.simps)
  moreover have "\<exists>s''. after_instruction s' = Ret (False, s'') \<and> lc3_register s'' 1 = 5 \<and> interrupted_at_gui_request s'' \<and>
      \<not> need_a_stop_notice s''"
    using s'(2-) by (simp add: after_instruction_def trace_regs_def cfun_defs loc_in_range_def emit_def)
  ultimately show ?thesis by simp
qed

lemma demo_stop_run: "\<exists>s'. run_until_stopped False demo_stop = Some (Ret ((), s')) \<and> lc3_register s' 1 = 5"
proof -
  have g: "\<not> gui_mode demo_stop" "demo_stop\<lparr>should_halt := False\<rparr> = demo_stop" "\<not> should_halt demo_stop"
    by (simp_all add: demo_stop_def demo_sim_def sim_globals_def)
  from demo_stop_step obtain s' where s': "execute_instruction demo_stop = Ret (False, s')" "lc3_register s' 1 = 5"
    "interrupted_at_gui_request s'" "\<not> need_a_stop_notice s'" by blast
  then show ?thesis
    by (simp add: run_until_stopped_def before_run_def bind_run_def run_loop.simps cfun_defs g after_run_def
        show_state_if_stop_visible_def)
qed

theorem run_until_stopped_ok_witness:
  "(\<exists>s'. run_until_stopped False demo_stop = Some (Ret ((), s')) \<and> lc3_register s' 1 = 5 \<and> sim_ok s') \<and>
   run_until_stopped False (demo_sim 0xD090) = Some Undef"
proof
  show "\<exists>s'. run_until_stopped False demo_stop = Some (Ret ((), s')) \<and> lc3_register s' 1 = 5 \<and> sim_ok s'"
    using demo_stop_run run_until_stopped_ok [OF demo_stop_ok, of False] by blast
  have d: "before_run (demo_sim 0xD090) = Ret ((), demo_sim 0xD090)" "\<not> should_halt (demo_sim 0xD090)"
    by (simp_all add: demo_sim_def sim_globals_def before_run_def cfun_defs)
  show "run_until_stopped False (demo_sim 0xD090) = Some Undef"
    using run_until_stopped_ok [OF demo_sim_ok [of "0xD090"], of False] demo_divide_fetch d runs_here
    by (fastforce simp: loc_in_range_def)
qed

end
