(* ===== verification/Sim_ISA.thy ===== *)
theory Sim_ISA
  imports Sim_Safety LC3_ISA
begin

text \<open>
  The lc3tools simulator implements the instruction set: executing an instruction outside the
  GUI, with no stop condition armed, takes the step of the specification wherever that is
  defined.  The simulator computes on C ints that hold 16-bit values; the specification on
  16-bit words.
\<close>

section \<open>Decoding\<close>

lemma uint_and_eq: "uint w AND uint m = uint (k :: u16) \<longleftrightarrow> w AND m = k"
  by (metis uint_and word_uint_eq_iff)

lemma uint_and_int:
  fixes w :: u16
  assumes "val16 m" "val16 k"
  shows "uint w AND m = k \<longleftrightarrow> w AND word_of_int m = word_of_int k"
  using uint_and_eq [of w "word_of_int m" "word_of_int k"] assms
  by (simp add: loc_in_range_def unsigned_of_int take_bit_int_eq_self)

lemma table_bits:
  fixes w :: u16
  shows
  "uint w AND 0xF038 = 0x1000 \<longleftrightarrow>
     \<not> bit w 3 \<and> \<not> bit w 4 \<and> \<not> bit w 5 \<and> bit w 12 \<and> \<not> bit w 13 \<and> \<not> bit w 14 \<and> \<not> bit w 15"
  "uint w AND 0xF020 = 0x1020 \<longleftrightarrow>
     bit w 5 \<and> bit w 12 \<and> \<not> bit w 13 \<and> \<not> bit w 14 \<and> \<not> bit w 15"
  "uint w AND 0xF038 = 0x5000 \<longleftrightarrow>
     \<not> bit w 3 \<and> \<not> bit w 4 \<and> \<not> bit w 5 \<and> bit w 12 \<and> \<not> bit w 13 \<and> bit w 14 \<and> \<not> bit w 15"
  "uint w AND 0xF020 = 0x5020 \<longleftrightarrow>
     bit w 5 \<and> bit w 12 \<and> \<not> bit w 13 \<and> bit w 14 \<and> \<not> bit w 15"
  "uint w AND 0xF000 = 0x0 \<longleftrightarrow>
     \<not> bit w 12 \<and> \<not> bit w 13 \<and> \<not> bit w 14 \<and> \<not> bit w 15"
  "uint w AND 0xFE3F = 0xC000 \<longleftrightarrow>
     \<not> bit w 0 \<and> \<not> bit w (Suc 0) \<and> \<not> bit w 2 \<and> \<not> bit w 3 \<and> \<not> bit w 4 \<and> \<not> bit w 5 \<and> \<not> bit w 9 \<and>
     \<not> bit w 10 \<and> \<not> bit w 11 \<and> \<not> bit w 12 \<and> \<not> bit w 13 \<and> bit w 14 \<and> bit w 15"
  "uint w AND 0xF800 = 0x4800 \<longleftrightarrow>
     bit w 11 \<and> \<not> bit w 12 \<and> \<not> bit w 13 \<and> bit w 14 \<and> \<not> bit w 15"
  "uint w AND 0xFE3F = 0x4000 \<longleftrightarrow>
     \<not> bit w 0 \<and> \<not> bit w (Suc 0) \<and> \<not> bit w 2 \<and> \<not> bit w 3 \<and> \<not> bit w 4 \<and> \<not> bit w 5 \<and> \<not> bit w 9 \<and>
     \<not> bit w 10 \<and> \<not> bit w 11 \<and> \<not> bit w 12 \<and> \<not> bit w 13 \<and> bit w 14 \<and> \<not> bit w 15"
  "uint w AND 0xF000 = 0x2000 \<longleftrightarrow>
     \<not> bit w 12 \<and> bit w 13 \<and> \<not> bit w 14 \<and> \<not> bit w 15"
  "uint w AND 0xF000 = 0xA000 \<longleftrightarrow>
     \<not> bit w 12 \<and> bit w 13 \<and> \<not> bit w 14 \<and> bit w 15"
  "uint w AND 0xF000 = 0x6000 \<longleftrightarrow>
     \<not> bit w 12 \<and> bit w 13 \<and> bit w 14 \<and> \<not> bit w 15"
  "uint w AND 0xF000 = 0xE000 \<longleftrightarrow>
     \<not> bit w 12 \<and> bit w 13 \<and> bit w 14 \<and> bit w 15"
  "uint w AND 0xF000 = 0x8000 \<longleftrightarrow>
     \<not> bit w 12 \<and> \<not> bit w 13 \<and> \<not> bit w 14 \<and> bit w 15"
  "uint w AND 0xF000 = 0x3000 \<longleftrightarrow>
     bit w 12 \<and> bit w 13 \<and> \<not> bit w 14 \<and> \<not> bit w 15"
  "uint w AND 0xF000 = 0xB000 \<longleftrightarrow>
     bit w 12 \<and> bit w 13 \<and> \<not> bit w 14 \<and> bit w 15"
  "uint w AND 0xF000 = 0x7000 \<longleftrightarrow>
     bit w 12 \<and> bit w 13 \<and> bit w 14 \<and> \<not> bit w 15"
  "uint w AND 0xF03F = 0x903F \<longleftrightarrow>
     bit w 0 \<and> bit w (Suc 0) \<and> bit w 2 \<and> bit w 3 \<and> bit w 4 \<and> bit w 5 \<and> bit w 12 \<and>
     \<not> bit w 13 \<and> \<not> bit w 14 \<and> bit w 15"
  "uint w AND 0xFF00 = 0xF000 \<longleftrightarrow>
     \<not> bit w 8 \<and> \<not> bit w 9 \<and> \<not> bit w 10 \<and> \<not> bit w 11 \<and> bit w 12 \<and> bit w 13 \<and> bit w 14 \<and>
     bit w 15"
  by (simp_all add: uint_and_int loc_in_range_def bits16)

lemma opcode_bits:
  fixes w :: u16
  shows
  "drop_bit 12 w = 0 \<longleftrightarrow> \<not> bit w 12 \<and> \<not> bit w 13 \<and> \<not> bit w 14 \<and> \<not> bit w 15"
  "drop_bit 12 w = 1 \<longleftrightarrow> bit w 12 \<and> \<not> bit w 13 \<and> \<not> bit w 14 \<and> \<not> bit w 15"
  "drop_bit 12 w = 2 \<longleftrightarrow> \<not> bit w 12 \<and> bit w 13 \<and> \<not> bit w 14 \<and> \<not> bit w 15"
  "drop_bit 12 w = 3 \<longleftrightarrow> bit w 12 \<and> bit w 13 \<and> \<not> bit w 14 \<and> \<not> bit w 15"
  "drop_bit 12 w = 4 \<longleftrightarrow> \<not> bit w 12 \<and> \<not> bit w 13 \<and> bit w 14 \<and> \<not> bit w 15"
  "drop_bit 12 w = 5 \<longleftrightarrow> bit w 12 \<and> \<not> bit w 13 \<and> bit w 14 \<and> \<not> bit w 15"
  "drop_bit 12 w = 6 \<longleftrightarrow> \<not> bit w 12 \<and> bit w 13 \<and> bit w 14 \<and> \<not> bit w 15"
  "drop_bit 12 w = 7 \<longleftrightarrow> bit w 12 \<and> bit w 13 \<and> bit w 14 \<and> \<not> bit w 15"
  "drop_bit 12 w = 8 \<longleftrightarrow> \<not> bit w 12 \<and> \<not> bit w 13 \<and> \<not> bit w 14 \<and> bit w 15"
  "drop_bit 12 w = 9 \<longleftrightarrow> bit w 12 \<and> \<not> bit w 13 \<and> \<not> bit w 14 \<and> bit w 15"
  "drop_bit 12 w = 10 \<longleftrightarrow> \<not> bit w 12 \<and> bit w 13 \<and> \<not> bit w 14 \<and> bit w 15"
  "drop_bit 12 w = 11 \<longleftrightarrow> bit w 12 \<and> bit w 13 \<and> \<not> bit w 14 \<and> bit w 15"
  "drop_bit 12 w = 12 \<longleftrightarrow> \<not> bit w 12 \<and> \<not> bit w 13 \<and> bit w 14 \<and> bit w 15"
  "drop_bit 12 w = 13 \<longleftrightarrow> bit w 12 \<and> \<not> bit w 13 \<and> bit w 14 \<and> bit w 15"
  "drop_bit 12 w = 14 \<longleftrightarrow> \<not> bit w 12 \<and> bit w 13 \<and> bit w 14 \<and> bit w 15"
  "drop_bit 12 w = 15 \<longleftrightarrow> bit w 12 \<and> bit w 13 \<and> bit w 14 \<and> bit w 15"
  by (simp_all add: bits16)

lemma decode_table:
  assumes "decode w = Some i"
  shows "executable_def (uint w) = Some (case i of
      Addr _ _ _ \<Rightarrow> DEF_INST ''ADD'' FMT_RRR 0xF038 0x1000 FLG_NONE C_ADD_RRR
    | Addi _ _ _ \<Rightarrow> DEF_INST ''ADD'' FMT_RRI 0xF020 0x1020 FLG_NONE C_ADD_RRI
    | Andr _ _ _ \<Rightarrow> DEF_INST ''AND'' FMT_RRR 0xF038 0x5000 FLG_NONE C_AND_RRR
    | Andi _ _ _ \<Rightarrow> DEF_INST ''AND'' FMT_RRI 0xF020 0x5020 FLG_NONE C_AND_RRI
    | Br _ _ _ _ \<Rightarrow> DEF_INST ''BR'' FMT_CL 0xF000 0x0000 FLG_NONE C_BR
    | Jmp _ \<Rightarrow> DEF_INST ''JMP'' FMT_R 0xFE3F 0xC000 FLG_NONE C_JMP
    | Jsr _ \<Rightarrow> DEF_INST ''JSR'' FMT_L 0xF800 0x4800 FLG_SUBROUTINE C_JSR
    | Jsrr _ \<Rightarrow> DEF_INST ''JSRR'' FMT_R 0xFE3F 0x4000 FLG_SUBROUTINE C_JSRR
    | Ld _ _ \<Rightarrow> DEF_INST ''LD'' FMT_RL 0xF000 0x2000 FLG_NONE C_LD
    | Ldi _ _ \<Rightarrow> DEF_INST ''LDI'' FMT_RL 0xF000 0xA000 FLG_NONE C_LDI
    | Ldr _ _ _ \<Rightarrow> DEF_INST ''LDR'' FMT_RRI6 0xF000 0x6000 FLG_NONE C_LDR
    | Lea _ _ \<Rightarrow> DEF_INST ''LEA'' FMT_RL 0xF000 0xE000 FLG_NONE C_LEA
    | Notr _ _ \<Rightarrow> DEF_INST ''NOT'' FMT_RR 0xF03F 0x903F FLG_NONE C_NOT
    | St _ _ \<Rightarrow> DEF_INST ''ST'' FMT_RL 0xF000 0x3000 FLG_NONE C_ST
    | Sti _ _ \<Rightarrow> DEF_INST ''STI'' FMT_RL 0xF000 0xB000 FLG_NONE C_STI
    | Str _ _ _ \<Rightarrow> DEF_INST ''STR'' FMT_RRI6 0xF000 0x7000 FLG_NONE C_STR
    | Trap _ \<Rightarrow> DEF_INST ''TRAP'' FMT_V 0xFF00 0xF000 FLG_SUBROUTINE C_TRAP)"
  using assms
  by (cases i; hypsubst)
     (drule decode_inv, clarsimp simp: executable_def_def lc3_def_def DEF_INST_def DEF_P_OP_def
        def_matches_def table_bits opcode_bits bits16)+

section \<open>Values\<close>

abbreviation w16 :: "int \<Rightarrow> u16" where "w16 \<equiv> word_of_int"

lemma uint_w16: "val16 x \<Longrightarrow> uint (w16 x) = x"
  by (simp add: loc_in_range_def unsigned_of_int take_bit_int_eq_self)

lemma take_bit_uint16 [simp]: "take_bit 16 (uint (w :: u16)) = uint w"
  using uint_bounded [of w] by (simp add: take_bit_int_eq_self)

lemma w16_FFFF [simp]: "w16 (x AND 0xFFFF) = w16 x"
  by (rule bit_word_eqI) (simp add: bit_simps and_FFFF take_bit_eq_mod [of 16 x, simplified, symmetric])

lemma and_FFFF_word [simp]: "(w :: u16) AND 65535 = w"
  by (simp add: bits16)

lemma w16_and [simp]: "w16 (a AND b) = w16 a AND w16 b"
  by (rule bit_word_eqI) (auto simp: bit_simps)

lemma w16_not: "w16 (a XOR 0xFFFF) = NOT (w16 a)"
proof -
  have "w16 (a XOR mask 16) = NOT (w16 a)"
    by (rule bit_word_eqI) (auto simp: bit_simps)
  then show ?thesis by (simp add: mask_eq_exp_minus_1)
qed

lemma and_not_or_mask:
  fixes i :: int
  shows "(if \<not> bit i k then i AND mask k else i OR NOT (mask k)) = signed_take_bit k i"
  by (rule bit_eqI) (auto simp: bit_simps not_le min_def)

lemma F_imm_signed:
  "F_imm5 i = signed_take_bit 4 i" "F_imm6 i = signed_take_bit 5 i"
  "F_imm9 i = signed_take_bit 8 i" "F_imm11 i = signed_take_bit 10 i"
proof -
  have b: "i AND 2 ^ k = 0 \<longleftrightarrow> \<not> bit i k" for k by (simp add: and_exp_eq_0_iff_not_bit)
  have nine: "n < 9 \<longleftrightarrow> n < 8 \<or> n = 8" for n :: nat by auto
  have m9: "\<not> bit i 8 \<Longrightarrow> i AND mask 9 = i AND mask 8"
    by (rule bit_eqI) (auto simp: bit_simps nine)
  have o9: "bit i 8 \<Longrightarrow> i OR NOT (mask 9) = i OR NOT (mask 8)"
    by (rule bit_eqI) (auto simp: bit_simps nine)
  show "F_imm5 i = signed_take_bit 4 i"
    using b [of 4] and_not_or_mask [of i 4] by (simp add: F_imm5_def mask_eq_exp_minus_1 split: if_splits)
  show "F_imm6 i = signed_take_bit 5 i"
    using b [of 5] and_not_or_mask [of i 5] by (simp add: F_imm6_def mask_eq_exp_minus_1 split: if_splits)
  show "F_imm11 i = signed_take_bit 10 i"
    using b [of 10] and_not_or_mask [of i 10] by (simp add: F_imm11_def mask_eq_exp_minus_1 split: if_splits)
  show "F_imm9 i = signed_take_bit 8 i"
    using b [of 8] and_not_or_mask [of i 8] m9 o9
    by (simp add: F_imm9_def mask_eq_exp_minus_1 split: if_splits)
qed

lemma w16_sext: "k < 16 \<Longrightarrow> w16 (signed_take_bit k i) = sext k (w16 i)"
  by (rule bit_word_eqI) (auto simp: bit_simps min_def)

lemma w16_imm [simp]:
  "w16 (F_imm5 i) = sext 4 (w16 i)" "w16 (F_imm6 i) = sext 5 (w16 i)"
  "w16 (F_imm9 i) = sext 8 (w16 i)" "w16 (F_imm11 i) = sext 10 (w16 i)"
  by (simp_all add: F_imm_signed w16_sext)

lemma F_fld:
  fixes w :: u16
  shows "F_DR (uint w) = fld 9 w" "F_SR1 (uint w) = fld 6 w" "F_SR2 (uint w) = fld 0 w"
proof -
  have "nat (drop_bit k (uint w) AND 7) = unat (drop_bit k w AND 7)" for k
    by (simp add: unsigned_drop_bit_eq unat_eq_nat_uint uint_and)
  from this [of 9] this [of 6] this [of 0]
  show "F_DR (uint w) = fld 9 w" "F_SR1 (uint w) = fld 6 w" "F_SR2 (uint w) = fld 0 w"
    by (simp_all add: F_DR_def F_SR1_def F_SR2_def fld_def)
qed

lemma F_vec8_word: "F_vec8 (uint w) = uint ((w :: u16) AND 0xFF)"
  by (simp add: F_vec8_def uint_and)

section \<open>States\<close>

definition sim_cc :: "int \<Rightarrow> cond" where
  "sim_cc psr = (if bit psr 11 then Negative else if bit psr 10 then Zero else Positive)"

definition sim_psr_ok :: "sim \<Rightarrow> bool" where
  "sim_psr_ok s \<longleftrightarrow> F_CC (lc3_register s R_PSR) \<in> {0x0800, 0x0400, 0x0200}"

text \<open>No stop condition is armed, nothing is shown or traced.\<close>

definition calm :: "sim \<Rightarrow> bool" where
  "calm s \<longleftrightarrow> \<not> should_halt s \<and> \<not> gui_mode s \<and> traceout s = None \<and> (\<forall>a. \<not> lc3_breakpoints s a) \<and>
     \<not> loc_in_range (sys_bpt_addr s) \<and> finish_depth s \<le> 0"

definition sim_ready :: "sim \<Rightarrow> bool" where
  "sim_ready s \<longleftrightarrow> sim_ok s \<and> sim_psr_ok s \<and> calm s"

definition sim_abstract :: "sim \<Rightarrow> isa" where
  "sim_abstract s =
     \<lparr>gpr = (\<lambda>i. if i < 8 then w16 (lc3_register s i) else 0), pc = w16 (lc3_register s R_PC),
      cc = sim_cc (lc3_register s R_PSR),
      imem = (\<lambda>a. if plain a then w16 (lc3_memory s (uint a)) else 0)\<rparr>"

definition sim_step :: "sim \<Rightarrow> sim option" where
  "sim_step s =
     (if should_halt s then None
      else case execute_instruction s of Ret (go_on, s') \<Rightarrow> if go_on then Some s' else None | _ \<Rightarrow> None)"

lemma sim_abstract_sel [simp]:
  "i < 8 \<Longrightarrow> gpr (sim_abstract s) i = w16 (lc3_register s i)"
  "pc (sim_abstract s) = w16 (lc3_register s R_PC)" "cc (sim_abstract s) = sim_cc (lc3_register s R_PSR)"
  "plain a \<Longrightarrow> imem (sim_abstract s) a = w16 (lc3_memory s (uint a))"
  by (simp_all add: sim_abstract_def)

lemma calm_updates [simp]:
  "calm (s\<lparr>lc3_register := r\<rparr>) = calm s" "calm (s\<lparr>lc3_memory := m\<rparr>) = calm s"
  "calm (s\<lparr>last_flags := f\<rparr>) = calm s"
  by (simp_all add: calm_def)

lemma sim_abstract_flags [simp]: "sim_abstract (s\<lparr>last_flags := f\<rparr>) = sim_abstract s"
  by (simp add: sim_abstract_def fun_eq_iff)

section \<open>Primitives on calm states\<close>

lemma plain_device:
  assumes "plain (w16 a)" "val16 a"
  shows "a \<noteq> 0xFE00" "a \<noteq> 0xFE02" "a \<noteq> 0xFE04" "a \<noteq> 0xFE06" "a \<noteq> 0xFFFE"
proof -
  have "uint (w16 a) < 0xFE00" using assms(1) by (simp add: plain_def word_less_def)
  then have "a < 0xFE00" using uint_w16 [OF assms(2)] by simp
  then show "a \<noteq> 0xFE00" "a \<noteq> 0xFE02" "a \<noteq> 0xFE04" "a \<noteq> 0xFE06" "a \<noteq> 0xFFFE" by auto
qed

lemma read_plain:
  assumes "plain (w16 a)" "val16 a" "calm s"
  shows "read_memory_traced a s = Ret (lc3_memory s a, s)"
  using assms plain_device [OF assms(1,2)]
  by (simp add: read_memory_traced_def read_memory_def mem_at_def cfun_defs calm_def loc_in_range_def)

lemma write_plain:
  assumes "plain (w16 a)" "val16 a" "calm s"
  shows "write_memory_traced a v s = Ret ((), s\<lparr>lc3_memory := (lc3_memory s)(a := v)\<rparr>)"
  using assms plain_device [OF assms(1,2)]
  by (simp add: write_memory_traced_def write_memory_def store_mem_def mem_at_def cfun_defs calm_def loc_in_range_def)

lemma after_instruction_calm:
  assumes "calm s" "sim_ok s"
  shows "after_instruction s = Ret (True, s)"
  using assms sim_ok_PC [OF assms(2)]
  by (auto simp: after_instruction_def trace_regs_def finish_check_def gui_check_def cfun_defs calm_def)

text \<open>The state after a result has been stored and the condition codes set.\<close>

definition put_state :: "nat \<Rightarrow> int \<Rightarrow> sim \<Rightarrow> sim" where
  "put_state d v s =
     s\<lparr>lc3_register := (lc3_register s)(d := v, R_PSR :=
       (lc3_register s R_PSR AND NOT 0x0E00) OR
         (if v AND 0x8000 \<noteq> 0 then 0x0800 else if v = 0 then 0x0400 else 0x0200))\<rparr>"

lemma reg_num_neq [simp]:
  "F_DR i \<noteq> R_IR" "F_DR i \<noteq> R_PSR" "F_DR i \<noteq> R_PC" "R_IR \<noteq> F_DR i" "R_PSR \<noteq> F_DR i" "R_PC \<noteq> F_DR i"
  "R_IR \<noteq> R_PC" "R_PC \<noteq> R_IR" "R_IR \<noteq> R_PSR" "R_PSR \<noteq> R_IR" "R_PC \<noteq> R_PSR" "R_PSR \<noteq> R_PC"
  "R_IR \<noteq> R_R7" "R_PC \<noteq> R_R7" "R_PSR \<noteq> R_R7" "R_R7 \<noteq> R_IR" "R_R7 \<noteq> R_PC" "R_R7 \<noteq> R_PSR"
  by (simp_all add: reg_num_defs less_imp_neq [OF less_le_trans [OF F_less(1)]]
      less_imp_neq [OF less_le_trans [OF F_less(1)], symmetric])

lemma put_DR_run: "put_DR v s = Ret ((), put_state (F_DR (lc3_register s R_IR)) v s)"
  by (simp add: put_DR_def SET_CC_def I_DR_def REG_def set_REG_def put_state_def cfun_defs)

section \<open>Updates\<close>

lemma reg_index_neq [simp]:
  "i < 8 \<Longrightarrow> i \<noteq> R_PC" "i < 8 \<Longrightarrow> i \<noteq> R_PSR" "i < 8 \<Longrightarrow> i \<noteq> R_IR" "i < 8 \<Longrightarrow> R_PC \<noteq> i" "i < 8 \<Longrightarrow> R_PSR \<noteq> i"
  "\<not> R_PC < 8" "\<not> R_PSR < 8" "\<not> R_IR < 8" "R_R7 = 7" "R_IR \<noteq> 7" "R_PC \<noteq> 7" "R_PSR \<noteq> 7"
  by (simp_all add: reg_num_defs)

lemma flag_bits: "bit (0x800 :: int) n \<longleftrightarrow> n = 11" "bit (0x400 :: int) n \<longleftrightarrow> n = 10" "bit (0x200 :: int) n \<longleftrightarrow> n = 9"
  "bit (0xE00 :: int) n \<longleftrightarrow> n = 9 \<or> n = 10 \<or> n = 11"
proof -
  have e: "(0x800 :: int) = 2 ^ 11" "(0x400 :: int) = 2 ^ 10" "(0x200 :: int) = 2 ^ 9" by simp_all
  show "bit (0x800 :: int) n \<longleftrightarrow> n = 11" "bit (0x400 :: int) n \<longleftrightarrow> n = 10" "bit (0x200 :: int) n \<longleftrightarrow> n = 9"
    unfolding e bit_exp_iff by auto
  have "(0xE00 :: int) = 0x800 OR 0x400 OR 0x200" by simp
  then show "bit (0xE00 :: int) n \<longleftrightarrow> n = 9 \<or> n = 10 \<or> n = 11"
    unfolding \<open>0xE00 = _\<close> e bit_or_iff bit_exp_iff by auto
qed

lemma and_8000: "(v :: int) AND 0x8000 = 0 \<longleftrightarrow> \<not> bit v 15"
  using and_exp_eq_0_iff_not_bit [of v 15] by simp

lemma sim_cc_set:
  assumes "val16 v"
  shows "sim_cc ((psr AND NOT 0x0E00) OR
      (if v AND 0x8000 \<noteq> 0 then 0x0800 else if v = 0 then 0x0400 else 0x0200)) = sign (w16 v)"
proof -
  have "v = 0 \<longleftrightarrow> w16 v = 0" using uint_w16 [OF assms] by (metis word_of_int_0 unsigned_0)
  then show ?thesis
    by (auto simp: sim_cc_def sign_def and_8000 bit_or_iff bit_and_iff bit_not_iff flag_bits bit_simps)
qed

lemma abstract_put_state:
  "d < 8 \<Longrightarrow> val16 v \<Longrightarrow> sim_abstract (put_state d v s) = put d (w16 v) (sim_abstract s)"
  using sim_cc_set [of v "lc3_register s R_PSR"]
  by (auto simp: sim_abstract_def put_def put_state_def fun_eq_iff)

lemma psr_put_state: "sim_psr_ok (put_state d v s)"
proof -
  have "F_CC ((psr AND NOT 0x0E00) OR f) = f" if "f \<in> {0x0800, 0x0400, 0x0200}" for psr f :: int
    using that by (intro bit_eqI) (auto simp: F_CC_def bit_or_iff bit_and_iff bit_not_iff flag_bits)
  then show ?thesis by (simp add: sim_psr_ok_def put_state_def)
qed

lemma calm_put_state [simp]: "calm (put_state d v s) = calm s"
  by (simp add: put_state_def)

lemma abstract_store_mem:
  assumes "val16 a" "plain (w16 a)"
  shows "sim_abstract (s\<lparr>lc3_memory := (lc3_memory s)(a := v)\<rparr>) =
     (sim_abstract s)\<lparr>imem := (imem (sim_abstract s))(w16 a := w16 v)\<rparr>"
proof -
  have "uint b = a \<longleftrightarrow> b = w16 a" for b using uint_w16 [OF assms(1)] by auto
  with assms show ?thesis by (auto simp: sim_abstract_def fun_eq_iff)
qed

lemma psr_ok_updates [simp]:
  "sim_psr_ok (s\<lparr>lc3_memory := m\<rparr>) = sim_psr_ok s"
  "sim_psr_ok (s\<lparr>last_flags := f\<rparr>) = sim_psr_ok s"
  by (simp_all add: sim_psr_ok_def)

section \<open>Instructions\<close>

definition code_of_instr :: "instr \<Rightarrow> inst_code" where
  "code_of_instr i =
     (case i of
        Addr _ _ _ \<Rightarrow> C_ADD_RRR | Addi _ _ _ \<Rightarrow> C_ADD_RRI | Andr _ _ _ \<Rightarrow> C_AND_RRR | Andi _ _ _ \<Rightarrow> C_AND_RRI
      | Br _ _ _ _ \<Rightarrow> C_BR | Jmp _ \<Rightarrow> C_JMP | Jsr _ \<Rightarrow> C_JSR | Jsrr _ \<Rightarrow> C_JSRR
      | Ld _ _ \<Rightarrow> C_LD | Ldi _ _ \<Rightarrow> C_LDI | Ldr _ _ _ \<Rightarrow> C_LDR | Lea _ _ \<Rightarrow> C_LEA | Notr _ _ \<Rightarrow> C_NOT
      | St _ _ \<Rightarrow> C_ST | Sti _ _ \<Rightarrow> C_STI | Str _ _ _ \<Rightarrow> C_STR | Trap _ \<Rightarrow> C_TRAP)"

text \<open>What the code block of an instruction has to achieve.\<close>

definition block_ok :: "inst_code \<Rightarrow> sim \<Rightarrow> isa \<Rightarrow> bool" where
  "block_ok c s m \<longleftrightarrow> (\<exists>s'. run_code c s = Ret ((), s') \<and> sim_abstract s' = m \<and> sim_psr_ok s' \<and> calm s')"

lemma block_put:
  assumes "run_code c s = put_DR v s" "val16 v" "calm s" "m = put (F_DR (lc3_register s R_IR)) (w16 v) (sim_abstract s)"
  shows "block_ok c s m"
  using assms by (simp add: block_ok_def put_DR_run abstract_put_state psr_put_state)

lemma reg_val: "sim_ok s \<Longrightarrow> i < 8 \<Longrightarrow> val16 (lc3_register s i)"
  by (simp add: sim_ok_def)

lemma mem_val: "sim_ok s \<Longrightarrow> val16 a \<Longrightarrow> val16 (lc3_memory s a)"
  by (simp add: sim_ok_def)

lemma imem_abs: "plain (w16 a) \<Longrightarrow> val16 a \<Longrightarrow> imem (sim_abstract s) (w16 a) = w16 (lc3_memory s a)"
  by (simp add: uint_w16)

lemma load_int:
  assumes "load (w16 a) (sim_abstract s) = Some v" "val16 a" "sim_ok s"
  shows "plain (w16 a)" "v = w16 (lc3_memory s a)" "val16 (lc3_memory s a)"
  using assms imem_abs [of a s] mem_val [of s a] by (auto simp: load_def split: if_splits)

text \<open>What each code block does, as an equation on the state.\<close>

abbreviation IR :: "sim \<Rightarrow> int" where "IR s \<equiv> lc3_register s R_IR"
abbreviation PC :: "sim \<Rightarrow> int" where "PC s \<equiv> lc3_register s R_PC"
abbreviation SR1_val :: "sim \<Rightarrow> int" where "SR1_val s \<equiv> lc3_register s (F_SR1 (IR s))"
abbreviation DR_val :: "sim \<Rightarrow> int" where "DR_val s \<equiv> lc3_register s (F_DR (IR s))"
abbreviation pc_addr :: "sim \<Rightarrow> int" where "pc_addr s \<equiv> (PC s + F_imm9 (IR s)) AND 0xFFFF"
abbreviation base_addr :: "sim \<Rightarrow> int" where "base_addr s \<equiv> (SR1_val s + F_imm6 (IR s)) AND 0xFFFF"

lemma bindS_eq: "m s = Ret (a, s') \<Longrightarrow> bindS m f s = f a s'"
  by (simp add: bindS_def)

lemma PC_plus_run: "PC_plus imm s = Ret ((PC s + imm (IR s)) AND 0xFFFF, s)"
  by (simp add: PC_plus_def REG_def cfun_defs)

lemma Base_plus_run: "Base_plus s = Ret (base_addr s, s)"
  by (simp add: Base_plus_def I_SR1_def REG_def cfun_defs)

lemmas block_simps = on_SR1_SR2_def on_SR1_imm_def I_SR1_def I_SR2_def I_DR_def REG_def set_REG_def cfun_defs
  ADD_FLAGS_def

lemma run_put:
  "run_code C_ADD_RRR s = put_DR ((SR1_val s + lc3_register s (F_SR2 (IR s))) AND 0xFFFF) s"
  "run_code C_ADD_RRI s = put_DR ((SR1_val s + F_imm5 (IR s)) AND 0xFFFF) s"
  "run_code C_AND_RRR s = put_DR (SR1_val s AND lc3_register s (F_SR2 (IR s))) s"
  "run_code C_AND_RRI s = put_DR (SR1_val s AND F_imm5 (IR s)) s"
  "run_code C_LEA s = put_DR (pc_addr s) s"
  "run_code C_NOT s = put_DR (SR1_val s XOR 0xFFFF) s"
  by (simp_all add: block_simps PC_plus_def)

lemma run_load:
  assumes "sim_ok s" "calm s"
  shows "plain (w16 (pc_addr s)) \<Longrightarrow> run_code C_LD s = put_DR (lc3_memory s (pc_addr s)) s"
    and "plain (w16 (base_addr s)) \<Longrightarrow> run_code C_LDR s = put_DR (lc3_memory s (base_addr s)) s"
    and "plain (w16 (pc_addr s)) \<Longrightarrow> plain (w16 (lc3_memory s (pc_addr s))) \<Longrightarrow>
      run_code C_LDI s = put_DR (lc3_memory s (lc3_memory s (pc_addr s))) s"
  using assms
  by (simp_all only: run_code.simps bindS_eq [OF PC_plus_run] bindS_eq [OF Base_plus_run]
      bindS_eq [OF read_plain] val16_and_FFFF mem_val)

lemma source_register:
  "bindS I_DR (\<lambda>r. bindS (REG r) f) s = f (DR_val s) s" for f :: "int \<Rightarrow> unit act"
  by (simp add: I_DR_def REG_def cfun_defs)

lemma run_store:
  assumes "sim_ok s" "calm s"
  shows "plain (w16 (pc_addr s)) \<Longrightarrow>
      run_code C_ST s = Ret ((), s\<lparr>lc3_memory := (lc3_memory s)(pc_addr s := DR_val s)\<rparr>)"
    and "plain (w16 (base_addr s)) \<Longrightarrow>
      run_code C_STR s = Ret ((), s\<lparr>lc3_memory := (lc3_memory s)(base_addr s := DR_val s)\<rparr>)"
    and "plain (w16 (pc_addr s)) \<Longrightarrow> plain (w16 (lc3_memory s (pc_addr s))) \<Longrightarrow>
      run_code C_STI s = Ret ((), s\<lparr>lc3_memory := (lc3_memory s)(lc3_memory s (pc_addr s) := DR_val s)\<rparr>)"
  using assms
  by (simp_all only: run_code.simps bindS_eq [OF PC_plus_run] bindS_eq [OF Base_plus_run]
      bindS_eq [OF read_plain] source_register write_plain val16_and_FFFF mem_val)

text \<open>A jump, and a jump that saves the return address.\<close>

definition jump :: "int \<Rightarrow> sim \<Rightarrow> sim" where
  "jump v s = s\<lparr>lc3_register := (lc3_register s)(R_PC := v)\<rparr>"

definition call :: "int \<Rightarrow> sim \<Rightarrow> sim" where
  "call v s = s\<lparr>lc3_register := (lc3_register s)(7 := PC s, R_PC := v)\<rparr>"

lemma run_jump:
  "run_code C_BR s =
     Ret ((), if lc3_register s R_PSR AND F_CC (IR s) \<noteq> 0 then jump (pc_addr s) s else s)"
  "run_code C_JMP s = Ret ((), jump (SR1_val s) (if F_SR1 (IR s) = 7
     then s\<lparr>last_flags := last_flags s OR FLG_RETURN\<rparr> else s))"
  "run_code C_JSR s = Ret ((), call ((PC s + F_imm11 (IR s)) AND 0xFFFF) s)"
  "run_code C_JSRR s = Ret ((), call (SR1_val s) s)"
  by (simp_all add: block_simps PC_plus_def jump_def call_def)

lemma run_trap:
  assumes "sim_ok s" "calm s" "plain (w16 (F_vec8 (IR s)))"
  shows "run_code C_TRAP s = Ret ((), call (lc3_memory s (F_vec8 (IR s))) s)"
proof -
  let ?s = "s\<lparr>lc3_register := (lc3_register s)(7 := PC s)\<rparr>"
  have "read_memory_traced (F_vec8 (IR s)) ?s = Ret (lc3_memory s (F_vec8 (IR s)), ?s)"
    using assms read_plain [of "F_vec8 (IR s)" ?s] by simp
  then show ?thesis by (simp add: block_simps call_def)
qed

lemma abstract_jump: "sim_abstract (jump v s) = (sim_abstract s)\<lparr>pc := w16 v\<rparr>"
  by (auto simp: jump_def sim_abstract_def fun_eq_iff)

lemma abstract_call: "sim_abstract (call v s) = (link (sim_abstract s))\<lparr>pc := w16 v\<rparr>"
  by (auto simp: call_def sim_abstract_def link_def fun_eq_iff)

lemma jump_call_keep [simp]:
  "sim_psr_ok (jump v s) = sim_psr_ok s" "sim_psr_ok (call v s) = sim_psr_ok s"
  "calm (jump v s) = calm s" "calm (call v s) = calm s"
  by (simp_all add: jump_def call_def sim_psr_ok_def)

lemma sim_cc_taken:
  fixes w :: u16
  assumes "sim_psr_ok s"
  shows "lc3_register s R_PSR AND F_CC (uint w) \<noteq> 0 \<longleftrightarrow>
    taken (bit w 11) (bit w 10) (bit w 9) (sim_cc (lc3_register s R_PSR))"
proof -
  let ?p = "lc3_register s R_PSR"
  have f: "?p AND F_CC (uint w) = F_CC ?p AND uint w"
    by (simp add: F_CC_def ac_simps)
  have b: "bit ?p n \<longleftrightarrow> bit (F_CC ?p) n" if "n \<in> {9, 10, 11}" for n
    using that by (auto simp: F_CC_def bit_and_iff flag_bits)
  have e: "0x800 AND uint w = 0 \<longleftrightarrow> \<not> bit w 11" "0x400 AND uint w = 0 \<longleftrightarrow> \<not> bit w 10"
    "0x200 AND uint w = 0 \<longleftrightarrow> \<not> bit w 9"
    using and_exp_eq_0_iff_not_bit [of "uint w" 11] and_exp_eq_0_iff_not_bit [of "uint w" 10]
      and_exp_eq_0_iff_not_bit [of "uint w" 9] by (simp_all add: and.commute bit_uint_iff)
  show ?thesis
    unfolding f sim_cc_def using assms b [of 10] b [of 11]
    by (auto simp: sim_psr_ok_def e flag_bits)
qed

section \<open>Simulation\<close>

lemma block_ret:
  "run_code c s = Ret ((), s') \<Longrightarrow> sim_abstract s' = m \<Longrightarrow> sim_psr_ok s' \<Longrightarrow> calm s' \<Longrightarrow> block_ok c s m"
  by (auto simp: block_ok_def)

lemma imem_val: "plain (w16 a) \<Longrightarrow> val16 a \<Longrightarrow> imem (sim_abstract s) (w16 a) = w16 (lc3_memory s a)"
  by (simp add: uint_w16)

text \<open>The addresses and values of the block, as words.\<close>

lemma block_words:
  assumes "IR s = uint w"
  shows "w16 (pc_addr s) = w16 (PC s) + sext 8 w" "w16 (base_addr s) = w16 (lc3_register s (fld 6 w)) + sext 5 w"
    "F_DR (IR s) = fld 9 w" "F_SR1 (IR s) = fld 6 w" "F_SR2 (IR s) = fld 0 w" "w16 (IR s) = w"
    "F_vec8 (IR s) = uint (w AND 0xFF)"
  using assms by (simp_all add: F_fld F_vec8_word)

declare run_code.simps [simp del]

text \<open>The addresses of a block, back as C ints.\<close>

lemma block_addresses:
  fixes w :: u16
  shows "uint (w16 pc' + sext 8 w) = (pc' + F_imm9 (uint w)) AND 0xFFFF"
    "uint (w16 b + sext 5 w) = (b + F_imm6 (uint w)) AND 0xFFFF"
    "sim_ok s \<Longrightarrow> uint (w16 (lc3_memory s (x AND 0xFFFF))) = lc3_memory s (x AND 0xFFFF)"
  using uint_w16 [OF val16_and_FFFF, of "pc' + F_imm9 (uint w)"]
    uint_w16 [OF val16_and_FFFF, of "b + F_imm6 (uint w)"] uint_w16 [OF mem_val, of s "x AND 0xFFFF"]
  by simp_all

lemma block_simulates_put:
  assumes ir: "IR s = uint w" and s: "sim_ok s" "calm s" "sim_psr_ok s" and dec: "decode w = Some i"
    and ex: "exec i (sim_abstract s) = Some m"
    and i: "code_of_instr i \<in> {C_ADD_RRR, C_ADD_RRI, C_AND_RRR, C_AND_RRI, C_LEA, C_NOT}"
  shows "block_ok (code_of_instr i) s m"
  using i
proof (cases i)
  case (Addr d a b)
  have "block_ok C_ADD_RRR s m"
    using decode_inv(1) [OF dec [unfolded Addr]] ex ir Addr
    by (intro block_put [OF run_put(1)] s) (auto simp: s block_addresses block_words [OF ir] F_fld F_vec8_word reg_val [OF s(1)] val16_xor w16_not)
  then show ?thesis by (simp add: Addr code_of_instr_def)
next
  case (Addi d a b)
  have "block_ok C_ADD_RRI s m"
    using decode_inv(2) [OF dec [unfolded Addi]] ex ir Addi
    by (intro block_put [OF run_put(2)] s) (auto simp: s block_addresses block_words [OF ir] F_fld F_vec8_word reg_val [OF s(1)] val16_xor w16_not)
  then show ?thesis by (simp add: Addi code_of_instr_def)
next
  case (Andr d a b)
  have "block_ok C_AND_RRR s m"
    using decode_inv(3) [OF dec [unfolded Andr]] ex ir Andr
    by (intro block_put [OF run_put(3)] s) (auto simp: s block_addresses block_words [OF ir] F_fld F_vec8_word reg_val [OF s(1)] val16_xor w16_not)
  then show ?thesis by (simp add: Andr code_of_instr_def)
next
  case (Andi d a b)
  have "block_ok C_AND_RRI s m"
    using decode_inv(4) [OF dec [unfolded Andi]] ex ir Andi
    by (intro block_put [OF run_put(4)] s) (auto simp: s block_addresses block_words [OF ir] F_fld F_vec8_word reg_val [OF s(1)] val16_xor w16_not)
  then show ?thesis by (simp add: Andi code_of_instr_def)
next
  case (Lea d a)
  have "block_ok C_LEA s m"
    using decode_inv(12) [OF dec [unfolded Lea]] ex ir Lea
    by (intro block_put [OF run_put(5)] s) (auto simp: s block_addresses block_words [OF ir] F_fld F_vec8_word reg_val [OF s(1)] val16_xor w16_not)
  then show ?thesis by (simp add: Lea code_of_instr_def)
next
  case (Notr d a)
  have "block_ok C_NOT s m"
    using decode_inv(13) [OF dec [unfolded Notr]] ex ir Notr
    by (intro block_put [OF run_put(6)] s) (auto simp: s block_addresses block_words [OF ir] F_fld F_vec8_word reg_val [OF s(1)] val16_xor w16_not)
  then show ?thesis by (simp add: Notr code_of_instr_def)
qed (auto simp: code_of_instr_def)

lemma block_simulates_load:
  assumes ir: "IR s = uint w" and s: "sim_ok s" "calm s" "sim_psr_ok s" and dec: "decode w = Some i"
    and ex: "exec i (sim_abstract s) = Some m"
    and i: "code_of_instr i \<in> {C_LD, C_LDR, C_LDI}"
  shows "block_ok (code_of_instr i) s m"
  using i
proof (cases i)
  case (Ld d a)
  have "block_ok C_LD s m"
    using decode_inv(9) [OF dec [unfolded Ld]] ex ir Ld
    by (intro block_put [OF run_load(1)] s) (auto simp: load_Some bind_eq_Some_conv mem_val [OF s(1)] imem_val s block_addresses block_words [OF ir] F_fld reg_val [OF s(1)])
  then show ?thesis by (simp add: Ld code_of_instr_def)
next
  case (Ldr d b a)
  have "block_ok C_LDR s m"
    using decode_inv(11) [OF dec [unfolded Ldr]] ex ir Ldr
    by (intro block_put [OF run_load(2)] s) (auto simp: load_Some bind_eq_Some_conv mem_val [OF s(1)] imem_val s block_addresses block_words [OF ir] F_fld reg_val [OF s(1)])
  then show ?thesis by (simp add: Ldr code_of_instr_def)
next
  case (Ldi d a)
  have "block_ok C_LDI s m"
    using decode_inv(10) [OF dec [unfolded Ldi]] ex ir Ldi
    by (intro block_put [OF run_load(3)] s) (auto simp: load_Some bind_eq_Some_conv mem_val [OF s(1)] imem_val s block_addresses block_words [OF ir] F_fld reg_val [OF s(1)])
  then show ?thesis by (simp add: Ldi code_of_instr_def)
qed (auto simp: code_of_instr_def)

lemma block_simulates_store:
  assumes ir: "IR s = uint w" and s: "sim_ok s" "calm s" "sim_psr_ok s" and dec: "decode w = Some i"
    and ex: "exec i (sim_abstract s) = Some m"
    and i: "code_of_instr i \<in> {C_ST, C_STR, C_STI}"
  shows "block_ok (code_of_instr i) s m"
  using i
proof (cases i)
  case (St d a)
  have "block_ok C_ST s m"
    using decode_inv(14) [OF dec [unfolded St]] ex ir St
    by (intro block_ret [OF run_store(1)] s) (auto simp: load_Some store_Some bind_eq_Some_conv mem_val [OF s(1)] imem_val abstract_store_mem s block_addresses block_words [OF ir] F_fld reg_val [OF s(1)])
  then show ?thesis by (simp add: St code_of_instr_def)
next
  case (Str d b a)
  have "block_ok C_STR s m"
    using decode_inv(16) [OF dec [unfolded Str]] ex ir Str
    by (intro block_ret [OF run_store(2)] s) (auto simp: load_Some store_Some bind_eq_Some_conv mem_val [OF s(1)] imem_val abstract_store_mem s block_addresses block_words [OF ir] F_fld reg_val [OF s(1)])
  then show ?thesis by (simp add: Str code_of_instr_def)
next
  case (Sti d a)
  have "block_ok C_STI s m"
    using decode_inv(15) [OF dec [unfolded Sti]] ex ir Sti
    by (intro block_ret [OF run_store(3)] s) (auto simp: load_Some store_Some bind_eq_Some_conv mem_val [OF s(1)] imem_val abstract_store_mem s block_addresses block_words [OF ir] F_fld reg_val [OF s(1)])
  then show ?thesis by (simp add: Sti code_of_instr_def)
qed (auto simp: code_of_instr_def)

lemma block_simulates_jump:
  assumes ir: "IR s = uint w" and s: "sim_ok s" "calm s" "sim_psr_ok s" and dec: "decode w = Some i"
    and ex: "exec i (sim_abstract s) = Some m"
    and i: "code_of_instr i \<in> {C_BR, C_JMP, C_JSR, C_JSRR, C_TRAP}"
  shows "block_ok (code_of_instr i) s m"
  using i
proof (cases i)
  case (Br n z p a)
  have "block_ok C_BR s m"
    using decode_inv(5) [OF dec [unfolded Br]] ex ir Br
    by (intro block_ret [OF run_jump(1)] s) (auto simp: s block_addresses block_words [OF ir] F_fld F_vec8_word reg_val [OF s(1)] val16_xor w16_not sim_cc_taken [OF s(3)] abstract_jump)
  then show ?thesis by (simp add: Br code_of_instr_def)
next
  case (Jmp b)
  have "block_ok C_JMP s m"
    using decode_inv(6) [OF dec [unfolded Jmp]] ex ir Jmp
    by (intro block_ret [OF run_jump(2)] s) (auto simp: s block_addresses block_words [OF ir] F_fld F_vec8_word reg_val [OF s(1)] val16_xor w16_not abstract_jump)
  then show ?thesis by (simp add: Jmp code_of_instr_def)
next
  case (Jsr a)
  have "block_ok C_JSR s m"
    using decode_inv(7) [OF dec [unfolded Jsr]] ex ir Jsr
    by (intro block_ret [OF run_jump(3)] s) (auto simp: s block_addresses block_words [OF ir] F_fld F_vec8_word reg_val [OF s(1)] val16_xor w16_not abstract_call)
  then show ?thesis by (simp add: Jsr code_of_instr_def)
next
  case (Jsrr b)
  have "block_ok C_JSRR s m"
    using decode_inv(8) [OF dec [unfolded Jsrr]] ex ir Jsrr
    by (intro block_ret [OF run_jump(4)] s) (auto simp: s block_addresses block_words [OF ir] F_fld F_vec8_word reg_val [OF s(1)] val16_xor w16_not abstract_call)
  then show ?thesis by (simp add: Jsrr code_of_instr_def)
next
  case (Trap v)
  have "block_ok C_TRAP s m"
    using decode_inv(17) [OF dec [unfolded Trap]] ex ir Trap
    by (intro block_ret [OF run_trap] s) (auto simp: s block_addresses block_words [OF ir] F_fld F_vec8_word reg_val [OF s(1)] val16_xor w16_not abstract_call load_Some)
  then show ?thesis by (simp add: Trap code_of_instr_def)
qed (auto simp: code_of_instr_def)

lemma block_simulates:
  assumes "IR s = uint w" "sim_ok s" "calm s" "sim_psr_ok s" "decode w = Some i" "exec i (sim_abstract s) = Some m"
  shows "block_ok (code_of_instr i) s m"
  using block_simulates_put [OF assms] block_simulates_load [OF assms] block_simulates_store [OF assms]
    block_simulates_jump [OF assms]
  by (cases i) (simp_all add: code_of_instr_def)

definition fetched :: "sim \<Rightarrow> sim" where
  "fetched s = s\<lparr>lc3_register := (lc3_register s)(R_IR := lc3_memory s (PC s), R_PC := (PC s + 1) AND 0xFFFF)\<rparr>"

lemma fetch_plain:
  assumes "plain (w16 (PC s))" "sim_ok s" "calm s"
  shows "fetch s = Ret ((), fetched s)"
  using assms read_plain [OF assms(1) sim_ok_PC [OF assms(2)] assms(3)]
  by (simp add: fetch_def fetched_def block_simps calm_def)

lemma fetched_facts [simp]:
  "IR (fetched s) = lc3_memory s (PC s)" "calm (fetched s) = calm s" "sim_psr_ok (fetched s) = sim_psr_ok s"
  "sim_abstract (fetched s) = (sim_abstract s)\<lparr>pc := w16 (PC s) + 1\<rparr>"
  by (auto simp: fetched_def sim_psr_ok_def sim_abstract_def fun_eq_iff)

lemma sim_ok_fetched: "sim_ok s \<Longrightarrow> sim_ok (fetched s)"
  using mem_val [OF _ sim_ok_PC, of s] by (simp add: fetched_def sim_ok_def)

lemma decode_code: "decode w = Some i \<Longrightarrow> \<exists>d. executable_def (uint w) = Some d \<and> d_code d = Some (code_of_instr i)"
  by (drule decode_table) (cases i; simp add: code_of_instr_def DEF_INST_def)

lemma execute_fetched_simulates:
  assumes "IR s = uint w" "sim_ok s" "calm s" "sim_psr_ok s" "decode w = Some i" "exec i (sim_abstract s) = Some m"
  shows "\<exists>s'. execute_fetched s = Ret (True, s') \<and> sim_abstract s' = m \<and> sim_ready s'"
proof -
  obtain d where d: "executable_def (IR s) = Some d" "d_code d = Some (code_of_instr i)"
    using decode_code [OF assms(5)] assms(1) by auto
  let ?s = "s\<lparr>last_flags := d_flags d\<rparr>"
  have "block_ok (code_of_instr i) ?s m"
    using assms by (intro block_simulates [of _ w]) simp_all
  then obtain s' where s': "run_code (code_of_instr i) ?s = Ret ((), s')" "sim_abstract s' = m" "sim_psr_ok s'" "calm s'"
    by (auto simp: block_ok_def)
  have ok: "sim_ok s'" using run_code_cases(3) [OF _ s'(1)] assms(2) by simp
  have "execute_fetched s = Ret (True, s')"
    using s'(1) by (simp add: execute_fetched_def d REG_def cfun_defs after_instruction_calm [OF s'(4) ok])
  with s' ok show ?thesis by (simp add: sim_ready_def)
qed

lemma sim_step_simulates:
  assumes "sim_ready s" and step: "isa_step (sim_abstract s) = Some m"
  shows "\<exists>s'. sim_step s = Some s' \<and> sim_abstract s' = m \<and> sim_ready s'"
proof -
  from assms(1) have ok: "sim_ok s" "sim_psr_ok s" "calm s" by (simp_all add: sim_ready_def)
  define w where "w = w16 (lc3_memory s (PC s))"
  from step obtain i where p: "plain (w16 (PC s))" and dec: "decode w = Some i"
    and ex: "exec i (sim_abstract (fetched s)) = Some m"
    by (auto simp: isa_step_def bind_eq_Some_conv load_Some w_def uint_w16 [OF sim_ok_PC [OF ok(1)]])
  have ir: "IR (fetched s) = uint w"
    using uint_w16 [OF mem_val [OF ok(1) sim_ok_PC [OF ok(1)]]] by (simp add: w_def)
  from execute_fetched_simulates [OF ir sim_ok_fetched [OF ok(1)] _ _ dec ex] ok obtain s' where
    s': "execute_fetched (fetched s) = Ret (True, s')" "sim_abstract s' = m" "sim_ready s'" by auto
  have "execute_instruction s = Ret (True, s')"
    unfolding execute_instruction_split using s'(1) by (simp add: seqS_def bindS_def fetch_plain [OF p ok(1,3)])
  moreover have "\<not> should_halt s" using ok(3) by (simp add: calm_def)
  ultimately show ?thesis using s' by (simp add: sim_step_def)
qed

interpretation lc3sim: lc3_simulator sim_step sim_abstract sim_ready
  by unfold_locales (rule sim_step_simulates)

text \<open>
  Claim C3: the simulator of lc3sim.c and the instruction table lc3.def implement the LC-3:
  whenever the specification can take n steps from the state of a ready simulator, executing
  n instructions succeeds without a stop and ends in that state.
\<close>

theorem lc3sim_implements_isa:
  assumes "sim_ready s" "run_steps isa_step n (sim_abstract s) = Some m"
  shows "\<exists>s'. run_steps sim_step n s = Some s' \<and> sim_abstract s' = m \<and> sim_ready s'"
  using assms by (rule lc3sim.simulates_run)

lemma demo_sim_ready: "val16 w \<Longrightarrow> sim_ready (demo_sim w)"
  using demo_sim_ok [of w]
  by (simp add: sim_ready_def) (simp add: demo_sim_def sim_psr_ok_def calm_def sim_globals_def loc_in_range_def F_CC_def)

lemma demo_sim_step:
  "run_steps isa_step 1 (sim_abstract (demo_sim 0x1025)) = Some (put 0 5 ((sim_abstract (demo_sim 0x1025))\<lparr>pc := 0x3001\<rparr>))"
  using isa_step_add_5 [of "sim_abstract (demo_sim 0x1025)"]
  by (simp add: demo_sim_def sim_abstract_def sim_globals_def plain_def reg_num_defs)

theorem lc3sim_implements_isa_witness:
  "\<exists>s'. run_steps sim_step 1 (demo_sim 0x1025) = Some s' \<and> gpr (sim_abstract s') 0 = 5"
  using lc3sim_implements_isa [OF demo_sim_ready demo_sim_step] 
  by (auto simp: put_def loc_in_range_def simp del: sim_abstract_sel)

end
