(* ===== verification/Sim_Commands.thy ===== *)
theory Sim_Commands
  imports Sim_Exec
begin

text \<open>
  The simulator's commands that do not run the machine: argument scanning, parse_address and
  parse_range, breakpoints, memory and register commands, options, and the loading of object
  and symbol files.
\<close>

section \<open>Arguments\<close>

text \<open>A sequence of \<open>%<width>s\<close> conversions: the words that could be assigned.\<close>

fun scan_words :: "nat list \<Rightarrow> string \<Rightarrow> string list" where
  "scan_words [] s = []"
| "scan_words (w # ws) s =
     (case scan_s w s of None \<Rightarrow> [] | Some (x, rest) \<Rightarrow> x # scan_words ws rest)"

definition BAD_ADDRESS :: string where
  "BAD_ADDRESS = ''Addresses must be labels or values in the range x0000 to xFFFF.''"

definition TOO_MANY_ARGS :: string where
  "TOO_MANY_ARGS = ''WARNING: Ignoring excess arguments.''"

definition warn_too_many_args :: "unit act" where
  "warn_too_many_args = bindS (getS gui_mode) (\<lambda>g. whenS (\<not> g) (puts_c TOO_MANY_ARGS))"

definition no_args_allowed :: "string \<Rightarrow> unit act" where
  "no_args_allowed args = whenS (args \<noteq> '''') warn_too_many_args"

text \<open>A line that the GUI gets in its own form.\<close>

definition report :: "string \<Rightarrow> string \<Rightarrow> unit act" where
  "report gui_text text = bindS (getS gui_mode) (\<lambda>g. emit Stdout (if g then gui_text else text))"

section \<open>Addresses\<close>

text \<open>
  The conversion of a number: the whole word must be used.  A byte from 128 on at its head and a
  number out of range are undefined.
\<close>

definition only_space :: "string \<Rightarrow> bool" where
  "only_space s \<longleftrightarrow> dropWhile isspace s = []"

definition scan_address :: "string \<Rightarrow> (int \<times> string) option outcome" where
  "scan_address a =
     (case a of
        [] \<Rightarrow> Ret None
      | c # cs \<Rightarrow>
          if c = CHR ''#'' then scan_d cs
          else
            bind_outcome (tolower_plain c) (\<lambda>l.
              if l = CHR ''x'' then (if c = CHR ''x'' then scan_x cs else Ret None) else scan_x a))"

definition parse_number :: "string \<Rightarrow> int option outcome" where
  "parse_number a =
     bind_outcome (scan_address a) (\<lambda>r.
       Ret (case r of None \<Rightarrow> None | Some (v, rest) \<Rightarrow> if only_space rest then Some v else None))"

definition strip_minus :: "string \<Rightarrow> bool \<times> string" where
  "strip_minus a = (case a of [] \<Rightarrow> (False, a) | c # cs \<Rightarrow> if c = CHR ''-'' then (True, cs) else (False, a))"

definition wrap_negative :: "bool \<Rightarrow> int \<Rightarrow> int" where
  "wrap_negative negated value =
     (let value = (if negated then - value else value) in if value < 0 then value + 0x10000 else value)"

text \<open>
  The result - 1 says that the word is no address.  Negating the smallest int is an overflow; only a
  symbol can have that value.
\<close>

definition parse_address :: "symtab \<Rightarrow> string \<Rightarrow> int outcome" where
  "parse_address st a =
     (case strip_minus a of (negated, a) \<Rightarrow>
        case find_symbol st a of
          Some p \<Rightarrow>
            if negated \<and> addr (nodes st p) = - (2 ^ 31) then Undef else Ret (wrap_negative negated (addr (nodes st p)))
        | None \<Rightarrow>
            bind_outcome (parse_number a) (\<lambda>r. Ret
              (case r of
                 None \<Rightarrow> - 1
               | Some value \<Rightarrow>
                   if value > 0xFFFF \<or> (negated \<and> value < 0) \<or> (\<not> negated \<and> value < - 0xFFFF) then - 1
                   else wrap_negative negated value)))"

definition parse_addr :: "string \<Rightarrow> int act" where
  "parse_addr a = bindS (getS symbols) (\<lambda>st. lift_out (parse_address st a))"

definition parse_range :: "string \<Rightarrow> int \<Rightarrow> int \<Rightarrow> (int \<times> int) option act" where
  "parse_range args last_end scale =
     (let words = scan_words [80, 80, 1] args; num_args = length words
      in if scale < 0 \<and> num_args < 2 then returnS None
         else if num_args < 1 then
           bindS (REG R_PC) (\<lambda>pc. returnS (Some ((pc + 0x10000 - scale) AND 0xFFFF, (pc + scale) AND 0xFFFF)))
         else if last_end \<ge> 0 \<and> strcasecmp_eq (words ! 0) ''more'' then
           seqS (whenS (num_args > 1) warn_too_many_args)
             (returnS (Some (last_end, (last_end + 2 * scale) AND 0xFFFF)))
         else
           bindS (parse_addr (words ! 0)) (\<lambda>start.
             if start = - 1 then returnS None
             else if num_args < 2 then returnS (Some (start, (start + 2 * scale) AND 0xFFFF))
             else
               bindS (parse_addr (words ! 1)) (\<lambda>end0.
                 if end0 = - 1 then returnS None
                 else
                   (let end1 = (if scale \<ge> 0 then (end0 + 1) AND 0xFFFF else end0)
                    in seqS (whenS (num_args > 2) warn_too_many_args) (returnS (Some (start, end1)))))))"

section \<open>Breakpoints\<close>

definition set_bpt :: "int \<Rightarrow> bool \<Rightarrow> unit act" where
  "set_bpt a b = putS (\<lambda>s. s\<lparr>lc3_breakpoints := (lc3_breakpoints s)(a := b)\<rparr>)"

definition clear_breakpoint :: "int \<Rightarrow> unit act" where
  "clear_breakpoint a =
     (if \<not> loc_in_range a then undefS
      else
        bindS (getS id) (\<lambda>s.
          seqS
            (if \<not> lc3_breakpoints s a
             then whenS (\<not> gui_mode s) (emit Stdout ''No such breakpoint was set.\<newline>'')
             else report (''BCLEAR '' @ fmt_d (a + 1) @ ''\<newline>'')
                    (''Cleared breakpoint at x'' @ fmt_X 4 a @ ''.\<newline>''))
            (set_bpt a False)))"

definition clear_all_breakpoints :: "unit act" where
  "clear_all_breakpoints = putS (\<lambda>s. s\<lparr>lc3_breakpoints := (\<lambda>_. False)\<rparr>)"

definition list_breakpoints :: "unit act" where
  "list_breakpoints =
     bindS (getS lc3_breakpoints) (\<lambda>bpts.
       case filter bpts (map int [0..<65536]) of
         [] \<Rightarrow> emit Stdout ''No breakpoints are set.\<newline>''
       | as \<Rightarrow> seqS (emit Stdout ''The following instructions are set as breakpoints:\<newline>'')
                    (forS disassemble_one as))"

definition set_breakpoint :: "int \<Rightarrow> unit act" where
  "set_breakpoint a =
     (if \<not> loc_in_range a then undefS
      else
        bindS (getS id) (\<lambda>s.
          if lc3_breakpoints s a
          then whenS (\<not> gui_mode s) (emit Stdout ''That breakpoint is already set.\<newline>'')
          else
            seqS (set_bpt a True)
              (report (''BREAK '' @ fmt_d (a + 1) @ ''\<newline>'') (''Set breakpoint at x'' @ fmt_X 4 a @ ''.\<newline>''))))"

definition break_usage :: "unit act" where
  "break_usage =
     seqS (emit Stdout ''breakpoint options include:\<newline>'')
       (seqS (emit Stdout ''  break clear <addr>|all -- clear one or all breakpoints\<newline>'')
         (seqS (emit Stdout ''  break list             -- list all breakpoints\<newline>'')
           (emit Stdout ''  break set <addr>       -- set a breakpoint\<newline>'')))"

definition cmd_break :: "string \<Rightarrow> unit act" where
  "cmd_break args =
     (case scan_words [10, 80, 1] args of
        [] \<Rightarrow> break_usage
      | opt # rest \<Rightarrow>
          if strncasecmp_eq opt ''list'' (length opt) then
            seqS (whenS (rest \<noteq> []) warn_too_many_args) list_breakpoints
          else
            (case rest of
               [] \<Rightarrow> break_usage
             | addr_str # trash \<Rightarrow>
                 seqS (whenS (trash \<noteq> []) warn_too_many_args)
                   (bindS (parse_addr addr_str) (\<lambda>a.
                      if strncasecmp_eq opt ''clear'' (length opt) then
                        (if strcasecmp_eq addr_str ''all'' then
                           seqS clear_all_breakpoints
                             (bindS (getS gui_mode) (\<lambda>g. whenS (\<not> g) (emit Stdout ''Cleared all breakpoints.\<newline>'')))
                         else if a \<noteq> - 1 then clear_breakpoint a
                         else puts_c BAD_ADDRESS)
                      else if strncasecmp_eq opt ''set'' (length opt) then
                        (if a \<noteq> - 1 then set_breakpoint a else puts_c BAD_ADDRESS)
                      else break_usage))))"

section \<open>Showing and changing memory\<close>

definition print_lines :: "string list \<Rightarrow> unit act" where
  "print_lines ls = forS (\<lambda>l. emit Stdout (l @ ''\<newline>'')) ls"

definition cmd_dump :: "string \<Rightarrow> unit act" where
  "cmd_dump args =
     bindS (getS dump_last_end) (\<lambda>last_end. bindS (parse_range args last_end 48) (\<lambda>r.
       case r of
         Some (start, end0) \<Rightarrow>
           seqS (dump_memory start end0) (putS (\<lambda>s. s\<lparr>dump_last_end := end0\<rparr>))
       | None \<Rightarrow> print_lines
           [''dump options include:'',
            ''  dump               -- dump memory around PC'',
            ''  dump <addr>        -- dump memory starting from an address or label'',
            ''  dump <addr> <addr> -- dump a range of memory'',
            ''  dump more          -- continue previous dump (or press <Enter>)'']))"

definition cmd_list :: "string \<Rightarrow> unit act" where
  "cmd_list args =
     bindS (getS list_last_end) (\<lambda>last_end. bindS (parse_range args last_end 10) (\<lambda>r.
       case r of
         Some (start, end0) \<Rightarrow>
           seqS (disassemble start end0) (putS (\<lambda>s. s\<lparr>list_last_end := end0\<rparr>))
       | None \<Rightarrow> print_lines
           [''list options include:'',
            ''  list               -- list instructions around PC'',
            ''  list <addr>        -- list instructions starting from an address or label'',
            ''  list <addr> <addr> -- list a range of instructions'',
            ''  list more          -- continue previous listing (or press <Enter>)'']))"

definition no_such_value :: string where
  "no_such_value = ''No address or label corresponding to the desired value exists.''"

definition cmd_memory :: "string \<Rightarrow> unit act" where
  "cmd_memory args =
     bindS (parse_range args (- 1) (- 1)) (\<lambda>r.
       case r of
         Some (a, value) \<Rightarrow>
           seqS (write_memory a value)
             (bindS (getS gui_mode) (\<lambda>g.
                if g then
                  seqS (emit Stdout (''TRANS x'' @ fmt_X 4 a @ '' x'' @ fmt_X 4 value @ ''\<newline>''))
                       (disassemble_one a)
                else emit Stdout (''Wrote x'' @ fmt_X 4 value @ '' to address x'' @ fmt_X 4 a @ ''.\<newline>'')))
       | None \<Rightarrow> report (''ERR {'' @ no_such_value @ ''}\<newline>'') ''syntax: memory <addr> <value>\<newline>'')"

definition cmd_translate :: "string \<Rightarrow> unit act" where
  "cmd_translate args =
     (let words = scan_words [80, 1] args
      in seqS (whenS (length words > 1) warn_too_many_args)
           (case words of
              [] \<Rightarrow> puts_c ''syntax: translate <addr>''
            | arg1 # _ \<Rightarrow>
                bindS (parse_addr arg1) (\<lambda>value.
                  if value = - 1
                  then report ''ERR {No such address or label exists.}\<newline>'' (BAD_ADDRESS @ ''\<newline>'')
                  else
                    bindS (read_memory value) (\<lambda>v.
                      report (''TRANS x'' @ fmt_X 4 value @ '' x'' @ fmt_X 4 v @ ''\<newline>'')
                        (''Address x'' @ fmt_X 4 value @ '' has value x'' @ fmt_x 4 v @ ''.\<newline>'')))))"

section \<open>Registers\<close>

definition rname :: "string list" where
  "rname = [''R0'', ''R1'', ''R2'', ''R3'', ''R4'', ''R5'', ''R6'', ''R7'', ''PC'', ''IR'', ''PSR'', ''CC'']"

definition cc_val :: "string list" where
  "cc_val = [''POSITIVE'', ''ZERO'', '''', ''NEGATIVE'']"

fun find_index :: "('a \<Rightarrow> bool) \<Rightarrow> 'a list \<Rightarrow> nat option" where
  "find_index P [] = None"
| "find_index P (x # xs) = (if P x then Some 0 else map_option Suc (find_index P xs))"

definition set_condition :: "string \<Rightarrow> unit act" where
  "set_condition arg2 =
     (case find_index (\<lambda>c. strncasecmp_eq arg2 c (length arg2)) cc_val of
        Some value \<Rightarrow>
          seqS (bindS (REG R_PSR) (\<lambda>psr.
                  set_REG R_PSR ((psr AND NOT 0x0E00) OR push_bit 9 (int value + 1))))
            (bindS (getS gui_mode) (\<lambda>g.
               if g then print_register R_PSR
               else emit Stdout (''Set CC to '' @ cc_val ! value @ ''.\<newline>'')))
      | None \<Rightarrow>
          report ''ERR {CC can only be set to NEGATIVE, ZERO, orPOSITIVE.}\<newline>''
            ''CC can only be set to NEGATIVE, ZERO, or POSITIVE.\<newline>'')"

definition cmd_register :: "string \<Rightarrow> unit act" where
  "cmd_register args =
     (case scan_words [80, 80, 1] args of
        arg1 # arg2 # _ \<Rightarrow>
          (case find_index (\<lambda>r. strcasecmp_eq r arg1) rname of
             None \<Rightarrow> puts_c ''Registers are R0...R7, PC, IR, PSR, and CC.''
           | Some rnum \<Rightarrow>
               if rnum = NUM_REGS then set_condition arg2
               else
                 bindS (parse_addr arg2) (\<lambda>value.
                   if value \<noteq> - 1 then
                     seqS (set_REG rnum value)
                       (bindS (getS gui_mode) (\<lambda>g.
                          if g then print_register rnum
                          else emit Stdout (''Set '' @ rname ! rnum @ '' to x'' @ fmt_X 4 value @ ''.\<newline>'')))
                   else report (''ERR {'' @ no_such_value @ ''}\<newline>'') (no_such_value @ ''\<newline>'')))
      | _ \<Rightarrow> emit Stdout ''syntax: register <reg> <value>\<newline>'')"

definition cmd_printregs :: "string \<Rightarrow> unit act" where
  "cmd_printregs args = seqS (no_args_allowed args) print_registers"

definition cmd_quit :: "string \<Rightarrow> unit act" where
  "cmd_quit args = seqS (no_args_allowed args) (exitS 0)"

definition gui_stop_and_dump :: "unit act" where
  "gui_stop_and_dump =
     seqS (putS (\<lambda>s. s\<lparr>interrupted_at_gui_request := False, sys_bpt_addr := - 1, finish_depth := 0\<rparr>))
       (seqS dump_delayed_mem_updates print_registers)"

definition cmd_lc3_stop :: "string \<Rightarrow> unit act" where
  "cmd_lc3_stop args = gui_stop_and_dump"

section \<open>Options\<close>

text \<open>The word that is inserted in the message for an option turned off.\<close>

definition will :: "bool \<Rightarrow> string \<Rightarrow> unit act" where
  "will oval what =
     bindS (getS gui_mode) (\<lambda>g. whenS (\<not> g)
       (emit Stdout (''Will '' @ (if oval then '''' else ''not '') @ what @ ''\<newline>'')))"

definition option_usage :: "unit act" where
  "option_usage = print_lines
     [''syntax: option <option> on|off'', ''   options include:'',
      ''      device -- simulate random device (keyboard/display)timing'',
      ''      flush  -- flush console input each time LC-3 starts'',
      ''      keep   -- keep remaining input when the LC-3 stops'',
      ''      stdin  -- use stdin for LC-3 console input during script execution'',
      ''NOTE: all options are ON by default'']"

definition set_option :: "string \<Rightarrow> bool \<Rightarrow> unit act" where
  "set_option opt oval =
     (let is = (\<lambda>nm. strncasecmp_eq opt nm (length opt)) in
      bindS (getS gui_mode) (\<lambda>g.
        if is ''flush'' then
          seqS (putS (\<lambda>s. s\<lparr>flush_on_start := oval\<rparr>)) (will oval ''flush the console input when starting.'')
        else if is ''keep'' then
          seqS (putS (\<lambda>s. s\<lparr>keep_input_on_stop := oval\<rparr>)) (will oval ''keep remaining input when the LC-3 stops.'')
        else if is ''device'' then
          seqS (putS (\<lambda>s. s\<lparr>rand_device := oval\<rparr>)) (will oval ''randomize device interactions.'')
        else if g \<and> is ''delay'' then
          seqS (bindS (getS delay_mem_update) (\<lambda>d. whenS (d \<and> \<not> oval) dump_delayed_mem_updates))
               (putS (\<lambda>s. s\<lparr>delay_mem_update := oval\<rparr>))
        else if is ''stdin'' then
          seqS (putS (\<lambda>s. s\<lparr>script_uses_stdin := oval\<rparr>))
            (seqS (will oval ''use stdin for LC-3 console input during script execution.'')
              (putS (\<lambda>s. if script_depth s > 0
                 then s\<lparr>lc3in := (if \<not> oval then sim_in s else if \<not> gui_mode s then 0 else lc3out s)\<rparr>
                 else s)))
        else option_usage))"

definition cmd_option :: "string \<Rightarrow> unit act" where
  "cmd_option args =
     (case scan_words [10, 5, 1] args of
        opt # onoff # trash \<Rightarrow>
          if strcasecmp_eq onoff ''on'' \<or> strcasecmp_eq onoff ''off'' then
            seqS (whenS (trash \<noteq> []) warn_too_many_args) (set_option opt (strcasecmp_eq onoff ''on''))
          else option_usage
      | _ \<Rightarrow> option_usage)"

definition cmd_help :: "string \<Rightarrow> unit act" where
  "cmd_help args = print_lines
     [''file <file>           -- file load (also sets PC to start of file)'', '''',
      ''break ...             -- breakpoint management'', '''',
      ''continue              -- continue execution'',
      ''finish                -- execute to end of current subroutine'',
      ''next                  -- execute next instruction (full subroutine/trap)'',
      ''step                  -- execute one step (into subroutine/trap)'', '''',
      ''list ...              -- list instructions at the PC, an address, a label'',
      ''dump ...              -- dump memory at the PC, an address, a label'',
      ''translate <addr>      -- show the value of a label and print the contents'',
      ''printregs             -- print registers and current instruction'', '''',
      ''memory <addr> <val>   -- set the value held in a memory location'',
      ''register <reg> <val>  -- set a register to a value'', '''',
      ''execute <file name>   -- execute a script file'', '''',
      ''reset                 -- reset LC-3 and reload last file'', '''',
      ''quit                  -- quit the simulator'', '''',
      ''help                  -- print this help'', '''',
      ''All commands except quit can be abbreviated.'']"

end
