(* ===== verification/Sim_Loop.thy ===== *)
theory Sim_Loop
  imports Sim_Commands
begin

text \<open>
  Loading files, the commands that run the machine, resetting it, and the command loop with
  script files.  A computation that may not end has an optional outcome, \<open>None\<close> for not ending.
\<close>

section \<open>The process\<close>

text \<open>
  What the build and the system decide: the directory of the operating system image, which
  streams are terminals and which files can be created.
\<close>

record config =
  install_dir :: string
  tty :: "nat \<Rightarrow> bool"
  can_create :: "string \<Rightarrow> bool"

type_synonym run = "sim \<Rightarrow> (unit \<times> sim) outcome option"

definition lift_act :: "unit act \<Rightarrow> run" where
  "lift_act m s = Some (m s)"

definition then_run :: "run \<Rightarrow> run \<Rightarrow> run" where
  "then_run m n s = bind_run (m s) (\<lambda>_ s. n s)"

definition if_run :: "(sim \<Rightarrow> bool) \<Rightarrow> run \<Rightarrow> run \<Rightarrow> run" where
  "if_run P m n s = (if P s then m s else n s)"

section \<open>Reading files\<close>

text \<open>The words of an object file, high byte first; an odd last byte is ignored.\<close>

fun obj_words :: "string \<Rightarrow> int list" where
  "obj_words (b0 # b1 # bs) = (push_bit 8 (int (code_of b0)) OR int (code_of b1)) # obj_words bs"
| "obj_words _ = []"

fun write_words :: "int \<Rightarrow> int list \<Rightarrow> int act" where
  "write_words a [] = returnS a"
| "write_words a (w # ws) = seqS (write_memory a w) (write_words ((a + 1) AND 0xFFFF) ws)"

definition on_symbols :: "(symtab \<Rightarrow> symtab outcome) \<Rightarrow> unit act" where
  "on_symbols f s = bind_outcome (f (symbols s)) (\<lambda>st. Ret ((), s\<lparr>symbols := st\<rparr>))"

definition squash_symbols :: "int \<Rightarrow> int \<Rightarrow> unit act" where
  "squash_symbols addr_s addr_e =
     (if addr_s = addr_e then returnS ()
      else forS (\<lambda>a. on_symbols (remove_symbol_at_addr a)) (wrap_addrs addr_s addr_e))"

definition read_obj_file :: "string \<Rightarrow> (int \<times> int) option act" where
  "read_obj_file filename =
     bindS (getS files) (\<lambda>fs.
       case fs filename of
         None \<Rightarrow> returnS None
       | Some content \<Rightarrow>
           (case obj_words content of
              [] \<Rightarrow> returnS None
            | start # ws \<Rightarrow>
                bindS (write_words start ws) (\<lambda>a.
                  seqS (squash_symbols start a) (returnS (Some (start, a))))))"

text \<open>A line of a symbol file: a word that is skipped, the name, the address.\<close>

definition sym_line :: "string \<Rightarrow> (string \<times> int) option outcome" where
  "sym_line l =
     (case Option.bind (scan_s (length l) l) (\<lambda>(_, r1). scan_s 80 r1) of
        None \<Rightarrow> Ret None
      | Some (nm, r2) \<Rightarrow> bind_outcome (scan_x r2) (\<lambda>r. Ret (map_option (\<lambda>(a, _). (nm, a)) r)))"

definition sym_header :: "string \<Rightarrow> bool" where
  "sym_header l \<longleftrightarrow> (case scan_words [length l, length l, 80] l of [_, _, w] \<Rightarrow> w = ''------------'' | _ \<Rightarrow> False)"

fun read_sym_lines :: "bool \<Rightarrow> string list \<Rightarrow> symtab \<Rightarrow> symtab outcome" where
  "read_sym_lines adding [] st = Ret st"
| "read_sym_lines adding (l # ls) st =
     (if \<not> adding then read_sym_lines (sym_header l) ls st
      else
        bind_outcome (sym_line l) (\<lambda>r.
          case r of
            None \<Rightarrow> Ret st
          | Some (nm, a) \<Rightarrow> bind_outcome (add_symbol nm a True st) (\<lambda>(_, st). read_sym_lines True ls st)))"

definition read_sym_file :: "string \<Rightarrow> int act" where
  "read_sym_file filename =
     bindS (getS files) (\<lambda>fs.
       case fs filename of
         None \<Rightarrow> returnS (- 1)
       | Some content \<Rightarrow> seqS (on_symbols (read_sym_lines False (text_lines 99 content))) (returnS 0))"

section \<open>Loading a program\<close>

definition MAX_FILE_NAME_LEN :: nat where "MAX_FILE_NAME_LEN = 251"

text \<open>The extension: from the last dot, unless a slash follows it.\<close>

definition split_ext :: "string \<Rightarrow> string \<times> string option" where
  "split_ext buf =
     (if CHR ''.'' \<in> set buf then
        (let r = rev buf; tail = rev (takeWhile (\<lambda>c. c \<noteq> CHR ''.'') r);
             base = rev (drop (Suc (length tail)) r)
         in if CHR ''/'' \<in> set tail then (buf, None) else (base, Some (CHR ''.'' # tail)))
      else (buf, None))"

definition load_program :: "string \<Rightarrow> string \<Rightarrow> unit act" where
  "load_program base buf =
     bindS (read_obj_file buf) (\<lambda>r.
       case r of
         None \<Rightarrow> report (''ERR {Failed to load '' @ [CHR 0x22] @ buf @ ''.'' @ [CHR 0x22] @ ''}\<newline>'')
                   (''Failed to load '' @ [CHR 0x22] @ buf @ ''.'' @ [CHR 0x22] @ ''\<newline>'')
       | Some (start, end0) \<Rightarrow>
           seqS (putS (\<lambda>s. s\<lparr>start_file := Some buf\<rparr>))
             (bindS (read_sym_file (base @ ''.sym'')) (\<lambda>warn.
                seqS (set_REG R_PC start)
                  (bindS (getS gui_mode) (\<lambda>g.
                     seqS
                       (if g then
                          seqS (disassemble start end0)
                            (seqS (emit Stdout ''TOCODE\<newline>'')
                              (seqS (print_register R_PC)
                                (whenS (warn \<noteq> 0) (emit Stdout ''ERR {WARNING: No symbols are available.}\<newline>''))))
                        else
                          seqS (emit Stdout (''Loaded '' @ [CHR 0x22] @ base @ ''.obj'' @ [CHR 0x22] @
                                  '' and set PC to x'' @ fmt_X 4 start @ ''\<newline>''))
                            (whenS (warn \<noteq> 0) (emit Stdout ''WARNING: No symbols are available.\<newline>'')))
                       (bindS (getS interrupted_at_gui_request) (\<lambda>i. whenS i gui_stop_and_dump)))))))"

definition cmd_file :: "string \<Rightarrow> unit act" where
  "cmd_file args =
     (if args = [] \<or> length args > MAX_FILE_NAME_LEN - 1 then
        report ''ERR {Could not parse file name!}\<newline>'' ''syntax: file <file to load>\<newline>''
      else
        (case split_ext args of
           (base, None) \<Rightarrow> load_program args (args @ ''.obj'')
         | (base, Some ext) \<Rightarrow>
             bindS (getS gui_mode) (\<lambda>g.
               if \<not> g \<and> strcasecmp_eq ext ''.sym'' then
                 bindS (read_sym_file args) (\<lambda>r.
                   emit Stdout ((if r \<noteq> 0 then ''Failed to read symbols from '' else ''Read symbols from '') @
                     [CHR 0x22] @ args @ ''.'' @ [CHR 0x22] @ ''\<newline>''))
               else if \<not> strcasecmp_eq ext ''.obj'' then
                 report ''ERR {Only .obj files can be loaded.}\<newline>'' ''Only .obj or .sym files can be loaded.\<newline>''
               else load_program base args)))"

definition cmd_tracefile :: "config \<Rightarrow> string \<Rightarrow> unit act" where
  "cmd_tracefile cfg args =
     (if can_create cfg args then
        seqS (putS (\<lambda>s. s\<lparr>traceout := Some args\<rparr>))
          (emit Stdout (''Trace of the state change during the simulation will be saved to '' @
             [CHR 0x22] @ args @ [CHR 0x22] @ ''\<newline>''))
      else
        seqS (putS (\<lambda>s. s\<lparr>traceout := None\<rparr>))
          (emit Stdout (''Error opening trace file '' @ [CHR 0x22] @ args @ [CHR 0x22] @ ''\<newline>'')))"

section \<open>Running\<close>

text \<open>Discarding console input: a character at a time for as long as poll finds some.\<close>

definition drop_input :: "sim \<Rightarrow> sim" where
  "drop_input s = s\<lparr>unread := (unread s)(lc3in s := tl (unread s (lc3in s)))\<rparr>"

partial_function (option) flush_loop :: "sim \<Rightarrow> (unit \<times> sim) outcome option" where
  "flush_loop s =
     (let inp = env_poll s (polls s); s1 = s\<lparr>polls := Suc (polls s)\<rparr>
      in if inp then flush_loop (drop_input s1) else Some (Ret ((), s1)))"

definition flush_console_input :: run where
  "flush_console_input = if_run (\<lambda>s. \<not> flush_on_start s \<or> script_depth s > 0) (lift_act (returnS ())) flush_loop"

definition run_machine :: "config \<Rightarrow> run" where
  "run_machine cfg s = run_until_stopped (tty cfg (lc3in s)) s"

definition cmd_continue :: "config \<Rightarrow> string \<Rightarrow> run" where
  "cmd_continue cfg args =
     then_run (lift_act (no_args_allowed args))
       (then_run (if_run interrupted_at_gui_request
                    (lift_act (putS (\<lambda>s. s\<lparr>interrupted_at_gui_request := False\<rparr>))) flush_console_input)
          (run_machine cfg))"

definition cmd_finish :: "config \<Rightarrow> string \<Rightarrow> run" where
  "cmd_finish cfg args =
     then_run (lift_act (no_args_allowed args))
       (then_run flush_console_input
          (then_run (lift_act (putS (\<lambda>s. s\<lparr>finish_depth := 1\<rparr>))) (run_machine cfg)))"

definition cmd_step :: "string \<Rightarrow> run" where
  "cmd_step args =
     then_run (lift_act (no_args_allowed args))
       (then_run flush_console_input
          (lift_act (seqS (bindS execute_instruction (\<lambda>_. returnS ())) show_state_if_stop_visible)))"

definition next_step :: "config \<Rightarrow> int \<Rightarrow> run" where
  "next_step cfg next_pc s =
     bind_run (Some (execute_instruction s)) (\<lambda>go_on s.
       if go_on \<and> last_flags s AND FLG_SUBROUTINE \<noteq> 0
       then run_machine cfg (s\<lparr>sys_bpt_addr := next_pc\<rparr>)
       else Some (show_state_if_stop_visible s))"

definition cmd_next :: "config \<Rightarrow> string \<Rightarrow> run" where
  "cmd_next cfg args s =
     (let next_pc = (lc3_register s R_PC + 1) AND 0xFFFF
      in then_run (lift_act (no_args_allowed args))
           (then_run flush_console_input (next_step cfg next_pc)) s)"

section \<open>Scripts and reset\<close>

text \<open>The command loop is an argument of the two operations that start it again.\<close>

definition enter_script :: "string \<Rightarrow> sim \<Rightarrow> sim" where
  "enter_script content s =
     s\<lparr>script_depth := script_depth s + 1, sim_in := next_stream s, next_stream := Suc (next_stream s),
       unread := (unread s)(next_stream s := content),
       lc3in := (if script_uses_stdin s then lc3in s else next_stream s)\<rparr>"

definition leave_script :: "nat \<Rightarrow> sim \<Rightarrow> sim" where
  "leave_script previous_input s =
     (let s = s\<lparr>sim_in := previous_input, script_depth := script_depth s - 1\<rparr>
      in if script_depth s = 0
         then s\<lparr>lc3in := (if gui_mode s then lc3out s else 0), stop_scripts := False\<rparr>
         else if \<not> script_uses_stdin s then s\<lparr>lc3in := previous_input\<rparr> else s)"

definition cmd_execute :: "run \<Rightarrow> string \<Rightarrow> run" where
  "cmd_execute loop args s =
     (if script_depth s = MAX_SCRIPT_DEPTH then
        Some (seqS (emit Stdout (''Cannot execute more than '' @ fmt_d MAX_SCRIPT_DEPTH @ '' levels of scripts!\<newline>''))
                   (putS (\<lambda>s. s\<lparr>stop_scripts := True\<rparr>)) s)
      else
        (case files s args of
           None \<Rightarrow>
             Some (seqS (emit Stdout (''Cannot open script file '' @ [CHR 0x22] @ args @ [CHR 0x22] @ ''.\<newline>''))
                        (putS (\<lambda>s. s\<lparr>stop_scripts := True\<rparr>)) s)
         | Some content \<Rightarrow>
             bind_run (loop (enter_script content s)) (\<lambda>_ s'. Some (Ret ((), leave_script (sim_in s) s')))))"

definition clear_machine :: "sim \<Rightarrow> sim" where
  "clear_machine s =
     s\<lparr>in_init := True, lc3_register := (\<lambda>_. 0)(R_PSR := 0x0400), lc3_memory := (\<lambda>_. 0),
       lc3_show_later := (\<lambda>_. False), symbols := empty_symtab, lc3_breakpoints := (\<lambda>_. False)\<rparr>"

definition load_os :: "config \<Rightarrow> run" where
  "load_os cfg s =
     bind_run (Some (read_obj_file (install_dir cfg @ ''/lc3os.obj'') s)) (\<lambda>r s.
       case r of
         None \<Rightarrow>
           Some (seqS (report ''ERR {Failed to read LC-3 OS code.}\<newline>'' ''Failed to read LC-3 OS code.\<newline>'')
                      show_state_if_stop_visible s)
       | Some (os_start, os_end) \<Rightarrow>
           then_run (lift_act
             (seqS (bindS (read_sym_file (install_dir cfg @ ''/lc3os.sym'')) (\<lambda>r. whenS (r = - 1)
                      (report ''ERR {Failed to read LC-3 OS symbols.}\<newline>'' ''Failed to read LC-3 OS symbols.\<newline>'')))
               (seqS (bindS (getS gui_mode) (\<lambda>g. whenS g (disassemble os_start os_end)))
                 (set_REG R_PC 0x0200)))) (run_machine cfg) s)"

definition start_up :: "config \<Rightarrow> run \<Rightarrow> run" where
  "start_up cfg loop s =
     (case start_script s of
        Some script \<Rightarrow> cmd_execute loop script s
      | None \<Rightarrow>
          then_run (lift_act
            (seqS (case trace_file s of Some f \<Rightarrow> cmd_tracefile cfg f | None \<Rightarrow> returnS ())
                  (case start_file s of Some f \<Rightarrow> cmd_file f | None \<Rightarrow> returnS ())))
            (case trace_file s of
               Some _ \<Rightarrow> then_run (cmd_continue cfg '''') (lift_act (cmd_quit ''''))
             | None \<Rightarrow> lift_act (returnS ())) s)"

definition init_machine :: "config \<Rightarrow> run \<Rightarrow> run" where
  "init_machine cfg loop =
     then_run (lift_act (putS clear_machine))
       (then_run (load_os cfg) (then_run (lift_act (putS (\<lambda>s. s\<lparr>in_init := False\<rparr>))) (start_up cfg loop)))"

definition wipe_for_gui :: "unit act" where
  "wipe_for_gui =
     seqS (putS (\<lambda>s. s\<lparr>interrupted_at_gui_request := False\<rparr>))
       (seqS (forS (\<lambda>a. write_memory a 0) (map int [0..<65536])) gui_stop_and_dump)"

definition cmd_reset :: "config \<Rightarrow> run \<Rightarrow> string \<Rightarrow> run" where
  "cmd_reset cfg loop args =
     if_run (\<lambda>s. script_depth s > 0)
       (lift_act (report ''ERR {Cannot reset the LC-3 from within a script.}\<newline>''
                    ''Cannot reset the LC-3 from within a script.\<newline>''))
       (then_run (lift_act
          (seqS (no_args_allowed args)
            (seqS (bindS (getS gui_mode) (\<lambda>g. whenS g wipe_for_gui))
              (putS (\<lambda>s. s\<lparr>last_KBSR_read := False, last_DSR_read := False, have_mem_to_dump := False,
                            need_a_stop_notice := False, sys_bpt_addr := - 1, finish_depth := 0\<rparr>)))))
          (then_run (init_machine cfg loop)
             (lift_act (bindS (getS gui_mode) (\<lambda>g. whenS g (emit Stdout ''TOCODE\<newline>''))))))"

section \<open>The command loop\<close>

datatype cmd_func =
    Cmd_break | Cmd_continue | Cmd_dump | Cmd_execute | Cmd_file | Cmd_tracefile | Cmd_finish | Cmd_help
  | Cmd_list | Cmd_memory | Cmd_next | Cmd_option | Cmd_printregs | Cmd_quit | Cmd_register | Cmd_reset
  | Cmd_step | Cmd_translate | Cmd_lc3_stop

datatype cmd_flag = CMD_FLAG_NONE | CMD_FLAG_REPEATABLE | CMD_FLAG_LIST_TYPE | CMD_FLAG_GUI_ONLY

record command_t =
  command_name :: string
  min_len :: nat
  func :: cmd_func
  flags :: cmd_flag

definition entry :: "string \<Rightarrow> nat \<Rightarrow> cmd_func \<Rightarrow> cmd_flag \<Rightarrow> command_t" where
  "entry nm n f fl = \<lparr>command_name = nm, min_len = n, func = f, flags = fl\<rparr>"

definition command :: "command_t list" where
  "command =
     [entry ''break'' 1 Cmd_break CMD_FLAG_NONE,
      entry ''continue'' 1 Cmd_continue CMD_FLAG_REPEATABLE,
      entry ''dump'' 1 Cmd_dump CMD_FLAG_LIST_TYPE,
      entry ''execute'' 1 Cmd_execute CMD_FLAG_NONE,
      entry ''file'' 1 Cmd_file CMD_FLAG_NONE,
      entry ''tracefile'' 1 Cmd_tracefile CMD_FLAG_NONE,
      entry ''finish'' 3 Cmd_finish CMD_FLAG_REPEATABLE,
      entry ''help'' 1 Cmd_help CMD_FLAG_NONE,
      entry ''list'' 1 Cmd_list CMD_FLAG_LIST_TYPE,
      entry ''memory'' 1 Cmd_memory CMD_FLAG_NONE,
      entry ''next'' 1 Cmd_next CMD_FLAG_REPEATABLE,
      entry ''option'' 1 Cmd_option CMD_FLAG_NONE,
      entry ''printregs'' 1 Cmd_printregs CMD_FLAG_NONE,
      entry ''quit'' 4 Cmd_quit CMD_FLAG_NONE,
      entry ''register'' 1 Cmd_register CMD_FLAG_NONE,
      entry ''reset'' 5 Cmd_reset CMD_FLAG_NONE,
      entry ''step'' 1 Cmd_step CMD_FLAG_REPEATABLE,
      entry ''translate'' 1 Cmd_translate CMD_FLAG_NONE,
      entry ''x'' 1 Cmd_lc3_stop CMD_FLAG_GUI_ONLY]"

definition cmd_matches :: "bool \<Rightarrow> string \<Rightarrow> command_t \<Rightarrow> bool" where
  "cmd_matches gui cword c \<longleftrightarrow>
     strncasecmp_eq cword (command_name c) (length cword) \<and> length cword \<ge> min_len c \<and>
     (gui \<or> flags c \<noteq> CMD_FLAG_GUI_ONLY)"

definition select_command :: "bool \<Rightarrow> string \<Rightarrow> command_t option" where
  "select_command gui cword = find (cmd_matches gui cword) command"

definition run_command :: "config \<Rightarrow> run \<Rightarrow> cmd_func \<Rightarrow> string \<Rightarrow> run" where
  "run_command cfg loop f args =
     (case f of
        Cmd_break \<Rightarrow> lift_act (cmd_break args)
      | Cmd_continue \<Rightarrow> cmd_continue cfg args
      | Cmd_dump \<Rightarrow> lift_act (cmd_dump args)
      | Cmd_execute \<Rightarrow> cmd_execute loop args
      | Cmd_file \<Rightarrow> lift_act (cmd_file args)
      | Cmd_tracefile \<Rightarrow> lift_act (cmd_tracefile cfg args)
      | Cmd_finish \<Rightarrow> cmd_finish cfg args
      | Cmd_help \<Rightarrow> lift_act (cmd_help args)
      | Cmd_list \<Rightarrow> lift_act (cmd_list args)
      | Cmd_memory \<Rightarrow> lift_act (cmd_memory args)
      | Cmd_next \<Rightarrow> cmd_next cfg args
      | Cmd_option \<Rightarrow> lift_act (cmd_option args)
      | Cmd_printregs \<Rightarrow> lift_act (cmd_printregs args)
      | Cmd_quit \<Rightarrow> lift_act (cmd_quit args)
      | Cmd_register \<Rightarrow> lift_act (cmd_register args)
      | Cmd_reset \<Rightarrow> cmd_reset cfg loop args
      | Cmd_step \<Rightarrow> cmd_step args
      | Cmd_translate \<Rightarrow> lift_act (cmd_translate args)
      | Cmd_lc3_stop \<Rightarrow> lift_act (cmd_lc3_stop args))"

text \<open>Reading a command; after an interruption by the GUI with no further command, continue.\<close>

definition strip_newline :: "string \<Rightarrow> string" where
  "strip_newline l = rev (dropWhile (\<lambda>c. c = CHR 0x0A \<or> c = CHR 0x0D) (rev l))"

definition read_line :: "string option act" where
  "read_line s =
     (case unread s (sim_in s) of
        [] \<Rightarrow> Ret (None, s)
      | _ \<Rightarrow> (case take_line 199 (unread s (sim_in s)) of (l, rest) \<Rightarrow>
               Ret (Some (strip_newline l), s\<lparr>unread := (unread s)(sim_in s := rest)\<rparr>)))"

definition simple_readline :: "string \<Rightarrow> string option act" where
  "simple_readline prompt =
     bindS (getS gui_mode) (\<lambda>g.
       bindS (if g then poll_c else returnS True) (\<lambda>inp.
         bindS (getS id) (\<lambda>s.
           if g \<and> \<not> inp \<and> interrupted_at_gui_request s then returnS (Some ''c'')
           else seqS (whenS (\<not> g \<and> script_depth s = 0) (emit Stdout prompt)) read_line)))"

text \<open>What the next empty line repeats.\<close>

definition next_last_cmd :: "command_t \<Rightarrow> string \<Rightarrow> string \<Rightarrow> sim \<Rightarrow> string option" where
  "next_last_cmd c cword cmd s =
     (case flags c of
        CMD_FLAG_LIST_TYPE \<Rightarrow> Some (cword @ '' more'')
      | CMD_FLAG_REPEATABLE \<Rightarrow> if script_depth s = 0 then Some cmd else None
      | _ \<Rightarrow> None)"

lemma then_run_mono:
  assumes "\<And>s. monotone (fun_ord option_ord) option_ord (\<lambda>f. m f s)" "\<And>s. monotone (fun_ord option_ord) option_ord (\<lambda>f. n f s)"
  shows "monotone (fun_ord option_ord) option_ord (\<lambda>f. then_run (m f) (n f) s)"
  unfolding then_run_def by (intro bind_run_mono assms)

text \<open>The operations that start the command loop are monotone in it.\<close>

lemma cmd_execute_mono:
  assumes "\<And>s. monotone (fun_ord option_ord) option_ord (\<lambda>f. L f s)"
  shows "monotone (fun_ord option_ord) option_ord (\<lambda>f. cmd_execute (L f) args s)"
  unfolding cmd_execute_def
  by (cases "script_depth s = MAX_SCRIPT_DEPTH"; cases "files s args")
     (simp_all add: bind_run_mono assms const_run_mono)

lemma start_up_mono:
  assumes "\<And>s. monotone (fun_ord option_ord) option_ord (\<lambda>f. L f s)"
  shows "monotone (fun_ord option_ord) option_ord (\<lambda>f. start_up cfg (L f) s)"
  unfolding start_up_def
  by (cases "start_script s") (simp_all add: cmd_execute_mono assms const_run_mono)

lemma init_machine_mono:
  assumes "\<And>s. monotone (fun_ord option_ord) option_ord (\<lambda>f. L f s)"
  shows "monotone (fun_ord option_ord) option_ord (\<lambda>f. init_machine cfg (L f) s)"
  unfolding init_machine_def by (intro then_run_mono const_run_mono start_up_mono assms)

lemma cmd_reset_mono:
  assumes "\<And>s. monotone (fun_ord option_ord) option_ord (\<lambda>f. L f s)"
  shows "monotone (fun_ord option_ord) option_ord (\<lambda>f. cmd_reset cfg (L f) args s)"
  unfolding cmd_reset_def if_run_def
  by (cases "script_depth s > 0") (simp_all add: then_run_mono const_run_mono init_machine_mono assms)

lemma run_command_mono [partial_function_mono]:
  assumes "\<And>s. monotone (fun_ord option_ord) option_ord (\<lambda>f. L f s)"
  shows "monotone (fun_ord option_ord) option_ord (\<lambda>f. run_command cfg (L f) c args s)"
  unfolding run_command_def
  by (cases c) (simp_all add: const_run_mono cmd_execute_mono cmd_reset_mono assms)

partial_function (option) command_loop :: "config \<Rightarrow> string option \<Rightarrow> sim \<Rightarrow> (unit \<times> sim) outcome option" where
  "command_loop cfg last_cmd s =
     (if stop_scripts s then Some (Ret ((), s))
      else
        bind_run (Some (simple_readline ''(lc3sim) '' s)) (\<lambda>line s.
          case line of
            None \<Rightarrow> Some (Ret ((), s))
          | Some cmd0 \<Rightarrow>
              (case (if dropWhile isspace cmd0 = [] then last_cmd else Some cmd0) of
                 None \<Rightarrow> command_loop cfg None s
               | Some cmd \<Rightarrow>
                   (case scan_s 40 (dropWhile isspace cmd) of
                      None \<Rightarrow> Some (Ret ((), s))
                    | Some (cword, rest) \<Rightarrow>
                        (case select_command (gui_mode s) cword of
                           None \<Rightarrow>
                             bind_run (Some (emit Stdout ''Unknown command.  Type 'h' for help.\<newline>'' s))
                               (\<lambda>_ s. command_loop cfg None s)
                         | Some c \<Rightarrow>
                             bind_run (run_command cfg (command_loop cfg None) (func c) (dropWhile isspace rest) s)
                               (\<lambda>_ s. command_loop cfg (next_last_cmd c cword cmd s) s))))))"

section \<open>The program\<close>

text \<open>
  Connecting to the GUI is system I/O: \<open>connected\<close> says whether it succeeded; the socket is
  stream 1.  The input of -fileio is a stream of its own.
\<close>

definition main_usage :: "unit act" where
  "main_usage = print_lines
     [''syntax: lc3sim [<object file>|<symbol file>]'',
      ''        lc3sim -s <script file>'',
      ''        lc3sim -t <trace file> <object file>|<symbol file>'' @ [CHR 0x09] @
        ''# run the object file until the halt instruction, save the execution trace to file'',
      ''        lc3sim -h'']"

definition gui_streams :: "sim \<Rightarrow> sim" where
  "gui_streams s = s\<lparr>lc3in := 1, lc3out := 1, gui_mode := True\<rparr>"

definition file_streams :: "string \<Rightarrow> sim \<Rightarrow> sim" where
  "file_streams content s =
     s\<lparr>flush_on_start := False, lc3in := next_stream s, unread := (unread s)(next_stream s := content),
       lc3out := Suc (next_stream s), next_stream := next_stream s + 2\<rparr>"

definition load_and_loop :: "config \<Rightarrow> run" where
  "load_and_loop cfg =
     then_run (init_machine cfg (command_loop cfg None))
       (then_run (command_loop cfg None) (lift_act (puts_c '''')))"

text \<open>The arguments that are left after -gui or -fileio.\<close>

definition main_args :: "config \<Rightarrow> string list \<Rightarrow> run" where
  "main_args cfg args s =
     (case args of
        [] \<Rightarrow> load_and_loop cfg s
      | [a] \<Rightarrow>
          if a \<noteq> ''-h'' then load_and_loop cfg (s\<lparr>start_file := Some a\<rparr>) else lift_act main_usage s
      | [a, b] \<Rightarrow>
          if a = ''-s'' then init_machine cfg (command_loop cfg None) (s\<lparr>start_script := Some b\<rparr>)
          else lift_act main_usage s
      | [a, b, c] \<Rightarrow>
          if a = ''-t'' then load_and_loop cfg (s\<lparr>trace_file := Some b, start_file := Some c\<rparr>)
          else lift_act main_usage s
      | _ \<Rightarrow> lift_act main_usage s)"

text \<open>A file of -fileio that cannot be opened leaves a null stream, which is then used.\<close>

definition lc3sim_main :: "config \<Rightarrow> bool \<Rightarrow> string list \<Rightarrow> sim \<Rightarrow> (int \<times> sim) outcome option" where
  "lc3sim_main cfg connected args s =
     (let finish = (\<lambda>r. bind_run r (\<lambda>_ s. Some (Ret (0, s)))) in
      case args of
        a # rest \<Rightarrow>
          if a = ''-gui'' then
            (if connected then finish (main_args cfg rest (gui_streams s))
             else bind_run (Some (emit Stdout ''failed to connect to GUI\<newline>'' s)) (\<lambda>_ s. Some (Ret (1, s))))
          else if a = ''-fileio'' \<and> length rest \<ge> 2 then
            (case files s (rest ! 0) of
               Some content \<Rightarrow>
                 if can_create cfg (rest ! 1) then finish (main_args cfg (drop 2 rest) (file_streams content s))
                 else Some Undef
             | None \<Rightarrow> Some Undef)
          else finish (main_args cfg args s)
      | [] \<Rightarrow> finish (main_args cfg args s))"

end
