(* ===== verification/Sim_Text.thy ===== *)
theory Sim_Text
  imports Sim_Loop Sim_Safety
begin

text \<open>
  The simulator's text formats read back: the hexadecimal numbers it prints, the lines of a
  symbol file, and the words of an object file; and the words on which parse_address is undefined.
\<close>

section \<open>Hexadecimal numbers\<close>

text \<open>A printed number is a row of hexadecimal digits with that value.\<close>

lemma fmt_X_digits:
  assumes "0 \<le> v" "v < 2 ^ 32"
  obtains ds where "fmt_X w v = map hex_digit ds" "ds \<noteq> []" "\<forall>d \<in> set ds. d < 16" "digits_value 16 0 ds = nat v"
proof -
  let ?r = "radix_digits 16 (nat v)"
  let ?ds = "replicate (w - length ?r) 0 @ ?r"
  have zero: "hex_digit 0 = CHR ''0''"
    using code_hex_digit [of 0] by (intro of_char_eqI [where ?'a = nat]) simp
  have "fmt_X w v = map hex_digit ?ds"
    using assms zero by (simp add: fmt_X_def pad_left_def)
  moreover have "digits_value 16 0 ?ds = nat v"
    using digits_value_zeros [of 16] digits_value_radix [of 16 "nat v"] by simp
  moreover have "\<forall>d \<in> set ?ds. d < 16" using radix_digits_less [of 16] by auto
  ultimately show thesis using that [of ?ds] radix_digits_nonempty [of 16 "nat v"] by simp
qed

lemma drop_0x_digits:
  assumes "\<forall>d \<in> set ds. d < 16" "ds \<noteq> []" "\<not> (\<exists>c cs. rest = c # cs \<and> tolower c = CHR ''x'')"
  shows "drop_0x (map hex_digit ds @ rest) = map hex_digit ds @ rest"
proof -
  obtain d ds' where ds: "ds = d # ds'" using assms(2) by (cases ds) auto
  show ?thesis
  proof (cases ds')
    case Nil
    then show ?thesis using assms(3) by (cases rest) (auto simp: ds drop_0x_def)
  next
    case (Cons e es)
    then show ?thesis using assms(1) hex_digit_facts(5) [of e] by (simp add: ds drop_0x_def)
  qed
qed

lemma scan_x_fmt_X:
  assumes v: "0 \<le> v" "v < 2 ^ 31" and rest: "\<not> is_digit_in 16 rest" "\<not> (\<exists>c cs. rest = c # cs \<and> tolower c = CHR ''x'')"
  shows "scan_x (fmt_X w v @ rest) = Ret (Some (v, rest))"
proof -
  obtain ds where ds: "fmt_X w v = map hex_digit ds" "ds \<noteq> []" "\<forall>d \<in> set ds. d < 16" "digits_value 16 0 ds = nat v"
    using fmt_X_digits [of v w] v by auto
  obtain d ds' where d: "ds = d # ds'" "d < 16" using ds(2,3) by (cases ds) auto
  have sp: "dropWhile isspace (map hex_digit ds @ rest) = map hex_digit ds @ rest"
    using hex_digit_facts(2) [OF d(2)] by (simp add: d(1))
  have sg: "scan_sign (map hex_digit ds @ rest) = (False, map hex_digit ds @ rest)"
    using hex_digit_facts(3,4) [OF d(2)] by (simp add: d(1) scan_sign_def)
  have dg: "is_digit_in 16 (map hex_digit ds @ rest)"
    using hex_digit_facts(1) [OF d(2)] d(2) by (simp add: d(1) is_digit_in_def)
  have "nat v < 2 ^ 32" using v by simp
  then show ?thesis
    using scan_digits_map [OF ds(3) _ rest(1), of 0] ds(4) v to_int32_id [of v]
    unfolding scan_x_def ds(1) sp sg
    by (simp add: drop_0x_digits [OF ds(3,2) rest(2)] dg Let_def)
qed

section \<open>Addresses\<close>

definition addrs_ok :: "symtab \<Rightarrow> bool" where
  "addrs_ok st \<longleftrightarrow> (\<forall>k p. find_symbol st k = Some p \<longrightarrow> loc_in_range (addr (nodes st p)))"

lemma parse_address_values:
  assumes "addrs_ok st" "parse_address st a = Ret v"
  shows "v = - 1 \<or> loc_in_range v"
proof -
  have w: "loc_in_range (wrap_negative neg v)" if "- 0xFFFF \<le> v" "v \<le> 0xFFFF" "neg \<longrightarrow> 0 \<le> v" for neg v
    using that by (auto simp: wrap_negative_def loc_in_range_def Let_def)
  show ?thesis
  proof (cases "strip_minus a")
    case (Pair neg b)
    show ?thesis
    proof (cases "find_symbol st b")
      case None
      with assms(2) obtain r where "parse_number b = Ret r" by (cases "parse_number b") (auto simp: parse_address_def Pair)
      with None assms(2) w show ?thesis by (auto simp: parse_address_def Pair split: option.splits if_splits)
    next
      case (Some p)
      then have "loc_in_range (addr (nodes st p))" using assms by (simp add: addrs_ok_def)
      then show ?thesis
        using assms(2) w [of "addr (nodes st p)" neg] by (auto simp: parse_address_def Pair Some loc_in_range_def split: if_splits)
    qed
  qed
qed

text \<open>What parse_address does not define: a byte from 128 on, or a number that the conversion cannot hold.\<close>

lemma scan_address_cases: "scan_address a \<noteq> Exit n" "scan_address a \<noteq> Abort"
  by (auto simp: scan_address_def scan_d_def scan_x_def tolower_plain_def Let_def split: list.split prod.split)

lemma parse_address_outcome:
  assumes "addrs_ok st"
  shows "parse_address st a = Undef \<longleftrightarrow>
      find_symbol st (snd (strip_minus a)) = None \<and> scan_address (snd (strip_minus a)) = Undef"
    and "parse_address st a \<noteq> Exit n" "parse_address st a \<noteq> Abort"
proof -
  obtain neg b where b: "strip_minus a = (neg, b)" by (cases "strip_minus a")
  have min: "addr (nodes st p) \<noteq> - (2 ^ 31)" if "find_symbol st b = Some p" for p
    using assms that by (fastforce simp: addrs_ok_def loc_in_range_def)
  have "parse_address st a = (case find_symbol st b of
      Some p \<Rightarrow> Ret (wrap_negative neg (addr (nodes st p)))
    | None \<Rightarrow> parse_address st a)"
    using min by (auto simp: parse_address_def b split: option.split)
  then show "parse_address st a = Undef \<longleftrightarrow>
      find_symbol st (snd (strip_minus a)) = None \<and> scan_address (snd (strip_minus a)) = Undef"
    "parse_address st a \<noteq> Exit n" "parse_address st a \<noteq> Abort"
    using scan_address_cases [of b] min
    by (cases "scan_address b"; auto simp: parse_address_def parse_number_def b split: option.splits)+
qed

lemma scan_address_plain: "plain_text a \<Longrightarrow> scan_address a \<noteq> Undef"
proof (cases a)
  case (Cons c cs)
  assume a: "plain_text a"
  then have "short_numbers 0 a" "short_numbers 0 cs" "code_of c < 128"
    using short_numbers_tl [of 0 a] by (auto simp: plain_text_def Cons)
  then show ?thesis
    using scan_short_defined [of a] scan_short_defined [of cs]
    by (simp add: scan_address_def Cons tolower_plain_def)
qed (simp add: scan_address_def)

lemma strip_minus_plain: "plain_text a \<Longrightarrow> plain_text (snd (strip_minus a))"
  using plain_text_part [of "[hd a]" "tl a" "[]"] by (auto simp: strip_minus_def split: list.split)

text \<open>
  A word that starts with a byte from 128 on and is no symbol, and a number with too many digits.
\<close>

lemma parse_address_high_byte:
  assumes "128 \<le> code_of c" "find_symbol st (c # cs) = None"
  shows "parse_address st (c # cs) = Undef"
proof -
  have "c \<noteq> CHR ''-''" "c \<noteq> CHR ''#''" using assms(1) by auto
  then show ?thesis
    using assms by (simp add: parse_address_def strip_minus_def parse_number_def scan_address_def tolower_plain_def)
qed

lemma parse_address_too_large: "find_symbol st ''#2147483648'' = None \<Longrightarrow> parse_address st ''#2147483648'' = Undef"
  by (simp add: parse_address_def strip_minus_def parse_number_def scan_address_def scan_d_def scan_sign_def isspace_def
      is_digit_in_def digit_val_def)

text \<open>
  An address that the simulator has printed, as x and four hexadecimal digits, is read
  back as the same address unless a symbol has that name.
\<close>

lemma parse_printed_address:
  assumes "loc_in_range a" "find_symbol st (''x'' @ fmt_X 4 a) = None"
  shows "parse_address st (''x'' @ fmt_X 4 a) = Ret a"
proof -
  have "scan_x (fmt_X 4 a) = Ret (Some (a, []))"
    using scan_x_fmt_X [of a "[]" 4] assms(1) by (simp add: loc_in_range_def is_digit_in_def)
  then have "parse_number (''x'' @ fmt_X 4 a) = Ret (Some a)"
    by (simp add: parse_number_def scan_address_def tolower_plain_def tolower_def only_space_def)
  moreover have "strip_minus (''x'' @ fmt_X 4 a) = (False, ''x'' @ fmt_X 4 a)"
    by (simp add: strip_minus_def)
  ultimately show ?thesis
    using assms by (simp add: parse_address_def wrap_negative_def loc_in_range_def)
qed

section \<open>Symbol files\<close>

text \<open>
  A symbol file as the assembler writes it (lc3.f): four header lines, a line for each label and
  an empty line.
\<close>

definition nl :: char where "nl = CHR 0x0A"
definition tab :: char where "tab = CHR 0x09"

definition sym_text :: "string \<times> int \<Rightarrow> string" where
  "sym_text p = ''//'' @ [tab] @ pad_right 16 (fst p) @ ''  '' @ fmt_X 4 (snd p)"

definition sym_file_header :: "string list" where
  "sym_file_header =
     [''// Symbol table'', ''// Scope level 0:'', ''//'' @ [tab] @ ''Symbol Name       Page Address'',
      ''//'' @ [tab] @ ''----------------  ------------'']"

definition sym_file_text :: "(string \<times> int) list \<Rightarrow> string" where
  "sym_file_text ps = concat (map (\<lambda>l. l @ [nl]) (sym_file_header @ map sym_text ps @ [[]]))"

definition label_ok :: "string \<times> int \<Rightarrow> bool" where
  "label_ok p \<longleftrightarrow> fst p \<noteq> [] \<and> length (fst p) \<le> 80 \<and> (\<forall>c \<in> set (fst p). \<not> isspace c) \<and> loc_in_range (snd p)"

lemma isspace_chars [simp]: "isspace nl" "isspace tab" "isspace (CHR '' '')" "\<not> isspace (CHR ''/'')"
  by (simp_all add: isspace_def nl_def tab_def)

lemma take_line_full: "nl \<notin> set b \<Longrightarrow> length b < n \<Longrightarrow> take_line n (b @ nl # rest) = (b @ [nl], rest)"
proof (induction b arbitrary: n)
  case Nil
  then show ?case by (cases n) (simp_all add: nl_def)
next
  case (Cons c b)
  then show ?case by (cases n) (auto simp: nl_def)
qed

lemma text_lines_concat:
  "\<forall>l \<in> set ls. nl \<notin> set l \<and> length l < n \<Longrightarrow> text_lines n (concat (map (\<lambda>l. l @ [nl]) ls)) = map (\<lambda>l. l @ [nl]) ls"
proof (induction ls)
  case Nil
  then show ?case by (simp add: text_lines.simps)
next
  case (Cons l ls)
  then show ?case by (subst text_lines.simps) (auto simp: take_line_full)
qed

lemma fmt_X_chars:
  assumes "loc_in_range a" "c \<in> set (fmt_X w a)"
  shows "\<not> isspace c"
proof (rule fmt_X_digits [of a w])
  show "0 \<le> a" "a < 2 ^ 32" using assms(1) by (simp_all add: loc_in_range_def)
next
  fix ds assume "fmt_X w a = map hex_digit ds" "\<forall>d \<in> set ds. d < 16"
  with assms(2) hex_digit_facts(2) show "\<not> isspace c" by auto
qed

lemma radix_digits_small: "n < 16 \<Longrightarrow> radix_digits 16 n = [n]"
  by (subst radix_digits.simps) (simp only: if_True simp_thms)

lemma radix_digits_step: "\<not> n < 16 \<Longrightarrow> radix_digits 16 n = radix_digits 16 (n div 16) @ [n mod 16]"
  by (subst radix_digits.simps) simp

lemma radix_digits_length: "n < 16 ^ k \<Longrightarrow> 0 < k \<Longrightarrow> length (radix_digits 16 n) \<le> k"
proof (induction k arbitrary: n)
  case (Suc k)
  show ?case
  proof (cases "n < 16")
    case True
    then show ?thesis by (simp add: radix_digits_small)
  next
    case False
    have "0 < k" using Suc.prems False by (cases k) auto
    moreover have "n div 16 < 16 ^ k" by (rule less_mult_imp_div_less) (use Suc.prems(1) in \<open>simp only: power_Suc mult.commute\<close>)
    ultimately show ?thesis using Suc.IH [of "n div 16"] by (simp add: radix_digits_step [OF False])
  qed
qed simp

lemma fmt_X_length: "loc_in_range a \<Longrightarrow> length (fmt_X 4 a) = 4"
  using radix_digits_length [of "nat a" 4] by (simp add: fmt_X_def length_pad_left loc_in_range_def nat_less_iff)

lemma sym_text_line:
  assumes "label_ok p"
  shows "nl \<notin> set (sym_text p)" "length (sym_text p) < 99"
proof -
  have "nl \<notin> set (fst p)" "nl \<notin> set (fmt_X 4 (snd p))"
    using assms fmt_X_chars [of "snd p" nl 4] isspace_chars(1) by (auto simp: label_ok_def)
  then show "nl \<notin> set (sym_text p)"
    by (auto simp: sym_text_def pad_right_def nl_def tab_def)
  show "length (sym_text p) < 99"
    using assms by (auto simp: sym_text_def pad_right_def label_ok_def fmt_X_length)
qed

lemma scan_s_word:
  assumes "\<forall>c \<in> set sp. isspace c" "w \<noteq> []" "\<forall>c \<in> set w. \<not> isspace c" "length w \<le> n"
    "rest \<noteq> []" "isspace (hd rest)"
  shows "scan_s n (sp @ w @ rest) = Some (w, rest)"
proof -
  have d: "dropWhile isspace (sp @ w @ rest) = w @ rest"
    using assms(1-3) by (cases w) (simp_all add: dropWhile_append3)
  have "takeWhile (\<lambda>c. \<not> isspace c) (w @ rest) = w"
    using assms(3,5,6) by (cases rest) (simp_all add: takeWhile_append)
  with d assms(2,4) show ?thesis by (cases n) (simp_all add: scan_s_def Let_def)
qed

lemma scan_x_skip: "\<forall>c \<in> set sp. isspace c \<Longrightarrow> scan_x (sp @ s) = scan_x s"
  by (simp add: scan_x_def dropWhile_append3)

lemma sym_line_text:
  assumes "label_ok p"
  shows "sym_line (sym_text p @ [nl]) = Ret (Some p)"
proof -
  obtain nm a where p: "p = (nm, a)" by (cases p)
  have nm: "nm \<noteq> []" "length nm \<le> 80" "\<forall>c \<in> set nm. \<not> isspace c" and a: "loc_in_range a"
    using assms by (auto simp: label_ok_def p)
  let ?sp = "replicate (16 - length nm) (CHR '' '') @ ''  ''"
  let ?r2 = "?sp @ fmt_X 4 a @ [nl]"
  let ?l = "[] @ ''//'' @ tab # nm @ ?r2"
  have l: "sym_text p @ [nl] = ?l"
    by (simp add: sym_text_def p pad_right_def)
  have "scan_s (length ?l) ?l = Some (''//'', [tab] @ nm @ ?r2)"
    by (subst scan_s_word) simp_all
  moreover have "scan_s 80 ([tab] @ nm @ ?r2) = Some (nm, ?r2)"
    by (rule scan_s_word) (use nm in \<open>auto simp: hd_append\<close>)
  moreover have "scan_x ?r2 = Ret (Some (a, [nl]))"
  proof -
    have "scan_x (fmt_X 4 a @ [nl]) = Ret (Some (a, [nl]))"
      using a by (intro scan_x_fmt_X) (auto simp: loc_in_range_def is_digit_in_def digit_val_def nl_def tolower_def)
    moreover have "\<forall>c \<in> set ?sp. isspace c" by auto
    ultimately show ?thesis using scan_x_skip [of ?sp "fmt_X 4 a @ [nl]"] by simp
  qed
  ultimately show ?thesis unfolding l sym_line_def by (simp only: p Option.bind.bind_lunit prod.case option.case bind_outcome.simps option.map)
qed

lemma sym_file_header_lines:
  "map (\<lambda>l. sym_header (l @ [nl])) sym_file_header = [False, False, False, True]"
  "\<forall>l \<in> set sym_file_header. nl \<notin> set l \<and> length l < 99"
  by (simp_all add: sym_file_header_def sym_header_def scan_s_def isspace_def nl_def tab_def Let_def)

lemma read_sym_file_text:
  assumes "\<forall>p \<in> set ps. label_ok p"
  shows "read_sym_lines False (text_lines 99 (sym_file_text ps)) st =
    foldM (\<lambda>(k, a) st. bind_outcome (add_symbol k a True st) (\<lambda>(r, st). Ret st)) ps st"
proof -
  have "text_lines 99 (sym_file_text ps) = map (\<lambda>l. l @ [nl]) (sym_file_header @ map sym_text ps @ [[]])"
    unfolding sym_file_text_def
    by (rule text_lines_concat) (use assms sym_text_line sym_file_header_lines(2) in auto)
  moreover have "read_sym_lines True (map (\<lambda>l. l @ [nl]) (map sym_text ps @ [[]])) st =
      foldM (\<lambda>(k, a) st. bind_outcome (add_symbol k a True st) (\<lambda>(r, st). Ret st)) ps st" for st
    using assms
  proof (induction ps arbitrary: st)
    case Nil
    have "sym_line [nl] = Ret None" by (simp add: sym_line_def scan_s_def)
    then show ?case by simp
  next
    case (Cons p ps)
    then show ?case
      by (cases p; cases "add_symbol (fst p) (snd p) True st") (auto simp: sym_line_text split: prod.splits)
  qed
  moreover have "read_sym_lines False (map (\<lambda>l. l @ [nl]) (sym_file_header @ ls)) st =
      read_sym_lines True (map (\<lambda>l. l @ [nl]) ls) st" for ls
    using sym_file_header_lines(1) by (simp add: sym_file_header_def)
  ultimately show ?thesis by (simp only:)
qed

text \<open>
  Claim C17: a symbol file as the assembler writes it is read back: after read_sym_file each of
  its labels has, in any case, the address of its last line, and every other symbol is as before.
\<close>

theorem read_sym_file_labels:
  assumes "files s f = Some (sym_file_text ps)" "\<forall>p \<in> set ps. label_ok p" "symtab_inv (symbols s)"
  shows "\<exists>s'. read_sym_file f s = Ret (0, s') \<and> symtab_inv (symbols s') \<and>
    (\<forall>k. sym_map (symbols s') k =
      (case map_of (rev (map (\<lambda>(k, a). (lower k, a)) ps)) (lower k) of
         Some a \<Rightarrow> Some a | None \<Rightarrow> sym_map (symbols s) k))"
proof -
  have "\<forall>(k, a) \<in> set ps. loc_in_range a" using assms(2) by (auto simp: label_ok_def)
  from lc3_symbols.add_all_lookup [OF assms(3) this] obtain st' where
    "foldM (\<lambda>(k, a) st. bind_outcome (add_symbol k a True st) (\<lambda>(r, st). Ret st)) ps (symbols s) = Ret st'"
    and st': "symtab_inv st'" "\<forall>k. sym_map st' k =
      (case map_of (rev (map (\<lambda>(k, a). (lower k, a)) ps)) (lower k) of
         Some a \<Rightarrow> Some a | None \<Rightarrow> sym_map (symbols s) k)"
    by blast
  then have "read_sym_file f s = Ret (0, s\<lparr>symbols := st'\<rparr>)"
    using assms(1) read_sym_file_text [OF assms(2)]
    by (simp add: read_sym_file_def on_symbols_def cfun_defs)
  with st' show ?thesis by simp
qed

theorem read_sym_file_labels_witness:
  "\<exists>s'. read_sym_file ''a.sym'' (sim_globals [] (\<lambda>_. Some (sym_file_text [(''LOOP'', 0x3002)])) (\<lambda>_. False) (\<lambda>_. 0)) = Ret (0, s') \<and>
     sym_map (symbols s') ''loop'' = Some 0x3002"
proof -
  let ?s = "sim_globals [] (\<lambda>_. Some (sym_file_text [(''LOOP'', 0x3002)])) (\<lambda>_. False) (\<lambda>_. 0)"
  have "\<forall>p \<in> set [(''LOOP'', 0x3002)]. label_ok p"
    by (simp add: label_ok_def isspace_def loc_in_range_def)
  moreover have "files ?s ''a.sym'' = Some (sym_file_text [(''LOOP'', 0x3002)])" "symtab_inv (symbols ?s)"
    by (simp_all add: sim_globals_def symtab_inv_empty)
  ultimately obtain s' where s': "read_sym_file ''a.sym'' ?s = Ret (0, s')"
    "sym_map (symbols s') ''loop'' =
      (case map_of (rev (map (\<lambda>(k, a). (lower k, a)) [(''LOOP'', 0x3002)])) (lower ''loop'') of
         Some a \<Rightarrow> Some a | None \<Rightarrow> sym_map (symbols ?s) ''loop'')"
    using read_sym_file_labels [of ?s "''a.sym''" "[(''LOOP'', 0x3002)]"] by blast
  moreover have "lower ''LOOP'' = lower ''loop''" by code_simp
  ultimately show ?thesis by auto
qed

section \<open>Object files\<close>

text \<open>The bytes of an object file as the characters of a file.\<close>

definition as_text :: "u8 list \<Rightarrow> string" where
  "as_text bs = map (\<lambda>b. char_of (unat b)) bs"

lemma code_of_byte: "int (code_of (char_of (unat b))) = uint b" for b :: u8
proof -
  have "unat b < 256" using unsigned_less [of b, where ?'a = nat] by simp
  then show ?thesis by simp
qed

lemma be16_value: "push_bit 8 (uint (ucast (drop_bit 8 w) :: u8)) OR uint (ucast w :: u8) = uint w" for w :: u16
proof (rule bit_eqI)
  fix n
  have "bit w n \<Longrightarrow> n < 16" using bit_imp_le_length [of w n] by simp
  then show "bit (push_bit 8 (uint (ucast (drop_bit 8 w) :: u8)) OR uint (ucast w :: u8)) n \<longleftrightarrow> bit (uint w) n"
    by (auto simp: bit_simps)
qed

lemma obj_words_be16: "obj_words (as_text (concat (map be16 ws))) = map uint ws"
proof (induction ws)
  case (Cons w ws)
  have "as_text (be16 w @ bs) = char_of (unat (ucast (drop_bit 8 w) :: u8)) # char_of (unat (ucast w :: u8)) # as_text bs" for bs
    by (simp add: as_text_def be16_def)
  with Cons show ?case by (simp only: list.map concat.simps obj_words.simps code_of_byte be16_value)
qed (simp add: as_text_def)

lemma obj_words_file: "obj_words (as_text (obj_file org ws)) = uint org # map uint ws"
  using obj_words_be16 [of "org # ws"] by (simp add: obj_file_def)

lemma write_memory_below:
  assumes "0 \<le> a" "a < 0xFE00" "\<not> gui_mode s"
  shows "write_memory a v s = Ret ((), s\<lparr>lc3_memory := (lc3_memory s)(a := v)\<rparr>)"
  using assms by (simp add: write_memory_def store_mem_def mem_at_def cfun_defs)

lemma write_words_below:
  assumes "0 \<le> a" "a + int (length vs) \<le> 0xFE00" "\<not> gui_mode s"
  shows "write_words a vs s = Ret (a + int (length vs), s\<lparr>lc3_memory :=
    (\<lambda>b. if a \<le> b \<and> b < a + int (length vs) then vs ! nat (b - a) else lc3_memory s b)\<rparr>)"
  using assms
proof (induction vs arbitrary: a s)
  case Nil
  have "(\<lambda>b. if a \<le> b \<and> b < a then [] ! nat (b - a) else lc3_memory s b) = lc3_memory s" by auto
  then show ?case by (simp add: returnS_def)
next
  case (Cons v vs)
  let ?s = "s\<lparr>lc3_memory := (lc3_memory s)(a := v)\<rparr>"
  have a: "(a + 1) AND 0xFFFF = a + 1"
    using Cons.prems by (simp add: and_FFFF)
  have m: "(\<lambda>b. if a + 1 \<le> b \<and> b < a + 1 + int (length vs) then vs ! nat (b - (a + 1)) else lc3_memory ?s b) =
      (\<lambda>b. if a \<le> b \<and> b < a + int (length (v # vs)) then (v # vs) ! nat (b - a) else lc3_memory s b)"
    using Cons.prems by (auto simp: fun_eq_iff nth_Cons' nat_diff_distrib' nat_add_distrib)
  have ih: "write_words (a + 1) vs ?s = Ret (a + 1 + int (length vs), ?s\<lparr>lc3_memory :=
      (\<lambda>b. if a + 1 \<le> b \<and> b < a + 1 + int (length vs) then vs ! nat (b - (a + 1)) else lc3_memory ?s b)\<rparr>)"
    using Cons.prems by (intro Cons.IH) simp_all
  have "write_memory a v s = Ret ((), ?s)" "a + 1 + int (length vs) = a + int (length (v # vs))"
    using write_memory_below [of a s v] Cons.prems by simp_all
  with ih [unfolded m] show ?case
    by (simp add: seqS_def bindS_def a)
qed

lemma wrap_addrs_range: "loc_in_range e \<Longrightarrow> loc_in_range s \<Longrightarrow> b \<in> set (wrap_addrs s e) \<Longrightarrow> loc_in_range b"
proof (induction s e rule: wrap_addrs.induct)
  case (1 s e)
  have "loc_in_range ((s + 1) AND 0xFFFF)" by (simp add: loc_in_range_def and_FFFF)
  with 1 show ?case
    using wrap_addrs.simps [of s e] by (auto simp: loc_in_range_def split: if_splits)
qed

lemma squash_list:
  assumes "symtab_inv (symbols s)" "\<forall>a \<in> set as. loc_in_range a"
  shows "\<exists>st. forS (\<lambda>a. on_symbols (remove_symbol_at_addr a)) as s = Ret ((), s\<lparr>symbols := st\<rparr>) \<and> symtab_inv st"
  using assms
proof (induction as arbitrary: s)
  case Nil
  then show ?case by (auto simp: returnS_def intro: exI [of _ "symbols s"])
next
  case (Cons a as)
  obtain st1 where "remove_symbol_at_addr a (symbols s) = Ret st1" "symtab_inv st1"
    using remove_symbol_at_addr_spec [OF Cons.prems(1), of a] Cons.prems(2) by auto
  with Cons.IH [of "s\<lparr>symbols := st1\<rparr>"] Cons.prems(2) show ?case
    by (simp add: seqS_def bindS_def on_symbols_def)
qed

lemma squash_symbols_total:
  assumes "symtab_inv (symbols s)" "loc_in_range a" "loc_in_range e"
  shows "\<exists>st. squash_symbols a e s = Ret ((), s\<lparr>symbols := st\<rparr>) \<and> symtab_inv st"
proof (cases "a = e")
  case True
  with assms show ?thesis by (auto simp: squash_symbols_def returnS_def intro: exI [of _ "symbols s"])
next
  case False
  with squash_list [OF assms(1)] wrap_addrs_range [OF assms(3,2)] show ?thesis by (simp add: squash_symbols_def)
qed

text \<open>
  Claim C18: loading an object file that lies below the device page, outside the GUI, stores its
  words from the origin on and changes no other memory cell and no register; the symbol table
  stays well formed, and the range of addresses loaded is returned.
\<close>

theorem read_obj_file_places:
  assumes "files s f = Some (as_text (obj_file org ws))" "unat org + length ws \<le> 0xFE00"
    "\<not> gui_mode s" "symtab_inv (symbols s)"
  shows "\<exists>st. symtab_inv st \<and> read_obj_file f s = Ret (Some (uint org, uint org + int (length ws)),
    s\<lparr>lc3_memory := (\<lambda>b. if uint org \<le> b \<and> b < uint org + int (length ws)
        then uint (ws ! nat (b - uint org)) else lc3_memory s b), symbols := st\<rparr>)"
proof -
  let ?m = "\<lambda>b. if uint org \<le> b \<and> b < uint org + int (length ws) then uint (ws ! nat (b - uint org)) else lc3_memory s b"
  have len: "uint org + int (length ws) \<le> 0xFE00"
    using assms(2) by (metis of_nat_add of_nat_le_iff of_nat_numeral uint_nat)
  have m: "(\<lambda>b. if uint org \<le> b \<and> b < uint org + int (length (map uint ws)) then map uint ws ! nat (b - uint org)
      else lc3_memory s b) = ?m"
    by (auto simp: fun_eq_iff)
  have w: "write_words (uint org) (map uint ws) s = Ret (uint org + int (length ws), s\<lparr>lc3_memory := ?m\<rparr>)"
    using write_words_below [of "uint org" "map uint ws" s] len assms(3) unfolding m by simp
  obtain st where st: "symtab_inv st" "squash_symbols (uint org) (uint org + int (length ws)) (s\<lparr>lc3_memory := ?m\<rparr>) =
      Ret ((), s\<lparr>lc3_memory := ?m, symbols := st\<rparr>)"
    using squash_symbols_total [of "s\<lparr>lc3_memory := ?m\<rparr>" "uint org" "uint org + int (length ws)"] assms(4) len
    by (auto simp: loc_in_range_def)
  have "read_obj_file f s = Ret (Some (uint org, uint org + int (length ws)), s\<lparr>lc3_memory := ?m, symbols := st\<rparr>)"
    using w st(2) by (simp add: read_obj_file_def assms(1) obj_words_file bindS_def seqS_def getS_def returnS_def)
  with st(1) show ?thesis by blast
qed

theorem read_obj_file_places_witness:
  "\<exists>st. read_obj_file ''a.obj'' (sim_globals [] (\<lambda>_. Some (as_text (obj_file 0x3000 [0x1025]))) (\<lambda>_. False) (\<lambda>_. 0)) =
     Ret (Some (0x3000, 0x3001),
       (sim_globals [] (\<lambda>_. Some (as_text (obj_file 0x3000 [0x1025]))) (\<lambda>_. False) (\<lambda>_. 0))
         \<lparr>lc3_memory := (\<lambda>b. if 0x3000 \<le> b \<and> b < 0x3001 then 0x1025 else 0), symbols := st\<rparr>)"
proof -
  let ?s = "sim_globals [] (\<lambda>_. Some (as_text (obj_file 0x3000 [0x1025]))) (\<lambda>_. False) (\<lambda>_. 0)"
  have m: "(\<lambda>b. if uint (0x3000 :: u16) \<le> b \<and> b < uint (0x3000 :: u16) + int (length [0x1025 :: u16])
      then uint ([0x1025 :: u16] ! nat (b - uint (0x3000 :: u16))) else lc3_memory ?s b) =
      (\<lambda>b. if 0x3000 \<le> b \<and> b < 0x3001 then 0x1025 else 0)"
    by (auto simp: fun_eq_iff sim_globals_def nth_Cons')
  have "files ?s ''a.obj'' = Some (as_text (obj_file 0x3000 [0x1025]))" "\<not> gui_mode ?s" "symtab_inv (symbols ?s)"
    by (simp_all add: sim_globals_def symtab_inv_empty)
  then show ?thesis
    using read_obj_file_places [of ?s "''a.obj''" "0x3000" "[0x1025]"] unfolding m by auto
qed

end
