(* ===== verification/Sim_Control.thy ===== *)
theory Sim_Control
  imports Sim_Text
begin

text \<open>
  What the command level of the simulator guarantees: when discarding input ends, which command
  a word selects, and that the commands on a well-formed state and an argument of plain text have no
  undefined behaviour and keep the state well formed.
\<close>

section \<open>Discarding input\<close>

lemma drop_input_env [simp]: "env_poll (drop_input s) = env_poll s" "polls (drop_input s) = polls s"
  by (simp_all add: drop_input_def)

lemma flush_loop_ends:
  assumes "\<not> env_poll s (polls s + n)"
  shows "\<exists>s'. flush_loop s = Some (Ret ((), s'))"
  using assms
proof (induction n arbitrary: s)
  case 0
  then show ?case by (subst flush_loop.simps) (simp add: Let_def)
next
  case (Suc n)
  show ?case
  proof (cases "env_poll s (polls s)")
    case True
    then show ?thesis
      using Suc.IH [of "drop_input (s\<lparr>polls := Suc (polls s)\<rparr>)"] Suc.prems
      by (subst flush_loop.simps) (simp add: Let_def)
  next
    case False
    then show ?thesis by (subst flush_loop.simps) (simp add: Let_def)
  qed
qed

lemma flush_loop_result: "flush_loop s = Some r \<Longrightarrow> \<exists>n \<ge> polls s. \<not> env_poll s n"
proof (rule flush_loop.raw_induct [where P = "\<lambda>s r. \<exists>n \<ge> polls s. \<not> env_poll s n"])
  fix loop s r
  assume IH: "\<And>s r. loop s = Some r \<Longrightarrow> \<exists>n \<ge> polls s. \<not> env_poll s n"
    and r: "(let inp = env_poll s (polls s); s1 = s\<lparr>polls := Suc (polls s)\<rparr>
      in if inp then loop (drop_input s1) else Some (Ret ((), s1))) = Some r"
  show "\<exists>n \<ge> polls s. \<not> env_poll s n"
  proof (cases "env_poll s (polls s)")
    case True
    with r have "loop (drop_input (s\<lparr>polls := Suc (polls s)\<rparr>)) = Some r" by (simp add: Let_def)
    from IH [OF this] show ?thesis by (auto intro: Suc_leD)
  qed auto
qed

text \<open>
  Discarding the console input returns exactly when poll finds no input at some call:
  on a descriptor that poll always reports as readable, as it does a regular file even at its
  end, the simulator never gets out of flush_console_input.
\<close>

lemma flush_loop_returns_iff: "flush_loop s \<noteq> None \<longleftrightarrow> (\<exists>n \<ge> polls s. \<not> env_poll s n)"
proof
  assume "flush_loop s \<noteq> None"
  then show "\<exists>n \<ge> polls s. \<not> env_poll s n" using flush_loop_result by blast
next
  assume "\<exists>n \<ge> polls s. \<not> env_poll s n"
  then obtain k where "\<not> env_poll s (polls s + k)" using le_Suc_ex by metis
  then show "flush_loop s \<noteq> None" using flush_loop_ends [of s k] by auto
qed

section \<open>Command words\<close>

lemma lower_names:
  "command_name ` set command = {''break'', ''continue'', ''dump'', ''execute'', ''file'', ''tracefile'', ''finish'',
     ''help'', ''list'', ''memory'', ''next'', ''option'', ''printregs'', ''quit'', ''register'', ''reset'', ''step'',
     ''translate'', ''x''}"
  by (simp add: command_def entry_def)

text \<open>The letters of the table are lower case.\<close>

lemma tolower_letters [simp]:
  "tolower (CHR ''a'') = CHR ''a''" "tolower (CHR ''b'') = CHR ''b''" "tolower (CHR ''c'') = CHR ''c''"
  "tolower (CHR ''d'') = CHR ''d''" "tolower (CHR ''e'') = CHR ''e''" "tolower (CHR ''f'') = CHR ''f''"
  "tolower (CHR ''g'') = CHR ''g''" "tolower (CHR ''h'') = CHR ''h''" "tolower (CHR ''i'') = CHR ''i''"
  "tolower (CHR ''k'') = CHR ''k''" "tolower (CHR ''l'') = CHR ''l''" "tolower (CHR ''m'') = CHR ''m''"
  "tolower (CHR ''n'') = CHR ''n''" "tolower (CHR ''o'') = CHR ''o''" "tolower (CHR ''p'') = CHR ''p''"
  "tolower (CHR ''q'') = CHR ''q''" "tolower (CHR ''r'') = CHR ''r''" "tolower (CHR ''s'') = CHR ''s''"
  "tolower (CHR ''t'') = CHR ''t''" "tolower (CHR ''u'') = CHR ''u''" "tolower (CHR ''x'') = CHR ''x''"
  "tolower (CHR ''y'') = CHR ''y''"
  by (simp_all add: tolower_def)

text \<open>
  Every command of the table is selected by its full name, the GUI command in GUI
  mode only: no earlier entry of the table shadows a later one.
\<close>

lemma select_command_full_name:
  "\<forall>c \<in> set command. gui \<or> flags c \<noteq> CMD_FLAG_GUI_ONLY \<longrightarrow> select_command gui (command_name c) = Some c"
  by (simp add: select_command_def command_def entry_def cmd_matches_def strncasecmp_eq_def)

text \<open>
  Although the help text says that all commands except quit can be abbreviated, no
  proper prefix of reset selects the reset command.
\<close>

lemma reset_not_abbreviated:
  assumes "n < 5"
  shows "map_option func (select_command gui (take n ''reset'')) \<noteq> Some Cmd_reset"
proof -
  have "n \<in> {0, 1, 2, 3, 4}" using assms by auto
  then show ?thesis
    by (auto simp: select_command_def command_def entry_def cmd_matches_def strncasecmp_eq_def)
qed

section \<open>Commands on a well-formed state\<close>

definition cmd_inv :: "sim \<Rightarrow> bool" where
  "cmd_inv s \<longleftrightarrow> sim_ok s \<and> addrs_ok (symbols s) \<and> loc_in_range (dump_last_end s) \<and> loc_in_range (list_last_end s)"

text \<open>Most operations leave alone what the invariant says beyond the values.\<close>

definition keeps :: "sim \<Rightarrow> sim \<Rightarrow> bool" where
  "keeps s0 s \<longleftrightarrow> symbols s = symbols s0 \<and> dump_last_end s = dump_last_end s0 \<and> list_last_end s = list_last_end s0"

lemma safe_framed:
  assumes "safe sim_ok P m" "\<And>s0. preserves (keeps s0) m"
  shows "safe cmd_inv P m"
  unfolding safe_def
proof (intro allI impI)
  fix s assume s: "cmd_inv s"
  then have "sim_ok s" by (simp add: cmd_inv_def)
  moreover have "cmd_inv s'" if "m s = Ret (a, s')" for a s'
  proof -
    have "keeps s s" by (simp add: keeps_def)
    with assms(2) that have "keeps s s'" by (auto dest: preservesD)
    with s \<open>sim_ok s\<close> assms(1) that show ?thesis by (simp add: cmd_inv_def keeps_def safe_def)
  qed
  ultimately show "m s \<noteq> Undef \<and> m s \<noteq> Abort \<and> (\<forall>a s'. m s = Ret (a, s') \<longrightarrow> P a \<and> cmd_inv s')"
    using assms(1) by (simp add: safe_def)
qed

lemma keeps_prims [pres]:
  "preserves (keeps s0) (emit ch str)" "preserves (keeps s0) (puts_c str)" "preserves (keeps s0) (REG i)"
  "preserves (keeps s0) (set_REG i v)" "preserves (keeps s0) poll_c" "preserves (keeps s0) random_c"
  "preserves (keeps s0) (mem_at a)" "preserves (keeps s0) (fgetc_c st)" "preserves (keeps s0) (set_bpt a b)"
  by (auto simp: preserves_def emit_def puts_c_def REG_def set_REG_def poll_c_def random_c_def mem_at_def fgetc_c_def
      set_bpt_def keeps_def cfun_defs split: if_splits list.splits)

lemma keeps_put [pres]: "(\<And>s. keeps s0 s \<Longrightarrow> keeps s0 (f s)) \<Longrightarrow> preserves (keeps s0) (putS f)"
  by (rule preserves_put)

lemma keeps_memory [pres]:
  "preserves (keeps s0) (read_memory a)" "preserves (keeps s0) (disassemble_one a)"
  "preserves (keeps s0) (write_memory a v)" "preserves (keeps s0) dump_delayed_mem_updates"
  "preserves (keeps s0) print_registers" "preserves (keeps s0) (print_register r)"
proof -
  show r: "preserves (keeps s0) (read_memory a)" for a
    unfolding read_memory_def device_ready_def by (rule pres | simp add: keeps_def)+
  show d: "preserves (keeps s0) (disassemble_one a)" for a
    unfolding disassemble_one_def disassemble_one_int_def by (rule pres r | simp)+
  show "preserves (keeps s0) (write_memory a v)"
    unfolding write_memory_def store_mem_def by (rule pres d | simp add: keeps_def)+
  show "preserves (keeps s0) dump_delayed_mem_updates"
    unfolding dump_delayed_mem_updates_def by (rule pres d | simp add: keeps_def)+
  show "preserves (keeps s0) print_registers" "preserves (keeps s0) (print_register r)"
    unfolding print_registers_def print_register_def Let_def by (rule pres d | simp)+
qed

lemma row_values_Cons:
  "row_values a e (x # xs) =
     bindS (if in_dump a e x
            then bindS (read_memory (x AND 0xFFFF)) (\<lambda>v. seqS (emit Stdout (fmt_X 4 v @ '' '')) (returnS (Some v)))
            else seqS (emit Stdout ''     '') (returnS None))
       (\<lambda>y. mapS (\<lambda>ys. y # ys) (row_values a e xs))"
  by (simp add: row_values_def)

lemma keeps_row_values [pres]: "preserves (keeps s0) (row_values a e as)"
proof (induction as)
  case (Cons x xs)
  then show ?case unfolding row_values_Cons by (intro pres)
qed (simp add: row_values_def)

lemma keeps_show [pres]:
  "preserves (keeps s0) (disassemble a e)" "preserves (keeps s0) (dump_memory a e)"
  "preserves (keeps s0) clear_all_breakpoints" "preserves (keeps s0) list_breakpoints"
  unfolding disassemble_def dump_memory_def dump_row_def clear_all_breakpoints_def list_breakpoints_def Let_def
  by (rule pres | simp add: keeps_def)+

lemma safe_row_values [safe_prim]: "safe sim_ok (\<lambda>_. True) (row_values a e as)"
proof (induction as)
  case Nil
  then show ?case by (simp add: row_values_def safe_return)
next
  case (Cons x xs)
  have "safe sim_ok (\<lambda>_. True) (if in_dump a e x
      then bindS (read_memory (x AND 0xFFFF)) (\<lambda>v. seqS (emit Stdout (fmt_X 4 v @ '' '')) (returnS (Some v)))
      else seqS (emit Stdout ''     '') (returnS None))"
    by (((rule safe_bind, rule safe_prim) | rule safe_rules | simp)+)
  then show ?case
    unfolding row_values_Cons by (rule safe_bind) (rule safe_map [OF Cons.IH], simp)
qed

lemma safe_dump_memory: "safe sim_ok (\<lambda>_. True) (dump_memory a e)"
  unfolding dump_memory_def dump_row_def Let_def
  by (((rule safe_bind, rule safe_prim) | rule safe_rules | simp)+)

lemma safe_disassemble: "loc_in_range a \<Longrightarrow> loc_in_range e \<Longrightarrow> safe sim_ok (\<lambda>_. True) (disassemble a e)"
  unfolding disassemble_def using wrap_addrs_range [of e a] by (auto intro!: safe_rules)

lemma safe_list_breakpoints: "safe sim_ok (\<lambda>_. True) list_breakpoints"
  unfolding list_breakpoints_def
proof (rule safe_bind, rule safe_prim)
  fix bpts :: "int \<Rightarrow> bool"
  have "loc_in_range a" if "a \<in> set (filter bpts (map int [0..<65536]))" for a
    using that by (auto simp: loc_in_range_def)
  then show "safe sim_ok (\<lambda>_. True) (case filter bpts (map int [0..<65536]) of
      [] \<Rightarrow> emit Stdout ''No breakpoints are set.\<newline>''
    | as \<Rightarrow> seqS (emit Stdout ''The following instructions are set as breakpoints:\<newline>'') (forS disassemble_one as))"
    by (cases "filter bpts (map int [0..<65536])") (auto intro!: safe_rules simp del: filter_map)
qed

text \<open>The rules on the larger invariant.\<close>

lemmas safe_cmd_prims [safe_rules, safe_prim] =
  safe_framed [OF safe_emit keeps_prims(1)] safe_framed [OF safe_puts keeps_prims(2)]
  safe_framed [OF safe_set_REG keeps_prims(4)] safe_framed [OF safe_disassemble_one keeps_memory(2)]
  safe_framed [OF safe_write_memory keeps_memory(3)] safe_framed [OF safe_dump_delayed keeps_memory(4)]
  safe_framed [OF safe_print_registers keeps_memory(5)] safe_framed [OF safe_print_register keeps_memory(6)]
  safe_framed [OF safe_disassemble keeps_show(1)] safe_framed [OF safe_dump_memory keeps_show(2)]
  safe_framed [OF safe_list_breakpoints keeps_show(4)]

lemmas safe_cmd_values [safe_prim] =
  safe_framed [OF safe_REG keeps_prims(3)] safe_framed [OF safe_read_memory keeps_memory(1)]

section \<open>Each command\<close>

text \<open>The words of a plain text are plain texts, and parse_address is defined on them.\<close>

lemma scan_words_plain: "plain_text s \<Longrightarrow> w \<in> set (scan_words ws s) \<Longrightarrow> plain_text w"
proof (induction ws s rule: scan_words.induct)
  case (2 n ws s)
  show ?case
  proof (cases "scan_s n s")
    case (Some r)
    then obtain x t where r: "scan_s n s = Some (x, t)" by (cases r) auto
    then obtain p where s: "s = p @ x @ t" using scan_s_parts by blast
    with 2(2) have "plain_text x" "plain_text t"
      using plain_text_part [of p x t] plain_text_part [of "p @ x" t "[]"] by simp_all
    with 2(1) [OF r refl] 2(3) r show ?thesis by auto
  qed (use 2(3) in simp)
qed simp

lemma scan_words_Cons_plain:
  "scan_words ws s = w # us \<Longrightarrow> plain_text s \<Longrightarrow> plain_text w"
  "scan_words ws s = u # us \<Longrightarrow> us = w # vs \<Longrightarrow> plain_text s \<Longrightarrow> plain_text w"
  by (rule scan_words_plain [of s _ ws]; simp)+

lemma scan_words_nth_plain: "plain_text s \<Longrightarrow> i < length (scan_words ws s) \<Longrightarrow> plain_text (scan_words ws s ! i)"
  by (rule scan_words_plain [OF _ nth_mem])

lemma safe_parse_addr:
  assumes "plain_text w" shows "safe cmd_inv (\<lambda>a. a = - 1 \<or> loc_in_range a) (parse_addr w)"
proof -
  have "safe cmd_inv (\<lambda>a. a = - 1 \<or> loc_in_range a) (lift_out (parse_address st w))" if st: "addrs_ok st" for st
  proof -
    have "parse_address st w \<noteq> Undef"
      using parse_address_outcome(1) [OF st, of w] scan_address_plain [OF strip_minus_plain [OF assms]] by blast
    then show ?thesis
      using parse_address_outcome(2,3) [OF st, of w] parse_address_values [OF st, of w]
      by (cases "parse_address st w") (auto simp: safe_def lift_out_def)
  qed
  then show ?thesis
    unfolding parse_addr_def by (intro safe_bind [OF safe_get [where P = addrs_ok]]) (simp_all add: cmd_inv_def)
qed

lemma safe_warn [safe_rules]: "safe cmd_inv (\<lambda>_. True) warn_too_many_args"
  unfolding warn_too_many_args_def by (((rule safe_bind, rule safe_prim) | rule safe_rules | simp)+)

lemma safe_no_args [safe_rules]: "safe cmd_inv (\<lambda>_. True) (no_args_allowed args)"
  unfolding no_args_allowed_def by (rule safe_rules)+

lemma safe_report [safe_rules]: "safe cmd_inv (\<lambda>_. True) (report t u)"
  unfolding report_def by (((rule safe_bind, rule safe_prim) | rule safe_rules | simp)+)

definition range_ok :: "(int \<times> int) option \<Rightarrow> bool" where
  "range_ok r = (case r of None \<Rightarrow> True | Some (a, e) \<Rightarrow> loc_in_range a \<and> loc_in_range e)"

lemma safe_parse_range:
  assumes "loc_in_range last_end \<or> last_end = - 1" "plain_text args"
  shows "safe cmd_inv range_ok (parse_range args last_end scale)"
proof -
  let ?ws = "scan_words [80, 80, 1] args"
  have word: "\<not> length ?ws < 1 \<Longrightarrow> safe cmd_inv (\<lambda>a. a = - 1 \<or> loc_in_range a) (parse_addr (?ws ! 0))"
    "\<not> length ?ws < 2 \<Longrightarrow> safe cmd_inv (\<lambda>a. a = - 1 \<or> loc_in_range a) (parse_addr (?ws ! 1))"
    by (rule safe_parse_addr, rule scan_words_nth_plain [OF assms(2)], linarith)+
  show ?thesis
    unfolding parse_range_def Let_def
    by (((rule safe_bind, rule safe_prim) | (rule safe_bind, rule word, assumption) | rule safe_rules
         | (use assms(1) in \<open>(auto simp: range_ok_def loc_in_range_def and_FFFF)[1]\<close>))+)
qed

lemma cmd_inv_more [simp]:
  "cmd_inv (s\<lparr>lc3_breakpoints := b\<rparr>) = cmd_inv s" "cmd_inv (s\<lparr>flush_on_start := v\<rparr>) = cmd_inv s"
  "cmd_inv (s\<lparr>keep_input_on_stop := v\<rparr>) = cmd_inv s" "cmd_inv (s\<lparr>rand_device := v\<rparr>) = cmd_inv s"
  "cmd_inv (s\<lparr>delay_mem_update := v\<rparr>) = cmd_inv s" "cmd_inv (s\<lparr>script_uses_stdin := v\<rparr>) = cmd_inv s"
  "cmd_inv (s\<lparr>lc3in := n\<rparr>) = cmd_inv s"
  "cmd_inv (s\<lparr>interrupted_at_gui_request := v, sys_bpt_addr := a, finish_depth := d\<rparr>) = cmd_inv s"
  by (simp_all add: cmd_inv_def sim_ok_def)

lemma safe_print_lines [safe_rules]: "safe cmd_inv (\<lambda>_. True) (print_lines ls)"
  unfolding print_lines_def by (rule safe_rules)+

lemma safe_breakpoints [safe_rules]:
  "loc_in_range a \<Longrightarrow> safe cmd_inv (\<lambda>_. True) (set_breakpoint a)"
  "loc_in_range a \<Longrightarrow> safe cmd_inv (\<lambda>_. True) (clear_breakpoint a)"
  "safe cmd_inv (\<lambda>_. True) clear_all_breakpoints"
  unfolding set_breakpoint_def clear_breakpoint_def clear_all_breakpoints_def set_bpt_def
  by (((rule safe_bind, rule safe_prim) | rule safe_rules | simp)+)

lemma safe_cmd_break: "plain_text args \<Longrightarrow> safe cmd_inv (\<lambda>_. True) (cmd_break args)"
  unfolding cmd_break_def break_usage_def
  by (((rule safe_bind, rule safe_prim) | (rule safe_bind, rule safe_parse_addr, rule scan_words_Cons_plain(2), assumption, assumption, assumption)
       | rule safe_rules | force)+)

lemma sim_ok_ends [simp]: "sim_ok (s\<lparr>dump_last_end := e\<rparr>) = sim_ok s" "sim_ok (s\<lparr>list_last_end := e\<rparr>) = sim_ok s"
  by (simp_all add: sim_ok_def)

lemma safe_cmd_dump: "plain_text args \<Longrightarrow> safe cmd_inv (\<lambda>_. True) (cmd_dump args)"
  unfolding cmd_dump_def
  by (rule safe_bind [OF safe_get [where P = loc_in_range]], simp add: cmd_inv_def,
      rule safe_bind [OF safe_parse_range], simp)
     ((rule safe_rules | force simp: range_ok_def cmd_inv_def)+)

lemma safe_cmd_list: "plain_text args \<Longrightarrow> safe cmd_inv (\<lambda>_. True) (cmd_list args)"
  unfolding cmd_list_def
  by (rule safe_bind [OF safe_get [where P = loc_in_range]], simp add: cmd_inv_def,
      rule safe_bind [OF safe_parse_range], simp)
     ((rule safe_rules | force simp: range_ok_def cmd_inv_def)+)

lemma safe_cmd_memory: "plain_text args \<Longrightarrow> safe cmd_inv (\<lambda>_. True) (cmd_memory args)"
  unfolding cmd_memory_def
  by (rule safe_bind [OF safe_parse_range], simp)
     (((rule safe_bind, rule safe_prim) | rule safe_rules | force simp: range_ok_def)+)

lemma safe_cmd_translate: "plain_text args \<Longrightarrow> safe cmd_inv (\<lambda>_. True) (cmd_translate args)"
  unfolding cmd_translate_def Let_def
  by (((rule safe_bind, rule safe_prim) | (rule safe_bind, rule safe_parse_addr, rule scan_words_Cons_plain(1), assumption, assumption)
       | rule safe_rules | force)+)

lemma safe_cmd_option: "safe cmd_inv (\<lambda>_. True) (cmd_option args)"
  unfolding cmd_option_def set_option_def option_usage_def will_def Let_def
  by (((rule safe_bind, rule safe_prim) | rule safe_rules | simp)+)

lemma safe_gui_stop [safe_rules]: "safe cmd_inv (\<lambda>_. True) gui_stop_and_dump"
  unfolding gui_stop_and_dump_def by ((rule safe_rules | simp)+)

lemma find_index_less: "find_index P xs = Some i \<Longrightarrow> i < length xs"
  by (induction xs arbitrary: i) (auto split: if_splits)

lemma val16_cc: "i < 4 \<Longrightarrow> loc_in_range (push_bit 9 (int i + 1))"
  by (simp add: loc_in_range_def push_bit_eq_mult)

lemma safe_set_condition [safe_rules]: "safe cmd_inv (\<lambda>_. True) (set_condition w)"
proof -
  have cc: "find_index P cc_val = Some i \<Longrightarrow> loc_in_range (push_bit 9 (int i + 1))" for P i
    using find_index_less [of P cc_val i] by (simp add: val16_cc cc_val_def)
  show ?thesis
    unfolding set_condition_def
    by (((rule safe_bind, rule safe_prim) | rule safe_rules | simp add: val16_or cc)+)
qed

lemma safe_cmd_register: "plain_text args \<Longrightarrow> safe cmd_inv (\<lambda>_. True) (cmd_register args)"
  unfolding cmd_register_def
  by (((rule safe_bind, rule safe_prim) | (rule safe_bind, rule safe_parse_addr, rule scan_words_Cons_plain(2), assumption, assumption, assumption)
       | rule safe_rules | force)+)

text \<open>The commands that neither run the machine nor read a file.\<close>

definition local_command :: "cmd_func \<Rightarrow> bool" where
  "local_command f \<longleftrightarrow> f \<in> {Cmd_break, Cmd_dump, Cmd_help, Cmd_list, Cmd_memory, Cmd_option, Cmd_printregs, Cmd_quit,
     Cmd_register, Cmd_translate, Cmd_lc3_stop}"

text \<open>
  Claim C16: on an argument of ASCII characters with no more than seven hexadecimal digits in a row, the
  commands that show or change the machine without running it have no undefined behaviour: from a
  state with 16-bit values and symbols with memory addresses they return in such a state or
  leave the process.  Without that restriction parse_address is undefined for some words.
\<close>

theorem local_commands_safe:
  assumes "local_command f" "cmd_inv s" "\<forall>c \<in> set args. code_of c < 128" "short_numbers 0 args"
  shows "\<exists>r. run_command cfg loop f args s = Some r \<and>
    ((\<exists>s'. r = Ret ((), s') \<and> cmd_inv s') \<or> (\<exists>n. r = Exit n))"
proof -
  have safe_act: "\<exists>r. lift_act m s = Some r \<and> ((\<exists>s'. r = Ret ((), s') \<and> cmd_inv s') \<or> (\<exists>n. r = Exit n))"
    if "safe cmd_inv (\<lambda>_. True) m" for m
    using that assms(2) by (cases "m s") (auto simp: safe_def lift_act_def)
  have "safe cmd_inv (\<lambda>_. True) (cmd_printregs args)" "safe cmd_inv (\<lambda>_. True) (cmd_quit args)"
    "safe cmd_inv (\<lambda>_. True) (cmd_help args)" "safe cmd_inv (\<lambda>_. True) (cmd_lc3_stop args)"
    unfolding cmd_printregs_def cmd_quit_def cmd_help_def cmd_lc3_stop_def by (rule safe_rules)+
  moreover have "plain_text args" using assms(3,4) by (simp add: plain_text_def)
  ultimately show ?thesis
    using assms(1)
    by (cases f) (simp_all add: local_command_def run_command_def safe_act safe_cmd_break safe_cmd_dump safe_cmd_list
        safe_cmd_memory safe_cmd_option safe_cmd_register safe_cmd_translate)
qed

theorem local_commands_safe_witness:
  "\<exists>r. run_command \<lparr>install_dir = ''/lc3'', tty = (\<lambda>_. True), can_create = (\<lambda>_. False)\<rparr> (\<lambda>_. None) Cmd_register
      ''R3 x3000'' (sim_globals [] (\<lambda>_. None) (\<lambda>_. False) (\<lambda>_. 0)) = Some r \<and>
    ((\<exists>s'. r = Ret ((), s') \<and> cmd_inv s') \<or> (\<exists>n. r = Exit n))"
  by (rule local_commands_safe)
     (simp_all add: local_command_def cmd_inv_def sim_ok_def sim_globals_def loc_in_range_def addrs_ok_def
        find_symbol_def empty_symtab_def digit_val_def)

end
