(* ===== verification/PP_Lines.thy ===== *)
theory PP_Lines
  imports C_Monad C_Strings
begin

text \<open>
  The text level of the linker lc3pp (src/lcc-1.3/lc3pp/lc3pp.c): the functions Readline and
  Getword with the capacities of their buffers, strtol, and check_ldr, which recognises a load
  that the linker can merge.  A write past a buffer is \<open>Undef\<close>; so is a read behind the end of
  the string in a line buffer, where the code would see what an earlier line left there, except
  in the scan of the input files, whose buffer is modelled byte by byte.
\<close>

section \<open>Library functions\<close>

text \<open>strtol in base 10 or 16, saturating at the limits of long; None: nothing was converted.\<close>

definition strtol :: "nat \<Rightarrow> string \<Rightarrow> (int \<times> string) option" where
  "strtol base s =
     (case scan_sign (dropWhile isspace s) of (neg, s1) \<Rightarrow>
        let s2 = (if base = 16 then skip_0x s1 else s1)
        in if is_digit_in base s2 then
             (case scan_digits base 0 s2 of (n, rest) \<Rightarrow>
                Some (max (- (2 ^ 63)) (min (2 ^ 63 - 1) (if neg then - int n else int n)), rest))
           else None)"

text \<open>strncmp with the length of the literal: the line starts with it.\<close>

definition starts :: "string \<Rightarrow> string \<Rightarrow> bool" where
  "starts p line \<longleftrightarrow> take (length p) line = p"

text \<open>The pointer line + n into a string buffer.\<close>

definition text_at :: "nat \<Rightarrow> string \<Rightarrow> string outcome" where
  "text_at n line = (if n \<le> length line then Ret (drop n line) else Undef)"

text \<open>A value of type int, when the sum that gives it does not overflow.\<close>

definition chk_int :: "int \<Rightarrow> int outcome" where
  "chk_int v = (if - (2 ^ 31) \<le> v \<and> v < 2 ^ 31 then Ret v else Undef)"

text \<open>A number that an int cannot hold is undefined.\<close>

definition atoi :: "string \<Rightarrow> int outcome" where
  "atoi s = (case strtol 10 s of None \<Rightarrow> Ret 0 | Some (v, _) \<Rightarrow> chk_int v)"

section \<open>Streams\<close>

record stream =
  rest :: string
  at_eof :: bool

definition open_stream :: "string \<Rightarrow> stream" where
  "open_stream text = \<lparr>rest = text, at_eof = False\<rparr>"

abbreviation newline :: char where "newline \<equiv> CHR 0x0A"

text \<open>The capacity after the check at index i.\<close>

definition grow :: "nat \<Rightarrow> nat \<Rightarrow> nat" where
  "grow i len = (if i + 2 > len then len * 2 else len)"

text \<open>The loop of Readline from index i on; the terminator goes to the index where it stops.\<close>

fun read_chars :: "nat \<Rightarrow> nat \<Rightarrow> string \<Rightarrow> (string \<times> nat \<times> stream) outcome" where
  "read_chars i len [] =
     (if i < grow i len then Ret ([], grow i len, \<lparr>rest = [], at_eof = True\<rparr>) else Undef)"
| "read_chars i len (c # cs) =
     (if i < grow i len then
        if c = newline then Ret ([], grow i len, \<lparr>rest = cs, at_eof = False\<rparr>)
        else bind_outcome (read_chars (Suc i) (grow i len) cs) (\<lambda>(l, n, st). Ret (c # l, n, st))
      else Undef)"

definition Readline :: "nat \<Rightarrow> stream \<Rightarrow> (string \<times> nat \<times> stream) outcome" where
  "Readline len f =
     (if at_eof f then (if 0 < len then Ret ([], len, f) else Undef)
      else read_chars 0 len (rest f))"

text \<open>
  The bytes of a line buffer; \<open>None\<close> is a byte that was never written.  A line goes to the front,
  closed by a NUL; what was behind stays, and a buffer that grew has new bytes at its end.
\<close>

type_synonym bytes = "char option list"

definition put_line :: "string \<Rightarrow> nat \<Rightarrow> bytes \<Rightarrow> bytes" where
  "put_line line cap b = map Some line @ Some (CHR 0x00) # drop (Suc (length line)) (b @ replicate (cap - length b) None)"

text \<open>The string that starts at the head of a block: a byte never written, or the end of the block, is not to be read.\<close>

fun c_string :: "bytes \<Rightarrow> string outcome" where
  "c_string [] = Undef"
| "c_string (None # b) = Undef"
| "c_string (Some c # b) = (if c = CHR 0x00 then Ret [] else bind_outcome (c_string b) (\<lambda>s. Ret (c # s)))"

text \<open>Readline into such a buffer.\<close>

definition read_bytes :: "bytes \<Rightarrow> stream \<Rightarrow> (string \<times> bytes \<times> stream) outcome" where
  "read_bytes b f = bind_outcome (Readline (length b) f) (\<lambda>(line, cap, f). Ret (line, put_line line cap b, f))"

section \<open>Words\<close>

fun getword_len :: "string \<Rightarrow> nat" where
  "getword_len [] = 1"
| "getword_len (c # cs) = (if cs \<noteq> [] \<and> hd cs = CHR '' '' then 1 else Suc (getword_len cs))"

definition Getword :: "nat \<Rightarrow> string \<Rightarrow> (string \<times> nat) outcome" where
  "Getword cap line =
     (let i = getword_len line in if i + 1 \<le> cap then Ret (take i line, i) else Undef)"

section \<open>Recognising a load\<close>

definition eat :: "(char \<Rightarrow> bool) \<Rightarrow> string \<Rightarrow> string option" where
  "eat P s = (case s of [] \<Rightarrow> None | c # cs \<Rightarrow> if P c then Some cs else None)"

definition schar :: "char \<Rightarrow> int" where
  "schar c = (if code_of c < 128 then int (code_of c) else int (code_of c) - 256)"

text \<open>R and the register's digit; the character code of register -48 is that of the terminator.\<close>

definition eat_reg :: "int \<Rightarrow> string \<Rightarrow> string option outcome" where
  "eat_reg reg_num s =
     (case eat (\<lambda>c. c = CHR ''r'' \<or> c = CHR ''R'') s of
        None \<Rightarrow> Ret None
      | Some t \<Rightarrow> if t = [] \<and> reg_num = - 48 then Undef else Ret (eat (\<lambda>c. schar c = reg_num + 48) t))"

text \<open>A step of the parser after one that may have failed, and white space at its end.\<close>

definition then_eat :: "'a option outcome \<Rightarrow> ('a \<Rightarrow> 'b option outcome) \<Rightarrow> 'b option outcome" where
  "then_eat r f = bind_outcome r (\<lambda>x. case x of None \<Rightarrow> Ret None | Some a \<Rightarrow> f a)"

definition eat_spaces :: "string \<Rightarrow> string option outcome" where
  "eat_spaces s = bind_outcome (skip_spaces s) (\<lambda>t. Ret (Some t))"

definition eat_comma :: "string \<Rightarrow> string option outcome" where
  "eat_comma s = then_eat (eat_spaces s) (\<lambda>s. then_eat (Ret (eat (\<lambda>c. c = CHR '','') s)) eat_spaces)"

definition eat_ldr :: "string \<Rightarrow> string option outcome" where
  "eat_ldr s =
     then_eat (eat_spaces s) (\<lambda>s.
       then_eat
         (Ret (Option.bind (eat (\<lambda>c. c = CHR ''l'' \<or> c = CHR ''L'') s) (\<lambda>s.
            Option.bind (eat (\<lambda>c. c = CHR ''d'' \<or> c = CHR ''D'') s)
              (eat (\<lambda>c. c = CHR ''r'' \<or> c = CHR ''R'')))))
         eat_spaces)"

text \<open>After x, a number that does not convert still counts, as 0.\<close>

definition ldr_offset :: "string \<Rightarrow> int option" where
  "ldr_offset s =
     (case s of
        [] \<Rightarrow> None
      | c # cs \<Rightarrow>
          if c = CHR ''x'' \<or> c = CHR ''X'' then Some (case strtol 16 cs of None \<Rightarrow> 0 | Some (v, _) \<Rightarrow> to_int32 v)
          else map_option (\<lambda>(v, _). to_int32 v) (strtol 10 (if c = CHR ''#'' then cs else s)))"

text \<open>The test as a whole: Some offset when the line is a load from the register into itself.\<close>

definition check_ldr :: "string \<Rightarrow> int \<Rightarrow> int option outcome" where
  "check_ldr line reg_num =
     then_eat (eat_ldr line) (\<lambda>s. then_eat (eat_reg reg_num s) (\<lambda>s. then_eat (eat_comma s) (\<lambda>s.
       then_eat (eat_reg reg_num s) (\<lambda>s. then_eat (eat_comma s) (\<lambda>s. Ret (ldr_offset s))))))"

section \<open>Facts\<close>

lemma starts_append [simp]: "starts p (p @ s)"
  by (simp add: starts_def)

lemma starts_iff: "starts p line \<longleftrightarrow> (\<exists>s. line = p @ s)"
  unfolding starts_def by (metis append_eq_conv_conj append_take_drop_id)

lemma text_at_append [simp]: "text_at (length p) (p @ s) = Ret s"
  by (simp add: text_at_def)

text \<open>
  The line that Readline returns: the text up to the next newline, and what follows it.
\<close>

definition line_of :: "stream \<Rightarrow> string" where
  "line_of f = (if at_eof f then [] else takeWhile (\<lambda>c. c \<noteq> newline) (rest f))"

definition after_line :: "stream \<Rightarrow> stream" where
  "after_line f =
     (if at_eof f then f
      else case dropWhile (\<lambda>c. c \<noteq> newline) (rest f) of
             [] \<Rightarrow> \<lparr>rest = [], at_eof = True\<rparr>
           | _ # cs \<Rightarrow> \<lparr>rest = cs, at_eof = False\<rparr>)"

lemma c_string_append: "c_string b \<noteq> Undef \<Longrightarrow> c_string (b @ b') = c_string b"
proof (induction b rule: c_string.induct)
  case (3 c b)
  then show ?case by (cases "c_string b") auto
qed simp_all

lemma c_string_line: "c_string (map Some t @ Some (CHR 0x00) # b) = Ret (takeWhile (\<lambda>c. c \<noteq> CHR 0x00) t)"
  by (induction t) simp_all

lemma c_string_out: "c_string b = Undef \<or> (\<exists>s. c_string b = Ret s)"
  by (induction b rule: c_string.induct) auto

lemma put_line_Nil [simp]: "put_line line cap b \<noteq> []"
  by (simp add: put_line_def)

text \<open>Behind a line that reaches it, a place of the buffer has the end of the line, behind a shorter line what was there.\<close>

lemma string_behind:
  shows "k \<le> length line \<Longrightarrow> c_string (drop k (put_line line cap b)) = Ret (takeWhile (\<lambda>c. c \<noteq> CHR 0x00) (drop k line))"
    and "length line < k \<Longrightarrow> c_string (drop k b) \<noteq> Undef \<Longrightarrow> c_string (drop k (put_line line cap b)) = c_string (drop k b)"
proof -
  show "k \<le> length line \<Longrightarrow> c_string (drop k (put_line line cap b)) = Ret (takeWhile (\<lambda>c. c \<noteq> CHR 0x00) (drop k line))"
    by (simp add: put_line_def c_string_line drop_map)
next
  assume k: "length line < k" and s: "c_string (drop k b) \<noteq> Undef"
  from s have "k < length b" by (cases "k < length b") auto
  with k have "drop k (put_line line cap b) = drop k b @ replicate (cap - length b) None"
    by (simp add: put_line_def drop_Cons')
  with c_string_append [OF s] show "c_string (drop k (put_line line cap b)) = c_string (drop k b)" by simp
qed

lemma read_chars_result:
  assumes "i < len"
  shows "\<exists>n. read_chars i len cs = Ret (takeWhile (\<lambda>c. c \<noteq> newline) cs, n,
      case dropWhile (\<lambda>c. c \<noteq> newline) cs of [] \<Rightarrow> \<lparr>rest = [], at_eof = True\<rparr> | _ # r \<Rightarrow> \<lparr>rest = r, at_eof = False\<rparr>)
    \<and> i + length (takeWhile (\<lambda>c. c \<noteq> newline) cs) < n \<and> len \<le> n"
  using assms
proof (induction cs arbitrary: i len)
  case Nil
  then show ?case by (auto simp: grow_def)
next
  case (Cons c cs)
  have "Suc i < grow i len" "i < grow i len" "len \<le> grow i len" using Cons.prems by (auto simp: grow_def)
  then show ?case using Cons.IH [of "Suc i" "grow i len"] by (fastforce simp: less_imp_le)
qed

lemma Readline_result:
  assumes "0 < len"
  shows "\<exists>n. Readline len f = Ret (line_of f, n, after_line f) \<and> length (line_of f) < n \<and> len \<le> n"
  using assms read_chars_result [of 0 len "rest f"] by (auto simp: Readline_def line_of_def after_line_def)

lemma read_bytes_result:
  assumes "b \<noteq> []"
  shows "\<exists>n. read_bytes b f = Ret (line_of f, put_line (line_of f) n b, after_line f)"
  using Readline_result [of "length b" f] assms by (auto simp: read_bytes_def)

lemma strtol_shorter: "strtol base s = Some (v, t) \<Longrightarrow> length t < length s"
proof -
  have digits: "scan_digits b a u = (n, r) \<Longrightarrow> length r \<le> length u" for b a u n r
    by (induction b a u arbitrary: n r rule: scan_digits.induct)
       (fastforce split: option.splits if_splits)+
  have digits1: "is_digit_in b u \<Longrightarrow> scan_digits b a u = (n, r) \<Longrightarrow> length r < length u" for b a u n r
    using digits by (cases u) (fastforce simp: is_digit_in_def split: option.splits if_splits)+
  have sgn: "scan_sign u = (neg, w) \<Longrightarrow> length w \<le> length u" for u neg w
    by (auto simp: scan_sign_def split: list.splits if_splits)
  have hex: "length (skip_0x u) \<le> length u" for u
    by (auto simp: skip_0x_def split: list.splits)
  have drop: "length (dropWhile isspace s) \<le> length s" by (rule length_dropWhile_le)
  assume "strtol base s = Some (v, t)"
  then obtain neg s1 s2 n where
    1: "scan_sign (dropWhile isspace s) = (neg, s1)" "s2 = (if base = 16 then skip_0x s1 else s1)"
       "is_digit_in base s2" "scan_digits base 0 s2 = (n, t)"
    by (auto simp: strtol_def Let_def split: prod.splits if_splits)
  have "length s2 \<le> length s1" using hex [of s1] 1(2) by simp
  with sgn [OF 1(1)] digits1 [OF 1(3,4)] drop show ?thesis by linarith
qed

end
