(* ===== verification/PP_Link.thy ===== *)
theory PP_Link
  imports PP_Lines
begin

text \<open>
  The first pass of the linker (src/lcc-1.3/lc3pp/lc3pp.c): the tables of .global and .extern
  names and resolve_externs, which writes the file that holds main with the code and the
  variables of the other files in place of its .extern lines.

  The state of resolve_externs is a record: its buffers with their capacities, the variables
  that a loop leaves to the next one, the tables, the input streams and the output.  The
  capacity of the array of used variables is 100 entries: where the code enlarges it, it asks
  for a number of bytes below that of the entries in use, and the next access is \<open>Undef\<close>.
\<close>

section \<open>Data\<close>

record link_variable =
  lname :: string
  largn :: nat

record link_list =
  globals :: "link_variable list"
  externs :: "link_variable list"
  extern_max :: nat

record used_variable =
  uname :: string
  label :: bool

record linker =
  buf :: string
  buf_max :: nat
  word :: string
  word_max :: nat
  idx :: nat
  used :: "used_variable list"
  table :: link_list
  table_moved :: bool
  texts :: "nat \<Rightarrow> string"
  inputs :: "nat \<Rightarrow> stream"
  library :: "string \<Rightarrow> string option"
  full :: string
  messages :: string

type_synonym 'a lact = "('a, linker) cfun"

definition USED_MAX :: nat where "USED_MAX = 100"

definition need :: "bool \<Rightarrow> (unit, 's) cfun" where
  "need b = (if b then returnS () else undefS)"

section \<open>The tables\<close>

text \<open>
  One line of the scan of file i, in the buffer b.  The name is the string at the ninth byte of the
  buffer: after a bare .global or .extern that is what an earlier line left there.
\<close>

definition scan_line :: "nat \<Rightarrow> bytes \<Rightarrow> string \<Rightarrow> link_list \<Rightarrow> link_list outcome" where
  "scan_line i b line l =
     (if starts ''.global'' line then
        bind_outcome (c_string (drop 8 b)) (\<lambda>n. Ret (l\<lparr>globals := globals l @ [\<lparr>lname = n, largn = i\<rparr>]\<rparr>))
      else if starts ''.extern'' line then
        bind_outcome (c_string (drop 8 b)) (\<lambda>n.
          Ret (l\<lparr>externs := externs l @ [\<lparr>lname = n, largn = i\<rparr>],
                 extern_max := (if length (externs l) = extern_max l then extern_max l * 2 else extern_max l)\<rparr>))
      else Ret l)"

text \<open>The scan of one file up to .END; the state is the line buffer, the stream and the tables.\<close>

partial_function (option) scan_file ::
  "nat \<Rightarrow> bytes \<times> stream \<times> link_list \<Rightarrow> (unit \<times> (bytes \<times> stream \<times> link_list)) outcome option" where
  "scan_file i s =
     (case s of (b, f, l) \<Rightarrow>
        bind_run (Some (bind_outcome (read_bytes b f) (\<lambda>(line, b, f).
                    bind_outcome (scan_line i b line l) (\<lambda>l. Ret (line, (b, f, l))))))
          (\<lambda>line s. if starts ''.END'' line then Some (Ret ((), s)) else scan_file i s))"

section \<open>Primitive steps\<close>

definition read_buf :: "nat \<Rightarrow> unit lact" where
  "read_buf n s =
     bind_outcome (Readline (buf_max s) (inputs s n)) (\<lambda>(line, cap, f).
       Ret ((), s\<lparr>buf := line, buf_max := cap, inputs := (inputs s)(n := f)\<rparr>))"

definition rewind_file :: "nat \<Rightarrow> unit lact" where
  "rewind_file n = putS (\<lambda>s. s\<lparr>inputs := (inputs s)(n := open_stream (texts s n))\<rparr>)"

definition print_buf :: "unit lact" where
  "print_buf = putS (\<lambda>s. s\<lparr>full := full s @ buf s @ [newline]\<rparr>)"

text \<open>Double a capacity while it is below a size.\<close>

function dbl_until :: "nat \<Rightarrow> nat \<Rightarrow> nat" where
  "dbl_until n cap = (if cap < n \<and> 0 < cap then dbl_until n (cap * 2) else cap)"
  by auto
termination by (relation "measure (\<lambda>(n, cap). n - cap)") auto

declare dbl_until.simps [simp del]

text \<open>Write a string at offset k of the word buffer: the characters before k stay.\<close>

definition set_word :: "nat \<Rightarrow> string \<Rightarrow> unit lact" where
  "set_word k t s =
     (if k + length t + 1 \<le> word_max s then Ret ((), s\<lparr>word := take k (word s) @ t\<rparr>) else Undef)"

definition grow_word :: "nat \<Rightarrow> unit lact" where
  "grow_word n = putS (\<lambda>s. s\<lparr>word_max := dbl_until n (word_max s)\<rparr>)"

text \<open>The name that starts at offset k of the line and ends before a space or a plus sign.\<close>

definition name_at :: "nat \<Rightarrow> string \<Rightarrow> string outcome" where
  "name_at k line =
     bind_outcome (text_at k line) (\<lambda>t.
       if \<exists>c \<in> set t. c = CHR '' '' \<or> c = CHR ''+''
       then Ret (takeWhile (\<lambda>c. c \<noteq> CHR '' '' \<and> c \<noteq> CHR ''+'') t) else Undef)"

text \<open>Copy that name to the word buffer.\<close>

definition copy_name :: "nat \<Rightarrow> unit lact" where
  "copy_name k =
     bindS (getS buf) (\<lambda>line.
       bindS (lift_out (name_at k line)) (\<lambda>n. seqS (grow_word (length n)) (set_word 0 n)))"

fun index_of :: "('a \<Rightarrow> bool) \<Rightarrow> 'a list \<Rightarrow> nat" where
  "index_of P [] = 0"
| "index_of P (x # xs) = (if P x then 0 else Suc (index_of P xs))"

definition add_used :: "string \<Rightarrow> bool \<Rightarrow> unit lact" where
  "add_used n l = putS (\<lambda>s. s\<lparr>used := used s @ [\<lparr>uname = n, label = l\<rparr>]\<rparr>)"

definition used_room :: "unit lact" where
  "used_room = bindS (getS used) (\<lambda>u. need (length u < USED_MAX))"

section \<open>Importing a function\<close>

text \<open>A use of a global variable in the function's body.\<close>

definition note_use :: "unit lact" where
  "note_use =
     seqS (copy_name 11) (seqS used_room
       (bindS (getS id) (\<lambda>s.
          let i = index_of (\<lambda>u. uname u = word s) (used s)
          in seqS (putS (\<lambda>s. s\<lparr>idx := i\<rparr>)) (whenS (i = length (used s)) (add_used (word s) False)))))"

text \<open>
  The search for a known variable among the declarations in the body: the name of each is copied
  behind the flag in the word buffer and compared as a prefix of the line.
\<close>

fun match_used :: "nat \<Rightarrow> used_variable list \<Rightarrow> bool lact" where
  "match_used i [] = seqS (putS (\<lambda>s. s\<lparr>idx := i\<rparr>)) (returnS False)"
| "match_used i (u # us) =
     seqS (set_word 10 (uname u))
       (bindS (getS id) (\<lambda>s.
          if starts (word s) (buf s)
          then seqS (putS (\<lambda>s. s\<lparr>idx := i, used := (used s)[i := (used s ! i)\<lparr>label := True\<rparr>]\<rparr>)) (returnS True)
          else match_used (Suc i) us))"

text \<open>A declaration inside the body, the address of a label.\<close>

definition note_label :: "unit lact" where
  "note_label =
     seqS used_room (seqS (set_word 0 ''LC3_GFLAG '')
       (bindS (getS used) (\<lambda>us. bindS (match_used 0 us) (\<lambda>present.
          seqS (copy_name 10) (bindS (getS word) (\<lambda>w. whenS (\<not> present) (add_used w True)))))))"

partial_function (option) body_loop :: "nat \<Rightarrow> linker \<Rightarrow> (unit \<times> linker) outcome option" where
  "body_loop num s =
     bind_run (Some (seqS (read_buf num) print_buf s)) (\<lambda>_ s.
       if starts ''.LC3GLOBAL'' (buf s) then bind_run (Some (note_use s)) (\<lambda>_ s. body_loop num s)
       else if starts ''LC3_GFLAG'' (buf s) then bind_run (Some (note_label s)) (\<lambda>_ s. body_loop num s)
       else if starts ''RET'' (buf s) then Some (Ret ((), s))
       else body_loop num s)"

text \<open>A used name that the function's file only declares .extern becomes an .extern of the main file.\<close>

definition add_extern :: "string \<Rightarrow> nat \<Rightarrow> linker \<Rightarrow> linker" where
  "add_extern n mfile s =
     (let t = table s
      in if \<exists>e \<in> set (externs t). largn e = 0 \<and> lname e = n then s
         else s\<lparr>table := t\<lparr>externs := externs t @ [\<lparr>lname = n, largn = mfile\<rparr>],
                  extern_max := (if length (externs t) = extern_max t then extern_max t * 2 else extern_max t)\<rparr>,
                table_moved := (table_moved s \<or> length (externs t) = extern_max t)\<rparr>)"

definition pass_extern :: "nat \<Rightarrow> nat \<Rightarrow> nat \<Rightarrow> linker \<Rightarrow> linker" where
  "pass_extern num mfile i s =
     (let n = uname (used s ! i)
      in if \<exists>e \<in> set (externs (table s)). largn e = num \<and> lname e = n
         then add_extern n mfile (s\<lparr>used := (used s)[i := (used s ! i)\<lparr>label := True\<rparr>]\<rparr>)
         else s)"

definition pass_externs :: "nat \<Rightarrow> nat \<Rightarrow> unit lact" where
  "pass_externs num mfile = putS (\<lambda>s. fold (pass_extern num mfile) [0..<length (used s)] s)"

text \<open>The lines of a variable: its declaration is printed, then those that continue it.\<close>

partial_function (option) copy_fills :: "nat \<Rightarrow> linker \<Rightarrow> (unit \<times> linker) outcome option" where
  "copy_fills num s =
     bind_run (Some (read_buf num s)) (\<lambda>_ s.
       if starts ''LC3_GFLAG .FILL'' (buf s)
       then bind_run (Some (print_buf s)) (\<lambda>_ s. copy_fills num s)
       else Some (Ret ((), s)))"

text \<open>The search for the declaration of a variable, once around the file.\<close>

partial_function (option) find_decl :: "nat \<Rightarrow> bool \<Rightarrow> linker \<Rightarrow> (unit \<times> linker) outcome option" where
  "find_decl num end_flag s =
     (if starts (word s) (buf s) then bind_run (Some (print_buf s)) (\<lambda>_ s. copy_fills num s)
      else if starts ''.END'' (buf s) then
        bind_run (Some (seqS (rewind_file num) (read_buf num) s)) (\<lambda>_ s.
          if end_flag then
            Some (Ret ((), s\<lparr>messages := messages s @ ''symbol '' @ word s @ '' not found'' @ [newline]\<rparr>))
          else find_decl num True s)
      else bind_run (Some (read_buf num s)) (\<lambda>_ s. find_decl num end_flag s))"

fun import_decls :: "nat \<Rightarrow> used_variable list \<Rightarrow> linker \<Rightarrow> (unit \<times> linker) outcome option" where
  "import_decls num [] s = Some (Ret ((), s))"
| "import_decls num (u # us) s =
     (if label u then import_decls num us s
      else bind_run (Some (set_word 10 (uname u) s)) (\<lambda>_ s.
             bind_run (find_decl num False s) (\<lambda>_ s. import_decls num us s)))"

text \<open>The import of the function whose label has been printed.\<close>

definition import_function :: "nat \<Rightarrow> nat \<Rightarrow> linker \<Rightarrow> (unit \<times> linker) outcome option" where
  "import_function num mfile s =
     bind_run (Some (bindS (getS id) (\<lambda>s. seqS (need (idx s < length (globals (table s))))
                 (add_used (lname (globals (table s) ! idx s)) True)) s)) (\<lambda>_ s.
       bind_run (body_loop num s) (\<lambda>_ s.
         bind_run (Some (seqS (pass_externs num mfile) (seqS (set_word 0 ''LC3_GFLAG '') (read_buf num)) s)) (\<lambda>_ s.
           bind_run (import_decls num (used s) s) (\<lambda>_ s.
             Some (Ret ((), s\<lparr>idx := length (used s), used := []\<rparr>))))))"

section \<open>Resolving the externs\<close>

text \<open>The search through file num for the .global line in the word buffer.\<close>

partial_function (option) import_loop :: "nat \<Rightarrow> nat \<Rightarrow> linker \<Rightarrow> (unit \<times> linker) outcome option" where
  "import_loop num mfile s =
     bind_run (Some (read_buf num s)) (\<lambda>_ s.
       bind_run
         (if word s = buf s then
            bind_run (Some (seqS (read_buf num) print_buf s)) (\<lambda>_ s.
              if starts ''LC3_GFLAG'' (buf s) then copy_fills num s else import_function num mfile s)
          else Some (Ret ((), s)))
         (\<lambda>_ s. if starts ''.END'' (buf s) then Some (Ret ((), s)) else import_loop num mfile s))"

text \<open>One .extern of the main file.\<close>

definition resolve_one :: "nat \<Rightarrow> string \<Rightarrow> linker \<Rightarrow> (unit \<times> linker) outcome option" where
  "resolve_one mfile n s =
     bind_run (Some (bindS (putS (\<lambda>s. s\<lparr>buf_max := dbl_until (length n) (buf_max s)\<rparr>))
         (\<lambda>_. bindS (getS buf_max) (\<lambda>cap. seqS (need (length n + 5 \<le> cap)) (putS (\<lambda>s. s\<lparr>buf := n @ ''.asm''\<rparr>)))) s))
     (\<lambda>_ s.
       let gs = globals (table s); i = index_of (\<lambda>g. lname g = n) gs; s = s\<lparr>idx := i\<rparr>
       in if i \<noteq> length gs then
            (let num = largn (gs ! i)
             in if num = mfile then Some (Ret ((), s))
                else bind_run (Some (seqS (rewind_file num) (seqS (grow_word (length n + 8)) (set_word 0 (''.global '' @ n))) s))
                       (\<lambda>_ s. import_loop num mfile s))
          else
            (case library s (buf s) of
               None \<Rightarrow> Some (Exit (- 1))
             | Some text \<Rightarrow> Some (Ret ((), s\<lparr>full := full s @ text\<rparr>))))"

text \<open>The loop over the table of externs, which grows while it runs.\<close>

partial_function (option) extern_loop :: "nat \<Rightarrow> nat \<Rightarrow> linker \<Rightarrow> (unit \<times> linker) outcome option" where
  "extern_loop mfile k s =
     (if k < length (externs (table s)) then
        (let e = externs (table s) ! k
         in if largn e \<noteq> mfile then extern_loop mfile (Suc k) s
            else bind_run (resolve_one mfile (lname e) s) (\<lambda>_ s. extern_loop mfile (Suc k) s))
      else Some (Ret ((), s)))"

text \<open>The main file up to its first .extern or .END; True: it was .END.\<close>

partial_function (option) copy_head :: "nat \<Rightarrow> linker \<Rightarrow> (bool \<times> linker) outcome option" where
  "copy_head mfile s =
     bind_run (Some (read_buf mfile s)) (\<lambda>_ s.
       if starts ''.extern'' (buf s) then Some (Ret (False, s))
       else if starts ''.END'' (buf s) then Some (seqS print_buf (returnS True) s)
       else bind_run (Some (whenS (\<not> starts ''.global'' (buf s)) print_buf s)) (\<lambda>_ s. copy_head mfile s))"

partial_function (option) copy_tail :: "nat \<Rightarrow> linker \<Rightarrow> (unit \<times> linker) outcome option" where
  "copy_tail mfile s =
     bind_run (Some (read_buf mfile s)) (\<lambda>_ s.
       if starts ''.END'' (buf s) then Some (print_buf s)
       else bind_run (Some (whenS (\<not> starts ''.global'' (buf s) \<and> \<not> starts ''.extern'' (buf s)) print_buf s))
              (\<lambda>_ s. copy_tail mfile s))"

definition resolve_externs :: "linker \<Rightarrow> (unit \<times> linker) outcome option" where
  "resolve_externs s =
     (let gs = globals (table s); k = index_of (\<lambda>g. lname g = ''main'') gs
      in if k = length gs then Some Undef
         else
           (let mfile = largn (gs ! k)
            in bind_run (Some (rewind_file mfile s)) (\<lambda>_ s.
                 bind_run (copy_head mfile s) (\<lambda>done s.
                   if done then Some (Ret ((), s))
                   else bind_run (extern_loop mfile 0 s) (\<lambda>_ s. copy_tail mfile s)))))"

end
