(* ===== verification/PP_Address.thy ===== *)
theory PP_Address
  imports PP_Lines LC3_ISA
begin

text \<open>
  The code generator of the linker: calculate_address of src/lcc-1.3/lc3pp/lc3pp.c emits the
  instructions that put the address of a global variable, or its value, into a register.  The
  emitted lines are values of \<open>pp_line\<close>, printed by \<open>pp_text\<close>; \<open>calculate_address_runs\<close> executes them
  on the LC-3 of LC3_ISA.
\<close>

section \<open>Emitted lines\<close>

datatype pp_line =
    ADD_imm int int int int int
  | ADD_0 int int
  | BR_1
  | FILL int
  | LD_back int
  | ADD_reg int int int
  | LDR_imm int int int int int

definition fmt_d4 :: "int \<Rightarrow> string" where
  "fmt_d4 v = pad_right 4 (fmt_d v)"

definition reg_text :: "int \<Rightarrow> string" where
  "reg_text r = ''R'' @ fmt_d r"

definition place_text :: "int \<Rightarrow> int \<Rightarrow> string" where
  "place_text b k = [CHR 0x09] @ ''; '' @ reg_text b @ ''['' @ fmt_d k @ '']'' @ [newline]"

fun pp_text :: "pp_line \<Rightarrow> string" where
  "pp_text (ADD_imm d b v b0 acc) = ''ADD '' @ reg_text d @ '', '' @ reg_text b @ '', #'' @ fmt_d4 v @ place_text b0 acc"
| "pp_text (ADD_0 d b) = ''ADD '' @ reg_text d @ '', '' @ reg_text b @ '', 0'' @ [newline]"
| "pp_text BR_1 = ''BR #1'' @ [newline]"
| "pp_text (FILL v) = ''.FILL #'' @ fmt_d v @ [newline]"
| "pp_text (LD_back d) = ''LD '' @ reg_text d @ '', #-2'' @ [newline]"
| "pp_text (ADD_reg d a b) = ''ADD '' @ reg_text d @ '', '' @ reg_text a @ '', '' @ reg_text b @ [newline]"
| "pp_text (LDR_imm d b v b0 acc) = ''LDR '' @ reg_text d @ '', '' @ reg_text b @ '', #'' @ fmt_d4 v @ place_text b0 acc"

section \<open>The generator\<close>

text \<open>The part of the offset that one ADD takes.\<close>

definition chunk :: "int \<Rightarrow> int" where
  "chunk offset = (if 0 < offset then min offset 15 else max offset (- 16))"

text \<open>The two while loops: the lines, the register that holds the result and the sum so far.\<close>

function add_chunks :: "int \<Rightarrow> int \<Rightarrow> int \<Rightarrow> int \<Rightarrow> int \<Rightarrow> pp_line list \<times> int \<times> int" where
  "add_chunks dstReg baseReg baseReg0 offset acc =
     (if offset = 0 then ([], baseReg, acc)
      else
        let addOffset = chunk offset; (ls, b, s) = add_chunks dstReg dstReg baseReg0 (offset - addOffset) (acc + addOffset)
        in (ADD_imm dstReg baseReg addOffset baseReg0 (acc + addOffset) # ls, b, s))"
  by auto
termination by (relation "measure (\<lambda>(_, _, _, offset, _). nat \<bar>offset\<bar>)") (auto simp: chunk_def)

declare add_chunks.simps [simp del]

text \<open>Is the rest of the offset reached by at most three additions?\<close>

definition cheap :: "int \<Rightarrow> bool" where
  "cheap offset \<longleftrightarrow> (if 0 < offset then offset \<le> 15 * 3 else - 16 * 3 \<le> offset)"

definition ldr_part :: "bool \<Rightarrow> int \<Rightarrow> int" where
  "ldr_part withLDR offset =
     (if withLDR then (if 0 < offset then min offset 31 else max offset (- 32)) else 0)"

definition calculate_address :: "int \<Rightarrow> int \<Rightarrow> int \<Rightarrow> bool \<Rightarrow> pp_line list" where
  "calculate_address dstReg baseReg offset withLDR =
     (let ldrOffset = ldr_part withLDR offset;
          off = offset - ldrOffset
      in if offset = 0 then
           (if withLDR then [LDR_imm dstReg baseReg 0 baseReg 0] else [ADD_0 dstReg baseReg])
         else if cheap off then
           (case add_chunks dstReg baseReg baseReg off 0 of (ls, b, acc) \<Rightarrow>
              ls @ (if withLDR then [LDR_imm dstReg b ldrOffset baseReg (acc + ldrOffset)] else []))
         else
           [BR_1, FILL offset, LD_back dstReg, ADD_reg dstReg baseReg dstReg] @
           (if withLDR then [LDR_imm dstReg dstReg 0 baseReg offset] else []))"

section \<open>Execution of the emitted code\<close>

text \<open>What an emitted line is for the machine: an instruction or a word of data.\<close>

fun line_instr :: "pp_line \<Rightarrow> instr option" where
  "line_instr (ADD_imm d b v _ _) = Some (Addi (nat d) (nat b) (word_of_int v))"
| "line_instr (ADD_0 d b) = Some (Addi (nat d) (nat b) 0)"
| "line_instr BR_1 = Some (Br True True True 1)"
| "line_instr (FILL v) = None"
| "line_instr (LD_back d) = Some (Ld (nat d) (- 2))"
| "line_instr (ADD_reg d a b) = Some (Addr (nat d) (nat a) (nat b))"
| "line_instr (LDR_imm d b v _ _) = Some (Ldr (nat d) (nat b) (word_of_int v))"

text \<open>The lines as assembled at address a of the machine's memory.\<close>

definition line_at :: "isa \<Rightarrow> u16 \<Rightarrow> pp_line \<Rightarrow> bool" where
  "line_at m a l \<longleftrightarrow> plain a \<and>
     (case l of FILL v \<Rightarrow> imem m a = word_of_int v | _ \<Rightarrow> decode (imem m a) = line_instr l)"

fun assembled :: "isa \<Rightarrow> u16 \<Rightarrow> pp_line list \<Rightarrow> bool" where
  "assembled m a [] = True"
| "assembled m a (l # ls) \<longleftrightarrow> line_at m a l \<and> assembled m (a + 1) ls"

lemma assembled_append: "assembled m a (xs @ ys) \<longleftrightarrow> assembled m a xs \<and> assembled m (a + of_nat (length xs)) ys"
  by (induction xs arbitrary: a) (simp_all add: algebra_simps)

lemma assembled_mem: "imem m' = imem m \<Longrightarrow> assembled m' a ls = assembled m a ls"
  by (induction ls arbitrary: a) (simp_all add: line_at_def split: pp_line.split)

lemma step_line:
  assumes "line_at m (pc m) l" "line_instr l = Some i"
  shows "isa_step m = exec i (m\<lparr>pc := pc m + 1\<rparr>)"
  using assms by (auto simp: isa_step_def load_def line_at_def split: pp_line.splits)

lemma run_steps_add: "run_steps f (j + k) s = Option.bind (run_steps f j s) (run_steps f k)"
proof (induction j arbitrary: s)
  case (Suc j)
  then show ?case by (cases "f s") simp_all
qed simp

text \<open>The machine after code that changed one register and fell through to the next address.\<close>

definition reaches :: "isa \<Rightarrow> nat \<Rightarrow> (nat \<Rightarrow> u16) \<Rightarrow> nat \<Rightarrow> bool" where
  "reaches m k g n \<longleftrightarrow>
     (\<exists>m'. run_steps isa_step k m = Some m' \<and> gpr m' = g \<and> pc m' = pc m + of_nat n \<and> imem m' = imem m)"

lemma reaches_trans:
  assumes "reaches m j g n"
    and "\<And>m'. gpr m' = g \<Longrightarrow> pc m' = pc m + of_nat n \<Longrightarrow> imem m' = imem m \<Longrightarrow> reaches m' k g' n'"
  shows "reaches m (j + k) g' (n + n')"
proof -
  obtain m' where m': "run_steps isa_step j m = Some m'" "gpr m' = g" "pc m' = pc m + of_nat n" "imem m' = imem m"
    using assms(1) by (auto simp: reaches_def)
  with assms(2) [of m'] show ?thesis by (auto simp: reaches_def run_steps_add algebra_simps)
qed

lemma reaches_line:
  assumes "line_at m (pc m) l" "line_instr l = Some i"
    and "exec i (m\<lparr>pc := pc m + 1\<rparr>) = Some (put d v (m\<lparr>pc := pc m + 1\<rparr>))"
  shows "reaches m 1 ((gpr m)(d := v)) 1"
  using step_line [OF assms(1,2)] assms(3) by (simp add: reaches_def put_def)

lemma add_chunks_reaches:
  assumes "add_chunks d b b0 off acc = (ls, r, s)" "assembled m (pc m) ls"
  shows "r = (if off = 0 then b else d)" "s = acc + off"
    and "reaches m (length ls) ((gpr m)(nat r := gpr m (nat b) + word_of_int off)) (length ls)"
proof -
  have "r = (if off = 0 then b else d) \<and> s = acc + off \<and>
    reaches m (length ls) ((gpr m)(nat r := gpr m (nat b) + word_of_int off)) (length ls)"
    using assms
  proof (induction d b b0 off acc arbitrary: ls r s m rule: add_chunks.induct)
    case (1 d b b0 off acc)
    show ?case
    proof (cases "off = 0")
      case True
      with 1 show ?thesis by (simp add: add_chunks.simps reaches_def)
    next
      case False
      let ?c = "chunk off"
      obtain ls1 where ls1: "add_chunks d d b0 (off - ?c) (acc + ?c) = (ls1, r, s)"
          "ls = ADD_imm d b ?c b0 (acc + ?c) # ls1"
        using 1(2) False by (subst (asm) add_chunks.simps) (auto simp: Let_def split: prod.splits)
      have one: "reaches m 1 ((gpr m)(nat d := gpr m (nat b) + word_of_int ?c)) 1"
        using 1(3) ls1(2) by (intro reaches_line [where l = "ADD_imm d b ?c b0 (acc + ?c)"]) auto
      have rest: "r = d \<and> s = acc + off \<and> reaches m' (length ls1) ((gpr m)(nat d := gpr m (nat b) + word_of_int off)) (length ls1)"
        if "gpr m' = (gpr m)(nat d := gpr m (nat b) + word_of_int ?c)" "pc m' = pc m + of_nat 1" "imem m' = imem m" for m'
      proof -
        have "assembled m' (pc m') ls1" using 1(3) ls1(2) that by (simp add: assembled_mem [of m' m])
        from 1(1) [OF False refl ls1(1) this] have "r = d" "s = acc + off"
          "reaches m' (length ls1) ((gpr m')(nat d := gpr m' (nat d) + word_of_int (off - ?c))) (length ls1)"
          by (auto simp: fun_upd_def)
        then show ?thesis by (simp add: that(1))
      qed
      obtain m1 :: isa where "gpr m1 = (gpr m)(nat d := gpr m (nat b) + word_of_int ?c)" "pc m1 = pc m + of_nat 1" "imem m1 = imem m"
        using one unfolding reaches_def by blast
      from rest [OF this] have "r = d" "s = acc + off" by simp_all
      moreover have "reaches m (1 + length ls1) ((gpr m)(nat d := gpr m (nat b) + word_of_int off)) (1 + length ls1)"
        by (rule reaches_trans [OF one]) (use rest in blast)
      ultimately show ?thesis using False ls1(2) by (metis length_Cons plus_1_eq_Suc)
    qed
  qed
  then show "r = (if off = 0 then b else d)" "s = acc + off"
    "reaches m (length ls) ((gpr m)(nat r := gpr m (nat b) + word_of_int off)) (length ls)"
    by blast+
qed

lemma add_chunks_length:
  assumes "add_chunks d b b0 off acc = (ls, r, s)"
  shows "cheap off \<Longrightarrow> length ls \<le> 3"
proof -
  have len: "add_chunks d b b0 off acc = (ls, r, s) \<Longrightarrow> \<bar>off\<bar> \<le> 15 * int n \<or> - 16 * int n \<le> off \<and> off \<le> 0 \<Longrightarrow> length ls \<le> n"
    for d b b0 off acc ls r s n
  proof (induction n arbitrary: d b b0 off acc ls r s)
    case 0
    then have "off = 0" by auto
    with 0 show ?case by (simp add: add_chunks.simps)
  next
    case (Suc n)
    show ?case
    proof (cases "off = 0")
      case False
      with Suc.prems(1) obtain ls1 where ls1: "ls = ADD_imm d b (chunk off) b0 (acc + chunk off) # ls1"
          "add_chunks d d b0 (off - chunk off) (acc + chunk off) = (ls1, r, s)"
        by (subst (asm) add_chunks.simps) (auto simp: Let_def split: prod.splits)
      have "\<bar>off - chunk off\<bar> \<le> 15 * int n \<or> - 16 * int n \<le> off - chunk off \<and> off - chunk off \<le> 0"
        using Suc.prems(2) by (auto simp: chunk_def)
      from Suc.IH [OF ls1(2) this] ls1(1) show ?thesis by simp
    qed (use Suc.prems in \<open>simp add: add_chunks.simps\<close>)
  qed
  show "cheap off \<Longrightarrow> length ls \<le> 3"
    using len [OF assms, of 3] by (auto simp: cheap_def split: if_splits)
qed

lemma reaches_ldr:
  assumes "line_at m (pc m) (LDR_imm d b v b0 k)" "plain (gpr m (nat b) + word_of_int v)"
  shows "reaches m 1 ((gpr m)(nat d := imem m (gpr m (nat b) + word_of_int v))) 1"
  using assms by (intro reaches_line [where l = "LDR_imm d b v b0 k"]) (auto simp: load_def)

lemma reaches_constant:
  assumes "assembled m (pc m) [BR_1, FILL off, LD_back d, ADD_reg d b d]" "nat d \<noteq> nat b"
  shows "reaches m 3 ((gpr m)(nat d := gpr m (nat b) + word_of_int off)) 4"
proof -
  have lines: "line_at m (pc m) BR_1" "line_at m (pc m + 1) (FILL off)" "line_at m (pc m + 1 + 1) (LD_back d)"
      "line_at m (pc m + 1 + 1 + 1) (ADD_reg d b d)"
    using assms(1) by simp_all
  let ?m1 = "m\<lparr>pc := pc m + 1 + 1\<rparr>"
  let ?m2 = "put (nat d) (word_of_int off) (m\<lparr>pc := pc m + 1 + 1 + 1\<rparr>)"
  have "isa_step m = Some ?m1"
    using step_line [OF lines(1)] by (simp add: taken.simps) (cases "cc m"; simp)
  moreover have "isa_step ?m1 = Some ?m2"
    using step_line [of ?m1 "LD_back d"] lines(2,3) by (simp add: line_at_def load_def add.commute)
  moreover have "isa_step ?m2 = Some (put (nat d) (gpr m (nat b) + word_of_int off) (?m2\<lparr>pc := pc m + 1 + 1 + 1 + 1\<rparr>))"
    using step_line [of ?m2 "ADD_reg d b d"] lines(4) assms(2) by (simp add: line_at_def put_def)
  ultimately show ?thesis
    by (simp add: reaches_def numeral_3_eq_3 put_def)
qed

text \<open>What the code is to leave in the destination register.\<close>

definition wanted :: "isa \<Rightarrow> int \<Rightarrow> int \<Rightarrow> bool \<Rightarrow> u16" where
  "wanted m b off withLDR =
     (if withLDR then imem m (gpr m (nat b) + word_of_int off) else gpr m (nat b) + word_of_int off)"

text \<open>Code that reaches all but the part v of the offset, and the load that adds v when there is one.\<close>

lemma reaches_then_load:
  assumes "reaches m k ((gpr m)(nat r := gpr m (nat b) + word_of_int (off - v))) n" "r = (if off = v then b else d) \<or> r = d"
    and "\<not> withLDR \<Longrightarrow> v = 0 \<and> r = d"
    and "assembled m (pc m + of_nat n) (if withLDR then [LDR_imm d r v b acc] else [])"
    and "withLDR \<Longrightarrow> plain (gpr m (nat b) + word_of_int off)"
  shows "reaches m (k + (if withLDR then 1 else 0)) ((gpr m)(nat d := wanted m b off withLDR)) (n + (if withLDR then 1 else 0))"
proof (cases withLDR)
  case True
  have "reaches m (k + 1) ((gpr m)(nat d := wanted m b off withLDR)) (n + 1)"
  proof (rule reaches_trans [OF assms(1)])
    fix m' :: isa assume m': "gpr m' = (gpr m)(nat r := gpr m (nat b) + word_of_int (off - v))"
      "pc m' = pc m + of_nat n" "imem m' = imem m"
    have at: "line_at m' (pc m') (LDR_imm d r v b acc)" using assms(4) True m'(2,3) by (simp add: line_at_def)
    have sum: "gpr m' (nat r) + word_of_int v = gpr m (nat b) + word_of_int off" by (simp add: m'(1))
    have "(gpr m')(nat d := wanted m b off withLDR) = (gpr m)(nat d := wanted m b off withLDR)"
      using assms(2) by (auto simp: m'(1) fun_eq_iff split: if_splits)
    then show "reaches m' 1 ((gpr m)(nat d := wanted m b off withLDR)) 1"
      using reaches_ldr [OF at] assms(5) True by (simp add: sum m'(3) wanted_def)
  qed
  with True show ?thesis by simp
next
  case False
  then show ?thesis using assms(1,3) by (simp add: wanted_def)
qed

lemma reaches_cheap:
  assumes "off \<noteq> 0" "cheap (off - ldr_part withLDR off)" "assembled m (pc m) (calculate_address d b off withLDR)"
    and "withLDR \<Longrightarrow> plain (gpr m (nat b) + word_of_int off)"
  shows "\<exists>k \<le> 4. reaches m k ((gpr m)(nat d := wanted m b off withLDR)) (length (calculate_address d b off withLDR)) \<and>
    length (calculate_address d b off withLDR) \<le> 5"
proof -
  let ?k = "ldr_part withLDR off"
  obtain ls r acc where ls: "add_chunks d b b (off - ?k) 0 = (ls, r, acc)" by (metis prod_cases3)
  have code: "calculate_address d b off withLDR = ls @ (if withLDR then [LDR_imm d r ?k b (acc + ?k)] else [])"
    using assms(1,2) ls by (simp add: calculate_address_def Let_def)
  have asm: "assembled m (pc m) ls" "assembled m (pc m + of_nat (length ls)) (if withLDR then [LDR_imm d r ?k b (acc + ?k)] else [])"
    using assms(3) unfolding code assembled_append by blast+
  note chain = add_chunks_reaches [OF ls asm(1)]
  have "\<not> withLDR \<Longrightarrow> ?k = 0 \<and> r = d" using chain(1) assms(1) by (simp add: ldr_part_def)
  then have "reaches m (length ls + (if withLDR then 1 else 0)) ((gpr m)(nat d := wanted m b off withLDR)) (length ls + (if withLDR then 1 else 0))"
    using chain(1) by (intro reaches_then_load [OF chain(3) _ _ asm(2) assms(4)]) auto
  with add_chunks_length [OF ls assms(2)] show ?thesis
    unfolding code by (intro exI [of _ "length ls + (if withLDR then 1 else 0)"]) (cases withLDR; simp)
qed

lemma reaches_far:
  assumes "off \<noteq> 0" "\<not> cheap (off - ldr_part withLDR off)" "assembled m (pc m) (calculate_address d b off withLDR)"
    and "withLDR \<Longrightarrow> plain (gpr m (nat b) + word_of_int off)" "nat d \<noteq> nat b"
  shows "\<exists>k \<le> 4. reaches m k ((gpr m)(nat d := wanted m b off withLDR)) (length (calculate_address d b off withLDR)) \<and>
    length (calculate_address d b off withLDR) \<le> 5"
proof -
  let ?ls = "[BR_1, FILL off, LD_back d, ADD_reg d b d]"
  have code: "calculate_address d b off withLDR = ?ls @ (if withLDR then [LDR_imm d d 0 b off] else [])"
    using assms(1,2) by (simp add: calculate_address_def Let_def)
  have asm: "assembled m (pc m) ?ls" "assembled m (pc m + of_nat (length ?ls)) (if withLDR then [LDR_imm d d 0 b off] else [])"
    using assms(3) unfolding code assembled_append by blast+
  then have "assembled m (pc m + of_nat 4) (if withLDR then [LDR_imm d d 0 b off] else [])" by simp
  then have "reaches m (3 + (if withLDR then 1 else 0)) ((gpr m)(nat d := wanted m b off withLDR)) (4 + (if withLDR then 1 else 0))"
    using reaches_constant [OF asm(1) assms(5)] by (intro reaches_then_load [where r = d and v = 0]) (auto intro: assms(4))
  then show ?thesis unfolding code by (intro exI [of _ "3 + (if withLDR then 1 else 0)"]) (auto simp: eval_nat_numeral)
qed

text \<open>The immediate operands of a line fit their fields.\<close>

fun encodable :: "pp_line \<Rightarrow> bool" where
  "encodable (ADD_imm d b v _ _) \<longleftrightarrow> - 16 \<le> v \<and> v \<le> 15"
| "encodable (LDR_imm d b v _ _) \<longleftrightarrow> - 32 \<le> v \<and> v \<le> 31"
| "encodable _ \<longleftrightarrow> True"

lemma add_chunks_encodable: "add_chunks d b b0 off acc = (ls, r, s) \<Longrightarrow> list_all encodable ls"
proof (induction d b b0 off acc arbitrary: ls r s rule: add_chunks.induct)
  case (1 d b b0 off acc)
  show ?case
  proof (cases "off = 0")
    case False
    with 1(2) obtain ls1 where "add_chunks d d b0 (off - chunk off) (acc + chunk off) = (ls1, r, s)"
        "ls = ADD_imm d b (chunk off) b0 (acc + chunk off) # ls1"
      by (subst (asm) add_chunks.simps) (auto simp: Let_def split: prod.splits)
    with 1(1) [OF False refl] show ?thesis by (simp add: chunk_def)
  qed (use 1(2) in \<open>simp add: add_chunks.simps\<close>)
qed

lemma calculate_address_encodable: "list_all encodable (calculate_address d b off withLDR)"
proof -
  obtain ls r acc where ls: "add_chunks d b b (off - ldr_part withLDR off) 0 = (ls, r, acc)" by (metis prod_cases3)
  have "- 32 \<le> ldr_part withLDR off" "ldr_part withLDR off \<le> 31" by (auto simp: ldr_part_def)
  with add_chunks_encodable [OF ls] ls show ?thesis by (cases withLDR) (simp_all add: calculate_address_def Let_def)
qed

text \<open>
  Claim C4: the code that the linker generates for a global variable is right.  Executed on the
  LC-3, the lines that calculate_address emits put the address base + offset, or the word at
  that address, into the destination register, whatever the offset; they change no other
  register and no memory, end at the instruction after them and take at most five words and
  four steps.  Their immediate operands fit the fields of the instructions.  The destination must
  differ from the base register.
\<close>

theorem calculate_address_runs:
  assumes "0 \<le> d" "0 \<le> b" "d \<noteq> b" "assembled m (pc m) (calculate_address d b off withLDR)"
    and "withLDR \<Longrightarrow> plain (gpr m (nat b) + word_of_int off)"
  shows "\<exists>k m'. k \<le> 4 \<and> run_steps isa_step k m = Some m' \<and>
    gpr m' = (gpr m)(nat d := if withLDR then imem m (gpr m (nat b) + word_of_int off) else gpr m (nat b) + word_of_int off) \<and>
    pc m' = pc m + of_nat (length (calculate_address d b off withLDR)) \<and> imem m' = imem m \<and>
    length (calculate_address d b off withLDR) \<le> 5 \<and> list_all encodable (calculate_address d b off withLDR)"
proof -
  let ?code = "calculate_address d b off withLDR"
  have "\<exists>k \<le> 4. reaches m k ((gpr m)(nat d := wanted m b off withLDR)) (length ?code) \<and> length ?code \<le> 5"
  proof (cases "off = 0")
    case True
    have "reaches m 1 ((gpr m)(nat d := gpr m (nat b))) 1" if "\<not> withLDR"
      using assms(4) that True
      by (intro reaches_line [where l = "ADD_0 d b"]) (auto simp: calculate_address_def)
    with True assms(4,5) reaches_ldr [of m d b 0 b 0] show ?thesis
      by (cases withLDR) (auto simp: calculate_address_def wanted_def ldr_part_def intro!: exI [of _ 1])
  next
    case False
    have "nat d \<noteq> nat b" using assms(1-3) by simp
    with reaches_cheap [OF False _ assms(4,5)] reaches_far [OF False _ assms(4,5)] show ?thesis
      by (cases "cheap (off - ldr_part withLDR off)") blast+
  qed
  then show ?thesis unfolding reaches_def wanted_def using calculate_address_encodable by blast
qed

text \<open>The address 20 words after the base register: two additions.\<close>

definition demo_code :: isa where
  "demo_code = \<lparr>gpr = (\<lambda>_. 0x4000), pc = 0x3000, cc = Zero, imem = (\<lambda>_. 0)(0x3000 := 0x112F, 0x3001 := 0x1025)\<rparr>"

lemma demo_code_lines: "calculate_address 0 4 20 False = [ADD_imm 0 4 15 4 15, ADD_imm 0 0 5 4 20]"
  by (simp add: calculate_address_def ldr_part_def cheap_def add_chunks.simps chunk_def)

theorem calculate_address_runs_witness:
  "\<exists>k m'. k \<le> 4 \<and> run_steps isa_step k demo_code = Some m' \<and>
    gpr m' = (gpr demo_code)(nat 0 := if False then imem demo_code (gpr demo_code (nat 4) + word_of_int 20)
      else gpr demo_code (nat 4) + word_of_int 20) \<and>
    pc m' = pc demo_code + of_nat (length (calculate_address 0 4 20 False)) \<and> imem m' = imem demo_code \<and>
    length (calculate_address 0 4 20 False) \<le> 5 \<and> list_all encodable (calculate_address 0 4 20 False)"
  by (rule calculate_address_runs)
     (simp_all add: demo_code_lines, simp_all add: demo_code_def line_at_def plain_def decode_def fld_def)

end
