(* ===== verification/PP_Main.thy ===== *)
theory PP_Main
  imports PP_Link PP_Address
begin

text \<open>
  The later passes of the linker and its main function (src/lcc-1.3/lc3pp/lc3pp.c): the complete
  file is split into code and variables, with a table of the variables and their sizes; then
  every .LC3GLOBAL directive of the code is replaced by the instructions that reach the variable.
\<close>

section \<open>State\<close>

record pp =
  inp :: stream
  curr_max :: nat
  tmp_max :: nat
  var_max :: nat
  g_vars :: "(string \<times> int) list"
  var_file :: string
  code_file :: string
  output_file :: string

type_synonym 'a pact = "('a, pp) cfun"

definition read_curr :: "string pact" where
  "read_curr s =
     bind_outcome (Readline (curr_max s) (inp s)) (\<lambda>(line, cap, f). Ret (line, s\<lparr>curr_max := cap, inp := f\<rparr>))"

definition print_var :: "string \<Rightarrow> unit pact" where
  "print_var t = putS (\<lambda>s. s\<lparr>var_file := var_file s @ t\<rparr>)"

definition print_code :: "string \<Rightarrow> unit pact" where
  "print_code t = putS (\<lambda>s. s\<lparr>code_file := code_file s @ t\<rparr>)"

definition print_out :: "string \<Rightarrow> unit pact" where
  "print_out t = putS (\<lambda>s. s\<lparr>output_file := output_file s @ t\<rparr>)"

definition at_line :: "nat \<Rightarrow> string \<Rightarrow> string pact" where
  "at_line n line = lift_out (text_at n line)"

definition get_word :: "string \<Rightarrow> (string \<times> nat) pact" where
  "get_word t = bindS (getS tmp_max) (\<lambda>cap. lift_out (Getword cap t))"

section \<open>Code and variables\<close>

text \<open>g_vars[g_num].size += v; there is no entry before the first variable.\<close>

definition add_size :: "int \<Rightarrow> unit pact" where
  "add_size v s =
     (case rev (g_vars s) of
        [] \<Rightarrow> Undef
      | (n, k) # vs \<Rightarrow> bind_outcome (chk_int (k + v)) (\<lambda>k. Ret ((), s\<lparr>g_vars := rev vs @ [(n, k)]\<rparr>)))"

definition new_var :: "string \<Rightarrow> int \<Rightarrow> unit pact" where
  "new_var n v = putS (\<lambda>s. s\<lparr>g_vars := g_vars s @ [(n, v)]\<rparr>)"

text \<open>A line that declares a new variable; t is the line from its name on.\<close>

definition declare_var :: "string \<Rightarrow> string \<Rightarrow> unit pact" where
  "declare_var line t =
     bindS (get_word t) (\<lambda>(n, len).
       bindS (at_line (len + 21) line) (\<lambda>d.
         if starts ''.FILL'' d then seqS (new_var n 1) (print_var (n @ '' '' @ d @ [newline]))
         else if starts ''.BLKW'' d then
           bindS (at_line (len + 26) line) (\<lambda>k. bindS (lift_out (atoi k)) (\<lambda>v.
             seqS (new_var n v) (print_var (n @ '' '' @ d @ [newline]))))
         else
           bindS (at_line (len + 30) line) (\<lambda>t2. bindS (get_word t2) (\<lambda>(k, len2).
             bindS (at_line (len + len2 + 31) line) (\<lambda>txt.
               bindS (lift_out (atoi k)) (\<lambda>v.
                 seqS (new_var n v) (print_var (n @ '' .STRINGZ '' @ txt @ [newline]))))))))"

text \<open>A line of the complete file; True: it was the last.\<close>

definition split_line :: "string \<Rightarrow> bool pact" where
  "split_line line =
     (if starts ''LC3_GFLAG'' line then
        seqS (bindS (at_line 10 line) (\<lambda>t.
          if starts ''.FILL'' t then seqS (print_var (t @ [newline])) (add_size 1)
          else if starts ''.BLKW'' t then
            seqS (print_var (t @ [newline])) (bindS (at_line 16 line) (\<lambda>k. bindS (lift_out (atoi k)) add_size))
          else if starts ''.STRINGZ'' t then
            bindS (at_line 19 line) (\<lambda>t2. bindS (get_word t2) (\<lambda>(_, len).
              bindS (at_line (19 + len) line) (\<lambda>txt.
                seqS (print_var (''.STRINGZ '' @ txt @ [newline])) (bindS (lift_out (atoi t2)) add_size))))
          else declare_var line t)) (returnS False)
      else
        seqS (whenS (\<not> starts ''.extern'' line) (print_code (line @ [newline])))
          (if starts ''.END'' line then seqS (print_var (line @ [newline])) (returnS True) else returnS False))"

partial_function (option) split_loop :: "pp \<Rightarrow> (unit \<times> pp) outcome option" where
  "split_loop s =
     bind_run (Some (bindS read_curr split_line s)) (\<lambda>done s.
       if done then Some (Ret ((), s)) else split_loop s)"

section \<open>Directives\<close>

text \<open>
  The offsets after the name.  A sign that no number follows leaves strtol where it is, and the
  loop never ends: \<open>None\<close>.
\<close>

function collect_offsets :: "int \<Rightarrow> string \<Rightarrow> (int \<times> string) outcome option" where
  "collect_offsets acc s =
     (if s \<noteq> [] \<and> (hd s = CHR ''+'' \<or> hd s = CHR ''-'') then
        (case strtol 10 s of
           None \<Rightarrow> None
         | Some (v, t) \<Rightarrow>
             if - (2 ^ 63) \<le> acc + v \<and> acc + v < 2 ^ 63 then collect_offsets (to_int32 (acc + v)) t else Some Undef)
      else Some (Ret (acc, s)))"
  by auto
termination by (relation "measure (\<lambda>(_, s). length s)") (auto dest: strtol_shorter)

declare collect_offsets.simps [simp del]

definition name_char :: "char \<Rightarrow> bool" where
  "name_char c \<longleftrightarrow> c \<noteq> CHR '' '' \<and> c \<noteq> CHR ''+'' \<and> c \<noteq> CHR ''-''"

text \<open>The name, the sum of the offsets and the register of a .LC3GLOBAL line.\<close>

definition parse_global :: "string \<Rightarrow> (string \<times> int \<times> int) outcome option" where
  "parse_global line =
     (case text_at 11 line of
        Ret t \<Rightarrow>
          if dropWhile name_char t = [] then Some Undef
          else
            (case collect_offsets 0 (dropWhile name_char t) of
               None \<Rightarrow> None
             | Some r \<Rightarrow>
                 Some (bind_outcome r (\<lambda>(v, s).
                   if s = [] \<or> hd s \<noteq> CHR '' '' then Abort
                   else
                     (case (case strtol 10 (tl s) of None \<Rightarrow> (0, tl s) | Some (n, u) \<Rightarrow> (to_int32 n, u)) of
                        (reg, u) \<Rightarrow> if u = [] then Ret (takeWhile name_char t, v, reg) else Abort))))
      | _ \<Rightarrow> Some Undef)"

text \<open>The sizes of the variables before the name; the last variable is not compared.\<close>

fun offset_in :: "string \<Rightarrow> (string \<times> int) list \<Rightarrow> int \<Rightarrow> int outcome" where
  "offset_in n [] acc = Ret acc"
| "offset_in n ((m, k) # vs) acc = (if m = n then Ret acc else bind_outcome (chk_int (acc + k)) (offset_in n vs))"

definition glob_offset :: "string \<Rightarrow> (string \<times> int) list \<Rightarrow> int outcome" where
  "glob_offset n vs = offset_in n (butlast vs) 0"

definition directive_comment :: "bool \<Rightarrow> int \<Rightarrow> string \<Rightarrow> int \<Rightarrow> int \<Rightarrow> string" where
  "directive_comment with_LDR reg n glob var =
     '';     <'' @ (if with_LDR then ''ld'' else ''lea'') @ '' R'' @ fmt_d reg @ '', '' @ n @
     (if var \<noteq> 0
      then ''+'' @ fmt_d var @ [CHR 0x09] @ '';GLOBALS['' @ fmt_d glob @ '']+'' @ fmt_d var @ ''>''
      else [CHR 0x09] @ '';GLOBALS['' @ fmt_d glob @ '']>'') @ [newline]"

text \<open>
  A .LC3GLOBAL line: the next line is read, and merged when it is a load from the register into
  itself; otherwise it is the line to handle next.
\<close>

definition emit_global :: "string \<times> int \<times> int \<Rightarrow> string option pact" where
  "emit_global = (\<lambda>(n, var, reg).
     seqS (putS (\<lambda>s. s\<lparr>var_max := max (var_max s) (curr_max s)\<rparr>))
       (bindS (getS id) (\<lambda>s. seqS (need (length n < var_max s))
         (bindS (lift_out (glob_offset n (g_vars s))) (\<lambda>glob.
            bindS read_curr (\<lambda>line. bindS (lift_out (check_ldr line reg)) (\<lambda>ldr.
              bindS (lift_out (case ldr of None \<Rightarrow> Ret var | Some i \<Rightarrow> chk_int (var + i))) (\<lambda>var.
                bindS (lift_out (chk_int (var + glob))) (\<lambda>off.
                  seqS (print_out (directive_comment (ldr \<noteq> None) reg n glob var))
                    (seqS (print_out (concat (map pp_text (calculate_address reg 4 off (ldr \<noteq> None)))))
                      (if ldr = None
                       then seqS (print_out ('';     </lea>'' @ [newline])) (returnS (Some line))
                       else seqS (print_out ('';     </ld>'' @ [newline])) (returnS None))))))))))))"

definition global_line :: "string \<Rightarrow> pp \<Rightarrow> (string option \<times> pp) outcome option" where
  "global_line line s =
     Option.bind (parse_global line) (\<lambda>r. Some (bind_outcome r (\<lambda>g. emit_global g s)))"

partial_function (option) output_loop :: "string option \<Rightarrow> pp \<Rightarrow> (unit \<times> pp) outcome option" where
  "output_loop pending s =
     bind_run (Some (case pending of None \<Rightarrow> read_curr s | Some line \<Rightarrow> Ret (line, s))) (\<lambda>line s.
       if starts ''.END'' line then Some (Ret ((), s))
       else if \<not> starts ''.LC3GLOBAL'' line then
         bind_run (Some (print_out (line @ [newline]) s)) (\<lambda>_ s. output_loop None s)
       else bind_run (global_line line s) (\<lambda>next s. output_loop next s))"

section \<open>The program\<close>

text \<open>The header, line by line until the end of its file was met.\<close>

partial_function (option) header_loop :: "pp \<Rightarrow> (unit \<times> pp) outcome option" where
  "header_loop s =
     (if at_eof (inp s) then Some (Ret ((), s))
      else bind_run (Some (bindS read_curr (\<lambda>line. print_out (line @ [newline])) s)) (\<lambda>_ s. header_loop s))"

text \<open>The variables, up to .END; they are read into the other line buffer.\<close>

partial_function (option) copy_vars :: "pp \<Rightarrow> (unit \<times> pp) outcome option" where
  "copy_vars s =
     bind_run (Some (bind_outcome (Readline (tmp_max s) (inp s)) (\<lambda>(line, cap, f).
                 Ret (line, s\<lparr>tmp_max := cap, inp := f, output_file := output_file s @ line @ [newline]\<rparr>))))
       (\<lambda>line s. if starts ''.END'' line then Some (Ret ((), s)) else copy_vars s)"

definition on_stream :: "(pp \<Rightarrow> string) \<Rightarrow> pp \<Rightarrow> pp" where
  "on_stream text s = s\<lparr>inp := open_stream (text s)\<rparr>"

text \<open>
  What follows resolve_externs: the passes over the complete file.  The output stream is null when
  the file could not be opened for writing.
\<close>

definition passes :: "bool \<Rightarrow> string \<Rightarrow> pp \<Rightarrow> (unit \<times> pp) outcome option" where
  "passes writable header s =
     bind_run (split_loop s) (\<lambda>_ s.
       if \<not> writable then Some Undef
       else
         bind_run (header_loop (on_stream (\<lambda>_. header) s)) (\<lambda>_ s.
           bind_run (output_loop None (on_stream code_file s)) (\<lambda>_ s.
             copy_vars (on_stream var_file
               (s\<lparr>output_file := output_file s @ [newline] @ ''GLOBAL_DATA_START'' @ [newline]\<rparr>)))))"

text \<open>The scan of the input files, in their order and with one buffer.\<close>

fun scan_files ::
  "nat \<Rightarrow> string list \<Rightarrow> bytes \<times> stream \<times> link_list \<Rightarrow> (unit \<times> (bytes \<times> stream \<times> link_list)) outcome option" where
  "scan_files i [] s = Some (Ret ((), s))"
| "scan_files i (f # fs) (b, _, l) =
     bind_run (scan_file i (b, open_stream f, l)) (\<lambda>_ s. scan_files (Suc i) fs s)"

definition LINE_MAXLEN :: nat where "LINE_MAXLEN = 100"

definition empty_links :: link_list where
  "empty_links = \<lparr>globals = [], externs = [], extern_max = 100\<rparr>"

text \<open>The state in which resolve_externs starts, on the texts of the input files.\<close>

definition linker_start :: "(string \<Rightarrow> string option) \<Rightarrow> string list \<Rightarrow> link_list \<Rightarrow> linker" where
  "linker_start lib srcs l =
     \<lparr>buf = [], buf_max = 200, word = [], word_max = 200, idx = 0, used = [], table = l, table_moved = False,
      texts = (\<lambda>n. if n < length srcs then srcs ! n else []),
      inputs = (\<lambda>n. open_stream (if n < length srcs then srcs ! n else [])),
      library = lib, full = [], messages = []\<rparr>"

definition pp_start :: "nat \<Rightarrow> string \<Rightarrow> pp" where
  "pp_start cap text =
     \<lparr>inp = open_stream text, curr_max = LINE_MAXLEN, tmp_max = cap, var_max = LINE_MAXLEN,
      g_vars = [], var_file = [], code_file = [], output_file = []\<rparr>"

text \<open>The run on the texts of the input files; the result is what the output file holds.\<close>

definition link_files ::
  "bool \<Rightarrow> (string \<Rightarrow> string option) \<Rightarrow> string \<Rightarrow> string list \<Rightarrow> (int \<times> string) outcome option" where
  "link_files writable lib header srcs =
     bind_run (scan_files 0 srcs (replicate LINE_MAXLEN None, open_stream [], empty_links)) (\<lambda>_ (b, _, l).
       if srcs = [] then Some (Ret (- 1, []))
       else
         bind_run (resolve_externs (linker_start lib srcs l)) (\<lambda>_ ls.
           bind_run (passes writable header (pp_start (length b) (full ls))) (\<lambda>_ s.
             if table_moved ls then Some Undef else Some (Ret (0, output_file s)))))"

text \<open>
  The files that fopen finds in the working directory are \<open>fs\<close>, those it finds after the change to the
  library directory are \<open>lib\<close>.  Opening the output file for writing empties it.
\<close>

definition lc3pp_main ::
  "(string \<Rightarrow> string option) \<Rightarrow> (string \<Rightarrow> bool) \<Rightarrow> (string \<Rightarrow> string option) \<Rightarrow> string list \<Rightarrow> (int \<times> string) outcome option" where
  "lc3pp_main fs can_write lib argv =
     (if length argv < 3 then Some Undef
      else
        let out = last argv; fs = (if can_write out then fs(out := Some []) else fs);
            srcs = map fs (drop 2 (butlast argv))
        in if None \<in> set srcs then Some (Ret (- 1, []))
           else
             (case lib ''__init.asm'' of
                None \<Rightarrow> Some (Exit 1)
              | Some header \<Rightarrow>
                  link_files (can_write out) lib header
                    (map the srcs @ (case lib ''stdio.asm'' of None \<Rightarrow> [] | Some t \<Rightarrow> [t]))))"

end
