(* ===== verification/PP_Text.thy ===== *)
theory PP_Text
  imports PP_Main
begin

text \<open>
  What the text level of the linker guarantees: Readline stays inside its buffer and delivers the
  lines of its stream one by one, the scan of a file returns exactly when it has a line .END,
  and check_ldr reads the loads that the compiler prints.
\<close>

section \<open>A stream as a list of lines\<close>

fun split_nl :: "string \<Rightarrow> string list" where
  "split_nl [] = [[]]"
| "split_nl (c # cs) = (if c = newline then [] # split_nl cs else (c # hd (split_nl cs)) # tl (split_nl cs))"

definition stream_lines :: "stream \<Rightarrow> string list" where
  "stream_lines f = (if at_eof f then [] else split_nl (rest f))"

lemma split_nl_not_Nil [simp]: "split_nl cs \<noteq> []"
  by (cases cs) auto

lemma hd_split_nl: "hd (split_nl cs) = takeWhile (\<lambda>c. c \<noteq> newline) cs"
  by (induction cs) auto

lemma tl_split_nl:
  "tl (split_nl cs) = (case dropWhile (\<lambda>c. c \<noteq> newline) cs of [] \<Rightarrow> [] | _ # r \<Rightarrow> split_nl r)"
  by (induction cs) auto

lemma split_nl_lines:
  assumes "\<forall>l \<in> set ls. newline \<notin> set l"
  shows "split_nl (concat (map (\<lambda>l. l @ [newline]) ls)) = ls @ [[]]"
proof -
  have "newline \<notin> set l \<Longrightarrow> split_nl (l @ newline # t) = l # split_nl t" for l t
    by (induction l) auto
  with assms show ?thesis by (induction ls) auto
qed

definition first_line :: "string list \<Rightarrow> string" where
  "first_line ls = (case ls of [] \<Rightarrow> [] | l # _ \<Rightarrow> l)"

lemma first_line_simps [simp]: "first_line [] = []" "first_line (l # ls) = l"
  by (simp_all add: first_line_def)

lemma line_of_lines: "line_of f = first_line (stream_lines f)"
  using hd_split_nl [of "rest f"]
  by (cases "split_nl (rest f)") (auto simp: line_of_def stream_lines_def)

lemma after_line_lines: "stream_lines (after_line f) = tl (stream_lines f)"
  by (cases "dropWhile (\<lambda>c. c \<noteq> newline) (rest f)") (simp_all add: after_line_def stream_lines_def tl_split_nl del: dropWhile_eq_Nil_conv)

lemma Readline_lines:
  assumes "0 < cap"
  obtains n f' where "Readline cap f = Ret (first_line (stream_lines f), n, f')"
    "length (first_line (stream_lines f)) < n" "cap \<le> n" "stream_lines f' = tl (stream_lines f)"
  using Readline_result [OF assms, of f] after_line_lines [of f] by (auto simp: line_of_lines)

text \<open>
  Readline never writes outside its buffer, whatever the length of the line: it returns
  the next line of the stream in a buffer with room for the line and its terminator, at least
  as large as before, and the stream stands at the line after it.
\<close>

lemma Readline_fits:
  assumes "0 < cap"
  shows "\<exists>n f'. Readline cap f = Ret (first_line (stream_lines f), n, f') \<and>
    length (first_line (stream_lines f)) + 1 \<le> n \<and> cap \<le> n \<and> stream_lines f' = tl (stream_lines f)"
  using Readline_lines [OF assms, of f] by (metis Suc_eq_plus1 Suc_leI)

section \<open>Loops that read to the end of the file\<close>

lemma bind_run_simps [simp]:
  "bind_run (Some (Ret (a, s))) f = f a s"
  "bind_run (Some (Exit n)) f = Some (Exit n)" "bind_run (Some Abort) f = Some Abort"
  "bind_run (Some Undef) f = Some Undef" "bind_run None f = None"
  by (simp_all add: bind_run_def)

lemma not_starts_Nil [simp]: "p \<noteq> [] \<Longrightarrow> \<not> starts p []"
  by (simp add: starts_def)

text \<open>
  A directive of the scan with no name: the name is then read from what the buffer held before.  The
  scan of some lines reads only what was written when the buffer has a string at the place of
  the name, or no line is such a directive.
\<close>

abbreviation bare :: "string \<Rightarrow> bool" where
  "bare line \<equiv> line = ''.global'' \<or> line = ''.extern''"

definition scan_ok :: "bytes \<Rightarrow> string list \<Rightarrow> bool" where
  "scan_ok b ls \<longleftrightarrow> b \<noteq> [] \<and> (c_string (drop 8 b) \<noteq> Undef \<or> (\<forall>line \<in> set ls. \<not> bare line))"

lemma directive_named: "starts ''.global'' line \<or> starts ''.extern'' line \<Longrightarrow> \<not> bare line \<Longrightarrow> 8 \<le> length line"
  by (auto simp: starts_iff Suc_le_eq)

lemma scan_line_Ret:
  assumes "scan_ok b (line # ls)"
  shows "\<exists>l'. scan_line i (put_line line n b) line l = Ret l'"
proof (cases "starts ''.global'' line \<or> starts ''.extern'' line")
  case True
  have "c_string (drop 8 (put_line line n b)) \<noteq> Undef"
  proof (cases "8 \<le> length line")
    case False
    with assms True directive_named [of line] have "c_string (drop 8 b) \<noteq> Undef" by (auto simp: scan_ok_def)
    with False show ?thesis using string_behind(2) [of line 8 b n] by simp
  qed (simp add: string_behind(1))
  with c_string_out [of "drop 8 (put_line line n b)"] obtain nm where "c_string (drop 8 (put_line line n b)) = Ret nm" by blast
  then show ?thesis by (auto simp: scan_line_def)
qed (simp add: scan_line_def)

lemma scan_ok_next: "scan_ok b (line # ls) \<Longrightarrow> scan_ok (put_line line n b) ls"
  using string_behind(1) [of 8 line n b] string_behind(2) [of line 8 b n]
  by (cases "8 \<le> length line") (auto simp: scan_ok_def)

lemma scan_ok_empty: "scan_ok b [] \<Longrightarrow> scan_ok b [[]]"
  by (simp add: scan_ok_def)

text \<open>One round of the scan; at the end of the file it reads an empty line.\<close>

lemma scan_step:
  assumes "scan_ok b (stream_lines f)"
  obtains b' f' l' where "stream_lines f' = tl (stream_lines f)" "scan_ok b' (stream_lines f')"
    "read_bytes b f = Ret (first_line (stream_lines f), b', f')"
    "scan_line i b' (first_line (stream_lines f)) l = Ret l'"
proof -
  let ?line = "first_line (stream_lines f)"
  have b: "b \<noteq> []" using assms by (simp add: scan_ok_def)
  have ok: "scan_ok b (?line # tl (stream_lines f))"
    using assms scan_ok_empty [of b] by (cases "stream_lines f") auto
  from read_bytes_result [OF b, of f] obtain n where r: "read_bytes b f = Ret (?line, put_line ?line n b, after_line f)"
    by (auto simp: line_of_lines)
  obtain l' where "scan_line i (put_line ?line n b) ?line l = Ret l'" using scan_line_Ret [OF ok] by blast
  with that [OF after_line_lines _ r] scan_ok_next [OF ok, of n] show thesis by (simp add: after_line_lines)
qed

lemma scan_file_step:
  assumes "read_bytes b f = Ret (line, b', f')" "scan_line i b' line l = Ret l'"
  shows "scan_file i (b, f, l) = (if starts ''.END'' line then Some (Ret ((), (b', f', l'))) else scan_file i (b', f', l'))"
  by (subst scan_file.simps) (simp add: assms)

lemma scan_file_returns:
  "scan_ok b (stream_lines f) \<Longrightarrow> \<exists>line \<in> set (stream_lines f). starts ''.END'' line \<Longrightarrow>
   \<exists>s'. scan_file i (b, f, l) = Some (Ret ((), s'))"
proof (induction "stream_lines f" arbitrary: b f l)
  case (Cons line ls)
  obtain b' f' l' where r: "stream_lines f' = ls" "scan_ok b' (stream_lines f')"
      "read_bytes b f = Ret (line, b', f')" "scan_line i b' line l = Ret l'"
    using scan_step [OF Cons.prems(1), of i l] unfolding Cons.hyps(2) [symmetric] first_line_simps list.sel by blast
  show ?case
  proof (cases "starts ''.END'' line")
    case False
    with Cons.prems(2) Cons.hyps(2) [symmetric] r(1) have "\<exists>line \<in> set (stream_lines f'). starts ''.END'' line" by auto
    with Cons.hyps(1) [of f' b' l'] r False show ?thesis by (simp add: scan_file_step [OF r(3,4)])
  qed (simp add: scan_file_step [OF r(3,4)])
qed simp

lemma scan_file_result:
  "scan_file i s = Some r \<Longrightarrow>
   (case s of (b, f, l) \<Rightarrow> scan_ok b (stream_lines f) \<longrightarrow> (\<exists>line \<in> set (stream_lines f). starts ''.END'' line))"
proof (rule scan_file.raw_induct [where P = "\<lambda>i s r. case s of (b, f, l) \<Rightarrow>
    scan_ok b (stream_lines f) \<longrightarrow> (\<exists>line \<in> set (stream_lines f). starts ''.END'' line)"])
  fix loop i s r
  assume IH: "\<And>i s r. loop i s = Some r \<Longrightarrow> (case s of (b, f, l) \<Rightarrow>
      scan_ok b (stream_lines f) \<longrightarrow> (\<exists>line \<in> set (stream_lines f). starts ''.END'' line))"
    and r: "(case s of (b, f, l) \<Rightarrow>
        bind_run (Some (bind_outcome (read_bytes b f) (\<lambda>(line, b, f).
                    bind_outcome (scan_line i b line l) (\<lambda>l. Ret (line, (b, f, l))))))
          (\<lambda>line s. if starts ''.END'' line then Some (Ret ((), s)) else loop i s)) = Some r"
  obtain b f l where s: "s = (b, f, l)" by (cases s)
  have "\<exists>line \<in> set (stream_lines f). starts ''.END'' line" if ok: "scan_ok b (stream_lines f)"
  proof (rule scan_step [OF ok, of i l])
    let ?line = "first_line (stream_lines f)"
    fix b' f' l'
    assume f': "stream_lines f' = tl (stream_lines f)" "scan_ok b' (stream_lines f')"
      "read_bytes b f = Ret (?line, b', f')" "scan_line i b' ?line l = Ret l'"
    show "\<exists>line \<in> set (stream_lines f). starts ''.END'' line"
    proof (cases "starts ''.END'' ?line")
      case True
      then show ?thesis by (cases "stream_lines f") auto
    next
      case False
      with r f' have "loop i (b', f', l') = Some r" by (simp add: s)
      from IH [OF this] f' have "\<exists>line \<in> set (tl (stream_lines f)). starts ''.END'' line" by simp
      then show ?thesis by (cases "stream_lines f") auto
    qed
  qed
  then show "case s of (b, f, l) \<Rightarrow> scan_ok b (stream_lines f) \<longrightarrow> (\<exists>line \<in> set (stream_lines f). starts ''.END'' line)"
    by (simp add: s)
qed


text \<open>
  A buffer into which a line with a name was read, and a file with a bare directive: the scan enters
  the old name for the new file.
\<close>

definition used_buffer :: bytes where
  "used_buffer = put_line ''.extern f'' 12 (replicate 12 None)"

lemma used_buffer_string: "c_string (drop 8 used_buffer) = Ret ''f''"
  by (simp add: used_buffer_def string_behind(1))

lemma split_bare: "split_nl (''.global'' @ [newline] @ ''.END'') = [''.global'', ''.END'']"
  by simp


lemma bare_directive_old_name:
  "scan_line 1 (put_line ''.global'' 12 used_buffer) ''.global'' empty_links =
     Ret (empty_links\<lparr>globals := [\<lparr>lname = ''f'', largn = 1\<rparr>]\<rparr>)"
  using string_behind(2) [of "''.global''" 8 used_buffer 12] used_buffer_string
  by (simp add: scan_line_def starts_def empty_links_def)

section \<open>Loads that the compiler prints\<close>

lemma strtol_fmt_d:
  assumes "- (2 ^ 63) \<le> v" "v < 2 ^ 63" "\<not> is_digit_in 10 post"
  shows "strtol 10 (fmt_d v @ post) = Some (v, post)"
proof -
  let ?ds = "map hex_digit (radix_digits 10 (nat \<bar>v\<bar>))"
  obtain d cs where d: "?ds = hex_digit d # cs" "d < 10" by (rule decimal_head)
  note h = hex_digit_facts [of d]
  have dg: "is_digit_in 10 (?ds @ post)" using h(1) d by (simp add: is_digit_in_def)
  have scan: "scan_digits 10 0 (?ds @ post) = (nat \<bar>v\<bar>, post)" by (rule scan_decimal [OF assms(3)])
  have "scan_sign (dropWhile isspace (fmt_d v @ post)) = (v < 0, ?ds @ post)"
    using d h by (auto simp: fmt_d_def scan_sign_def isspace_def)
  then show ?thesis
    using dg scan assms(1,2) by (simp add: strtol_def Let_def)
qed

lemma fmt_digit:
  assumes "0 \<le> r" "r \<le> 9"
  shows "fmt_d r = [hex_digit (nat r)]" "schar (hex_digit (nat r)) = r + 48"
proof -
  have "nat r < 10" using assms by simp
  then show "fmt_d r = [hex_digit (nat r)]" "schar (hex_digit (nat r)) = r + 48"
    using assms by (simp_all add: fmt_d_def radix_digits.simps schar_def code_hex_digit)
qed

text \<open>
  The load from a register into itself, as the compiler prints it, is recognised with the offset
  that is printed there.
\<close>

lemma check_ldr_printed:
  assumes "0 \<le> r" "r \<le> 9" "- (2 ^ 31) \<le> k" "k < 2 ^ 31" "\<not> is_digit_in 10 post"
  shows "check_ldr (''LDR R'' @ fmt_d r @ '', R'' @ fmt_d r @ '', #'' @ fmt_d k @ post) r = Ret (Some k)"
proof -
  note r = fmt_digit [OF assms(1,2)]
  have reg: "eat_reg r (''R'' @ fmt_d r @ t) = Ret (Some t)" for t
    by (simp add: eat_reg_def eat_def r)
  have comma: "eat_comma ('', R'' @ t) = Ret (Some (''R'' @ t))" "eat_comma ('', #'' @ t) = Ret (Some (''#'' @ t))" for t
    by (simp_all add: eat_comma_def eat_def then_eat_def eat_spaces_def skip_spaces_Cons isspace_def)
  have "strtol 10 (fmt_d k @ post) = Some (k, post)"
    using assms by (intro strtol_fmt_d) simp_all
  then have off: "ldr_offset (''#'' @ fmt_d k @ post) = Some k"
    using assms to_int32_id [of k] by (simp add: ldr_offset_def)
  have ldr: "eat_ldr (''LDR '' @ ''R'' @ t) = Ret (Some (''R'' @ t))" for t
    by (simp add: eat_ldr_def eat_def then_eat_def eat_spaces_def skip_spaces_Cons isspace_def)
  have line: "''LDR R'' @ fmt_d r @ '', R'' @ fmt_d r @ '', #'' @ fmt_d k @ post =
      ''LDR '' @ ''R'' @ fmt_d r @ '', R'' @ fmt_d r @ '', #'' @ fmt_d k @ post"
    by simp
  show ?thesis
    unfolding line check_ldr_def ldr then_eat_def by (simp only: option.case reg bind_outcome.simps comma off)
qed

end
