(* ===== verification/PP_Globals.thy ===== *)
theory PP_Globals
  imports PP_Text
begin

text \<open>
  The linker's global variables: the table that the split of the complete file builds has, for
  declarations as the compiler prints them, the variables in order with the number of words the
  assembler will reserve, and a directive is given the sum of the sizes before its variable, which
  is defined here without the search of the program.
\<close>

section \<open>Offsets\<close>

lemma offset_in_sum:
  assumes "n \<notin> fst ` set us" "\<forall>v \<in> set us. 0 \<le> snd v" "0 \<le> acc" "acc + sum_list (map snd us) < 2 ^ 31"
  shows "offset_in n (us @ vs) acc = offset_in n vs (acc + sum_list (map snd us))"
  using assms
proof (induction us arbitrary: acc)
  case (Cons u us)
  have "0 \<le> sum_list (map snd us)" using Cons.prems(2) by (intro sum_list_nonneg) auto
  with Cons show ?case by (cases u) (auto simp: chk_int_def add.assoc)
qed simp

definition small :: "(string \<times> int) list \<Rightarrow> bool" where
  "small vs \<longleftrightarrow> (\<forall>v \<in> set vs. 0 \<le> snd v) \<and> sum_list (map snd vs) < 2 ^ 31"

lemma small_append: "small (us @ vs) \<Longrightarrow> small us"
proof -
  have "\<forall>v \<in> set vs. 0 \<le> snd v \<Longrightarrow> 0 \<le> sum_list (map snd vs)" by (intro sum_list_nonneg) auto
  then show "small (us @ vs) \<Longrightarrow> small us" by (auto simp: small_def)
qed

text \<open>
  The offset that a directive gets is the number of words that the variables declared
  before its variable take.
\<close>

lemma glob_offset_sum:
  assumes "vs = us @ (n, k) # ws" "n \<notin> fst ` set us" "small vs"
  shows "glob_offset n vs = Ret (sum_list (map snd us))"
proof -
  have "small us" using small_append [of us "(n, k) # ws"] assms(1,3) by simp
  then have us: "\<forall>v \<in> set us. 0 \<le> snd v" "0 + sum_list (map snd us) < 2 ^ 31" by (simp_all add: small_def)
  have "butlast vs = us @ butlast ((n, k) # ws)" by (simp add: assms(1) butlast_append)
  then show ?thesis
    using offset_in_sum [OF assms(2) us(1) _ us(2), of "butlast ((n, k) # ws)"]
    by (cases ws) (simp_all add: glob_offset_def)
qed

text \<open>
  A variable that no file declares is not reported: it gets the offset of the last
  variable that is declared.
\<close>

lemma glob_offset_undeclared:
  assumes "n \<notin> fst ` set (vs @ [v])" "small (vs @ [v])"
  shows "glob_offset n (vs @ [v]) = Ret (sum_list (map snd vs))"
  using offset_in_sum [of n vs 0 "[]"] assms small_append [of vs "[v]"]
  by (simp add: glob_offset_def small_def)

text \<open>
  The place of a variable in the global data: the words of the variables declared before the first
  one of its name.  The sums up to it are to fit an int.
\<close>

fun place :: "(string \<times> int) list \<Rightarrow> string \<Rightarrow> int" where
  "place [] n = 0"
| "place ((m, k) # vs) n = (if m = n then 0 else k + place vs n)"

definition fits :: "int \<Rightarrow> bool" where
  "fits v \<longleftrightarrow> - (2 ^ 31) \<le> v \<and> v < 2 ^ 31"

definition declared :: "(string \<times> int) list \<Rightarrow> string \<Rightarrow> bool" where
  "declared vs n \<longleftrightarrow> n \<in> fst ` set vs"

definition sums_fit :: "(string \<times> int) list \<Rightarrow> bool" where
  "sums_fit vs \<longleftrightarrow> (\<forall>k \<le> length vs. fits (sum_list (map snd (take k vs))))"

lemma place_sum: "n \<notin> fst ` set us \<Longrightarrow> place (us @ (n, k) # ws) n = sum_list (map snd us)"
  by (induction us) auto

lemma offset_in_place:
  assumes "\<forall>k \<le> length vs. fits (acc + sum_list (map snd (take k vs)))"
  shows "declared (vs @ [w]) n \<Longrightarrow> offset_in n vs acc = Ret (acc + place (vs @ [w]) n)"
  using assms
proof (induction vs arbitrary: acc)
  case Nil
  then show ?case by (cases w) (simp add: declared_def)
next
  case (Cons v vs)
  obtain m j where v: "v = (m, j)" by (cases v)
  have "fits (acc + j)" using Cons.prems(2) [rule_format, of 1] by (simp add: v)
  moreover have "\<forall>k \<le> length vs. fits ((acc + j) + sum_list (map snd (take k vs)))"
    using Cons.prems(2) [rule_format, of "Suc k" for k] by (simp add: v add.assoc)
  moreover have "m = n \<or> declared (vs @ [w]) n" using Cons.prems(1) by (auto simp: v declared_def)
  ultimately show ?case
    using Cons.IH [of "acc + j"] by (auto simp: v chk_int_def fits_def add.assoc)
qed

lemma glob_offset_place:
  assumes "declared vs n" "sums_fit vs"
  shows "glob_offset n vs = Ret (place vs n)"
proof -
  obtain us w where vs: "vs = us @ [w]" using assms(1) by (cases vs rule: rev_cases) (auto simp: declared_def)
  have "fits (0 + sum_list (map snd (take k us)))" if "k \<le> length us" for k
    using assms(2) [unfolded sums_fit_def, rule_format, of k] that by (simp add: vs)
  then show ?thesis using offset_in_place [of us 0 w n] assms(1) by (simp add: glob_offset_def vs)
qed

section \<open>Declarations as the compiler prints them\<close>

datatype item = Fill string | Blkw nat | Stringz nat string

datatype full_line = Code string | Decl string item | More item

fun item_text :: "item \<Rightarrow> string" where
  "item_text (Fill v) = ''.FILL '' @ v"
| "item_text (Blkw k) = ''.BLKW '' @ fmt_d (int k)"
| "item_text (Stringz k t) = ''.STRINGZ '' @ fmt_d (int k) @ '' '' @ t"

fun item_size :: "item \<Rightarrow> int" where
  "item_size (Fill v) = 1"
| "item_size (Blkw k) = int k"
| "item_size (Stringz k t) = int k"

fun line_text :: "full_line \<Rightarrow> string" where
  "line_text (Code l) = l"
| "line_text (Decl n i) = ''LC3_GFLAG '' @ n @ '' LC3_GFLAG '' @ item_text i"
| "line_text (More i) = ''LC3_GFLAG '' @ item_text i"

text \<open>What the three tables get from a line.\<close>

fun code_text :: "full_line \<Rightarrow> string" where
  "code_text (Code l) = l @ [newline]"
| "code_text _ = []"

fun var_text :: "full_line \<Rightarrow> string" where
  "var_text (Code l) = []"
| "var_text (Decl n (Stringz k t)) = n @ '' .STRINGZ '' @ t @ [newline]"
| "var_text (Decl n i) = n @ '' '' @ item_text i @ [newline]"
| "var_text (More (Stringz k t)) = ''.STRINGZ '' @ '' '' @ t @ [newline]"
| "var_text (More i) = item_text i @ [newline]"

fun add_line :: "(string \<times> int) list \<Rightarrow> full_line \<Rightarrow> (string \<times> int) list" where
  "add_line vs (Code l) = vs"
| "add_line vs (Decl n i) = vs @ [(n, item_size i)]"
| "add_line vs (More i) = butlast vs @ [(fst (last vs), snd (last vs) + item_size i)]"

fun item_ok :: "nat \<Rightarrow> item \<Rightarrow> bool" where
  "item_ok cap (Fill v) \<longleftrightarrow> True"
| "item_ok cap (Blkw k) \<longleftrightarrow> int k < 2 ^ 31"
| "item_ok cap (Stringz k t) \<longleftrightarrow> int k < 2 ^ 31 \<and> length (fmt_d (int k)) + 1 \<le> cap"

fun line_ok :: "nat \<Rightarrow> (string \<times> int) list \<Rightarrow> full_line \<Rightarrow> bool" where
  "line_ok cap vs (Code l) \<longleftrightarrow> \<not> starts ''LC3_GFLAG'' l \<and> \<not> starts ''.END'' l \<and> \<not> starts ''.extern'' l"
| "line_ok cap vs (Decl n i) \<longleftrightarrow> item_ok cap i \<and> n \<noteq> [] \<and> hd n \<noteq> CHR ''.'' \<and> CHR '' '' \<notin> set n \<and> length n + 1 \<le> cap"
| "line_ok cap vs (More i) \<longleftrightarrow> item_ok cap i \<and> vs \<noteq> [] \<and> - (2 ^ 31) \<le> snd (last vs) + item_size i \<and>
     snd (last vs) + item_size i < 2 ^ 31"

fun lines_ok :: "nat \<Rightarrow> (string \<times> int) list \<Rightarrow> full_line list \<Rightarrow> bool" where
  "lines_ok cap vs [] = True"
| "lines_ok cap vs (l # ls) \<longleftrightarrow> line_ok cap vs l \<and> lines_ok cap (add_line vs l) ls"

lemma text_at_drop: "text_at (length p + k) (p @ s) = text_at k s"
  by (simp add: text_at_def)

lemma getword_len_word:
  assumes "w \<noteq> []" "CHR '' '' \<notin> set w"
  shows "getword_len (w @ CHR '' '' # s) = length w"
  using assms
proof (induction w)
  case (Cons c w)
  then show ?case by (cases w) auto
qed simp

lemma getword_word:
  assumes "w \<noteq> []" "CHR '' '' \<notin> set w" "length w + 1 \<le> cap"
  shows "Getword cap (w @ CHR '' '' # s) = Ret (w, length w)"
  using assms by (simp add: Getword_def getword_len_word)

lemma fmt_d_no_space: "CHR '' '' \<notin> set (fmt_d v)" "fmt_d v \<noteq> []"
proof -
  have "hex_digit d \<noteq> CHR '' ''" if "d < 10" for d
    using hex_digit_facts(2) [of d] that by (auto simp: isspace_def)
  then show "CHR '' '' \<notin> set (fmt_d v)" using decimal_digits by (force simp: fmt_d_def)
  show "fmt_d v \<noteq> []" by (simp add: fmt_d_def)
qed

lemma atoi_fmt_d:
  assumes "int k < 2 ^ 31" "\<not> is_digit_in 10 post"
  shows "atoi (fmt_d (int k) @ post) = Ret (int k)" "atoi (CHR '' '' # fmt_d (int k) @ post) = Ret (int k)"
proof -
  have "strtol 10 (fmt_d (int k) @ post) = Some (int k, post)" using assms by (intro strtol_fmt_d) simp_all
  moreover have "strtol 10 (CHR '' '' # s) = strtol 10 s" for s by (simp add: strtol_def isspace_def)
  ultimately show "atoi (fmt_d (int k) @ post) = Ret (int k)" "atoi (CHR '' '' # fmt_d (int k) @ post) = Ret (int k)"
    using assms by (simp_all add: atoi_def chk_int_def)
qed

lemma chk_int_Ret: "- (2 ^ 31) \<le> v \<Longrightarrow> v < 2 ^ 31 \<Longrightarrow> chk_int v = Ret v"
  by (simp add: chk_int_def)

lemma add_size_Ret:
  assumes "g_vars s \<noteq> []" "- (2 ^ 31) \<le> snd (last (g_vars s)) + v" "snd (last (g_vars s)) + v < 2 ^ 31"
  shows "add_size v s = Ret ((), s\<lparr>g_vars := butlast (g_vars s) @ [(fst (last (g_vars s)), snd (last (g_vars s)) + v)]\<rparr>)"
proof -
  obtain vs n k where vs: "g_vars s = vs @ [(n, k)]" by (metis assms(1) append_butlast_last_id prod.exhaust)
  show ?thesis using assms chk_int_Ret [of "k + v"] by (simp add: add_size_def vs)
qed

lemmas pp_step_defs = at_line_def lift_out_def get_word_def print_var_def print_code_def new_var_def cfun_defs

lemma text_at_plus: "text_at k l = Ret t \<Longrightarrow> text_at (k + n) l = text_at n t"
  by (auto simp: text_at_def add.commute split: if_splits)

lemma text_at_numerals:
  "text_at 10 (''LC3_GFLAG '' @ t) = Ret t" "text_at 16 (''LC3_GFLAG .BLKW '' @ t) = Ret t"
  "text_at 19 (''LC3_GFLAG .STRINGZ '' @ t) = Ret t" "text_at 11 ('' LC3_GFLAG '' @ t) = Ret t"
  "text_at 5 (''.BLKW '' @ t) = Ret ('' '' @ t)" "text_at 9 (''.STRINGZ '' @ t) = Ret t"
  by (simp_all add: text_at_def)

lemma starts_items:
  "starts ''.FILL'' (''.FILL '' @ t)" "\<not> starts ''.FILL'' (''.BLKW '' @ t)" "starts ''.BLKW'' (''.BLKW '' @ t)"
  "\<not> starts ''.FILL'' (''.STRINGZ '' @ t)" "\<not> starts ''.BLKW'' (''.STRINGZ '' @ t)" "starts ''.STRINGZ'' (''.STRINGZ '' @ t)"
  "starts ''LC3_GFLAG'' (''LC3_GFLAG '' @ t)"
  by (simp_all add: starts_def)

text \<open>The branches of the split on a line with the flag.\<close>

lemma split_branches:
  assumes "starts ''LC3_GFLAG'' line" "text_at 10 line = Ret t"
  shows "starts ''.FILL'' t \<Longrightarrow> add_size 1 (s\<lparr>var_file := var_file s @ t @ [newline]\<rparr>) = Ret ((), s') \<Longrightarrow>
      split_line line s = Ret (False, s')"
    and "\<not> starts ''.FILL'' t \<Longrightarrow> starts ''.BLKW'' t \<Longrightarrow> text_at 16 line = Ret k \<Longrightarrow> atoi k = Ret v \<Longrightarrow>
      add_size v (s\<lparr>var_file := var_file s @ t @ [newline]\<rparr>) = Ret ((), s') \<Longrightarrow> split_line line s = Ret (False, s')"
    and "\<not> starts ''.FILL'' t \<Longrightarrow> \<not> starts ''.BLKW'' t \<Longrightarrow> starts ''.STRINGZ'' t \<Longrightarrow> text_at 19 line = Ret t2 \<Longrightarrow>
      Getword (tmp_max s) t2 = Ret (w, len) \<Longrightarrow> text_at (19 + len) line = Ret txt \<Longrightarrow> atoi t2 = Ret v \<Longrightarrow>
      add_size v (s\<lparr>var_file := var_file s @ ''.STRINGZ '' @ txt @ [newline]\<rparr>) = Ret ((), s') \<Longrightarrow>
      split_line line s = Ret (False, s')"
    and "\<not> starts ''.FILL'' t \<Longrightarrow> \<not> starts ''.BLKW'' t \<Longrightarrow> \<not> starts ''.STRINGZ'' t \<Longrightarrow>
      declare_var line t s = Ret ((), s') \<Longrightarrow> split_line line s = Ret (False, s')"
  using assms by (simp_all add: split_line_def pp_step_defs del: bindS_Ret)

text \<open>A line that continues a variable.\<close>

lemma more_line:
  assumes "line_ok (tmp_max s) (g_vars s) (More i)"
  shows "split_line (line_text (More i)) s =
    Ret (False, s\<lparr>var_file := var_file s @ var_text (More i), g_vars := add_line (g_vars s) (More i)\<rparr>)"
proof -
  let ?line = "line_text (More i)"
  have at: "starts ''LC3_GFLAG'' ?line" "text_at 10 ?line = Ret (item_text i)"
    using starts_items(7) text_at_numerals(1) by simp_all
  have add: "add_size (item_size i) (s\<lparr>var_file := u\<rparr>) = Ret ((), s\<lparr>var_file := u, g_vars := add_line (g_vars s) (More i)\<rparr>)" for u
    using assms add_size_Ret [of "s\<lparr>var_file := u\<rparr>" "item_size i"] by simp
  show ?thesis
  proof (cases i)
    case (Fill v)
    show ?thesis
      by (rule split_branches(1) [OF at]) (use add starts_items(1) Fill in simp_all)
  next
    case (Blkw k)
    then have "atoi (fmt_d (int k)) = Ret (int k)" using assms atoi_fmt_d(1) [of k "[]"] by (simp add: is_digit_in_def)
    then show ?thesis
      by (intro split_branches(2) [OF at, of "fmt_d (int k)"]) (use add starts_items(2,3) text_at_numerals(2) Blkw in simp_all)
  next
    case (Stringz k t)
    let ?w = "fmt_d (int k)"
    have k: "atoi (?w @ CHR '' '' # t) = Ret (int k)" "Getword (tmp_max s) (?w @ CHR '' '' # t) = Ret (?w, length ?w)"
      using assms Stringz atoi_fmt_d(1) [of k "CHR '' '' # t"] getword_word [of ?w "tmp_max s" t] fmt_d_no_space [of "int k"]
      by (simp_all add: is_digit_in_def digit_val_def)
    have l: "text_at 19 ?line = Ret (?w @ CHR '' '' # t)" using text_at_numerals(3) Stringz by simp
    then have l2: "text_at (19 + length ?w) ?line = Ret ('' '' @ t)" using text_at_plus [OF l, of "length ?w"] by (simp add: text_at_def)
    show ?thesis
      by (rule split_branches(3) [OF at _ _ _ l k(2) l2])
         (use add starts_items(4-6) Stringz k(1) in simp_all)
  qed
qed

text \<open>A line that declares a variable.\<close>

lemma declare_branches:
  assumes "Getword (tmp_max s) t = Ret (n, len)" "text_at (len + 21) line = Ret d"
  shows "starts ''.FILL'' d \<Longrightarrow>
      declare_var line t s = Ret ((), s\<lparr>var_file := var_file s @ n @ '' '' @ d @ [newline], g_vars := g_vars s @ [(n, 1)]\<rparr>)"
    and "\<not> starts ''.FILL'' d \<Longrightarrow> starts ''.BLKW'' d \<Longrightarrow> text_at (len + 26) line = Ret k \<Longrightarrow> atoi k = Ret v \<Longrightarrow>
      declare_var line t s = Ret ((), s\<lparr>var_file := var_file s @ n @ '' '' @ d @ [newline], g_vars := g_vars s @ [(n, v)]\<rparr>)"
    and "\<not> starts ''.FILL'' d \<Longrightarrow> \<not> starts ''.BLKW'' d \<Longrightarrow> text_at (len + 30) line = Ret t2 \<Longrightarrow>
      Getword (tmp_max s) t2 = Ret (k, len2) \<Longrightarrow> text_at (len + len2 + 31) line = Ret txt \<Longrightarrow> atoi k = Ret v \<Longrightarrow>
      declare_var line t s = Ret ((), s\<lparr>var_file := var_file s @ n @ '' .STRINGZ '' @ txt @ [newline], g_vars := g_vars s @ [(n, v)]\<rparr>)"
  using assms by (simp_all add: declare_var_def pp_step_defs del: bindS_Ret)

lemma decl_line:
  assumes "line_ok (tmp_max s) (g_vars s) (Decl n i)"
  shows "split_line (line_text (Decl n i)) s =
    Ret (False, s\<lparr>var_file := var_file s @ var_text (Decl n i), g_vars := add_line (g_vars s) (Decl n i)\<rparr>)"
proof -
  let ?line = "line_text (Decl n i)" and ?t = "n @ '' LC3_GFLAG '' @ item_text i"
  have at: "starts ''LC3_GFLAG'' ?line" "text_at 10 ?line = Ret ?t"
    using starts_items(7) text_at_numerals(1) by simp_all
  have no: "\<not> starts (CHR ''.'' # p) ?t" for p using assms by (cases n) (auto simp: starts_def)
  have w: "Getword (tmp_max s) ?t = Ret (n, length n)" using assms getword_word [of n "tmp_max s"] by simp
  have "text_at (10 + length n) ?line = Ret ('' LC3_GFLAG '' @ item_text i)"
    unfolding text_at_plus [OF at(2)] by (simp add: text_at_def)
  from text_at_plus [OF this, of 11] have d: "text_at (length n + 21) ?line = Ret (item_text i)"
    using text_at_numerals(4) by (simp add: add.commute)
  have "declare_var ?line ?t s = Ret ((), s\<lparr>var_file := var_file s @ var_text (Decl n i), g_vars := add_line (g_vars s) (Decl n i)\<rparr>)"
  proof (cases i)
    case (Fill v)
    then show ?thesis using declare_branches(1) [OF w d] starts_items(1) by simp
  next
    case (Blkw k)
    have "text_at (length n + 26) ?line = Ret ('' '' @ fmt_d (int k))"
      using text_at_plus [OF d, of 5] text_at_numerals(5) Blkw by (simp add: add.commute)
    moreover have "atoi ('' '' @ fmt_d (int k)) = Ret (int k)" using assms Blkw atoi_fmt_d(2) [of k "[]"] by (simp add: is_digit_in_def)
    ultimately show ?thesis using declare_branches(2) [OF w d] starts_items(2,3) Blkw by simp
  next
    case (Stringz k t)
    let ?w = "fmt_d (int k)"
    have k: "atoi ?w = Ret (int k)" "Getword (tmp_max s) (?w @ CHR '' '' # t) = Ret (?w, length ?w)"
      using assms Stringz atoi_fmt_d(1) [of k "[]"] getword_word [of ?w "tmp_max s" t] fmt_d_no_space [of "int k"]
      by (simp_all add: is_digit_in_def)
    have l: "text_at (length n + 30) ?line = Ret (?w @ CHR '' '' # t)"
      using text_at_plus [OF d, of 9] text_at_numerals(6) Stringz by (simp add: add.commute)
    have l2: "text_at (length n + length ?w + 31) ?line = Ret t"
      using text_at_plus [OF l, of "length ?w + 1"] by (simp add: text_at_def add_ac)
    show ?thesis using declare_branches(3) [OF w d _ _ l k(2) l2] starts_items(4,5) Stringz k(1) by simp
  qed
  then show ?thesis by (intro split_branches(4) [OF at]) (use no in simp_all)
qed

lemma code_line:
  assumes "line_ok cap vs (Code l)"
  shows "split_line (line_text (Code l)) s = Ret (False, s\<lparr>code_file := code_file s @ code_text (Code l)\<rparr>)"
  using assms by (simp add: split_line_def pp_step_defs del: bindS_Ret)

lemma split_step:
  assumes "line_ok (tmp_max s) (g_vars s) l"
  shows "split_line (line_text l) s = Ret (False, s\<lparr>var_file := var_file s @ var_text l, code_file := code_file s @ code_text l,
    g_vars := add_line (g_vars s) l\<rparr>)"
  using assms by (cases l) (simp_all add: code_line [of "tmp_max s" "g_vars s"] decl_line more_line del: line_text.simps line_ok.simps)

section \<open>The split\<close>

lemma read_curr_line:
  assumes "0 < curr_max s"
  obtains n f' where "read_curr s = Ret (first_line (stream_lines (inp s)), s\<lparr>curr_max := n, inp := f'\<rparr>)"
    "0 < n" "stream_lines f' = tl (stream_lines (inp s))" "length (first_line (stream_lines (inp s))) < n"
proof -
  obtain n f' where "Readline (curr_max s) (inp s) = Ret (first_line (stream_lines (inp s)), n, f')"
      "length (first_line (stream_lines (inp s))) < n" "curr_max s \<le> n" "stream_lines f' = tl (stream_lines (inp s))"
    by (rule Readline_lines [OF assms, of "inp s"])
  then show thesis using that [of f' n] assms by (simp add: read_curr_def)
qed

lemma split_loop_lines:
  assumes "lines_ok (tmp_max s) (g_vars s) ls" "0 < curr_max s" "stream_lines (inp s) = map line_text ls @ ''.END'' # others"
  shows "\<exists>s'. split_loop s = Some (Ret ((), s')) \<and> g_vars s' = foldl add_line (g_vars s) ls \<and>
    var_file s' = var_file s @ concat (map var_text ls) @ ''.END'' @ [newline] \<and>
    code_file s' = code_file s @ concat (map code_text ls) @ ''.END'' @ [newline]"
  using assms
proof (induction ls arbitrary: s)
  case Nil
  obtain n f' where "read_curr s = Ret (first_line (stream_lines (inp s)), s\<lparr>curr_max := n, inp := f'\<rparr>)"
    by (rule read_curr_line [OF Nil.prems(2)])
  then have r: "read_curr s = Ret (''.END'', s\<lparr>curr_max := n, inp := f'\<rparr>)" using Nil.prems(3) by simp
  have "split_line ''.END'' s0 = Ret (True, s0\<lparr>var_file := var_file s0 @ ''.END'' @ [newline], code_file := code_file s0 @ ''.END'' @ [newline]\<rparr>)" for s0
    by (simp add: split_line_def pp_step_defs starts_def del: bindS_Ret)
  with r show ?case by (subst split_loop.simps) (simp add: bindS_def)
next
  case (Cons l ls)
  obtain n f' where "read_curr s = Ret (first_line (stream_lines (inp s)), s\<lparr>curr_max := n, inp := f'\<rparr>)" "0 < n"
      "stream_lines f' = tl (stream_lines (inp s))"
    by (rule read_curr_line [OF Cons.prems(2)])
  then have r: "read_curr s = Ret (line_text l, s\<lparr>curr_max := n, inp := f'\<rparr>)" "0 < n"
      "stream_lines f' = map line_text ls @ ''.END'' # others"
    using Cons.prems(3) by simp_all
  let ?s = "s\<lparr>curr_max := n, inp := f', var_file := var_file s @ var_text l, code_file := code_file s @ code_text l,
    g_vars := add_line (g_vars s) l\<rparr>"
  have step: "split_line (line_text l) (s\<lparr>curr_max := n, inp := f'\<rparr>) = Ret (False, ?s)"
    using split_step [of "s\<lparr>curr_max := n, inp := f'\<rparr>" l] Cons.prems(1) by simp
  have "split_loop s = split_loop ?s"
    using r(1) step by (subst split_loop.simps) (simp add: bindS_def)
  moreover from Cons.IH [of ?s] Cons.prems(1) r(2,3) obtain s' where "split_loop ?s = Some (Ret ((), s'))"
    "g_vars s' = foldl add_line (g_vars s) (l # ls)" "var_file s' = var_file s @ concat (map var_text (l # ls)) @ ''.END'' @ [newline]"
    "code_file s' = code_file s @ concat (map code_text (l # ls)) @ ''.END'' @ [newline]"
    by auto
  ultimately show ?case by simp
qed

text \<open>The text of a complete file.\<close>

definition full_text :: "full_line list \<Rightarrow> string" where
  "full_text ls = concat (map (\<lambda>l. l @ [newline]) (map line_text ls @ [''.END'']))"

lemma full_text_lines:
  assumes "\<forall>l \<in> set ls. newline \<notin> set (line_text l)"
  shows "stream_lines (open_stream (full_text ls)) = map line_text ls @ ''.END'' # [[]]"
  using split_nl_lines [of "map line_text ls @ [''.END'']"] assms
  by (simp add: stream_lines_def open_stream_def full_text_def)

text \<open>
  Claim C15: the linker splits a complete file, with declarations as the compiler prints them, into
  its code and its variables.  The pass ends; the code file has the lines of code, the variable
  file the declarations without their flags, both in order and closed by .END, and the table has
  each variable with the number of words of all its lines.
\<close>

theorem split_loop_tables:
  assumes "lines_ok cap [] ls" "\<forall>l \<in> set ls. newline \<notin> set (line_text l)"
  shows "\<exists>s'. split_loop (pp_start cap (full_text ls)) = Some (Ret ((), s')) \<and> g_vars s' = foldl add_line [] ls \<and>
    var_file s' = concat (map var_text ls) @ ''.END'' @ [newline] \<and>
    code_file s' = concat (map code_text ls) @ ''.END'' @ [newline]"
  using split_loop_lines [of "pp_start cap (full_text ls)" ls "[[]]"] full_text_lines [OF assms(2)] assms(1)
  by (simp add: pp_start_def LINE_MAXLEN_def)

theorem split_loop_tables_witness:
  "\<exists>s'. split_loop (pp_start 100 (full_text [Decl ''x'' (Fill ''#1''), More (Blkw 3), Code ''RET''])) = Some (Ret ((), s')) \<and>
    g_vars s' = foldl add_line [] [Decl ''x'' (Fill ''#1''), More (Blkw 3), Code ''RET''] \<and>
    var_file s' = concat (map var_text [Decl ''x'' (Fill ''#1''), More (Blkw 3), Code ''RET'']) @ ''.END'' @ [newline] \<and>
    code_file s' = concat (map code_text [Decl ''x'' (Fill ''#1''), More (Blkw 3), Code ''RET'']) @ ''.END'' @ [newline]"
  by (rule split_loop_tables) (simp_all add: starts_def fmt_d_def radix_digits.simps hex_digit_def char_of_def)

end
