(* ===== verification/PP_Output.thy ===== *)
theory PP_Output
  imports PP_Globals
begin

text \<open>
  The linker's last pass: on code with directives as the compiler prints them, every directive is
  replaced by the code of calculate_address for the place of its variable, and a load that
  follows it is merged into that code.
\<close>

section \<open>Directives as the compiler prints them\<close>

definition fmt_signed :: "int \<Rightarrow> string" where
  "fmt_signed k = (if k < 0 then fmt_d k else ''+'' @ fmt_d k)"

definition directive :: "string \<Rightarrow> int list \<Rightarrow> int \<Rightarrow> string" where
  "directive n ks r = ''.LC3GLOBAL '' @ n @ concat (map fmt_signed ks) @ '' '' @ fmt_d r"

lemma isspace_signs: "\<not> isspace (CHR ''+'')" "\<not> isspace (CHR ''-'')"
  by (simp_all add: isspace_def)

lemma strtol_signed:
  assumes "- (2 ^ 63) \<le> k" "k < 2 ^ 63" "\<not> is_digit_in 10 post"
  shows "strtol 10 (fmt_signed k @ post) = Some (k, post)"
proof (cases "k < 0")
  case True
  then show ?thesis using strtol_fmt_d [OF assms] by (simp add: fmt_signed_def)
next
  case False
  then have d: "fmt_d k = map hex_digit (radix_digits 10 (nat k))" by (simp add: fmt_d_def)
  obtain e cs where "map hex_digit (radix_digits 10 (nat k)) = hex_digit e # cs" "e < 10" by (rule decimal_head)
  with d have e: "fmt_d k = hex_digit e # cs" "e < 10" by simp_all
  have "strtol 10 (CHR ''+'' # fmt_d k @ post) = strtol 10 (fmt_d k @ post)"
    using hex_digit_facts [of e] e isspace_signs by (simp add: strtol_def scan_sign_def)
  then show ?thesis using strtol_fmt_d [OF assms] False by (simp add: fmt_signed_def)
qed

lemma signed_head:
  "\<exists>c cs. fmt_signed k = c # cs \<and> (c = CHR ''+'' \<or> c = CHR ''-'')"
  by (auto simp: fmt_signed_def fmt_d_def)

lemma offsets_no_digit: "\<not> is_digit_in 10 (concat (map fmt_signed ks) @ '' '' @ post)"
proof (cases ks)
  case (Cons k ks')
  then show ?thesis using signed_head [of k] by (auto simp: is_digit_in_def digit_val_def)
qed (simp add: is_digit_in_def digit_val_def)

lemma collect_offsets_text:
  assumes "\<bar>acc\<bar> + sum_list (map abs ks) < 2 ^ 31"
  shows "collect_offsets acc (concat (map fmt_signed ks) @ '' '' @ post) = Some (Ret (acc + sum_list ks, '' '' @ post))"
  using assms
proof (induction ks arbitrary: acc)
  case Nil
  then show ?case by (simp add: collect_offsets.simps)
next
  case (Cons k ks)
  let ?post = "concat (map fmt_signed ks) @ '' '' @ post"
  have pos: "0 \<le> sum_list (map abs ks)" by (rule sum_list_nonneg) auto
  have k: "\<bar>k\<bar> < 2 ^ 31" "\<bar>acc + k\<bar> < 2 ^ 31" "\<bar>acc + k\<bar> + sum_list (map abs ks) < 2 ^ 31"
    using Cons.prems pos by auto
  have "strtol 10 (fmt_signed k @ ?post) = Some (k, ?post)"
    using k(1) by (intro strtol_signed offsets_no_digit) auto
  moreover have "to_int32 (acc + k) = acc + k" using k(2) by (intro to_int32_id) auto
  moreover have "- (2 ^ 63) \<le> acc + k" "acc + k < 2 ^ 63" using k(2) by auto
  moreover obtain c cs where "fmt_signed k = c # cs" "c = CHR ''+'' \<or> c = CHR ''-''" using signed_head [of k] by blast
  ultimately show ?case using Cons.IH [OF k(3)]
    by (subst collect_offsets.simps) (simp add: add.assoc)
qed

text \<open>
  A directive that names a variable, any number of signed offsets and a register is parsed to
  the name, the sum of the offsets and the register.
\<close>

lemma parse_global_directive:
  assumes "\<forall>c \<in> set n. name_char c" "sum_list (map abs ks) < 2 ^ 31" "\<bar>r\<bar> < 2 ^ 31"
  shows "parse_global (directive n ks r) = Some (Ret (n, sum_list ks, r))"
proof -
  let ?offs = "concat (map fmt_signed ks) @ '' '' @ fmt_d r"
  have at: "text_at 11 (directive n ks r) = Ret (n @ ?offs)" by (simp add: directive_def text_at_def)
  have stop: "\<exists>c cs. ?offs = c # cs \<and> \<not> name_char c"
  proof (cases ks)
    case (Cons k ks')
    then show ?thesis using signed_head [of k] by (auto simp: name_char_def)
  qed (simp add: name_char_def)
  then obtain c cs where c: "?offs = c # cs" "\<not> name_char c" by blast
  have name: "takeWhile name_char (n @ ?offs) = n" "dropWhile name_char (n @ ?offs) = ?offs"
    using assms(1) c(2) unfolding c(1) by (simp_all add: takeWhile_append2 dropWhile_append2)
  have coll: "collect_offsets 0 ?offs = Some (Ret (sum_list ks, '' '' @ fmt_d r))"
    using collect_offsets_text [of 0 ks "fmt_d r"] assms(2) by simp
  have reg: "strtol 10 (fmt_d r) = Some (r, [])"
    using strtol_fmt_d [of r "[]"] assms(3) by (simp add: is_digit_in_def)
  have r32: "to_int32 r = r" using assms(3) by (intro to_int32_id) auto
  have "?offs \<noteq> []" by simp
  with coll reg r32 show ?thesis
    unfolding parse_global_def at outcome.case name by simp
qed

section \<open>The code with its directives\<close>

datatype code_item = Plain string | Load string "int list" int int | Address string "int list" int

definition ldr_text :: "int \<Rightarrow> int \<Rightarrow> string" where
  "ldr_text r k = ''LDR R'' @ fmt_d r @ '', R'' @ fmt_d r @ '', #'' @ fmt_d k"

fun item_lines :: "code_item \<Rightarrow> string list" where
  "item_lines (Plain l) = [l]"
| "item_lines (Load n ks r k) = [directive n ks r, ldr_text r k]"
| "item_lines (Address n ks r) = [directive n ks r]"

text \<open>What the pass writes for an item, with the place of its variable.\<close>

fun item_out :: "(string \<times> int) list \<Rightarrow> code_item \<Rightarrow> string" where
  "item_out vs (Plain l) = l @ [newline]"
| "item_out vs (Load n ks r k) =
     directive_comment True r n (place vs n) (sum_list ks + k) @
     concat (map pp_text (calculate_address r 4 (sum_list ks + k + place vs n) True)) @ '';     </ld>'' @ [newline]"
| "item_out vs (Address n ks r) =
     directive_comment False r n (place vs n) (sum_list ks) @
     concat (map pp_text (calculate_address r 4 (sum_list ks + place vs n) False)) @ '';     </lea>'' @ [newline]"

definition dir_ok :: "(string \<times> int) list \<Rightarrow> string \<Rightarrow> int list \<Rightarrow> int \<Rightarrow> bool" where
  "dir_ok vs n ks r \<longleftrightarrow> (\<forall>c \<in> set n. name_char c) \<and> sum_list (map abs ks) < 2 ^ 31 \<and> 0 \<le> r \<and> r \<le> 9 \<and>
     declared vs n"

text \<open>Directives name declared variables, and the sums that the linker computes fit an int.\<close>

fun items_ok :: "(string \<times> int) list \<Rightarrow> code_item list \<Rightarrow> bool" where
  "items_ok vs [] \<longleftrightarrow> True"
| "items_ok vs (Plain l # is) \<longleftrightarrow> \<not> starts ''.END'' l \<and> \<not> starts ''.LC3GLOBAL'' l \<and> items_ok vs is"
| "items_ok vs (Load n ks r k # is) \<longleftrightarrow>
     dir_ok vs n ks r \<and> fits k \<and> fits (sum_list ks + k) \<and> fits (sum_list ks + k + place vs n) \<and> items_ok vs is"
| "items_ok vs (Address n ks r # is) \<longleftrightarrow>
     dir_ok vs n ks r \<and> fits (sum_list ks + place vs n) \<and>
     check_ldr (first_line (concat (map item_lines is) @ [''.END''])) r = Ret None \<and> items_ok vs is"

section \<open>The pass over the code\<close>

lemmas out_step_defs = print_out_def lift_out_def need_def cfun_defs

lemma emit_global_result:
  assumes "glob_offset n (g_vars s) = Ret g" "length n < max (var_max s) (curr_max s)"
    and "read_curr (s\<lparr>var_max := max (var_max s) (curr_max s)\<rparr>) = Ret (line, s1)" "check_ldr line reg = Ret ldr"
    and "v = (case ldr of None \<Rightarrow> var | Some k \<Rightarrow> var + k)" "fits v" "fits (v + g)"
  shows "emit_global (n, var, reg) s =
    Ret (if ldr = None then Some line else None,
      s1\<lparr>output_file := output_file s1 @ directive_comment (ldr \<noteq> None) reg n g v @
        concat (map pp_text (calculate_address reg 4 (v + g) (ldr \<noteq> None))) @
        (if ldr = None then '';     </lea>'' @ [newline] else '';     </ld>'' @ [newline])\<rparr>)"
  using assms by (cases ldr) (simp_all add: emit_global_def out_step_defs chk_int_def fits_def del: bindS_Ret)

lemma output_read:
  assumes "0 < curr_max s"
  obtains n f' where "output_loop None s = output_loop (Some (first_line (stream_lines (inp s)))) (s\<lparr>curr_max := n, inp := f'\<rparr>)"
    "length (first_line (stream_lines (inp s))) < n" "stream_lines f' = tl (stream_lines (inp s))"
proof -
  obtain n f' where r: "read_curr s = Ret (first_line (stream_lines (inp s)), s\<lparr>curr_max := n, inp := f'\<rparr>)"
      "stream_lines f' = tl (stream_lines (inp s))" "length (first_line (stream_lines (inp s))) < n"
    by (rule read_curr_line [OF assms])
  have "output_loop None s = output_loop (Some (first_line (stream_lines (inp s)))) (s\<lparr>curr_max := n, inp := f'\<rparr>)"
    by (subst (1 2) output_loop.simps) (simp add: r(1))
  with r(2,3) show thesis using that by blast
qed

lemma directive_starts: "starts ''.LC3GLOBAL'' (directive n ks r)" "\<not> starts ''.END'' (directive n ks r)"
  "length n < length (directive n ks r)"
  by (simp_all add: directive_def starts_def)

lemma output_directive:
  assumes "sums_fit (g_vars s)" "dir_ok (g_vars s) n ks reg" "length (directive n ks reg) < curr_max s" "stream_lines (inp s) = line # ls"
    and "check_ldr line reg = Ret ldr" "v = (case ldr of None \<Rightarrow> sum_list ks | Some k \<Rightarrow> sum_list ks + k)" "fits v"
    and "fits (v + place (g_vars s) n)"
  shows "\<exists>m c f'. length line < c \<and> stream_lines f' = ls \<and>
    output_loop (Some (directive n ks reg)) s =
    output_loop (if ldr = None then Some line else None)
      (s\<lparr>var_max := m, curr_max := c, inp := f', output_file := output_file s @ directive_comment (ldr \<noteq> None) reg n (place (g_vars s) n) v @
        concat (map pp_text (calculate_address reg 4 (v + place (g_vars s) n) (ldr \<noteq> None))) @
        (if ldr = None then '';     </lea>'' @ [newline] else '';     </ld>'' @ [newline])\<rparr>)"
proof -
  let ?s = "s\<lparr>var_max := max (var_max s) (curr_max s)\<rparr>"
  have "0 < curr_max ?s" using assms(3) by simp
  from read_curr_line [OF this] obtain c f' where r:
      "read_curr ?s = Ret (first_line (stream_lines (inp ?s)), ?s\<lparr>curr_max := c, inp := f'\<rparr>)"
      "stream_lines f' = tl (stream_lines (inp ?s))" "length (first_line (stream_lines (inp ?s))) < c"
    by metis
  have parse: "parse_global (directive n ks reg) = Some (Ret (n, sum_list ks, reg))"
    using assms(2) by (intro parse_global_directive) (auto simp: dir_ok_def)
  have g: "glob_offset n (g_vars s) = Ret (place (g_vars s) n)"
    using glob_offset_place assms(1,2) by (simp add: dir_ok_def)
  have len: "length n < max (var_max s) (curr_max s)" using directive_starts(3) [of n ks reg] assms(3) by simp
  have "read_curr ?s = Ret (line, ?s\<lparr>curr_max := c, inp := f'\<rparr>)" using r(1) assms(4) by simp
  note e = emit_global_result [OF g len this assms(5) assms(6-8)]
  have "output_loop (Some (directive n ks reg)) s =
    output_loop (if ldr = None then Some line else None)
      (s\<lparr>var_max := max (var_max s) (curr_max s), curr_max := c, inp := f', output_file := output_file s @ directive_comment (ldr \<noteq> None) reg n (place (g_vars s) n) v @
        concat (map pp_text (calculate_address reg 4 (v + place (g_vars s) n) (ldr \<noteq> None))) @
        (if ldr = None then '';     </lea>'' @ [newline] else '';     </ld>'' @ [newline])\<rparr>)"
    by (subst output_loop.simps) (simp add: directive_starts global_line_def parse e)
  then show ?thesis using r(2,3) assms(4) by auto
qed

lemma ldr_line: "0 \<le> r \<Longrightarrow> r \<le> 9 \<Longrightarrow> fits k \<Longrightarrow> check_ldr (ldr_text r k) r = Ret (Some k)"
  using check_ldr_printed [of r k "[]"] by (simp add: ldr_text_def fits_def is_digit_in_def)

lemma fits_sum: "sum_list (map abs ks) < (2 ^ 31 :: int) \<Longrightarrow> fits (sum_list ks)"
proof -
  have "\<bar>sum_list ks\<bar> \<le> sum_list (map abs ks)" by (induction ks) auto
  then show "sum_list (map abs ks) < (2 ^ 31 :: int) \<Longrightarrow> fits (sum_list ks)" by (auto simp: fits_def)
qed

lemma first_line_append: "first_line (xs @ a # ys) = first_line (xs @ [a])"
  by (cases xs) auto

text \<open>From a line on that has been read, the rest of the items goes to the output.\<close>

lemma output_items:
  assumes table: "sums_fit vs" and "items_ok vs is" "g_vars s = vs" "length l < curr_max s"
    and "l # stream_lines (inp s) = concat (map item_lines is) @ ''.END'' # others"
  shows "\<exists>s'. output_loop (Some l) s = Some (Ret ((), s')) \<and>
    output_file s' = output_file s @ concat (map (item_out vs) is) \<and> var_file s' = var_file s \<and> tmp_max s' = tmp_max s"
  using assms(2-)
proof (induction "is" arbitrary: s l)
  case Nil
  then show ?case by (subst output_loop.simps) (simp add: starts_def)
next
  case (Cons i "is")
  let ?lines = "concat (map item_lines is) @ ''.END'' # others"
  have lines_ne: "?lines \<noteq> []" by simp
  have continue: "\<exists>s'. output_loop None s1 = Some (Ret ((), s')) \<and>
      output_file s' = output_file s1 @ concat (map (item_out vs) is) \<and> var_file s' = var_file s1 \<and> tmp_max s' = tmp_max s1"
    if s1: "items_ok vs is" "g_vars s1 = vs" "0 < curr_max s1" "stream_lines (inp s1) = ?lines" for s1
  proof -
    obtain n f' where r: "output_loop None s1 = output_loop (Some (first_line ?lines)) (s1\<lparr>curr_max := n, inp := f'\<rparr>)"
        "length (first_line ?lines) < n" "stream_lines f' = tl ?lines"
      using output_read [OF s1(3)] unfolding s1(4) by metis
    have "first_line ?lines # tl ?lines = ?lines" using lines_ne by (cases ?lines) auto
    with Cons.IH [of "s1\<lparr>curr_max := n, inp := f'\<rparr>" "first_line ?lines"] r s1 show ?thesis by simp
  qed
  show ?case
  proof (cases i)
    case (Plain t)
    then have "output_loop (Some l) s = output_loop None (s\<lparr>output_file := output_file s @ t @ [newline]\<rparr>)"
      using Cons.prems by (subst output_loop.simps) (simp add: out_step_defs)
    with continue [of "s\<lparr>output_file := output_file s @ t @ [newline]\<rparr>"] Cons.prems Plain show ?thesis by auto
  next
    case (Load n ks r k)
    have l: "l = directive n ks r" "stream_lines (inp s) = ldr_text r k # ?lines" using Cons.prems(4) Load by simp_all
    have ok: "dir_ok (g_vars s) n ks r" "fits (sum_list ks + k)" "fits (sum_list ks + k + place (g_vars s) n)" "fits k" "items_ok vs is"
      using Cons.prems(1,2) Load by simp_all
    then have "check_ldr (ldr_text r k) r = Ret (Some k)" by (intro ldr_line) (auto simp: dir_ok_def)
    from output_directive [OF _ ok(1) _ l(2) this _ ok(2,3)] table Cons.prems(2,3) l(1)
    obtain m c f' where o: "length (ldr_text r k) < c" "stream_lines f' = ?lines"
      "output_loop (Some l) s = output_loop None (s\<lparr>var_max := m, curr_max := c, inp := f', output_file := output_file s @ item_out vs i\<rparr>)"
      using Cons.prems(2) Load by auto
    from continue [of "s\<lparr>var_max := m, curr_max := c, inp := f', output_file := output_file s @ item_out vs i\<rparr>"] o ok Cons.prems(2)
    show ?thesis by auto
  next
    case (Address n ks r)
    obtain l2 ls where l2: "?lines = l2 # ls" using lines_ne by (cases ?lines) auto
    have l: "l = directive n ks r" "stream_lines (inp s) = l2 # ls" using Cons.prems(4) Address l2 by simp_all
    have ok: "dir_ok (g_vars s) n ks r" "fits (sum_list ks + place (g_vars s) n)" "items_ok vs is"
      using Cons.prems(1,2) Address by simp_all
    have "first_line (concat (map item_lines is) @ [''.END'']) = l2"
      using first_line_append [of "concat (map item_lines is)" "''.END''" others] unfolding l2 by simp
    then have "check_ldr l2 r = Ret None" using Cons.prems(1) Address by simp
    moreover have "fits (sum_list ks)" using ok(1) by (intro fits_sum) (simp add: dir_ok_def)
    ultimately obtain m c f' where o: "length l2 < c" "stream_lines f' = ls"
      "output_loop (Some l) s = output_loop (Some l2) (s\<lparr>var_max := m, curr_max := c, inp := f', output_file := output_file s @ item_out vs i\<rparr>)"
      using output_directive [OF _ ok(1) _ l(2) _ _ _ ok(2), of None] table Cons.prems(2,3) l(1) Address by auto
    from Cons.IH [of "s\<lparr>var_max := m, curr_max := c, inp := f', output_file := output_file s @ item_out vs i\<rparr>" l2] o ok Cons.prems(2) l2
    show ?thesis by auto
  qed
qed

section \<open>The passes together\<close>

definition code_lines_text :: "code_item list \<Rightarrow> string" where
  "code_lines_text is = concat (map (\<lambda>l. l @ [newline]) (concat (map item_lines is) @ [''.END'']))"

text \<open>
  Claim C5: in the code, every directive that names a declared variable is replaced by the
  instructions of calculate_address for the place of that variable in the global data, which is
  the number of words of the variables declared before it, plus the offsets of the directive; the
  load after a directive, if it loads the register from itself, is merged into them; every other
  line is copied.
\<close>

theorem output_loop_replaces:
  assumes "sums_fit (g_vars s)" "items_ok (g_vars s) is" "0 < curr_max s" "code_file s = code_lines_text is"
    and "\<forall>i \<in> set is. \<forall>l \<in> set (item_lines i). newline \<notin> set l"
  shows "\<exists>s'. output_loop None (on_stream code_file s) = Some (Ret ((), s')) \<and>
    output_file s' = output_file s @ concat (map (item_out (g_vars s)) is) \<and> var_file s' = var_file s"
proof -
  let ?s = "on_stream code_file s" and ?lines = "concat (map item_lines is) @ ''.END'' # [[]]"
  have lines: "stream_lines (inp ?s) = ?lines"
    using split_nl_lines [of "concat (map item_lines is) @ [''.END'']"] assms(4,5)
    by (auto simp: on_stream_def stream_lines_def open_stream_def code_lines_text_def)
  have "0 < curr_max ?s" using assms(3) by (simp add: on_stream_def)
  then obtain n f' where r: "output_loop None ?s = output_loop (Some (first_line ?lines)) (?s\<lparr>curr_max := n, inp := f'\<rparr>)"
      "length (first_line ?lines) < n" "stream_lines f' = tl ?lines"
    using output_read unfolding lines [symmetric] by metis
  have "first_line ?lines # tl ?lines = ?lines" by (cases ?lines) auto
  with output_items [of "g_vars s" "is" "?s\<lparr>curr_max := n, inp := f'\<rparr>" "first_line ?lines" "[[]]"] assms(1,2) r
  show ?thesis by (auto simp: on_stream_def)
qed

text \<open>A load of the second word of the variable x, which lies three words into the data.\<close>

definition demo_items :: "code_item list" where
  "demo_items = [Plain ''ADD R0, R0, #0'', Load ''x'' [1] 0 0]"

definition demo_pp :: pp where
  "demo_pp = (pp_start 100 [])\<lparr>g_vars := [(''y'', 3), (''x'', 2), (''z'', 1)], code_file := code_lines_text demo_items\<rparr>"

lemma demo_table: "sums_fit [(''y'', 3), (''x'', 2), (''z'', 1)]"
proof -
  have "k = 0 \<or> k = 1 \<or> k = 2 \<or> k = 3" if "k \<le> 3" for k :: nat using that by arith
  then have "fits (sum_list (map snd (take k [(''y'', 3), (''x'', 2), (''z'', 1)])))" if "k \<le> 3" for k
    using that by (elim disjE [OF \<open>\<And>k. k \<le> 3 \<Longrightarrow> k = 0 \<or> k = 1 \<or> k = 2 \<or> k = 3\<close>]) (auto simp: fits_def)
  then show ?thesis by (simp add: sums_fit_def)
qed

theorem output_loop_replaces_witness:
  "(\<exists>s'. output_loop None (on_stream code_file demo_pp) = Some (Ret ((), s')) \<and>
    output_file s' = output_file demo_pp @ concat (map (item_out (g_vars demo_pp)) demo_items) \<and> var_file s' = var_file demo_pp) \<and>
   place (g_vars demo_pp) ''x'' = 3"
  by (rule conjI, rule output_loop_replaces)
     (simp_all add: demo_pp_def demo_items_def pp_start_def LINE_MAXLEN_def starts_def dir_ok_def demo_table declared_def fits_def
        name_char_def directive_def ldr_text_def fmt_signed_def fmt_d_def radix_digits.simps hex_digit_def char_of_def)

end
