(* ===== verification/PP_Resolve.thy ===== *)
theory PP_Resolve
  imports PP_Output
begin

text \<open>
  What resolve_externs writes: a main file without .extern lines is copied without its .global
  lines, and the .extern of a variable is replaced by the lines of its declaration in the file
  that defines it.
\<close>

section \<open>Reading and copying\<close>

lemma read_buf_line:
  assumes "0 < buf_max s"
  obtains c f' where "read_buf m s = Ret ((), s\<lparr>buf := first_line (stream_lines (inputs s m)), buf_max := c, inputs := (inputs s)(m := f')\<rparr>)"
    "0 < c" "buf_max s \<le> c" "stream_lines f' = tl (stream_lines (inputs s m))"
proof -
  obtain n f' where "Readline (buf_max s) (inputs s m) = Ret (first_line (stream_lines (inputs s m)), n, f')"
      "buf_max s \<le> n" "stream_lines f' = tl (stream_lines (inputs s m))"
    by (rule Readline_lines [OF assms, of "inputs s m"])
  then show thesis using that [of f' n] assms by (simp add: read_buf_def)
qed

definition out_lines :: "string list \<Rightarrow> string" where
  "out_lines ls = concat (map (\<lambda>l. l @ [newline]) ls)"

lemma out_lines_simps [simp]: "out_lines [] = []" "out_lines (l # ls) = l @ [newline] @ out_lines ls"
  "out_lines (xs @ ys) = out_lines xs @ out_lines ys"
  by (simp_all add: out_lines_def)

definition no_directive :: "string \<Rightarrow> bool" where
  "no_directive l \<longleftrightarrow> \<not> starts ''.END'' l \<and> \<not> starts ''.extern'' l"

abbreviation kept :: "string list \<Rightarrow> string list" where
  "kept \<equiv> filter (\<lambda>l. \<not> starts ''.global'' l \<and> \<not> starts ''.extern'' l)"

text \<open>What a run may change without being seen: the line buffer and its capacity, and one stream.\<close>

definition copied :: "nat \<Rightarrow> linker \<Rightarrow> string \<Rightarrow> string list \<Rightarrow> linker \<Rightarrow> bool" where
  "copied m s t ls s' \<longleftrightarrow> (\<exists>b c f. s' = s\<lparr>buf := b, buf_max := c, inputs := (inputs s)(m := f), full := full s @ t\<rparr> \<and>
     buf_max s \<le> c \<and> stream_lines f = ls)"

lemma copied_step:
  assumes "copied m (s\<lparr>buf := b, buf_max := c, inputs := (inputs s)(m := f), full := full s @ t\<rparr>) t' ls s'" "buf_max s \<le> c"
  shows "copied m s (t @ t') ls s'"
proof -
  obtain b' c' f' where "s' = s\<lparr>buf := b', buf_max := c', inputs := (inputs s)(m := f'), full := full s @ t @ t'\<rparr>"
    "buf_max s \<le> c'" "stream_lines f' = ls"
    using assms unfolding copied_def by auto
  then show ?thesis unfolding copied_def by blast
qed

lemma copy_head_end:
  assumes "0 < buf_max s" "stream_lines (inputs s m) = ls @ e # others" "\<forall>l \<in> set ls. no_directive l"
    and "starts ''.END'' e \<or> starts ''.extern'' e"
  shows "\<exists>s'. copy_head m s = Some (Ret (starts ''.END'' e, s')) \<and> buf s' = e \<and>
    copied m s (out_lines (kept ls) @ (if starts ''.END'' e then e @ [newline] else [])) others s'"
  using assms
proof (induction ls arbitrary: s)
  case Nil
  obtain c f' where r: "read_buf m s = Ret ((), s\<lparr>buf := e, buf_max := c, inputs := (inputs s)(m := f')\<rparr>)" "buf_max s \<le> c" "stream_lines f' = others"
    using read_buf_line [OF Nil.prems(1), of m] Nil.prems(2) by (metis append_Nil first_line_simps(2) list.sel(3))
  have "\<not> (starts ''.END'' e \<and> starts ''.extern'' e)" by (auto simp: starts_iff)
  then show ?case using Nil.prems(4) r
    by (subst copy_head.simps) (auto simp: copied_def print_buf_def cfun_defs)
next
  case (Cons l ls)
  obtain c f' where r: "read_buf m s = Ret ((), s\<lparr>buf := l, buf_max := c, inputs := (inputs s)(m := f')\<rparr>)" "buf_max s \<le> c" "stream_lines f' = ls @ e # others"
    using read_buf_line [OF Cons.prems(1), of m] Cons.prems(2) by (metis append_Cons first_line_simps(2) list.sel(3))
  let ?t = "if starts ''.global'' l then [] else l @ [newline]"
  let ?s = "s\<lparr>buf := l, buf_max := c, inputs := (inputs s)(m := f'), full := full s @ ?t\<rparr>"
  have "copy_head m s = copy_head m ?s"
    using Cons.prems(3) r(1) by (subst copy_head.simps) (auto simp: no_directive_def whenS_def print_buf_def cfun_defs)
  moreover obtain s' where s': "copy_head m ?s = Some (Ret (starts ''.END'' e, s'))" "buf s' = e"
      "copied m ?s (out_lines (kept ls) @ (if starts ''.END'' e then e @ [newline] else [])) others s'"
    using Cons.IH [of ?s] Cons.prems r by auto
  moreover have "copied m s (?t @ (out_lines (kept ls) @ (if starts ''.END'' e then e @ [newline] else []))) others s'"
    by (rule copied_step [OF s'(3) r(2)])
  moreover have "kept (l # ls) = (if starts ''.global'' l then kept ls else l # kept ls)"
    using Cons.prems(3) by (simp add: no_directive_def)
  ultimately show ?case by (auto split: if_splits)
qed

lemma copied_buf: "copied m s t ls s' \<Longrightarrow> buf_max s \<le> buf_max s' \<and> stream_lines (inputs s' m) = ls"
  by (auto simp: copied_def)

lemma read_first:
  assumes "0 < buf_max s" "stream_lines (inputs s m) = l # ls"
  obtains c f' where "read_buf m s = Ret ((), s\<lparr>buf := l, buf_max := c, inputs := (inputs s)(m := f')\<rparr>)" "buf_max s \<le> c" "stream_lines f' = ls"
  using read_buf_line [OF assms(1), of m] assms(2) by (metis first_line_simps(2) list.sel(3))

lemma copy_tail_end:
  assumes "0 < buf_max s" "stream_lines (inputs s m) = ls @ e # others" "\<forall>l \<in> set ls. \<not> starts ''.END'' l" "starts ''.END'' e"
  shows "\<exists>s'. copy_tail m s = Some (Ret ((), s')) \<and> copied m s (out_lines (kept ls) @ e @ [newline]) others s'"
  using assms
proof (induction ls arbitrary: s)
  case Nil
  obtain c f' where r: "read_buf m s = Ret ((), s\<lparr>buf := e, buf_max := c, inputs := (inputs s)(m := f')\<rparr>)" "buf_max s \<le> c" "stream_lines f' = others"
    using read_first [OF Nil.prems(1)] Nil.prems(2) by (metis append_Nil)
  then show ?case using Nil.prems(4)
    by (subst copy_tail.simps) (auto simp: copied_def print_buf_def cfun_defs)
next
  case (Cons l ls)
  obtain c f' where r: "read_buf m s = Ret ((), s\<lparr>buf := l, buf_max := c, inputs := (inputs s)(m := f')\<rparr>)" "buf_max s \<le> c" "stream_lines f' = ls @ e # others"
    using read_first [OF Cons.prems(1)] Cons.prems(2) by (metis append_Cons)
  let ?t = "out_lines (kept [l])"
  let ?s = "s\<lparr>buf := l, buf_max := c, inputs := (inputs s)(m := f'), full := full s @ ?t\<rparr>"
  have "copy_tail m s = copy_tail m ?s"
    using Cons.prems(3) r(1) by (subst copy_tail.simps) (auto simp: whenS_def print_buf_def cfun_defs)
  moreover obtain s' where s': "copy_tail m ?s = Some (Ret ((), s'))" "copied m ?s (out_lines (kept ls) @ e @ [newline]) others s'"
    using Cons.IH [of ?s] Cons.prems r by auto
  moreover have "copied m s (?t @ (out_lines (kept ls) @ e @ [newline])) others s'"
    by (rule copied_step [OF s'(2) r(2)])
  ultimately show ?case by (auto split: if_splits)
qed

section \<open>Importing a variable\<close>

lemma copy_fills_end:
  assumes "0 < buf_max s" "stream_lines (inputs s m) = fs @ g # others" "\<forall>l \<in> set fs. starts ''LC3_GFLAG .FILL'' l"
    and "\<not> starts ''LC3_GFLAG .FILL'' g"
  shows "\<exists>s'. copy_fills m s = Some (Ret ((), s')) \<and> buf s' = g \<and> copied m s (out_lines fs) others s'"
  using assms
proof (induction fs arbitrary: s)
  case Nil
  obtain c f' where r: "read_buf m s = Ret ((), s\<lparr>buf := g, buf_max := c, inputs := (inputs s)(m := f')\<rparr>)" "buf_max s \<le> c" "stream_lines f' = others"
    using read_first [OF Nil.prems(1)] Nil.prems(2) by (metis append_Nil)
  then show ?case using Nil.prems(4)
    by (subst copy_fills.simps) (auto simp: copied_def intro!: exI [of _ g])
next
  case (Cons l fs)
  obtain c f' where r: "read_buf m s = Ret ((), s\<lparr>buf := l, buf_max := c, inputs := (inputs s)(m := f')\<rparr>)" "buf_max s \<le> c" "stream_lines f' = fs @ g # others"
    using read_first [OF Cons.prems(1)] Cons.prems(2) by (metis append_Cons)
  let ?s = "s\<lparr>buf := l, buf_max := c, inputs := (inputs s)(m := f'), full := full s @ l @ [newline]\<rparr>"
  have "copy_fills m s = copy_fills m ?s"
    using Cons.prems(3) r(1) by (subst copy_fills.simps) (auto simp: print_buf_def cfun_defs)
  moreover obtain s' where s': "copy_fills m ?s = Some (Ret ((), s'))" "buf s' = g" "copied m ?s (out_lines fs) others s'"
    using Cons.IH [of ?s] Cons.prems r by auto
  moreover have "copied m s ((l @ [newline]) @ out_lines fs) others s'"
    by (rule copied_step [OF s'(3) r(2)])
  ultimately show ?case by auto
qed

lemma import_skip:
  assumes "0 < buf_max s" "stream_lines (inputs s m) = ls @ e # others" "\<forall>l \<in> set ls. l \<noteq> word s \<and> \<not> starts ''.END'' l"
    and "starts ''.END'' e" "e \<noteq> word s"
  shows "\<exists>s'. import_loop m mfile s = Some (Ret ((), s')) \<and> copied m s [] others s'"
  using assms
proof (induction ls arbitrary: s)
  case Nil
  obtain c f' where r: "read_buf m s = Ret ((), s\<lparr>buf := e, buf_max := c, inputs := (inputs s)(m := f')\<rparr>)" "buf_max s \<le> c" "stream_lines f' = others"
    using read_first [OF Nil.prems(1)] Nil.prems(2) by (metis append_Nil)
  then show ?case using Nil.prems(4,5)
    by (subst import_loop.simps) (auto simp: copied_def)
next
  case (Cons l ls)
  obtain c f' where r: "read_buf m s = Ret ((), s\<lparr>buf := l, buf_max := c, inputs := (inputs s)(m := f')\<rparr>)" "buf_max s \<le> c" "stream_lines f' = ls @ e # others"
    using read_first [OF Cons.prems(1)] Cons.prems(2) by (metis append_Cons)
  let ?s = "s\<lparr>buf := l, buf_max := c, inputs := (inputs s)(m := f')\<rparr>"
  have "import_loop m mfile s = import_loop m mfile ?s"
    using Cons.prems(3) r(1) by (subst import_loop.simps) auto
  moreover obtain s' where s': "import_loop m mfile ?s = Some (Ret ((), s'))" "copied m ?s [] others s'"
    using Cons.IH [of ?s] Cons.prems r by auto
  moreover have "copied m s ([] @ []) others s'"
    by (rule copied_step [where b = l and c = c and f = f' and t = "[]"]) (use s'(2) r(2) in simp_all)
  ultimately show ?case by auto
qed

text \<open>The lines of a file that defines a variable: they start and end anywhere around its declaration.\<close>

record var_file_lines =
  before :: "string list"
  decl :: string
  fills :: "string list"
  behind :: "string list"
  end_line :: string

definition file_lines :: "string \<Rightarrow> var_file_lines \<Rightarrow> string list" where
  "file_lines n v = before v @ (''.global '' @ n) # decl v # fills v @ behind v @ [end_line v]"

definition var_lines_ok :: "string \<Rightarrow> var_file_lines \<Rightarrow> bool" where
  "var_lines_ok n v \<longleftrightarrow>
     (\<forall>l \<in> set (before v @ behind v). l \<noteq> ''.global '' @ n \<and> \<not> starts ''.END'' l) \<and> starts ''LC3_GFLAG'' (decl v) \<and>
     (\<forall>l \<in> set (fills v). starts ''LC3_GFLAG .FILL'' l) \<and> \<not> starts ''LC3_GFLAG .FILL'' (hd (behind v @ [end_line v])) \<and>
     starts ''.END'' (end_line v)"

lemma end_not_global: "starts ''.END'' e \<Longrightarrow> e \<noteq> ''.global '' @ n"
  by (auto simp: starts_iff)

text \<open>From the .global line on.\<close>

lemma import_found:
  assumes "0 < buf_max s" "word s = ''.global '' @ n" "var_lines_ok n v"
    and "stream_lines (inputs s m) = (''.global '' @ n) # decl v # fills v @ behind v @ end_line v # others"
  shows "\<exists>s' ls. import_loop m mfile s = Some (Ret ((), s')) \<and> copied m s (out_lines (decl v # fills v)) ls s'"
proof -
  obtain c1 f1 where r1: "read_buf m s = Ret ((), s\<lparr>buf := ''.global '' @ n, buf_max := c1, inputs := (inputs s)(m := f1)\<rparr>)"
      "buf_max s \<le> c1" "stream_lines f1 = decl v # fills v @ behind v @ end_line v # others"
    by (rule read_first [OF assms(1,4)])
  let ?s1 = "s\<lparr>buf := ''.global '' @ n, buf_max := c1, inputs := (inputs s)(m := f1)\<rparr>"
  have "0 < buf_max ?s1" "stream_lines (inputs ?s1 m) = decl v # fills v @ behind v @ end_line v # others"
    using assms(1) r1 by simp_all
  then obtain c2 f2 where r2: "read_buf m ?s1 = Ret ((), ?s1\<lparr>buf := decl v, buf_max := c2, inputs := (inputs ?s1)(m := f2)\<rparr>)"
      "buf_max ?s1 \<le> c2" "stream_lines f2 = fills v @ behind v @ end_line v # others"
    by (rule read_first)
  let ?s2 = "s\<lparr>buf := decl v, buf_max := c2, inputs := (inputs s)(m := f2), full := full s @ decl v @ [newline]\<rparr>"
  obtain g gs where g: "behind v @ end_line v # others = g # gs" "g = hd (behind v @ [end_line v])"
    by (cases "behind v") auto
  have 2: "0 < buf_max ?s2" "stream_lines (inputs ?s2 m) = fills v @ g # gs" "\<forall>l \<in> set (fills v). starts ''LC3_GFLAG .FILL'' l"
      "\<not> starts ''LC3_GFLAG .FILL'' g"
    using assms(1,3) r1(2) r2(2,3) g by (simp_all add: var_lines_ok_def)
  from copy_fills_end [OF 2] obtain s3 where s3: "copy_fills m ?s2 = Some (Ret ((), s3))" "buf s3 = g" "copied m ?s2 (out_lines (fills v)) gs s3"
    by blast
  have full3: "copied m s ((decl v @ [newline]) @ out_lines (fills v)) gs s3"
    by (rule copied_step [OF s3(3)]) (use r1(2) r2(2) in simp)
  have step: "import_loop m mfile s = (if starts ''.END'' g then Some (Ret ((), s3)) else import_loop m mfile s3)"
    using s3(1,2) assms(2,3) r2(1)
    by (subst import_loop.simps) (simp add: r1(1) print_buf_def cfun_defs var_lines_ok_def)
  show ?thesis
  proof (cases "starts ''.END'' g")
    case True
    then show ?thesis using step full3 by auto
  next
    case False
    then obtain bs where bs: "behind v = g # bs" "gs = bs @ end_line v # others"
      using g assms(3) by (cases "behind v") (auto simp: var_lines_ok_def)
    have 3: "0 < buf_max s3" "stream_lines (inputs s3 m) = bs @ end_line v # others" "word s3 = word s"
      using full3 assms(1) bs(2) by (auto simp: copied_def)
    have 4: "\<forall>l \<in> set bs. l \<noteq> word s3 \<and> \<not> starts ''.END'' l" "starts ''.END'' (end_line v)" "end_line v \<noteq> word s3"
      using assms(2,3) bs(1) 3(3) end_not_global [of "end_line v" n] by (simp_all add: var_lines_ok_def)
    obtain s4 where s4: "import_loop m mfile s3 = Some (Ret ((), s4))" "copied m s3 [] others s4"
      using import_skip [OF 3(1,2) 4] by blast
    obtain b c f where e3: "s3 = s\<lparr>buf := b, buf_max := c, inputs := (inputs s)(m := f), full := full s @ out_lines (decl v # fills v)\<rparr>" "buf_max s \<le> c"
      using full3 by (auto simp: copied_def)
    have "copied m s (out_lines (decl v # fills v) @ []) others s4"
      by (rule copied_step [OF s4(2) [unfolded e3(1)] e3(2)])
    with step False s4(1) show ?thesis by auto
  qed
qed

lemma import_variable:
  assumes "0 < buf_max s" "stream_lines (inputs s m) = bs @ (''.global '' @ n) # decl v # fills v @ behind v @ end_line v # others"
    and "word s = ''.global '' @ n" "var_lines_ok n v" "\<forall>l \<in> set bs. l \<noteq> ''.global '' @ n \<and> \<not> starts ''.END'' l"
  shows "\<exists>s' ls. import_loop m mfile s = Some (Ret ((), s')) \<and> copied m s (out_lines (decl v # fills v)) ls s'"
  using assms
proof (induction bs arbitrary: s)
  case Nil
  then show ?case using import_found [of s n v m others mfile] by simp
next
  case (Cons l ls)
  obtain c f' where r: "read_buf m s = Ret ((), s\<lparr>buf := l, buf_max := c, inputs := (inputs s)(m := f')\<rparr>)" "buf_max s \<le> c"
      "stream_lines f' = ls @ (''.global '' @ n) # decl v # fills v @ behind v @ end_line v # others"
    using read_first [OF Cons.prems(1)] Cons.prems(2) by (metis append_Cons)
  let ?s = "s\<lparr>buf := l, buf_max := c, inputs := (inputs s)(m := f')\<rparr>"
  have "word s \<noteq> l" "\<not> starts ''.END'' l" using Cons.prems(3,5) by auto
  then have "import_loop m mfile s = import_loop m mfile ?s"
    using r(1) by (subst import_loop.simps) simp
  moreover obtain s' ls' where s': "import_loop m mfile ?s = Some (Ret ((), s'))" "copied m ?s (out_lines (decl v # fills v)) ls' s'"
    using Cons.IH [of ?s] Cons.prems r by auto
  moreover have "copied m s ([] @ out_lines (decl v # fills v)) ls' s'"
    by (rule copied_step [where b = l and c = c and f = f' and t = "[]"]) (use s'(2) r(2) in simp_all)
  ultimately show ?case by auto
qed

section \<open>Whole files\<close>

lemma dbl_until_id: "n \<le> cap \<Longrightarrow> dbl_until n cap = cap"
  by (simp add: dbl_until.simps)

lemma index_of_less: "\<exists>x \<in> set xs. P x \<Longrightarrow> index_of P xs < length xs \<and> P (xs ! index_of P xs)"
  by (induction xs) auto

text \<open>The file that defines a name, as the first .global line for it says.\<close>

definition home :: "linker \<Rightarrow> string \<Rightarrow> nat \<Rightarrow> bool" where
  "home s n i \<longleftrightarrow> (let gs = globals (table s); k = index_of (\<lambda>g. lname g = n) gs in k < length gs \<and> largn (gs ! k) = i)"

definition text_lines_of :: "linker \<Rightarrow> nat \<Rightarrow> string list" where
  "text_lines_of s i = split_nl (texts s i)"

lemma rewind_lines: "rewind_file i s = Ret ((), s\<lparr>inputs := (inputs s)(i := open_stream (texts s i))\<rparr>)"
  "stream_lines (open_stream (texts s i)) = text_lines_of s i"
  by (simp_all add: rewind_file_def cfun_defs stream_lines_def open_stream_def text_lines_of_def)

text \<open>
  For a program whose main file has no .extern line, resolve_externs ends and writes the
  main file up to .END without its .global lines.
\<close>

lemma resolve_externs_self_contained:
  assumes "0 < buf_max s" "home s ''main'' i" "text_lines_of s i = ls @ e # others"
    and "\<forall>l \<in> set ls. no_directive l" "starts ''.END'' e"
  shows "\<exists>s'. resolve_externs s = Some (Ret ((), s')) \<and> full s' = full s @ out_lines (kept ls) @ e @ [newline]"
proof -
  let ?s = "s\<lparr>inputs := (inputs s)(i := open_stream (texts s i))\<rparr>"
  obtain s' where "copy_head i ?s = Some (Ret (True, s'))" "copied i ?s (out_lines (kept ls) @ e @ [newline]) others s'"
    using copy_head_end [of ?s i ls e others] assms rewind_lines(2) [of s i] by auto
  then show ?thesis using assms(2)
    by (auto simp: resolve_externs_def home_def Let_def rewind_lines(1) copied_def)
qed

lemma resolve_variable:
  assumes "0 < buf_max s" "length n + 5 \<le> buf_max s" "length n + 9 \<le> word_max s" "home s n num" "num \<noteq> mfile"
    and "text_lines_of s num = file_lines n v @ others" "var_lines_ok n v"
  shows "\<exists>s'. resolve_one mfile n s = Some (Ret ((), s')) \<and> full s' = full s @ out_lines (decl v # fills v) \<and>
    table s' = table s \<and> inputs s' mfile = inputs s mfile \<and> 0 < buf_max s'"
proof -
  let ?i = "index_of (\<lambda>g. lname g = n) (globals (table s))"
  let ?s = "s\<lparr>buf := n @ ''.asm'', idx := ?i, inputs := (inputs s)(num := open_stream (texts s num)), word := ''.global '' @ n\<rparr>"
  have content: "stream_lines (inputs ?s num) = before v @ (''.global '' @ n) # decl v # fills v @ behind v @ end_line v # others"
    using assms(6) rewind_lines(2) [of s num] by (simp add: file_lines_def)
  have "\<forall>l \<in> set (before v). l \<noteq> ''.global '' @ n \<and> \<not> starts ''.END'' l" using assms(7) by (simp add: var_lines_ok_def)
  moreover have "0 < buf_max ?s" "word ?s = ''.global '' @ n" using assms(1) by simp_all
  ultimately obtain s' ls where s': "import_loop num mfile ?s = Some (Ret ((), s'))" "copied num ?s (out_lines (decl v # fills v)) ls s'"
    using import_variable [OF _ content _ assms(7)] by blast
  have "resolve_one mfile n s = import_loop num mfile ?s"
    using assms(2-5)
    by (simp add: resolve_one_def cfun_defs need_def dbl_until_id home_def Let_def rewind_file_def grow_word_def set_word_def)
  with s' assms(1,5) show ?thesis by (auto simp: copied_def)
qed

text \<open>
  Claim C6: the .extern of a variable is resolved.  When the only .extern of the main file names a
  variable that another file defines, resolve_externs ends and writes the main file, without its
  .global lines, with the declaration of the variable and the lines that continue it in place of
  the .extern line.
\<close>

theorem resolve_externs_imports_variable:
  assumes "0 < buf_max s" "length n + 5 \<le> buf_max s" "length n + 9 \<le> word_max s"
    and "home s ''main'' i" "home s n num" "num \<noteq> i" "externs (table s) = [\<lparr>lname = n, largn = i\<rparr>]"
    and "text_lines_of s i = ls @ (''.extern '' @ n) # ls' @ e # others" "\<forall>l \<in> set ls. no_directive l"
    and "\<forall>l \<in> set ls'. \<not> starts ''.END'' l" "starts ''.END'' e"
    and "text_lines_of s num = file_lines n v @ others'" "var_lines_ok n v"
  shows "\<exists>s'. resolve_externs s = Some (Ret ((), s')) \<and>
    full s' = full s @ out_lines (kept ls) @ out_lines (decl v # fills v) @ out_lines (kept ls') @ e @ [newline]"
proof -
  let ?s = "s\<lparr>inputs := (inputs s)(i := open_stream (texts s i))\<rparr>"
  have ext: "starts ''.extern'' (''.extern '' @ n)" "\<not> starts ''.END'' (''.extern '' @ n)" by (simp_all add: starts_def)
  obtain s1 where s1: "copy_head i ?s = Some (Ret (False, s1))" "copied i ?s (out_lines (kept ls)) (ls' @ e # others) s1"
    using copy_head_end [of ?s i ls "''.extern '' @ n" "ls' @ e # others"] assms(1,8,9) ext rewind_lines(2) [of s i] by auto
  then have s1f: "buf_max s \<le> buf_max s1" "word_max s1 = word_max s" "table s1 = table s" "texts s1 = texts s"
      "stream_lines (inputs s1 i) = ls' @ e # others" "full s1 = full s @ out_lines (kept ls)"
    by (auto simp: copied_def)
  obtain s2 where s2: "resolve_one i n s1 = Some (Ret ((), s2))" "full s2 = full s1 @ out_lines (decl v # fills v)"
      "table s2 = table s1" "inputs s2 i = inputs s1 i" "0 < buf_max s2"
    using resolve_variable [of s1 n num i v others'] s1f assms by (auto simp: home_def text_lines_of_def)
  have "extern_loop i (Suc 0) s2 = Some (Ret ((), s2))"
    using s1f(3) s2(3) assms(7) by (subst extern_loop.simps) simp
  then have "extern_loop i 0 s1 = Some (Ret ((), s2))"
    using s1f(3) s2(1) assms(7) by (subst extern_loop.simps) (simp add: Let_def)
  moreover obtain s3 where "copy_tail i s2 = Some (Ret ((), s3))" "copied i s2 (out_lines (kept ls') @ e @ [newline]) others s3"
    using copy_tail_end [of s2 i ls' e others] s2(4,5) s1f(5) assms(10,11) by auto
  ultimately show ?thesis using assms(4) s1(1) s2(2) s1f(6)
    by (auto simp: resolve_externs_def home_def Let_def rewind_lines(1) copied_def)
qed

text \<open>Two files: the first uses the variable x of the second.\<close>

definition demo_sources :: "string list" where
  "demo_sources =
     [out_lines [''.global main'', ''.extern x'', ''RET'', ''.END''],
      out_lines [''.global x'', ''LC3_GFLAG x LC3_GFLAG .FILL #7'', ''.END'']]"

definition demo_linker :: linker where
  "demo_linker = linker_start (\<lambda>_. None) demo_sources
     \<lparr>globals = [\<lparr>lname = ''main'', largn = 0\<rparr>, \<lparr>lname = ''x'', largn = 1\<rparr>], externs = [\<lparr>lname = ''x'', largn = 0\<rparr>], extern_max = 100\<rparr>"

definition demo_var :: var_file_lines where
  "demo_var = \<lparr>before = [], decl = ''LC3_GFLAG x LC3_GFLAG .FILL #7'', fills = [], behind = [], end_line = ''.END''\<rparr>"

lemma demo_homes: "home demo_linker ''main'' 0" "home demo_linker ''x'' 1"
  by (simp_all add: home_def demo_linker_def linker_start_def)

lemma split_out_lines: "\<forall>l \<in> set ls. newline \<notin> set l \<Longrightarrow> split_nl (out_lines ls) = ls @ [[]]"
  unfolding out_lines_def by (rule split_nl_lines)

lemma demo_texts:
  "text_lines_of demo_linker 0 = [''.global main''] @ (''.extern '' @ ''x'') # [''RET''] @ ''.END'' # [[]]"
  "text_lines_of demo_linker 1 = file_lines ''x'' demo_var @ [[]]"
  by (simp_all add: text_lines_of_def demo_linker_def linker_start_def demo_sources_def file_lines_def demo_var_def
      split_out_lines del: out_lines_simps)

lemma demo_sizes: "buf_max demo_linker = 200" "word_max demo_linker = 200" "externs (table demo_linker) = [\<lparr>lname = ''x'', largn = 0\<rparr>]"
  by (simp_all add: demo_linker_def linker_start_def)

lemma demo_starts:
  "starts ''.END'' ''.END''" "\<not> starts ''.END'' ''RET''" "no_directive ''.global main''" "var_lines_ok ''x'' demo_var"
  by (simp_all add: starts_def no_directive_def var_lines_ok_def demo_var_def)

theorem resolve_externs_imports_variable_witness:
  "\<exists>s'. resolve_externs demo_linker = Some (Ret ((), s')) \<and>
    full s' = full demo_linker @ out_lines (kept [''.global main'']) @ out_lines (decl demo_var # fills demo_var) @
      out_lines (kept [''RET'']) @ ''.END'' @ [newline]"
  by (rule resolve_externs_imports_variable [OF _ _ _ demo_homes _ demo_sizes(3) demo_texts(1) _ _ demo_starts(1) demo_texts(2) demo_starts(4)])
     (simp_all add: demo_sizes(1,2) demo_starts)

definition demo_single :: linker where
  "demo_single = demo_linker\<lparr>texts := (\<lambda>_. out_lines [''.global main'', ''.END''])\<rparr>"

lemma demo_single_text:
  "text_lines_of demo_single 0 = [''.global main''] @ ''.END'' # [[]]" "home demo_single ''main'' 0" "0 < buf_max demo_single"
  using demo_homes(1)
  by (simp_all add: text_lines_of_def home_def demo_single_def split_out_lines demo_sizes(1) del: out_lines_simps)

end
