(* ===== verification/Source_Paste.thy ===== *)
theory Source_Paste
  imports C_Monad C_Strings "HOL-Library.Sublist"
begin

text \<open>
  The tool SourcePaste (src/lcc-1.3/lc3pp/SourcePaste.c): it copies an assembly file and inserts,
  at the .debug directives of the compiler, the lines of the C sources they refer to.  An open
  source file is its name, the text not yet read and the number of lines read.
\<close>

section \<open>State\<close>

record source =
  srcName :: string
  srcFile :: string
  srcLastLineNo :: int

record paste =
  sources :: "source list"
  pasted :: string

definition MAX_FILE_COUNT :: nat where "MAX_FILE_COUNT = 10"

definition LINE_SIZE :: nat where "LINE_SIZE = 512"

definition DEBUG_PREFIX :: string where "DEBUG_PREFIX = ''.debug ''"

definition begins :: "string \<Rightarrow> string \<Rightarrow> bool" where
  "begins p s \<longleftrightarrow> take (length p) s = p"

definition fput :: "string \<Rightarrow> paste \<Rightarrow> paste" where
  "fput t s = s\<lparr>pasted := pasted s @ t\<rparr>"

section \<open>Pasting the source\<close>

definition source_line :: "string \<Rightarrow> int \<Rightarrow> string \<Rightarrow> string outcome" where
  "source_line n i line =
     bind_outcome (skip_spaces line) (\<lambda>p.
       Ret (if p \<noteq> [] then '';|'' @ n @ '':'' @ pad_right 3 (fmt_d i) @ ''| '' @ line else []))"

text \<open>The loop of OutputSource: the text printed, the last line number and the text left.\<close>

function paste_lines :: "string \<Rightarrow> int \<Rightarrow> int \<Rightarrow> string \<Rightarrow> (string \<times> int \<times> string) outcome" where
  "paste_lines n untilLine i text =
     (if i < untilLine \<and> text \<noteq> [] then
        (case take_line (LINE_SIZE - 1) text of (line, left) \<Rightarrow>
           bind_outcome (source_line n (i + 1) line) (\<lambda>t.
             bind_outcome (paste_lines n untilLine (i + 1) left) (\<lambda>(out, j, left). Ret (t @ out, j, left))))
      else Ret ([], i, text))"
  by pat_completeness auto
termination by (relation "measure (\<lambda>(n, u, i, text). nat (u - i))") auto

declare paste_lines.simps [simp del]

definition OutputSource :: "nat \<Rightarrow> int \<Rightarrow> paste \<Rightarrow> paste outcome" where
  "OutputSource fileId untilLine s =
     (let f = sources s ! fileId
      in bind_outcome (paste_lines (srcName f) untilLine (srcLastLineNo f) (srcFile f)) (\<lambda>(out, i, left).
           Ret (fput out (s\<lparr>sources := (sources s)[fileId := f\<lparr>srcLastLineNo := i, srcFile := left\<rparr>]\<rparr>))))"

section \<open>Directives\<close>

text \<open>A number, a colon and what follows it, as the sscanf formats have them.\<close>

definition scan_id :: "string \<Rightarrow> (int \<times> string) option outcome" where
  "scan_id args =
     bind_outcome (scan_d args) (\<lambda>r. Ret
       (case r of
          None \<Rightarrow> None
        | Some (n, t) \<Rightarrow> if t \<noteq> [] \<and> hd t = CHR '':'' then Some (n, tl t) else None))"

definition format_error :: "string \<Rightarrow> paste \<Rightarrow> paste" where
  "format_error line = fput (''; ERROR: wrong format of debug directive arguments:\<newline>'' @ line)"

definition debug_file :: "(string \<Rightarrow> string option) \<Rightarrow> string \<Rightarrow> string \<Rightarrow> paste \<Rightarrow> paste outcome" where
  "debug_file fs line args s =
     bind_outcome (scan_id args) (\<lambda>r.
        case r of
        None \<Rightarrow> Ret (format_error line s)
      | Some (n, t) \<Rightarrow>
          (case scan_s (length t) t of
             None \<Rightarrow> Ret (format_error line s)
           | Some (w, _) \<Rightarrow>
               let count = int (length (sources s))
               in if n \<noteq> count + 1 then
                    Ret (fput (''; ERROR: Unexpected file id ('' @ fmt_d n @ '') should be '' @ fmt_d (count + 1) @ '':\<newline>'' @ line) s)
                  else
                    (case fs w of
                       None \<Rightarrow> Ret (fput (''; ERROR: Unable to open \"'' @ w @ ''\" file :\<newline>'' @ line) s)
                     | Some text \<Rightarrow>
                         if length (sources s) < MAX_FILE_COUNT
                         then Ret (s\<lparr>sources := sources s @ [\<lparr>srcName = w, srcFile = text, srcLastLineNo = 0\<rparr>]\<rparr>)
                         else Undef)))"

definition scan_id_line :: "string \<Rightarrow> (int \<times> int) option outcome" where
  "scan_id_line args =
     bind_outcome (scan_id args) (\<lambda>r.
       case r of
         None \<Rightarrow> Ret None
       | Some (n, t) \<Rightarrow> bind_outcome (scan_d t) (\<lambda>q. Ret (map_option (\<lambda>(k, _). (n, k)) q)))"

definition debug_line :: "string \<Rightarrow> string \<Rightarrow> paste \<Rightarrow> paste outcome" where
  "debug_line line args s =
     bind_outcome (scan_id_line args) (\<lambda>r.
        case r of
          None \<Rightarrow> Ret (format_error line s)
        | Some (n, k) \<Rightarrow>
            let count = int (length (sources s))
            in if n \<le> 0 \<or> n > count then
                 Ret (fput (''; ERROR: Unexpected file id ('' @ fmt_d n @ '') should be less in [1,'' @ fmt_d count @ '']:\<newline>'' @ line) s)
               else OutputSource (nat n - 1) k s)"

text \<open>One line of the assembly file.\<close>

definition paste_line :: "(string \<Rightarrow> string option) \<Rightarrow> bool \<Rightarrow> string \<Rightarrow> paste \<Rightarrow> paste outcome" where
  "paste_line fs omit line s =
     (if begins DEBUG_PREFIX line then
        let sub = drop (length DEBUG_PREFIX) line;
            s = (if omit then s else fput line s)
        in if begins ''file '' sub then debug_file fs line (drop 5 sub) s
           else if begins ''line '' sub then debug_line line (drop 5 sub) s
           else Ret s
      else if omit \<and> begins (''; '' @ DEBUG_PREFIX) line then Ret s
      else Ret (fput line s))"

definition paste_file :: "(string \<Rightarrow> string option) \<Rightarrow> bool \<Rightarrow> string \<Rightarrow> paste outcome" where
  "paste_file fs omit text =
     foldM (paste_line fs omit) (text_lines (LINE_SIZE - 1) text) \<lparr>sources = [], pasted = []\<rparr>"

section \<open>The program\<close>

text \<open>The option: the place of the first file argument and whether debug lines are left out.\<close>

definition paste_option :: "string list \<Rightarrow> nat \<times> bool" where
  "paste_option argv =
     (if length argv > 2 \<and> begins ''-g'' (argv ! 1)
      then (2, length (argv ! 1) = 2 \<or> code_of (argv ! 1 ! 2) \<le> 49 \<or> 128 \<le> code_of (argv ! 1 ! 2))
      else (1, False))"

text \<open>The exit status and the text of the output file, when it is written.\<close>

definition paste_main ::
  "(string \<Rightarrow> string option) \<Rightarrow> (string \<Rightarrow> bool) \<Rightarrow> string list \<Rightarrow> (int \<times> string option) outcome" where
  "paste_main fs can_write argv =
     (case paste_option argv of (argStart, omit) \<Rightarrow>
        if length argv \<noteq> argStart + 2 then Ret (1, None)
        else
          let asmName = argv ! argStart; outputName = argv ! (argStart + 1)
          in case fs asmName of
               None \<Rightarrow> Ret (2, None)
             | Some text \<Rightarrow>
                 if \<not> can_write outputName then Ret (2, None)
                 else bind_outcome (paste_file fs omit (if asmName = outputName then [] else text))
                        (\<lambda>s. Ret (0, Some (pasted s))))"

section \<open>The assembly is kept\<close>

definition asm_kept :: "bool \<Rightarrow> string \<Rightarrow> bool" where
  "asm_kept omit line \<longleftrightarrow> \<not> (omit \<and> (begins DEBUG_PREFIX line \<or> begins (''; '' @ DEBUG_PREFIX) line))"

definition appends :: "paste \<Rightarrow> string \<Rightarrow> paste \<Rightarrow> bool" where
  "appends s t s' \<longleftrightarrow> (\<exists>u. pasted s' = pasted s @ u \<and> subseq t u)"

lemma appends_simps [simp]: "appends s [] (fput u s)" "appends s u (fput u s)" "appends s [] s"
  "appends s [] (s\<lparr>sources := x\<rparr>)"
  by (simp_all add: appends_def fput_def)

lemma appends_trans: "appends s t s1 \<Longrightarrow> appends s1 u s2 \<Longrightarrow> appends s (t @ u) s2"
  unfolding appends_def by (metis append.assoc list_emb_append_mono)

lemma appends_directive:
  "OutputSource i u s = Ret s' \<Longrightarrow> appends s [] s'" "debug_line line args s = Ret s' \<Longrightarrow> appends s [] s'"
  "debug_file fs line args s = Ret s' \<Longrightarrow> appends s [] s'"
proof -
  show src: "OutputSource i u s = Ret s' \<Longrightarrow> appends s [] s'" for i u
    by (auto simp: OutputSource_def Let_def appends_def fput_def bind_outcome_eq_Ret split: prod.splits)
  show "debug_line line args s = Ret s' \<Longrightarrow> appends s [] s'"
    by (cases "scan_id_line args") (auto simp: debug_line_def Let_def format_error_def src split: option.splits if_splits)
  show "debug_file fs line args s = Ret s' \<Longrightarrow> appends s [] s'"
    by (cases "scan_id args") (auto simp: debug_file_def Let_def format_error_def split: option.splits if_splits)
qed

lemma paste_line_keeps:
  assumes "paste_line fs omit line s = Ret s'"
  shows "appends s (if asm_kept omit line then line else []) s'"
proof (cases "begins DEBUG_PREFIX line")
  case True
  let ?s = "if omit then s else fput line s"
  have "appends ?s [] s'"
    using assms True appends_directive by (auto simp: paste_line_def Let_def split: if_splits)
  moreover have "appends s (if asm_kept omit line then line else []) ?s" using True by (simp add: asm_kept_def)
  ultimately show ?thesis using appends_trans [of s _ ?s "[]" s'] by simp
next
  case False
  then show ?thesis using assms by (auto simp: paste_line_def asm_kept_def split: if_splits)
qed

lemma paste_lines_keep:
  "foldM (paste_line fs omit) ls s = Ret s' \<Longrightarrow> appends s (concat (filter (asm_kept omit) ls)) s'"
proof (induction ls arbitrary: s)
  case (Cons l ls)
  then obtain s1 where "paste_line fs omit l s = Ret s1" "foldM (paste_line fs omit) ls s1 = Ret s'" by auto
  with appends_trans [OF paste_line_keeps Cons.IH, of fs omit l s s1] show ?case by (auto split: if_splits)
qed simp

text \<open>
  Pasting the source loses nothing of the assembly: the lines of the input, less the
  debug lines when they are left out, are in the output in their order, with other text only
  between them.
\<close>

lemma paste_keeps_assembly:
  assumes "paste_file fs omit text = Ret s"
  shows "subseq (concat (filter (asm_kept omit) (text_lines (LINE_SIZE - 1) text))) (pasted s)"
  using paste_lines_keep [OF assms [unfolded paste_file_def]] by (simp add: appends_def)

section \<open>Each source line once\<close>

lemma paste_lines_split:
  "u \<le> u' \<Longrightarrow> paste_lines n u' i str =
    bind_outcome (paste_lines n u i str) (\<lambda>(o1, j, t).
      bind_outcome (paste_lines n u' j t) (\<lambda>(o2, k, t'). Ret (o1 @ o2, k, t')))"
proof (induction n u i str rule: paste_lines.induct)
  case (1 n u i str)
  show ?case
  proof (cases "i < u \<and> str \<noteq> []")
    case True
    obtain line left where l: "take_line (LINE_SIZE - 1) str = (line, left)" by fastforce
    have "i < u'" using True 1(2) by simp
    note IH = 1(1) [OF True l [symmetric] 1(2)]
    from \<open>i < u'\<close> True l have step: "paste_lines n v i str =
        bind_outcome (source_line n (i + 1) line) (\<lambda>t.
          bind_outcome (paste_lines n v (i + 1) left) (\<lambda>(out, j, left). Ret (t @ out, j, left)))" if "v \<in> {u, u'}" for v
      using that by (subst paste_lines.simps) auto
    show ?thesis by (cases "source_line n (i + 1) line") (auto simp: step IH bind_outcome_assoc split_def)
  next
    case False
    have "paste_lines n u i str = Ret ([], i, str)" by (subst paste_lines.simps) (rule if_not_P [OF False])
    then show ?thesis by (cases "paste_lines n u' i str") auto
  qed
qed

text \<open>
  It does not matter in how many steps the directives lead through a source file: two
  directives for lines in ascending order print what the second alone would have printed, so
  that every line of the source is pasted once.
\<close>

lemma OutputSource_split:
  assumes "i < length (sources s)" "u \<le> u'"
  shows "bind_outcome (OutputSource i u s) (OutputSource i u') = OutputSource i u' s"
  using assms(1) paste_lines_split [OF assms(2), of "srcName (sources s ! i)" "srcLastLineNo (sources s ! i)" "srcFile (sources s ! i)"]
  by (auto simp: OutputSource_def Let_def fput_def bind_outcome_assoc split_def)

definition demo_paste :: paste where
  "demo_paste = \<lparr>sources = [\<lparr>srcName = ''a.c'', srcFile = ''int x;'', srcLastLineNo = 0\<rparr>], pasted = []\<rparr>"

lemma demo_paste_file: "paste_file (\<lambda>_. None) True ''RET'' = Ret \<lparr>sources = [], pasted = ''RET''\<rparr>"
proof -
  have "text_lines (LINE_SIZE - 1) ''RET'' = [''RET'']"
    by (simp add: text_lines.simps LINE_SIZE_def numeral_eq_Suc)
  then show ?thesis by (simp add: paste_file_def paste_line_def begins_def DEBUG_PREFIX_def fput_def)
qed

end
