(* ===== verification/LCC_Intern.thy ===== *)
theory LCC_Intern
  imports LC3_Prelude
begin

text \<open>
  The contract of the compiler's and the preprocessor's tables of unique values: a value that is
  entered gets a handle, and handles can be compared in place of values.
\<close>

text \<open>Entering the values of a list one after the other; an operation may refuse a value.\<close>

fun intern_list :: "('v \<Rightarrow> 's \<Rightarrow> ('i \<times> 's) option) \<Rightarrow> 'v list \<Rightarrow> 's \<Rightarrow> ('i list \<times> 's) option" where
  "intern_list f [] s = Some ([], s)"
| "intern_list f (v # vs) s =
     Option.bind (f v s) (\<lambda>(i, s). map_option (\<lambda>(is, s). (i # is, s)) (intern_list f vs s))"

locale interning =
  fixes holds :: "'s \<Rightarrow> 'i \<Rightarrow> 'v \<Rightarrow> bool" and intern :: "'v \<Rightarrow> 's \<Rightarrow> ('i \<times> 's) option" and inv :: "'s \<Rightarrow> bool"
  assumes intern_inv: "inv s \<Longrightarrow> intern v s = Some (i, s') \<Longrightarrow> inv s'"
    and intern_holds: "inv s \<Longrightarrow> intern v s = Some (i, s') \<Longrightarrow> holds s' i v"
    and intern_keeps: "inv s \<Longrightarrow> intern v s = Some (i, s') \<Longrightarrow> holds s j w \<Longrightarrow> holds s' j w"
    and one_handle: "inv s \<Longrightarrow> holds s i v \<Longrightarrow> holds s j v \<Longrightarrow> i = j"
    and one_value: "inv s \<Longrightarrow> holds s i v \<Longrightarrow> holds s i w \<Longrightarrow> v = w"
begin

lemma intern_list_holds:
  "inv s \<Longrightarrow> intern_list intern vs s = Some (is, s') \<Longrightarrow>
    inv s' \<and> length is = length vs \<and> (\<forall>j w. holds s j w \<longrightarrow> holds s' j w) \<and> (\<forall>k < length vs. holds s' (is ! k) (vs ! k))"
proof (induction vs arbitrary: s "is")
  case (Cons v vs)
  from Cons.prems(2) obtain i s1 is' where 1: "intern v s = Some (i, s1)" "intern_list intern vs s1 = Some (is', s')" "is = i # is'"
    by (auto simp: bind_eq_Some_conv)
  have "inv s1" by (rule intern_inv [OF Cons.prems(1) 1(1)])
  note IH = Cons.IH [OF this 1(2)]
  have "holds s' i v" using IH intern_holds [OF Cons.prems(1) 1(1)] by blast
  moreover have "holds s' j w" if "holds s j w" for j w
    using IH intern_keeps [OF Cons.prems(1) 1(1) that] by blast
  ultimately show ?case using IH 1(3) by (auto simp: nth_Cons split: nat.split)
qed simp

lemma handles_decide:
  assumes "inv s" "intern_list intern vs s = Some (is, s')" "k < length vs" "l < length vs"
  shows "is ! k = is ! l \<longleftrightarrow> vs ! k = vs ! l"
proof -
  note h = intern_list_holds [OF assms(1,2)]
  have "holds s' (is ! k) (vs ! k)" "holds s' (is ! l) (vs ! l)" "inv s'" using h assms(3,4) by blast+
  then show ?thesis using one_handle [of s'] one_value [of s'] by metis
qed

end

end
