(* ===== verification/LCC_String.thy ===== *)
theory LCC_String
  imports LCC_Intern C_Strings
begin

text \<open>
  The compiler's string table (src/lcc-1.3/src/string.c): stringn keeps one copy of every string in
  an arena of permanent storage and returns its address, so that the compiler compares strings by
  their addresses.  An address is a block and an offset; the arena is filled from \<open>next_at\<close> on up
  to \<open>limit\<close> and continued in a new block when it is full.
\<close>

section \<open>Data\<close>

definition scatter :: "nat list" where
  "scatter = [
    2078917053, 143302914, 1027100827, 1953210302, 755253631, 2002600785, 1405390230, 45248011,
    1099951567, 433832350, 2018585307, 438263339, 813528929, 1703199216, 618906479, 573714703,
    766270699, 275680090, 1510320440, 1583583926, 1723401032, 1965443329, 1098183682, 1636505764,
    980071615, 1011597961, 643279273, 1315461275, 157584038, 1069844923, 471560540, 89017443,
    1213147837, 1498661368, 2042227746, 1968401469, 1353778505, 1300134328, 2013649480, 306246424,
    1733966678, 1884751139, 744509763, 400011959, 1440466707, 1363416242, 973726663, 59253759,
    1639096332, 336563455, 1642837685, 1215013716, 154523136, 593537720, 704035832, 1134594751,
    1605135681, 1347315106, 302572379, 1762719719, 269676381, 774132919, 1851737163, 1482824219,
    125310639, 1746481261, 1303742040, 1479089144, 899131941, 1169907872, 1785335569, 485614972,
    907175364, 382361684, 885626931, 200158423, 1745777927, 1859353594, 259412182, 1237390611,
    48433401, 1902249868, 304920680, 202956538, 348303940, 1008956512, 1337551289, 1953439621,
    208787970, 1640123668, 1568675693, 478464352, 266772940, 1272929208, 1961288571, 392083579,
    871926821, 1117546963, 1871172724, 1771058762, 139971187, 1509024645, 109190086, 1047146551,
    1891386329, 994817018, 1247304975, 1489680608, 706686964, 1506717157, 579587572, 755120366,
    1261483377, 884508252, 958076904, 1609787317, 1893464764, 148144545, 1415743291, 2102252735,
    1788268214, 836935336, 433233439, 2055041154, 2109864544, 247038362, 299641085, 834307717,
    1364585325, 23330161, 457882831, 1504556512, 1532354806, 567072918, 404219416, 1276257488,
    1561889936, 1651524391, 618454448, 121093252, 1010757900, 1198042020, 876213618, 124757630,
    2082550272, 1834290522, 1734544947, 1828531389, 1982435068, 1002804590, 1783300476, 1623219634,
    1839739926, 69050267, 1530777140, 1802120822, 316088629, 1830418225, 488944891, 1680673954,
    1853748387, 946827723, 1037746818, 1238619545, 1513900641, 1441966234, 367393385, 928306929,
    946006977, 985847834, 1049400181, 1956764878, 36406206, 1925613800, 2081522508, 2118956479,
    1612420674, 1668583807, 1800004220, 1447372094, 523904750, 1435821048, 923108080, 216161028,
    1504871315, 306401572, 2018281851, 1820959944, 2136819798, 359743094, 1354150250, 1843084537,
    1306570817, 244413420, 934220434, 672987810, 1686379655, 1301613820, 1601294739, 484902984,
    139978006, 503211273, 294184214, 176384212, 281341425, 228223074, 147857043, 1893762099,
    1896806882, 1947861263, 1193650546, 273227984, 1236198663, 2116758626, 489389012, 593586330,
    275676551, 360187215, 267062626, 265012701, 719930310, 1621212876, 2108097238, 2026501127,
    1865626297, 894834024, 552005290, 1404522304, 48964196, 5816381, 1889425288, 188942202,
    509027654, 36125855, 365326415, 790369079, 264348929, 513183458, 536647531, 13672163,
    313561074, 1730298077, 286900147, 1549759737, 1699573055, 776289160, 2143346068, 1975249606,
    1136476375, 262925046, 92778659, 1856406685, 1884137923, 53392249, 1735424165, 1602280572]"

type_synonym address = "nat \<times> nat"

record string_node =
  node_str :: address
  node_len :: nat

record string_table =
  buckets :: "nat \<Rightarrow> string_node list"
  arena :: "address \<Rightarrow> char"
  next_at :: address
  limit :: nat
  blocks :: nat

definition no_strings :: string_table where
  "no_strings = \<lparr>buckets = (\<lambda>_. []), arena = (\<lambda>_. CHR 0x00), next_at = (0, 0), limit = 0, blocks = 1\<rparr>"

section \<open>Operations\<close>

fun hash_chars :: "32 word \<Rightarrow> string \<Rightarrow> 32 word" where
  "hash_chars h [] = h"
| "hash_chars h (c # cs) = hash_chars (push_bit 1 h + word_of_nat (scatter ! code_of c)) cs"

definition bucket_of :: "string \<Rightarrow> nat" where
  "bucket_of str = unat (hash_chars 0 str AND 1023)"

definition text_of :: "string_table \<Rightarrow> string_node \<Rightarrow> string" where
  "text_of t p = map (\<lambda>k. arena t (fst (node_str p), snd (node_str p) + k)) [0..<node_len p]"

definition put_text :: "address \<Rightarrow> string \<Rightarrow> (address \<Rightarrow> char) \<Rightarrow> address \<Rightarrow> char" where
  "put_text a str m q =
     (if fst q = fst a \<and> snd a \<le> snd q \<and> snd q < snd a + length str then str ! (snd q - snd a) else m q)"

text \<open>Room for a string and its terminator: the test leaves at least one byte unused.\<close>

definition make_room :: "nat \<Rightarrow> string_table \<Rightarrow> string_table" where
  "make_room len t =
     (if limit t \<le> snd (next_at t) + (len + 1)
      then t\<lparr>next_at := (blocks t, 0), limit := len + 4 * 1024, blocks := Suc (blocks t)\<rparr> else t)"

definition new_string :: "string \<Rightarrow> string_table \<Rightarrow> address \<times> string_table" where
  "new_string str t0 =
     (let t = make_room (length str) t0; a = next_at t; h = bucket_of str
      in (a, t\<lparr>arena := put_text a (str @ [CHR 0x00]) (arena t), next_at := (fst a, snd a + length str + 1),
               buckets := (buckets t)(h := \<lparr>node_str = a, node_len = length str\<rparr> # buckets t h)\<rparr>))"

definition stringn :: "string \<Rightarrow> string_table \<Rightarrow> address \<times> string_table" where
  "stringn str t =
     (case find (\<lambda>p. length str = node_len p \<and> text_of t p = str) (buckets t (bucket_of str)) of
        Some p \<Rightarrow> (node_str p, t)
      | None \<Rightarrow> new_string str t)"

text \<open>string: the characters up to the terminator.\<close>

definition string_c :: "string \<Rightarrow> string_table \<Rightarrow> address \<times> string_table" where
  "string_c str = stringn (takeWhile (\<lambda>c. c \<noteq> CHR 0x00) str)"

text \<open>stringd: the digits go from the end of the buffer to its front.\<close>

function digit_loop :: "nat \<Rightarrow> string \<Rightarrow> string" where
  "digit_loop m s =
     (let s = char_of (m mod 10 + 48) # s in if m div 10 \<noteq> 0 then digit_loop (m div 10) s else s)"
  by auto
termination by (relation "measure fst") auto

declare digit_loop.simps [simp del]

definition stringd_text :: "int \<Rightarrow> string" where
  "stringd_text n =
     (let m = (if n = - (2 ^ 63) then (2 ^ 63 - 1) + 1 else if n < 0 then - n else n); s = digit_loop (nat m) []
      in if n < 0 then CHR ''-'' # s else s)"

definition stringd :: "int \<Rightarrow> string_table \<Rightarrow> address \<times> string_table" where
  "stringd n = stringn (stringd_text n)"

section \<open>Numbers\<close>

lemma digit_loop_radix: "digit_loop m s = map hex_digit (radix_digits 10 m) @ s"
proof (induction m s rule: digit_loop.induct)
  case (1 m s)
  have h: "hex_digit (m mod 10) = char_of (m mod 10 + 48)" by (simp add: hex_digit_def add.commute)
  show ?case
  proof (cases "m div 10 = 0")
    case True
    then have "m < 10" by simp
    then have "radix_digits 10 m = [m]" "m mod 10 = m" by (simp_all add: radix_digits.simps)
    with h True show ?thesis by (subst digit_loop.simps) (simp add: Let_def)
  next
    case False
    then have "radix_digits 10 m = radix_digits 10 (m div 10) @ [m mod 10]" by (subst radix_digits.simps) auto
    with 1 [OF refl False] h False show ?thesis by (subst digit_loop.simps) (simp add: Let_def)
  qed
qed

lemma decimal_digits_length: "n < 10 ^ k \<Longrightarrow> 0 < k \<Longrightarrow> length (radix_digits 10 n) \<le> k"
proof (induction k arbitrary: n)
  case (Suc k)
  show ?case
  proof (cases "n < 10")
    case True
    then show ?thesis by (simp add: radix_digits.simps)
  next
    case False
    then have "0 < k" using Suc.prems by (cases k) auto
    moreover have "n div 10 < 10 ^ k" using Suc.prems(1) by (simp add: less_mult_imp_div_less mult.commute)
    ultimately show ?thesis using Suc.IH [of "n div 10"] False by (subst radix_digits.simps) simp
  qed
qed simp

text \<open>
  Stringd makes the decimal text of every long, the least one included, and the text
  fits in its buffer of 25 characters.
\<close>

lemma stringd_decimal:
  assumes "- (2 ^ 63) \<le> n" "n < 2 ^ 63"
  shows "stringd_text n = fmt_d n \<and> length (stringd_text n) \<le> 25"
proof -
  have dec: "stringd_text n = fmt_d n"
    using assms by (auto simp: stringd_text_def fmt_d_def digit_loop_radix Let_def)
  have "nat \<bar>n\<bar> < 10 ^ 20" using assms by auto
  then have "length (radix_digits 10 (nat \<bar>n\<bar>)) \<le> 20" by (rule decimal_digits_length) simp
  then show ?thesis unfolding dec by (cases "n < 0") (simp_all add: fmt_d_def)
qed

section \<open>One copy of every string\<close>

definition nodes_in :: "string_table \<Rightarrow> string_node set" where
  "nodes_in t = (\<Union>h. set (buckets t h))"

text \<open>The bytes of a node, terminator included, are behind the place for the next string.\<close>

definition filled :: "string_table \<Rightarrow> string_node \<Rightarrow> bool" where
  "filled t p \<longleftrightarrow> fst (node_str p) < blocks t \<and>
     (fst (node_str p) = fst (next_at t) \<longrightarrow> snd (node_str p) + node_len p < snd (next_at t))"

definition string_inv :: "string_table \<Rightarrow> bool" where
  "string_inv t \<longleftrightarrow> fst (next_at t) < blocks t \<and>
     (\<forall>h. \<forall>p \<in> set (buckets t h). bucket_of (text_of t p) = h \<and> filled t p) \<and>
     (\<forall>p \<in> nodes_in t. \<forall>q \<in> nodes_in t. text_of t p = text_of t q \<or> node_str p = node_str q \<longrightarrow> p = q)"

definition string_holds :: "string_table \<Rightarrow> address \<Rightarrow> string \<Rightarrow> bool" where
  "string_holds t a str \<longleftrightarrow> (\<exists>p \<in> nodes_in t. node_str p = a \<and> text_of t p = str)"

lemma length_text_of [simp]: "length (text_of t p) = node_len p"
  by (simp add: text_of_def)

lemma in_nodes: "p \<in> set (buckets t h) \<Longrightarrow> p \<in> nodes_in t"
  by (auto simp: nodes_in_def)

lemma string_inv_node:
  assumes "string_inv t" "p \<in> nodes_in t"
  shows "p \<in> set (buckets t (bucket_of (text_of t p)))" "filled t p"
  using assms by (auto simp: string_inv_def nodes_in_def)

lemma make_room_inv:
  assumes "string_inv t"
  shows "string_inv (make_room n t)" "arena (make_room n t) = arena t" "buckets (make_room n t) = buckets t"
    "snd (next_at (make_room n t)) + (n + 1) < limit (make_room n t)"
proof -
  show *: "arena (make_room n t) = arena t" "buckets (make_room n t) = buckets t"
    "snd (next_at (make_room n t)) + (n + 1) < limit (make_room n t)"
    by (auto simp: make_room_def)
  have "text_of (make_room n t) = text_of t" by (simp add: fun_eq_iff text_of_def *)
  moreover have "filled t p \<Longrightarrow> filled (make_room n t) p" for p by (auto simp: filled_def make_room_def)
  moreover have "fst (next_at (make_room n t)) < blocks (make_room n t)" using assms by (simp add: make_room_def string_inv_def)
  ultimately show "string_inv (make_room n t)" using assms by (auto simp: string_inv_def nodes_in_def *)
qed

lemma put_text_same: "map (\<lambda>k. put_text a (str @ post) m (fst a, snd a + k)) [0..<length str] = str"
  by (rule nth_equalityI) (simp_all add: put_text_def nth_append)

text \<open>Storing a string that is not in the table.\<close>

lemma new_string_inv:
  assumes inv: "string_inv t0" and new: "\<forall>p \<in> nodes_in t0. text_of t0 p \<noteq> str" and t': "new_string str t0 = (a, t')"
  shows "string_inv t'" "string_holds t' a str" "\<And>p. p \<in> nodes_in t0 \<Longrightarrow> p \<in> nodes_in t' \<and> text_of t' p = text_of t0 p"
proof -
  let ?t = "make_room (length str) t0" and ?n = "\<lparr>node_str = a, node_len = length str\<rparr>"
  note room = make_room_inv [OF inv, of "length str"]
  have a: "a = next_at ?t" and t'_eq: "t' = ?t\<lparr>arena := put_text a (str @ [CHR 0x00]) (arena ?t), next_at := (fst a, snd a + length str + 1),
      buckets := (buckets ?t)(bucket_of str := ?n # buckets ?t (bucket_of str))\<rparr>"
    using t' by (auto simp: new_string_def Let_def)
  have nodes: "nodes_in t' = insert ?n (nodes_in t0)"
    by (auto simp: nodes_in_def t'_eq room(3) split: if_splits)
  have textn: "text_of t' ?n = str" by (simp add: text_of_def t'_eq put_text_same)
  have old: "text_of t' p = text_of t0 p" "filled t' p" "node_str p \<noteq> a" if "p \<in> nodes_in t0" for p
  proof -
    have "p \<in> nodes_in ?t" using that by (simp add: nodes_in_def room(3))
    then have f: "filled ?t p" using string_inv_node(2) [OF room(1)] by blast
    then show "text_of t' p = text_of t0 p" "filled t' p" "node_str p \<noteq> a"
      by (auto simp: text_of_def t'_eq put_text_def a filled_def room(2))
  qed
  have fn: "filled t' ?n" using room(1) by (simp add: filled_def t'_eq a string_inv_def)
  show "string_inv t'"
    unfolding string_inv_def
  proof (intro conjI allI ballI impI)
    show "fst (next_at t') < blocks t'" using room(1) by (simp add: t'_eq a string_inv_def)
    fix h p assume p: "p \<in> set (buckets t' h)"
    show "bucket_of (text_of t' p) = h" "filled t' p"
    proof -
      have "p = ?n \<and> h = bucket_of str \<or> p \<in> set (buckets t0 h)"
        using p by (auto simp: t'_eq room(3) split: if_splits)
      then show "bucket_of (text_of t' p) = h" "filled t' p"
        using textn fn old [OF in_nodes, of p h] inv by (auto simp: string_inv_def)
    qed
  next
    fix p q assume "p \<in> nodes_in t'" "q \<in> nodes_in t'" "text_of t' p = text_of t' q \<or> node_str p = node_str q"
    moreover have "p = q" if "p \<in> nodes_in t0" "q \<in> nodes_in t0" "text_of t0 p = text_of t0 q \<or> node_str p = node_str q" for p q
      using that inv unfolding string_inv_def by blast
    moreover have "text_of t' p \<noteq> str" "node_str p \<noteq> node_str ?n" if "p \<in> nodes_in t0" for p
      using that old new by simp_all
    ultimately show "p = q" using old(1) textn unfolding nodes by (metis insert_iff)
  qed
  show "string_holds t' a str" using nodes textn by (auto simp: string_holds_def)
  show "p \<in> nodes_in t' \<and> text_of t' p = text_of t0 p" if "p \<in> nodes_in t0" for p using that nodes old by blast
qed

lemma find_string:
  assumes "string_inv t"
  shows "find (\<lambda>p. length str = node_len p \<and> text_of t p = str) (buckets t (bucket_of str)) = None \<longleftrightarrow>
    (\<forall>p \<in> nodes_in t. text_of t p \<noteq> str)"
proof -
  have "p \<in> set (buckets t (bucket_of str)) \<and> length str = node_len p" if "p \<in> nodes_in t" "text_of t p = str" for p
    using string_inv_node(1) [OF assms that(1)] that(2) by auto
  then show ?thesis unfolding find_None_iff using in_nodes by blast
qed

interpretation atoms: interning string_holds "\<lambda>str t. Some (stringn str t)" string_inv
proof
  fix t str a t' assume inv: "string_inv t" and r: "Some (stringn str t) = Some (a, t')"
  have "string_inv t' \<and> string_holds t' a str \<and> (\<forall>p \<in> nodes_in t. p \<in> nodes_in t' \<and> text_of t' p = text_of t p)"
  proof (cases "find (\<lambda>p. length str = node_len p \<and> text_of t p = str) (buckets t (bucket_of str))")
    case None
    then have "new_string str t = (a, t')" using r by (simp add: stringn_def)
    with new_string_inv [OF inv] None show ?thesis unfolding find_string [OF inv] by blast
  next
    case (Some p)
    then have "p \<in> nodes_in t" "text_of t p = str" by (auto simp: find_Some_iff intro: in_nodes nth_mem)
    moreover have "a = node_str p" "t' = t" using r Some by (simp_all add: stringn_def)
    ultimately show ?thesis using inv by (auto simp: string_holds_def)
  qed
  then show "string_inv t'" "string_holds t' a str" "\<And>b w. string_holds t b w \<Longrightarrow> string_holds t' b w"
    by (auto simp: string_holds_def)
next
  fix t a b v assume "string_inv t" "string_holds t a v" "string_holds t b v"
  then show "a = b" unfolding string_inv_def string_holds_def by metis
next
  fix t a v w assume "string_inv t" "string_holds t a v" "string_holds t a w"
  then show "v = w" unfolding string_inv_def string_holds_def by metis
qed

lemma string_inv_start: "string_inv no_strings"
  by (simp add: string_inv_def no_strings_def nodes_in_def)

text \<open>
  Claim C13: the compiler may compare strings by their addresses: of the strings entered with
  stringn into the empty table, in any order and with other strings between them, two have the
  same address exactly when they are equal.
\<close>

theorem stringn_addresses:
  assumes "intern_list (\<lambda>str t. Some (stringn str t)) strs no_strings = Some (as, t)" "k < length strs" "l < length strs"
  shows "as ! k = as ! l \<longleftrightarrow> strs ! k = strs ! l"
  by (rule atoms.handles_decide [OF string_inv_start assms])

definition demo_strings :: "address list \<times> string_table" where
  "demo_strings = the (intern_list (\<lambda>str t. Some (stringn str t)) [''x'', ''y'', ''x''] no_strings)"

lemma demo_strings: "intern_list (\<lambda>str t. Some (stringn str t)) [''x'', ''y'', ''x''] no_strings = Some (fst demo_strings, snd demo_strings)"
  by (simp add: demo_strings_def split: prod.split)

theorem stringn_addresses_witness: "fst demo_strings ! 0 = fst demo_strings ! 2 \<longleftrightarrow> [''x'', ''y'', ''x''] ! 0 = [''x'', ''y'', ''x''] ! 2"
  by (rule stringn_addresses [OF demo_strings]) simp_all

end
