(* ===== verification/CPP_Hideset.thy ===== *)
theory CPP_Hideset
  imports LCC_Intern
begin

text \<open>
  The hide sets of the preprocessor (src/lcc-1.3/cpp/hideset.c): the sets of macro names that are not
  expanded again in a token.  A set is a list of name entries, ordered by their addresses; it is
  referred to by its index in the table, and every set is in the table once.
\<close>

section \<open>Data and operations\<close>

text \<open>An entry of the name table is its address; 0 is the null pointer that ends a set.\<close>

type_synonym nlist = nat

record hideset_table =
  hidesets :: "nlist list list"
  maxhidesets :: nat

definition HSSIZ :: nat where "HSSIZ = 32"

definition iniths :: hideset_table where
  "iniths = \<lparr>hidesets = [[]], maxhidesets = 3\<rparr>"

definition checkhideset :: "nat \<Rightarrow> nlist \<Rightarrow> hideset_table \<Rightarrow> bool outcome" where
  "checkhideset hs np t = (if length (hidesets t) \<le> hs then Abort else Ret (np \<in> set (hidesets t ! hs)))"

fun inserths :: "nlist list \<Rightarrow> nlist \<Rightarrow> nlist list" where
  "inserths [] np = (if np \<noteq> 0 then [np] else [])"
| "inserths (x # xs) np = (if x < np then x # inserths xs np else if x \<noteq> np then np # x # xs else x # xs)"

text \<open>The index of a set in the table, entered when it is new; None: it has too many elements.\<close>

fun set_index :: "nlist list \<Rightarrow> nlist list list \<Rightarrow> nat \<Rightarrow> nat option" where
  "set_index v [] i = None"
| "set_index v (w # ws) i = (if v = w then Some i else set_index v ws (Suc i))"

definition enter_hideset :: "nlist list \<Rightarrow> hideset_table \<Rightarrow> (nat \<times> hideset_table) option" where
  "enter_hideset nhs t =
     (case set_index nhs (hidesets t) 0 of
        Some i \<Rightarrow> Some (i, t)
      | None \<Rightarrow>
          if HSSIZ \<le> length nhs + 1 then None
          else
            Some (length (hidesets t),
              t\<lparr>hidesets := hidesets t @ [nhs],
                maxhidesets := (if maxhidesets t \<le> length (hidesets t) then 3 * maxhidesets t div 2 + 1 else maxhidesets t)\<rparr>))"

text \<open>The new set is built in a buffer of HSSIZ + 3 entries.\<close>

definition newhideset :: "nat \<Rightarrow> nlist \<Rightarrow> hideset_table \<Rightarrow> (nat \<times> hideset_table) outcome" where
  "newhideset hs np t =
     (if length (hidesets t) \<le> hs then Undef
      else
        let nhs = inserths (hidesets t ! hs) np
        in if HSSIZ + 3 < length nhs + 1 then Undef
           else case enter_hideset nhs t of Some r \<Rightarrow> Ret r | None \<Rightarrow> Ret (hs, t))"

fun add_names :: "nlist list \<Rightarrow> nat \<Rightarrow> hideset_table \<Rightarrow> (nat \<times> hideset_table) outcome" where
  "add_names [] hs t = Ret (hs, t)"
| "add_names (np # nps) hs t = bind_outcome (newhideset hs np t) (\<lambda>(hs, t). add_names nps hs t)"

definition unionhideset :: "nat \<Rightarrow> nat \<Rightarrow> hideset_table \<Rightarrow> (nat \<times> hideset_table) outcome" where
  "unionhideset hs1 hs2 t =
     (if length (hidesets t) \<le> hs2 then Undef else add_names (hidesets t ! hs2) hs1 t)"

section \<open>The table of sets\<close>

definition hideset_inv :: "hideset_table \<Rightarrow> bool" where
  "hideset_inv t \<longleftrightarrow> distinct (hidesets t) \<and> length (hidesets t) \<le> maxhidesets t \<and>
     (\<forall>v \<in> set (hidesets t). sorted_wrt (<) v \<and> 0 \<notin> set v \<and> length v + 1 < HSSIZ)"

definition hideset_holds :: "hideset_table \<Rightarrow> nat \<Rightarrow> nlist list \<Rightarrow> bool" where
  "hideset_holds t i v \<longleftrightarrow> i < length (hidesets t) \<and> hidesets t ! i = v"

definition is_set :: "nlist list \<Rightarrow> bool" where
  "is_set v \<longleftrightarrow> sorted_wrt (<) v \<and> 0 \<notin> set v"

lemma inserths_set: "np \<noteq> 0 \<Longrightarrow> set (inserths v np) = insert np (set v)"
  by (induction v) auto

lemma inserths_is_set: "is_set v \<Longrightarrow> np \<noteq> 0 \<Longrightarrow> is_set (inserths v np)"
  by (induction v) (auto simp: is_set_def inserths_set)

lemma is_set_length: "is_set v \<Longrightarrow> length v = card (set v)"
  by (metis distinct_card is_set_def strict_sorted_iff)

lemma is_set_unique: "is_set v \<Longrightarrow> is_set w \<Longrightarrow> set v = set w \<Longrightarrow> v = w"
  by (metis is_set_def strict_sorted_equal)

lemma set_index_Some: "set_index v ws i = Some j \<Longrightarrow> \<exists>k < length ws. j = i + k \<and> ws ! k = v"
proof (induction ws arbitrary: i)
  case (Cons w ws)
  show ?case
  proof (cases "v = w")
    case False
    then have "set_index v ws (Suc i) = Some j" using Cons.prems by simp
    from Cons.IH [OF this] obtain k where "k < length ws" "j = Suc i + k" "ws ! k = v" by blast
    then show ?thesis by (intro exI [of _ "Suc k"]) simp
  qed (use Cons.prems in auto)
qed simp

lemma set_index_None: "set_index v ws i = None \<longleftrightarrow> v \<notin> set ws"
  by (induction ws arbitrary: i) auto

text \<open>Entering a set, as the contract of a table of unique values.\<close>

definition intern_set :: "nlist list \<Rightarrow> hideset_table \<Rightarrow> (nat \<times> hideset_table) option" where
  "intern_set v t = (if is_set v then enter_hideset v t else None)"

interpretation sets: interning hideset_holds intern_set hideset_inv
proof
  fix t v i t' assume inv: "hideset_inv t" and r: "intern_set v t = Some (i, t')"
  then have v: "is_set v" "enter_hideset v t = Some (i, t')" by (auto simp: intern_set_def split: if_splits)
  show "hideset_inv t'" "hideset_holds t' i v" "\<And>j w. hideset_holds t j w \<Longrightarrow> hideset_holds t' j w"
  proof -
    show "hideset_inv t'" "hideset_holds t' i v" "hideset_holds t j w \<Longrightarrow> hideset_holds t' j w" for j w
    proof (atomize (full), cases "set_index v (hidesets t) 0")
      case None
      then have "t' = t\<lparr>hidesets := hidesets t @ [v],
          maxhidesets := (if maxhidesets t \<le> length (hidesets t) then 3 * maxhidesets t div 2 + 1 else maxhidesets t)\<rparr>"
          "i = length (hidesets t)" "length v + 1 < HSSIZ"
        using v(2) by (auto simp: enter_hideset_def split: if_splits)
      moreover have "v \<notin> set (hidesets t)" using None by (simp add: set_index_None)
      ultimately show "hideset_inv t' \<and> hideset_holds t' i v \<and> (hideset_holds t j w \<longrightarrow> hideset_holds t' j w)"
        using inv v(1) by (auto simp: hideset_inv_def hideset_holds_def is_set_def nth_append)
    next
      case (Some k)
      then have "t' = t" "i = k" using v(2) by (auto simp: enter_hideset_def)
      with inv set_index_Some [OF Some]
      show "hideset_inv t' \<and> hideset_holds t' i v \<and> (hideset_holds t j w \<longrightarrow> hideset_holds t' j w)"
        by (auto simp: hideset_holds_def)
    qed
  qed
next
  fix t i j v assume "hideset_inv t" "hideset_holds t i v" "hideset_holds t j v"
  then show "i = j" by (auto simp: hideset_inv_def hideset_holds_def nth_eq_iff_index_eq)
next
  fix t i v w assume "hideset_holds t i v" "hideset_holds t i w"
  then show "v = w" by (simp add: hideset_holds_def)
qed

section \<open>The operations on sets\<close>

definition members :: "hideset_table \<Rightarrow> nat \<Rightarrow> nlist set" where
  "members t i = set (hidesets t ! i)"

text \<open>A later table: every set of the earlier one has its index there.\<close>

definition extends :: "hideset_table \<Rightarrow> hideset_table \<Rightarrow> bool" where
  "extends t t' \<longleftrightarrow> (\<forall>i v. hideset_holds t i v \<longrightarrow> hideset_holds t' i v)"

lemma extends_members: "extends t t' \<Longrightarrow> i < length (hidesets t) \<Longrightarrow> i < length (hidesets t') \<and> members t' i = members t i"
  by (auto simp: extends_def hideset_holds_def members_def)

lemma newhideset_result:
  assumes "hideset_inv t" "hs < length (hidesets t)" "np \<noteq> 0"
  obtains r t' where "newhideset hs np t = Ret (r, t')" "hideset_inv t'" "extends t t'" "r < length (hidesets t')"
    "members t' r = (if card (insert np (members t hs)) + 1 < HSSIZ then insert np (members t hs) else members t hs)"
proof -
  let ?v = "hidesets t ! hs" and ?nhs = "inserths (hidesets t ! hs) np"
  have v: "is_set ?v" "length ?v + 1 < HSSIZ" using assms(1,2) by (auto simp: hideset_inv_def is_set_def)
  have n: "is_set ?nhs" "set ?nhs = insert np (members t hs)"
    using inserths_is_set [OF v(1) assms(3)] inserths_set [OF assms(3)] by (simp_all add: members_def)
  have len: "length ?nhs = card (insert np (members t hs))" using is_set_length [OF n(1)] n(2) by simp
  have "card (insert np (members t hs)) \<le> Suc (length ?v)"
    using is_set_length [OF v(1)] by (simp add: members_def card_insert_if)
  then have fit: "\<not> HSSIZ + 3 < length ?nhs + 1" using v(2) len by simp
  show thesis
  proof (cases "enter_hideset ?nhs t")
    case None
    then have "newhideset hs np t = Ret (hs, t)" "HSSIZ \<le> length ?nhs + 1"
      using assms(2) fit by (auto simp: newhideset_def enter_hideset_def split: option.splits if_splits)
    then show thesis using that [of hs t] assms(1,2) len by (simp add: extends_def)
  next
    case (Some r)
    obtain i t' where r: "r = (i, t')" by (cases r)
    then have i: "intern_set ?nhs t = Some (i, t')" using Some n(1) by (simp add: intern_set_def)
    note laws = sets.intern_inv [OF assms(1) i] sets.intern_holds [OF assms(1) i] sets.intern_keeps [OF assms(1) i]
    have "?nhs \<in> set (hidesets t')" using laws(2) by (metis hideset_holds_def nth_mem)
    then have "length ?nhs + 1 < HSSIZ" using laws(1) by (auto simp: hideset_inv_def)
    moreover have "newhideset hs np t = Ret (i, t')" using Some r assms(2) fit by (simp add: newhideset_def)
    moreover have "extends t t'" using laws(3) by (auto simp: extends_def)
    ultimately show thesis using that [of i t'] laws(1,2) n(2) len by (simp add: hideset_holds_def members_def)
  qed
qed

lemma add_names_result:
  assumes "hideset_inv t" "hs < length (hidesets t)" "0 \<notin> set nps" "card (members t hs \<union> set nps) + 1 < HSSIZ"
  shows "\<exists>r t'. add_names nps hs t = Ret (r, t') \<and> hideset_inv t' \<and> extends t t' \<and> r < length (hidesets t') \<and>
    members t' r = members t hs \<union> set nps"
  using assms
proof (induction nps arbitrary: hs t)
  case (Cons np nps)
  have np: "np \<noteq> 0" using Cons.prems(3) by simp
  have fin: "finite (members t hs \<union> set (np # nps))" by (simp add: members_def)
  moreover have "insert np (members t hs) \<subseteq> members t hs \<union> set (np # nps)" by auto
  ultimately have "card (insert np (members t hs)) \<le> card (members t hs \<union> set (np # nps))" by (rule card_mono)
  then have small: "card (insert np (members t hs)) + 1 < HSSIZ" using Cons.prems(4) by linarith
  obtain r t1 where r: "newhideset hs np t = Ret (r, t1)" "hideset_inv t1" "extends t t1" "r < length (hidesets t1)"
      "members t1 r = insert np (members t hs)"
    using newhideset_result [OF Cons.prems(1,2) np] small by metis
  have "members t1 r \<union> set nps = members t hs \<union> set (np # nps)" using r(5) by auto
  then obtain q t' where "add_names nps r t1 = Ret (q, t')" "hideset_inv t'" "extends t1 t'" "q < length (hidesets t')"
      "members t' q = members t hs \<union> set (np # nps)"
    using Cons.IH [OF r(2,4)] Cons.prems(3,4) by auto
  then show ?case using r(1,3) by (auto simp: extends_def)
qed (auto simp: extends_def)

lemma hideset_members_zero: "hideset_inv t \<Longrightarrow> hs < length (hidesets t) \<Longrightarrow> 0 \<notin> members t hs"
  by (auto simp: hideset_inv_def members_def)

text \<open>
  Claim C14: unionhideset gives the union.  As long as the union has at most 30 names, a name is in
  the result exactly when it is in one of the two sets; the table keeps its invariant, every set
  of it once and in the order of addresses, and all sets keep their index.
\<close>

theorem unionhideset_members:
  assumes "hideset_inv t" "hs1 < length (hidesets t)" "hs2 < length (hidesets t)" "card (members t hs1 \<union> members t hs2) \<le> 30"
  shows "\<exists>r t'. unionhideset hs1 hs2 t = Ret (r, t') \<and> hideset_inv t' \<and> extends t t' \<and>
    checkhideset r np t' = Ret (np \<in> members t hs1 \<or> np \<in> members t hs2)"
proof -
  have "card (members t hs1 \<union> set (hidesets t ! hs2)) + 1 < HSSIZ" using assms(4) by (simp add: members_def HSSIZ_def)
  moreover have "0 \<notin> set (hidesets t ! hs2)" using hideset_members_zero [OF assms(1,3)] by (simp add: members_def)
  ultimately obtain r t' where "add_names (hidesets t ! hs2) hs1 t = Ret (r, t')" "hideset_inv t'" "extends t t'"
      "r < length (hidesets t')" "members t' r = members t hs1 \<union> members t hs2"
    using add_names_result [OF assms(1,2)] unfolding members_def [of t hs2] by blast
  then show ?thesis using assms(3) by (auto simp: unionhideset_def checkhideset_def members_def)
qed

theorem unionhideset_members_witness:
  "\<exists>r t'. unionhideset 1 2 \<lparr>hidesets = [[], [8], [16, 24]], maxhidesets = 3\<rparr> = Ret (r, t') \<and> hideset_inv t' \<and>
    extends \<lparr>hidesets = [[], [8], [16, 24]], maxhidesets = 3\<rparr> t' \<and>
    checkhideset r 16 t' = Ret (16 \<in> members \<lparr>hidesets = [[], [8], [16, 24]], maxhidesets = 3\<rparr> 1 \<or>
      16 \<in> members \<lparr>hidesets = [[], [8], [16, 24]], maxhidesets = 3\<rparr> 2)"
  by (rule unionhideset_members) (simp_all add: hideset_inv_def members_def HSSIZ_def)

text \<open>
  A hide set never has more than 30 names: when a name does not fit any more,
  newhideset returns the set it was given, and the name stays unhidden.
\<close>

lemma newhideset_full:
  assumes "hideset_inv t" "hs < length (hidesets t)" "np \<noteq> 0" "np \<notin> members t hs" "card (members t hs) = 30"
  shows "\<exists>r t'. newhideset hs np t = Ret (r, t') \<and> hideset_inv t' \<and> checkhideset r np t' = Ret False"
proof -
  obtain r t' where "newhideset hs np t = Ret (r, t')" "hideset_inv t'" "r < length (hidesets t')" "members t' r = members t hs"
  proof (rule newhideset_result [OF assms(1-3)])
    fix r t' assume *: "newhideset hs np t = Ret (r, t')" "hideset_inv t'" "r < length (hidesets t')"
      "members t' r = (if card (insert np (members t hs)) + 1 < HSSIZ then insert np (members t hs) else members t hs)"
    have "members t' r = members t hs" using assms(4,5) *(4) by (simp add: members_def HSSIZ_def)
    with * show thesis by (intro that)
  qed
  then show ?thesis using assms(4) by (auto simp: checkhideset_def members_def)
qed

end
