(* ===== verification/LCC_Fold.thy ===== *)
theory LCC_Fold
  imports LC3_Prelude "HOL-Library.Signed_Division"
begin

text \<open>
  The tests with which the compiler decides whether an integer operation on constants may be
  folded (src/lcc-1.3/src/simp.c): addi, subi, muli, divi and ispow2.  The values are of the C type
  long, 64 bits wide; an intermediate result outside it is \<open>Undef\<close>.  Division truncates.
\<close>

section \<open>The tests\<close>

text \<open>The value of a condition, or 1 with a warning when a constant is needed.\<close>

definition or_needed :: "bool \<Rightarrow> bool \<Rightarrow> bool" where
  "or_needed needconst cond \<longleftrightarrow> cond \<or> needconst"

definition addi :: "int \<Rightarrow> int \<Rightarrow> int \<Rightarrow> int \<Rightarrow> bool \<Rightarrow> bool outcome" where
  "addi x y lo hi needconst =
     bind_outcome
       (if x = 0 \<or> y = 0 then Ret True
        else if x < 0 \<and> y < 0 then bind_outcome (chk_long (lo - y)) (\<lambda>d. Ret (x \<ge> d))
        else if x < 0 \<or> y < 0 then Ret True
        else bind_outcome (chk_long (hi - y)) (\<lambda>d. Ret (x \<le> d)))
       (\<lambda>cond. Ret (or_needed needconst cond))"

definition subi :: "int \<Rightarrow> int \<Rightarrow> int \<Rightarrow> int \<Rightarrow> bool \<Rightarrow> bool outcome" where
  "subi x y lo hi needconst = bind_outcome (chk_long (- y)) (\<lambda>y. addi x y lo hi needconst)"

definition divi :: "int \<Rightarrow> int \<Rightarrow> int \<Rightarrow> int \<Rightarrow> bool \<Rightarrow> bool outcome" where
  "divi x y lo hi needconst = Ret (or_needed needconst (y \<noteq> 0 \<and> \<not> (x = lo \<and> y = - 1)))"

definition muli :: "int \<Rightarrow> int \<Rightarrow> int \<Rightarrow> int \<Rightarrow> bool \<Rightarrow> bool outcome" where
  "muli x y lo hi needconst =
     bind_outcome
       (if x > - 1 \<and> x \<le> 1 \<or> y > - 1 \<and> y \<le> 1 then Ret True
        else if x < 0 \<and> y < 0 then
          bind_outcome (chk_long (- x)) (\<lambda>nx. bind_outcome (chk_long (- y)) (\<lambda>ny. Ret (nx \<le> hi sdiv ny)))
        else if x < 0 then Ret (x \<ge> lo sdiv y)
        else if y < 0 then Ret (y \<ge> lo sdiv x)
        else Ret (x \<le> hi sdiv y))
       (\<lambda>cond. Ret (or_needed needconst cond))"

text \<open>The loop of ispow2 on an unsigned long.\<close>

function low_bit :: "64 word \<Rightarrow> nat \<Rightarrow> nat" where
  "low_bit u n = (if u = 0 then 0 else if bit u 0 then n else low_bit (drop_bit 1 u) (Suc n))"
  by auto
termination
proof (relation "measure (\<lambda>(u, n). unat u)")
  fix u :: "64 word" and n
  assume "u \<noteq> 0" "\<not> bit u 0"
  then have "unat u div 2 < unat u" by (intro div_less_dividend) (simp_all add: unat_gt_0)
  then show "((drop_bit 1 u, Suc n), (u, n)) \<in> measure (\<lambda>(u, n). unat u)"
    by (simp add: drop_bit_eq_div unat_div_distrib)
qed simp

declare low_bit.simps [simp del]

definition ispow2 :: "64 word \<Rightarrow> nat" where
  "ispow2 u = (if 1 < u \<and> u AND (u - 1) = 0 then low_bit u 0 else 0)"

section \<open>The tests are exact\<close>

definition in_type :: "int \<Rightarrow> int \<Rightarrow> int \<Rightarrow> bool" where
  "in_type lo hi v \<longleftrightarrow> lo \<le> v \<and> v \<le> hi"

lemma quotient_le:
  assumes y: "0 < (y :: int)"
  shows "x \<le> m div y \<longleftrightarrow> x * y \<le> m"
proof
  assume "x \<le> m div y"
  then have "x * y \<le> (m div y) * y" using y by (simp add: mult_right_mono)
  also have "\<dots> \<le> m" using y by (metis add.commute div_mult_mod_eq le_add_same_cancel2 pos_mod_sign)
  finally show "x * y \<le> m" .
next
  assume "x * y \<le> m"
  then show "x \<le> m div y" using zdiv_mono1 [of "x * y" m y] y by simp
qed

lemma sdiv_pos: "0 \<le> a \<Longrightarrow> 0 < b \<Longrightarrow> a sdiv b = a div (b :: int)"
  by (cases "a = 0") (simp_all add: signed_divide_int_def)

lemma sdiv_neg: "0 \<le> a \<Longrightarrow> 0 < b \<Longrightarrow> (- a) sdiv b = - (a div (b :: int))"
  by (cases "a = 0") (simp_all add: signed_divide_int_def)

lemma addi_exact:
  assumes "0 < hi" "hi < 2 ^ 31" "lo = - hi - 1" "in_type lo hi x" "in_type lo hi y"
  shows "addi x y lo hi False = Ret (in_type lo hi (x + y))"
  using assms by (auto simp: addi_def in_type_def chk_long_def long_def or_needed_def)

lemma subi_exact:
  assumes "0 < hi" "hi < 2 ^ 31" "lo = - hi - 1" "in_type lo hi x" "in_type lo hi y"
  shows "subi x y lo hi False = Ret (in_type lo hi (x - y) \<or> x = 0)"
  using assms by (auto simp: subi_def addi_def in_type_def chk_long_def long_def or_needed_def)

lemma muli_pos:
  assumes "0 < (y :: int)"
  shows "0 \<le> hi \<Longrightarrow> x \<le> hi sdiv y \<longleftrightarrow> x * y \<le> hi" "0 \<le> hi \<Longrightarrow> x \<ge> (- hi - 1) sdiv y \<longleftrightarrow> - hi - 1 \<le> x * y"
proof -
  show "x \<le> hi sdiv y \<longleftrightarrow> x * y \<le> hi" if "0 \<le> hi" using assms that by (simp add: sdiv_pos quotient_le)
  assume "0 \<le> hi"
  then have "(- hi - 1) sdiv y = - ((hi + 1) div y)" using sdiv_neg [of "hi + 1" y] assms by simp
  then show "x \<ge> (- hi - 1) sdiv y \<longleftrightarrow> - hi - 1 \<le> x * y"
    using quotient_le [OF assms, of "- x" "hi + 1"] by auto
qed

lemma muli_exact:
  assumes "0 < hi" "hi < 2 ^ 31" "lo = - hi - 1" "in_type lo hi x" "in_type lo hi y"
  shows "muli x y lo hi False = Ret (in_type lo hi (x * y))"
proof -
  have small: "long (- x)" "long (- y)" using assms by (auto simp: in_type_def long_def)
  consider "x = 0 \<or> x = 1 \<or> y = 0 \<or> y = 1" | "x < 0" "y < 0" | "x < 0" "1 < y" | "1 < x" "y < 0" | "1 < x" "1 < y" by linarith
  then show ?thesis
  proof cases
    case 1
    then show ?thesis using assms by (auto simp: muli_def in_type_def or_needed_def)
  next
    case 2
    then have "0 < x * y" by (simp add: mult_neg_neg)
    moreover have "- x \<le> hi sdiv (- y) \<longleftrightarrow> x * y \<le> hi" using muli_pos(1) [of "- y" hi "- x"] 2 assms by simp
    ultimately show ?thesis using 2 assms small by (auto simp: muli_def in_type_def or_needed_def chk_long_def)
  next
    case 3
    then have "x * y < 0" by (simp add: mult_neg_pos)
    moreover have "x \<ge> lo sdiv y \<longleftrightarrow> lo \<le> x * y" using muli_pos(2) [of y hi x] 3 assms by simp
    ultimately show ?thesis using 3 assms by (auto simp: muli_def in_type_def or_needed_def)
  next
    case 4
    then have "x * y < 0" by (simp add: mult_pos_neg)
    moreover have "y \<ge> lo sdiv x \<longleftrightarrow> lo \<le> x * y" using muli_pos(2) [of x hi y] 4 assms by (simp add: mult.commute)
    ultimately show ?thesis using 4 assms by (auto simp: muli_def in_type_def or_needed_def)
  next
    case 5
    then have "0 < x * y" by (simp add: mult_pos_pos)
    moreover have "x \<le> hi sdiv y \<longleftrightarrow> x * y \<le> hi" using muli_pos(1) [of y hi x] 5 assms by simp
    ultimately show ?thesis using 5 assms by (auto simp: muli_def in_type_def or_needed_def intro: order_trans [of _ 0])
  qed
qed

lemma divi_exact:
  assumes "0 < hi" "lo = - hi - 1" "in_type lo hi x" "in_type lo hi y"
  shows "divi x y lo hi False = Ret (y \<noteq> 0 \<and> in_type lo hi (x sdiv y))"
proof -
  have mag: "\<bar>x sdiv y\<bar> = \<bar>x\<bar> div \<bar>y\<bar>" if "y \<noteq> 0"
    using that by (cases "x = 0") (simp_all add: signed_divide_int_def abs_mult abs_sgn_eq pos_imp_zdiv_nonneg_iff)
  have "in_type lo hi (x sdiv y) \<longleftrightarrow> \<not> (x = lo \<and> y = - 1)" if y: "y \<noteq> 0"
  proof (cases "\<bar>y\<bar> = 1")
    case True
    then show ?thesis using assms y by (auto simp: in_type_def signed_divide_int_def abs_if sgn_if split: if_splits)
  next
    case False
    then have "2 \<le> \<bar>y\<bar>" using y by linarith
    then have "\<bar>x\<bar> div \<bar>y\<bar> \<le> \<bar>x\<bar> div 2" by (intro zdiv_mono2) simp_all
    moreover have "\<bar>x\<bar> \<le> hi + 1" using assms by (auto simp: in_type_def)
    ultimately have "\<bar>x sdiv y\<bar> \<le> hi" using mag [OF y] assms(1) by linarith
    then show ?thesis using assms False by (auto simp: in_type_def)
  qed
  then show ?thesis by (auto simp: divi_def or_needed_def)
qed

lemma power_64:
  assumes "Suc n < 64"
  shows "(2 :: 64 word) ^ Suc n \<noteq> 0" "\<not> bit ((2 :: 64 word) ^ Suc n) 0" "drop_bit 1 ((2 :: 64 word) ^ Suc n) = 2 ^ n"
proof -
  show "(2 :: 64 word) ^ Suc n \<noteq> 0" using assms by (simp add: exp_eq_zero_iff del: power_Suc)
  show "\<not> bit ((2 :: 64 word) ^ Suc n) 0" by (simp add: bit_exp_iff del: power_Suc)
  show "drop_bit 1 ((2 :: 64 word) ^ Suc n) = 2 ^ n"
    using assms by (intro bit_word_eqI) (auto simp: bit_drop_bit_eq bit_exp_iff simp del: power_Suc)
qed

lemma low_bit_power: "n < 64 \<Longrightarrow> low_bit (2 ^ n) k = n + k"
proof (induction n arbitrary: k)
  case (Suc n)
  then show ?case using power_64 [of n] by (subst low_bit.simps) (simp del: power_Suc)
qed (simp add: low_bit.simps)

text \<open>ispow2 finds the exponent of every power of two but the first.\<close>

lemma ispow2_power:
  assumes "0 < n" "n < 64"
  shows "ispow2 (2 ^ n) = n"
proof -
  obtain m where m: "n = Suc m" "Suc m < 64" using assms by (cases n) auto
  have "bit (1 :: 64 word) 0" by simp
  then have "(1 :: 64 word) < 2 ^ n" using power_64(1,2) [OF m(2)] unfolding m(1)
    by (metis neq_iff word_less_1)
  moreover have "(2 :: 64 word) ^ n AND (2 ^ n - 1) = 0"
    by (rule bit_word_eqI) (auto simp: bit_simps mask_eq_exp_minus_1 [symmetric])
  ultimately show ?thesis using low_bit_power [OF assms(2), of 0] by (simp add: ispow2_def)
qed

text \<open>
  Claim C19: for constants of a signed type with the maximum below 2 ^ 31, the tests of constant
  folding have no overflow of their own.  Without needconst those of sum, product and quotient are
  exact: they succeed exactly when the result is a value of the type.  That of the difference is
  exact too, except that it always succeeds for 0 - y.
\<close>

theorem folding_tests_exact:
  assumes "0 < hi" "hi < 2 ^ 31" "lo = - hi - 1" "in_type lo hi x" "in_type lo hi y"
  shows "addi x y lo hi False = Ret (in_type lo hi (x + y)) \<and>
    subi x y lo hi False = Ret (in_type lo hi (x - y) \<or> x = 0) \<and>
    muli x y lo hi False = Ret (in_type lo hi (x * y)) \<and>
    divi x y lo hi False = Ret (y \<noteq> 0 \<and> in_type lo hi (x sdiv y))"
  by (intro conjI addi_exact subi_exact muli_exact divi_exact assms)

theorem folding_tests_exact_witness:
  "addi 0 (- 32768) (- 32768) 32767 False = Ret (in_type (- 32768) 32767 (0 + - 32768)) \<and>
    subi 0 (- 32768) (- 32768) 32767 False = Ret (in_type (- 32768) 32767 (0 - - 32768) \<or> (0 :: int) = 0) \<and>
    muli 0 (- 32768) (- 32768) 32767 False = Ret (in_type (- 32768) 32767 (0 * - 32768)) \<and>
    divi 0 (- 32768) (- 32768) 32767 False = Ret ((- 32768 :: int) \<noteq> 0 \<and> in_type (- 32768) 32767 (0 sdiv - 32768))"
  by (rule folding_tests_exact) (simp_all add: in_type_def)

end
