(* ===== verification/CPP_Token.thy ===== *)
theory CPP_Token
  imports C_Monad
begin

text \<open>
  The data that the parts of the preprocessor share (src/lcc-1.3/cpp/cpp.h) and its messages
  (error of src/lcc-1.3/cpp/cpp.c).
\<close>

section \<open>Tokens\<close>

datatype toktype =
  END | UNCLASS | NAME | NUMBER | STRING | CCON | NL | WS | DSHARP
| EQ | NEQ | LEQ | GEQ | LSH | RSH | LAND | LOR | PPLUS | MMINUS
| ARROW | SBRA | SKET | LP | RP | DOT | ANDt | STAR | PLUS | MINUS
| TILDE | NOTt | SLASH | PCT | LT | GT | CIRC | ORt | QUEST
| COLON | ASGN | COMMA | SHARP | SEMIC | CBRA | CKET
| ASPLUS | ASMINUS | ASSTAR | ASSLASH | ASPCT | ASCIRC | ASLSH
| ASRSH | ASOR | ASAND | ELLIPS
| DSHARP1 | NAME1 | DEFINED | UMINUS

text \<open>
  The pointer t of a token is the text it points to, up to the end of the buffer; the token is
  the first len characters of it.
\<close>

record token =
  tok_type :: toktype
  tok_flag :: nat
  tok_hideset :: nat
  tok_wslen :: nat
  tok_len :: nat
  tok_t :: string

definition XPWS :: nat where "XPWS = 1"

definition spelling :: "token \<Rightarrow> string" where
  "spelling tp = take (tok_len tp) (tok_t tp)"

text \<open>The character at an offset from a pointer; a text ends with a null character.\<close>

definition char_at :: "string \<Rightarrow> nat \<Rightarrow> char" where
  "char_at p i = (if i < length p then p ! i else CHR 0x00)"

text \<open>What strncmp and strncpy see of a text: n characters, up to a null character.\<close>

definition c_prefix :: "nat \<Rightarrow> string \<Rightarrow> string" where
  "c_prefix n p = takeWhile (\<lambda>c. c \<noteq> CHR 0x00) (take n p)"

section \<open>Messages\<close>

datatype errtype = WARNING | ERROR | FATAL

record diag =
  messages :: "(errtype \<times> string) list"
  nerrs :: nat

text \<open>A fatal message ends the program; an error makes its exit status 1.\<close>

definition error :: "errtype \<Rightarrow> string \<Rightarrow> (unit, 'a diag_scheme) cfun" where
  "error ty msg s =
     (if ty = FATAL then Exit 1
      else Ret ((), s\<lparr>messages := messages s @ [(ty, msg)], nerrs := (if ty = WARNING then nerrs s else 1)\<rparr>))"

lemma char_at_0: "char_at (c # p) 0 = c"
  by (simp add: char_at_def)

lemma char_at_Suc: "char_at (c # p) (Suc i) = char_at p i"
  by (simp add: char_at_def)

lemma char_at_Nil: "char_at [] i = CHR 0x00"
  by (simp add: char_at_def)

lemmas char_at_simps [simp] = char_at_0 char_at_Suc char_at_Nil

lemma c_prefix_text: "CHR 0x00 \<notin> set (take n p) \<Longrightarrow> c_prefix n p = take n p"
  by (auto simp: c_prefix_def takeWhile_eq_all_conv)

end
