(* ===== verification/CPP_Nlist.thy ===== *)
theory CPP_Nlist
  imports CPP_Token LCC_Intern C_Strings
begin

text \<open>
  The table of the names of the preprocessor (src/lcc-1.3/cpp/nlist.c): keywords, built-in names and
  macros, in 128 chains, with a bit table that tells most other names from them without a search.
\<close>

section \<open>Data\<close>

text \<open>An entry is referred to by its address; 0 is the null pointer, and entries are not freed.\<close>

type_synonym nlist_ptr = nat

record nlist_entry =
  np_name :: string
  np_len :: nat
  np_vp :: "token list option"
  np_ap :: "token list option"
  np_val :: int
  np_flag :: int

record names = diag +
  nlist :: "nat \<Rightarrow> nlist_ptr list"
  entries :: "nlist_ptr \<Rightarrow> nlist_entry"
  next_np :: nlist_ptr
  namebit :: "nat \<Rightarrow> 64 word"
  kwdefined :: nlist_ptr

definition NLSIZE :: nat where "NLSIZE = 128"

definition ISDEFINED :: int where "ISDEFINED = 1"
definition ISKW :: int where "ISKW = 2"
definition ISUNCHANGE :: int where "ISUNCHANGE = 4"
definition ISMAC :: int where "ISMAC = 8"

text \<open>The keywords in the order of enum kwtype.\<close>

datatype kwtype =
  KIF | KIFDEF | KIFNDEF | KELIF | KELSE | KENDIF | KINCLUDE | KDEFINE
| KUNDEF | KLINE | KERROR | KPRAGMA | KDEFINED
| KLINENO | KFILE | KDATE | KTIME | KSTDC | KEVAL

fun kw_code :: "kwtype \<Rightarrow> int" where
  "kw_code KIF = 0" | "kw_code KIFDEF = 1" | "kw_code KIFNDEF = 2" | "kw_code KELIF = 3" | "kw_code KELSE = 4"
| "kw_code KENDIF = 5" | "kw_code KINCLUDE = 6" | "kw_code KDEFINE = 7" | "kw_code KUNDEF = 8" | "kw_code KLINE = 9"
| "kw_code KERROR = 10" | "kw_code KPRAGMA = 11" | "kw_code KDEFINED = 12" | "kw_code KLINENO = 13" | "kw_code KFILE = 14"
| "kw_code KDATE = 15" | "kw_code KTIME = 16" | "kw_code KSTDC = 17" | "kw_code KEVAL = 18"

definition kwtab :: "(string \<times> kwtype \<times> int) list" where
  "kwtab =
    [(''if'', KIF, ISKW), (''ifdef'', KIFDEF, ISKW), (''ifndef'', KIFNDEF, ISKW), (''elif'', KELIF, ISKW),
     (''else'', KELSE, ISKW), (''endif'', KENDIF, ISKW), (''include'', KINCLUDE, ISKW), (''define'', KDEFINE, ISKW),
     (''undef'', KUNDEF, ISKW), (''line'', KLINE, ISKW), (''error'', KERROR, ISKW), (''pragma'', KPRAGMA, ISKW),
     (''eval'', KEVAL, ISKW), (''defined'', KDEFINED, ISDEFINED + ISUNCHANGE), (''ident'', KPRAGMA, ISKW),
     (''__LINE__'', KLINENO, ISMAC + ISUNCHANGE), (''__FILE__'', KFILE, ISMAC + ISUNCHANGE),
     (''__DATE__'', KDATE, ISMAC + ISUNCHANGE), (''__TIME__'', KTIME, ISMAC + ISUNCHANGE), (''__STDC__'', KSTDC, ISUNCHANGE)]"

section \<open>Operations\<close>

definition name_hash :: "token \<Rightarrow> nat" where
  "name_hash tp = unat (foldl (\<lambda>h c. h + word_of_nat (code_of c)) (0 :: 32 word) (spelling tp)) mod NLSIZE"

definition same_name :: "token \<Rightarrow> nlist_entry \<Rightarrow> bool" where
  "same_name tp e \<longleftrightarrow>
     char_at (tok_t tp) 0 = char_at (np_name e) 0 \<and> tok_len tp = np_len e \<and>
     c_prefix (tok_len tp) (tok_t tp) = c_prefix (tok_len tp) (np_name e)"

text \<open>The bit of the first two characters: an int of 32 bits that is shifted, then converted.\<close>

definition name_bit :: "nat \<Rightarrow> 64 word" where
  "name_bit b = scast (push_bit (b mod 32) (1 :: 32 word))"

definition second_code :: "token \<Rightarrow> nat" where
  "second_code tp = (if 1 < tok_len tp then code_of (char_at (tok_t tp) 1) else 0)"

definition first_code :: "token \<Rightarrow> nat" where
  "first_code tp = code_of (char_at (tok_t tp) 0)"

definition quicklook :: "token \<Rightarrow> 'a names_scheme \<Rightarrow> bool" where
  "quicklook tp s \<longleftrightarrow> namebit s (first_code tp mod 64) AND name_bit (second_code tp) \<noteq> 0"

definition quickset :: "token \<Rightarrow> 'a names_scheme \<Rightarrow> 'a names_scheme" where
  "quickset tp s =
     (let a = first_code tp mod 64 in s\<lparr>namebit := (namebit s)(a := namebit s a OR name_bit (second_code tp))\<rparr>)"

definition install_name :: "token \<Rightarrow> 'a names_scheme \<Rightarrow> nlist_ptr \<times> 'a names_scheme" where
  "install_name tp s =
     (let np = next_np s; h = name_hash tp;
          e = \<lparr>np_name = c_prefix (tok_len tp) (tok_t tp), np_len = tok_len tp, np_vp = None, np_ap = None, np_val = 0, np_flag = 0\<rparr>
      in (np, quickset tp (s\<lparr>entries := (entries s)(np := e), nlist := (nlist s)(h := np # nlist s h), next_np := Suc np\<rparr>)))"

definition lookup :: "token \<Rightarrow> bool \<Rightarrow> 'a names_scheme \<Rightarrow> nlist_ptr \<times> 'a names_scheme" where
  "lookup tp install s =
     (case find (\<lambda>np. same_name tp (entries s np)) (nlist s (name_hash tp)) of
        Some np \<Rightarrow> (np, s)
      | None \<Rightarrow> if install then install_name tp s else (0, s))"

definition set_entry :: "nlist_ptr \<Rightarrow> (nlist_entry \<Rightarrow> nlist_entry) \<Rightarrow> 'a names_scheme \<Rightarrow> 'a names_scheme" where
  "set_entry np f s = s\<lparr>entries := (entries s)(np := f (entries s np))\<rparr>"

definition name_token :: "string \<Rightarrow> token" where
  "name_token str = \<lparr>tok_type = NAME, tok_flag = 0, tok_hideset = 0, tok_wslen = 0, tok_len = length str, tok_t = str\<rparr>"

text \<open>The value of NAME, 2, marks defined as a name that is not special.\<close>

definition setup_kw :: "string \<times> kwtype \<times> int \<Rightarrow> 'a names_scheme \<Rightarrow> 'a names_scheme" where
  "setup_kw kp s =
     (case kp of (kw, v, fl) \<Rightarrow>
       let (np, s) = lookup (name_token kw) True s;
           s = set_entry np (\<lambda>e. e\<lparr>np_flag := fl, np_val := kw_code v\<rparr>) s
       in if v = KDEFINED
          then set_entry np (\<lambda>e. e\<lparr>np_val := 2, np_vp := Some [name_token ''defined''], np_ap := None\<rparr>) (s\<lparr>kwdefined := np\<rparr>)
          else s)"

definition setup_kwtab :: "'a names_scheme \<Rightarrow> 'a names_scheme" where
  "setup_kwtab = fold setup_kw kwtab"

section \<open>The table\<close>

definition is_name :: "string \<Rightarrow> bool" where
  "is_name str \<longleftrightarrow> str \<noteq> [] \<and> CHR 0x00 \<notin> set str"

text \<open>A token whose text is a name of its length.\<close>

definition text_ok :: "token \<Rightarrow> bool" where
  "text_ok tp \<longleftrightarrow> is_name (spelling tp) \<and> length (spelling tp) = tok_len tp"

definition entry_at :: "'a names_scheme \<Rightarrow> nat \<Rightarrow> nlist_ptr \<Rightarrow> bool" where
  "entry_at s h np \<longleftrightarrow> np \<in> set (nlist s h)"

definition names_hold :: "'a names_scheme \<Rightarrow> nlist_ptr \<Rightarrow> string \<Rightarrow> bool" where
  "names_hold s np str \<longleftrightarrow> (\<exists>h. entry_at s h np) \<and> np_name (entries s np) = str"

definition entry_ok :: "'a names_scheme \<Rightarrow> nat \<Rightarrow> nlist_ptr \<Rightarrow> bool" where
  "entry_ok s h np \<longleftrightarrow>
     0 < np \<and> np < next_np s \<and> np_len (entries s np) = length (np_name (entries s np)) \<and> is_name (np_name (entries s np)) \<and>
     h = name_hash (name_token (np_name (entries s np))) \<and> quicklook (name_token (np_name (entries s np))) s"

definition names_inv :: "'a names_scheme \<Rightarrow> bool" where
  "names_inv s \<longleftrightarrow> 0 < next_np s \<and> (\<forall>h np. entry_at s h np \<longrightarrow> entry_ok s h np) \<and>
     (\<forall>np np' str. names_hold s np str \<longrightarrow> names_hold s np' str \<longrightarrow> np = np')"

lemma spelling_name_token [simp]: "spelling (name_token str) = str"
  by (simp add: spelling_def name_token_def)

lemma text_ok_name_token: "is_name str \<Longrightarrow> text_ok (name_token str)"
  by (simp add: text_ok_def) (simp add: name_token_def)

lemma name_hash_spelling: "name_hash (name_token (spelling tp)) = name_hash tp"
  by (simp add: name_hash_def)

lemma text_ok_char_at:
  assumes "text_ok tp" "i < tok_len tp"
  shows "char_at (spelling tp) i = char_at (tok_t tp) i"
proof -
  have "i < length (tok_t tp)" "i < length (spelling tp)" using assms unfolding text_ok_def spelling_def by auto
  then show ?thesis using assms(2) by (simp add: char_at_def) (simp add: spelling_def)
qed

lemma text_ok_len: "text_ok tp \<Longrightarrow> 0 < tok_len tp"
  unfolding text_ok_def is_name_def by (metis length_greater_0_conv)

lemma name_token_sel: "tok_len (name_token str) = length str" "tok_t (name_token str) = str"
  by (simp_all add: name_token_def)

lemma text_ok_codes:
  assumes "text_ok tp"
  shows "first_code (name_token (spelling tp)) = first_code tp" "second_code (name_token (spelling tp)) = second_code tp"
proof -
  have "0 < tok_len tp" "length (spelling tp) = tok_len tp" using assms text_ok_len by (auto simp: text_ok_def)
  then show "first_code (name_token (spelling tp)) = first_code tp" "second_code (name_token (spelling tp)) = second_code tp"
    using text_ok_char_at [OF assms] by (simp_all add: first_code_def second_code_def name_token_sel)
qed

lemma text_ok_c_prefix: "text_ok tp \<Longrightarrow> c_prefix (tok_len tp) (tok_t tp) = spelling tp"
  by (simp add: text_ok_def is_name_def spelling_def c_prefix_text)

lemma same_name_iff:
  assumes "text_ok tp" "is_name (np_name e)" "np_len e = length (np_name e)"
  shows "same_name tp e \<longleftrightarrow> np_name e = spelling tp"
proof -
  have "c_prefix (np_len e) (np_name e) = np_name e" using assms(2,3) by (simp add: c_prefix_text is_name_def)
  moreover have "char_at (tok_t tp) 0 = char_at (spelling tp) 0"
    using text_ok_char_at [OF assms(1) text_ok_len [OF assms(1)]] by simp
  ultimately show ?thesis using assms text_ok_c_prefix [OF assms(1)] by (auto simp: same_name_def text_ok_def)
qed

lemma quickset_quicklook: "quicklook tp (quickset tp s)"
proof -
  have "bit (name_bit b) (b mod 32)" for b
    by (auto simp: name_bit_def bit_simps)
  then have "name_bit b \<noteq> 0" for b by (metis bit_0_eq bot_apply bot_bool_def)
  then show ?thesis by (simp add: quicklook_def quickset_def Let_def bit.conj_disj_distrib2)
qed

lemma quickset_keeps: "quicklook tp s \<Longrightarrow> quicklook tp (quickset tp' s)"
  by (auto simp: quicklook_def quickset_def Let_def bit.conj_disj_distrib2 or_eq_0_iff)

lemma lookup_found:
  assumes inv: "names_inv s" and tp: "text_ok tp"
  shows "find (\<lambda>np. same_name tp (entries s np)) (nlist s (name_hash tp)) = Some np \<longleftrightarrow> names_hold s np (spelling tp)" (is "?f = _ \<longleftrightarrow> _")
proof -
  have same: "same_name tp (entries s q) \<longleftrightarrow> np_name (entries s q) = spelling tp" if "entry_at s h q" for h q
    using inv that same_name_iff [OF tp] unfolding names_inv_def entry_ok_def by blast
  have 1: "names_hold s q (spelling tp)" if "?f = Some q" for q
  proof -
    have "q \<in> set (nlist s (name_hash tp))" "same_name tp (entries s q)" using that by (auto simp: find_Some_iff)
    then show ?thesis using same unfolding names_hold_def entry_at_def by blast
  qed
  have 2: "?f \<noteq> None" if np: "names_hold s np (spelling tp)"
  proof -
    obtain h where h: "entry_at s h np" "np_name (entries s np) = spelling tp" using np by (auto simp: names_hold_def)
    then have "h = name_hash tp" using inv unfolding names_inv_def entry_ok_def by (metis name_hash_spelling)
    then show ?thesis using h same [OF h(1)] by (auto simp: find_None_iff entry_at_def)
  qed
  show ?thesis
  proof
    assume np: "names_hold s np (spelling tp)"
    then obtain q where "?f = Some q" using 2 by blast
    then show "?f = Some np" using 1 np inv unfolding names_inv_def by metis
  qed (rule 1)
qed

lemma install_name_inv:
  assumes inv: "names_inv s" and tp: "text_ok tp" and new: "\<And>np. \<not> names_hold s np (spelling tp)"
    and r: "install_name tp s = (np, s')"
  shows "names_inv s'" "names_hold s' np (spelling tp)" "names_hold s q w \<Longrightarrow> names_hold s' q w \<and> entries s' q = entries s q"
proof -
  have np: "np = next_np s" and at: "entry_at s' h q \<longleftrightarrow> entry_at s h q \<or> h = name_hash tp \<and> q = np" and nx: "next_np s' = Suc np"
    for h q
    using r by (auto simp: install_name_def Let_def entry_at_def quickset_def split: if_splits)
  obtain s1 where s1: "s' = quickset tp s1" "namebit s1 = namebit s" using r by (auto simp: install_name_def Let_def)
  have q: "quicklook tp s'" "quicklook tp' s \<Longrightarrow> quicklook tp' s'" for tp'
    using quickset_quicklook quickset_keeps [of tp' s1] unfolding s1(1) by (auto simp: quicklook_def s1(2))
  have ent: "entries s' = (entries s)(np := entries s' np)" "np_name (entries s' np) = spelling tp" "np_len (entries s' np) = tok_len tp"
    using r text_ok_c_prefix [OF tp] by (auto simp: install_name_def Let_def quickset_def)
  have old: "entry_ok s h q" "q \<noteq> np" "entries s' q = entries s q" if "entry_at s h q" for h q
  proof -
    show ok: "entry_ok s h q" using inv that by (simp add: names_inv_def)
    then show "q \<noteq> np" by (simp add: np entry_ok_def)
    then show "entries s' q = entries s q" by (subst ent(1)) simp
  qed
  have quick: "quicklook (name_token (spelling tp)) s'"
    using q(1) text_ok_codes [OF tp] by (simp add: quicklook_def)
  have ok: "entry_ok s' h q" if "entry_at s' h q" for h q
  proof (cases "entry_at s h q")
    case True
    then show ?thesis using old [OF True] q(2) nx np by (auto simp: entry_ok_def)
  next
    case False
    then have "h = name_hash tp" "q = np" using that at by blast+
    then show ?thesis
      using ent quick tp nx np inv name_hash_spelling [of tp] by (auto simp: entry_ok_def text_ok_def names_inv_def)
  qed
  have hold: "names_hold s' q w \<longleftrightarrow> names_hold s q w \<or> q = np \<and> w = spelling tp" for q w
  proof (cases "q = np")
    case True
    then have "\<not> entry_at s h q" for h using old(2) by blast
    then show ?thesis using True at ent(2) by (auto simp: names_hold_def)
  next
    case False
    then have "entries s' q = entries s q" by (subst ent(1)) simp
    then show ?thesis using False at by (auto simp: names_hold_def)
  qed
  have "np1 = np2" if "names_hold s' np1 str" "names_hold s' np2 str" for np1 np2 str
    using that inv new unfolding hold names_inv_def by metis
  then show "names_inv s'" using ok nx unfolding names_inv_def by (intro conjI allI impI) simp_all
  show "names_hold s' np (spelling tp)" by (simp add: hold)
  show "names_hold s' q w \<and> entries s' q = entries s q" if "names_hold s q w"
    using that hold old(3) by (auto simp: names_hold_def)
qed

text \<open>What lookup does, with and without leave to install a name.\<close>

lemma lookup_spec:
  assumes inv: "names_inv s" and tp: "text_ok tp" and r: "lookup tp install s = (np, s')"
  shows "names_inv s'" "names_hold s q w \<Longrightarrow> names_hold s' q w \<and> entries s' q = entries s q"
    "install \<Longrightarrow> names_hold s' np (spelling tp)" "\<not> install \<Longrightarrow> s' = s"
    "\<not> install \<Longrightarrow> np \<noteq> 0 \<longleftrightarrow> names_hold s np (spelling tp)" "\<not> install \<Longrightarrow> np = 0 \<longleftrightarrow> (\<forall>q. \<not> names_hold s q (spelling tp))"
proof (atomize (full), goal_cases)
  case 1
  have pos: "0 < q" if "names_hold s q w" for q w
    using that inv unfolding names_inv_def names_hold_def entry_ok_def by blast
  show ?case
  proof (cases "find (\<lambda>np. same_name tp (entries s np)) (nlist s (name_hash tp))")
    case None
    then have no: "\<not> names_hold s q (spelling tp)" for q using lookup_found [OF inv tp, of q] by simp
    show ?thesis
    proof (cases install)
      case True
      then have "install_name tp s = (np, s')" using r None by (simp add: lookup_def)
      then show ?thesis using install_name_inv [OF inv tp no] True by blast
    next
      case False
      then show ?thesis using r None no inv by (simp add: lookup_def)
    qed
  next
    case (Some p)
    then have p: "names_hold s p (spelling tp)" using lookup_found [OF inv tp] by simp
    have "s' = s" "np = p" using r Some by (auto simp: lookup_def)
    then show ?thesis using inv p pos [OF p] by auto
  qed
qed

interpretation name_table: interning names_hold
  "\<lambda>str s. if is_name str then Some (lookup (name_token str) True s) else None" names_inv
proof
  fix s :: "'a names_scheme" and str np s'
  assume inv: "names_inv s" and r: "(if is_name str then Some (lookup (name_token str) True s) else None) = Some (np, s')"
  then have "text_ok (name_token str)" "lookup (name_token str) True s = (np, s')" by (auto simp: text_ok_name_token split: if_splits)
  note sp = lookup_spec [OF inv this]
  show "names_inv s'" "names_hold s' np str" "\<And>q w. names_hold s q w \<Longrightarrow> names_hold s' q w" using sp by simp_all
next
  fix s :: "'a names_scheme" and np np' str
  assume "names_inv s" "names_hold s np str" "names_hold s np' str"
  then show "np = np'" unfolding names_inv_def by blast
next
  fix s :: "'a names_scheme" and np v w
  assume "names_hold s np v" "names_hold s np w"
  then show "v = w" by (simp add: names_hold_def)
qed

section \<open>Keywords\<close>

definition no_names :: names where
  "no_names =
     \<lparr>messages = [], nerrs = 0, nlist = (\<lambda>_. []),
      entries = (\<lambda>_. \<lparr>np_name = [], np_len = 0, np_vp = None, np_ap = None, np_val = 0, np_flag = 0\<rparr>),
      next_np = 1, namebit = (\<lambda>_. 0), kwdefined = 0\<rparr>"

lemma names_inv_start: "names_inv no_names"
  by (simp add: names_inv_def no_names_def entry_at_def names_hold_def)

lemma set_entry_inv:
  assumes "\<And>e. np_name (f e) = np_name e" "\<And>e. np_len (f e) = np_len e"
  shows "names_inv (set_entry np f s) = names_inv s" "names_hold (set_entry np f s) = names_hold s"
proof -
  have at: "entry_at (set_entry np f s) = entry_at s" by (intro ext) (simp add: entry_at_def set_entry_def)
  have name: "np_name (entries (set_entry np f s) q) = np_name (entries s q)" "np_len (entries (set_entry np f s) q) = np_len (entries s q)" for q
    using assms by (simp_all add: set_entry_def)
  show hold: "names_hold (set_entry np f s) = names_hold s" by (intro ext) (simp add: names_hold_def at name)
  have "entry_ok (set_entry np f s) = entry_ok s" by (intro ext) (unfold entry_ok_def name quicklook_def, simp add: set_entry_def)
  then show "names_inv (set_entry np f s) = names_inv s" unfolding names_inv_def by (simp add: hold at) (simp add: set_entry_def)
qed

lemma names_inv_kwdefined [simp]:
  "names_inv (s\<lparr>kwdefined := np\<rparr>) = names_inv s" "names_hold (s\<lparr>kwdefined := np\<rparr>) = names_hold s"
proof -
  have "entry_ok (s\<lparr>kwdefined := np\<rparr>) = entry_ok s" "entry_at (s\<lparr>kwdefined := np\<rparr>) = entry_at s"
    by (intro ext; simp add: entry_ok_def entry_at_def quicklook_def)+
  moreover show hold: "names_hold (s\<lparr>kwdefined := np\<rparr>) = names_hold s"
    by (intro ext) (simp add: names_hold_def entry_at_def)
  ultimately show "names_inv (s\<lparr>kwdefined := np\<rparr>) = names_inv s" by (simp add: names_inv_def)
qed

lemma setup_kw_inv:
  assumes "names_inv s" "is_name (fst kp)"
  shows "names_inv (setup_kw kp s)"
proof -
  obtain kw v fl where kp: "kp = (kw, v, fl)" by (cases kp)
  obtain np s1 where 1: "lookup (name_token kw) True s = (np, s1)" by fastforce
  have "names_inv s1" using lookup_spec(1) [OF assms(1) text_ok_name_token 1] assms(2) kp by simp
  then show ?thesis by (simp add: setup_kw_def kp 1 Let_def set_entry_inv)
qed

lemma setup_kwtab_inv: "names_inv s \<Longrightarrow> names_inv (setup_kwtab s)"
proof -
  have "\<forall>kp \<in> set kps. is_name (fst kp) \<Longrightarrow> names_inv s \<Longrightarrow> names_inv (fold setup_kw kps s)" for kps s
    by (induction kps arbitrary: s) (auto simp: setup_kw_inv)
  moreover have "\<forall>kp \<in> set kwtab. is_name (fst kp)" by (simp add: kwtab_def is_name_def)
  ultimately show "names_inv s \<Longrightarrow> names_inv (setup_kwtab s)" by (simp add: setup_kwtab_def)
qed

definition enter_name :: "string \<Rightarrow> names \<Rightarrow> (nlist_ptr \<times> names) option" where
  "enter_name str s = (if is_name str then Some (lookup (name_token str) True s) else None)"

lemma name_table_found:
  assumes inv: "names_inv s" and np: "names_hold s np str"
  shows "fst (lookup (name_token str) False s) = np \<and> quicklook (name_token str) s"
proof -
  obtain h where "entry_at s h np" "np_name (entries s np) = str" using np by (auto simp: names_hold_def)
  then have ok: "entry_ok s h np" "is_name str" "quicklook (name_token str) s" using inv by (auto simp: names_inv_def entry_ok_def)
  have "find (\<lambda>np. same_name (name_token str) (entries s np)) (nlist s (name_hash (name_token str))) = Some np"
    using lookup_found [OF inv text_ok_name_token [OF ok(2)]] np by simp
  then show ?thesis using ok(3) by (simp add: lookup_def)
qed

text \<open>
  Claim C27: after the keywords are set up and any names are entered, two names have the same entry
  exactly when they are equal; a later lookup finds the entry, and the bit table does not hide it.
\<close>

theorem name_table_spec:
  assumes "intern_list enter_name strs (setup_kwtab no_names) = Some (nps, s)" "k < length strs" "l < length strs"
  shows "(nps ! k = nps ! l \<longleftrightarrow> strs ! k = strs ! l) \<and> fst (lookup (name_token (strs ! k)) False s) = nps ! k \<and>
    quicklook (name_token (strs ! k)) s"
proof -
  have inv: "names_inv (setup_kwtab no_names)" by (rule setup_kwtab_inv [OF names_inv_start])
  have enter: "enter_name = (\<lambda>str s. if is_name str then Some (lookup (name_token str) True s) else None)"
    by (intro ext) (simp add: enter_name_def)
  have "names_inv s" "names_hold s (nps ! k) (strs ! k)"
    using name_table.intern_list_holds [OF inv assms(1) [unfolded enter]] assms(2) by blast+
  then show ?thesis
    using name_table.handles_decide [OF inv assms(1) [unfolded enter] assms(2,3)] name_table_found by blast
qed

definition demo_names :: "nlist_ptr list \<times> names" where
  "demo_names = the (intern_list enter_name [''MAX'', ''if'', ''MAX''] (setup_kwtab no_names))"

lemma demo_names_entered:
  "intern_list enter_name [''MAX'', ''if'', ''MAX''] (setup_kwtab no_names) = Some (fst demo_names, snd demo_names)"
  by (simp add: demo_names_def enter_name_def is_name_def split: prod.split)

theorem name_table_spec_witness:
  "(fst demo_names ! 0 = fst demo_names ! 2 \<longleftrightarrow> [''MAX'', ''if'', ''MAX''] ! 0 = [''MAX'', ''if'', ''MAX''] ! 2) \<and>
   fst (lookup (name_token ([''MAX'', ''if'', ''MAX''] ! 0)) False (snd demo_names)) = fst demo_names ! 0 \<and>
   quicklook (name_token ([''MAX'', ''if'', ''MAX''] ! 0)) (snd demo_names)"
  by (rule name_table_spec [OF demo_names_entered]) simp_all

end
