(* ===== verification/CPP_Eval.thy ===== *)
theory CPP_Eval
  imports CPP_Nlist "HOL-Library.Signed_Division"
begin

text \<open>
  The evaluation of the conditions of \#if and \#elif (src/lcc-1.3/cpp/eval.c) by operator precedence,
  with a stack of values and a stack of operators in arrays of 32 elements.  A write past the end
  of an array, a read below its start and the operations that C leaves undefined are \<open>Undef\<close>.
\<close>

section \<open>Data\<close>

definition NSTAK :: nat where "NSTAK = 32"

datatype vtype = SGN | UNS | UND

record pvalue =
  val :: int
  vty :: vtype

datatype ctype = NOCONV | RELAT | ARITH | LOGIC | SPCL | SHIFT | UNARY

record priority_entry =
  pri :: nat
  arity :: nat
  ctype :: ctype

definition prio :: "nat \<Rightarrow> nat \<Rightarrow> ctype \<Rightarrow> priority_entry" where
  "prio p a c = \<lparr>pri = p, arity = a, ctype = c\<rparr>"

text \<open>The table priority, by the operators that have an entry other than 0, 0, 0.\<close>

fun priority :: "toktype \<Rightarrow> priority_entry" where
  "priority EQ = prio 11 2 RELAT"
| "priority NEQ = prio 11 2 RELAT"
| "priority LEQ = prio 12 2 RELAT"
| "priority GEQ = prio 12 2 RELAT"
| "priority LSH = prio 13 2 SHIFT"
| "priority RSH = prio 13 2 SHIFT"
| "priority LAND = prio 7 2 LOGIC"
| "priority LOR = prio 6 2 LOGIC"
| "priority LP = prio 3 0 NOCONV"
| "priority RP = prio 3 0 NOCONV"
| "priority ANDt = prio 10 2 ARITH"
| "priority STAR = prio 15 2 ARITH"
| "priority PLUS = prio 14 2 ARITH"
| "priority MINUS = prio 14 2 ARITH"
| "priority TILDE = prio 16 1 UNARY"
| "priority NOTt = prio 16 1 UNARY"
| "priority SLASH = prio 15 2 ARITH"
| "priority PCT = prio 15 2 ARITH"
| "priority LT = prio 12 2 RELAT"
| "priority GT = prio 12 2 RELAT"
| "priority CIRC = prio 9 2 ARITH"
| "priority ORt = prio 8 2 ARITH"
| "priority QUEST = prio 5 2 SPCL"
| "priority COLON = prio 5 2 SPCL"
| "priority COMMA = prio 4 2 NOCONV"
| "priority DEFINED = prio 16 1 UNARY"
| "priority UMINUS = prio 16 0 UNARY"
| "priority _ = prio 0 0 NOCONV"

text \<open>The stacks have their top first.\<close>

record evaluator = names +
  vals :: "pvalue list"
  ops :: "toktype list"

section \<open>Values of tokens\<close>

definition digit :: "char \<Rightarrow> int" where
  "digit c =
     (let i = int (code_of c)
      in if 48 \<le> i \<and> i \<le> 57 then i - 48
         else if 97 \<le> i \<and> i \<le> 102 then i - (97 - 10)
         else if 65 \<le> i \<and> i \<le> 70 then i - (65 - 10)
         else - 1)"

fun scan_number :: "token \<Rightarrow> int \<Rightarrow> string \<Rightarrow> 64 word \<Rightarrow> (64 word \<times> string, 'a diag_scheme) cfun" where
  "scan_number tp base [] n = returnS (n, [])"
| "scan_number tp base (c # p) n =
     (if digit c < 0 then returnS (n, c # p)
      else seqS (whenS (base \<le> digit c) (error WARNING (''Bad digit in number '' @ spelling tp)))
                (scan_number tp base p (n * word_of_int base + word_of_int (digit c))))"

fun scan_suffix :: "token \<Rightarrow> string \<Rightarrow> vtype \<Rightarrow> (vtype, 'a diag_scheme) cfun" where
  "scan_suffix tp [] ty = returnS ty"
| "scan_suffix tp (c # p) ty =
     (if c = CHR ''u'' \<or> c = CHR ''U'' then scan_suffix tp p UNS
      else if c = CHR ''l'' \<or> c = CHR ''L'' then scan_suffix tp p ty
      else seqS (error ERROR (''Bad number '' @ spelling tp @ '' in #if/#elsif'')) (returnS ty))"

definition number_base :: "string \<Rightarrow> int \<times> string" where
  "number_base p =
     (if char_at p 0 = CHR ''0'' then
        if char_at p 1 = CHR ''x'' \<or> char_at p 1 = CHR ''X'' then (16, drop 2 p) else (8, drop 1 p)
      else (10, p))"

definition number_val :: "token \<Rightarrow> (pvalue, 'a diag_scheme) cfun" where
  "number_val tp =
     (let (base, p) = number_base (c_prefix (tok_len tp) (tok_t tp)) in
      bindS (scan_number tp base p 0) (\<lambda>(n, p).
      bindS (scan_suffix tp p (if 0x80000000 \<le> n \<and> base \<noteq> 10 then UNS else SGN)) (\<lambda>ty.
      returnS \<lparr>val = slong (uint n), vty = ty\<rparr>)))"

text \<open>
  Character constants.  The escapes are searched in an array that ends with a null character: a
  backslash before the end of the text is found there, and the value after it is out of bounds.
\<close>

definition octal :: "char \<Rightarrow> bool" where
  "octal c \<longleftrightarrow> 0 \<le> digit c \<and> digit c \<le> 7"

definition octal_escape :: "string \<Rightarrow> 64 word \<times> string" where
  "octal_escape p =
     (let d = (\<lambda>i. word_of_int (digit (char_at p i))) in
      if \<not> octal (char_at p 1) then (d 0, drop 1 p)
      else if \<not> octal (char_at p 2) then (push_bit 3 (d 0) + d 1, drop 2 p)
      else (push_bit 3 (push_bit 3 (d 0) + d 1) + d 2, drop 3 p))"

fun hex_escape :: "string \<Rightarrow> 64 word \<Rightarrow> 64 word \<times> string" where
  "hex_escape [] n = (n, [])"
| "hex_escape (c # p) n =
     (if 0 \<le> digit c \<and> digit c \<le> 15 then hex_escape p (push_bit 4 n + word_of_int (digit c)) else (n, c # p))"

definition cvcon :: "(char \<times> nat) list" where
  "cvcon =
    [(CHR ''b'', 8), (CHR ''f'', 12), (CHR ''n'', 10), (CHR ''r'', 13), (CHR ''t'', 9), (CHR ''v'', 11),
     (CHR 0x27, 0x27), (CHR 0x22, 0x22), (CHR ''?'', 63), (CHR 0x5C, 0x5C)]"

definition char_escape :: "string \<Rightarrow> (64 word \<times> string, 'a diag_scheme) cfun" where
  "char_escape p =
     (case map_of cvcon (char_at p 0) of
        Some v \<Rightarrow> returnS (word_of_nat v, drop 1 p)
      | None \<Rightarrow>
          if char_at p 0 = CHR 0x00 then undefS
          else seqS (error WARNING ''Undefined escape in character constant'') (returnS (0, drop 1 p)))"

definition ccon_char :: "string \<Rightarrow> (64 word \<times> string, 'a diag_scheme) cfun" where
  "ccon_char p =
     (if char_at p 0 = CHR 0x5C then
        (let p = drop 1 p in
         if octal (char_at p 0) then returnS (octal_escape p)
         else if char_at p 0 = CHR ''x'' then returnS (hex_escape (drop 1 p) 0)
         else char_escape p)
      else if char_at p 0 = CHR 0x27 then seqS (error ERROR ''Empty character constant'') (returnS (0, p))
      else returnS (word_of_nat (code_of (char_at p 0)), drop 1 p))"

definition ccon_val :: "token \<Rightarrow> (pvalue, 'a diag_scheme) cfun" where
  "ccon_val tp =
     (let wide = char_at (tok_t tp) 0 = CHR ''L''; p = drop (if wide then 2 else 1) (tok_t tp) in
      seqS (whenS wide (error WARNING ''Wide char constant value undefined''))
     (bindS (ccon_char p) (\<lambda>(n, p).
      seqS
        (if char_at p 0 \<noteq> CHR 0x27 then error WARNING ''Multibyte character constant undefined''
         else whenS (127 < n) (error WARNING ''Character constant taken as not signed''))
        (returnS \<lparr>val = slong (uint n), vty = SGN\<rparr>))))"

definition is_defined :: "token \<Rightarrow> 'a names_scheme \<Rightarrow> bool" where
  "is_defined tp s \<longleftrightarrow>
     (let np = fst (lookup tp False s) in np \<noteq> 0 \<and> np_flag (entries s np) AND (ISDEFINED OR ISMAC) \<noteq> 0)"

definition tokval :: "token \<Rightarrow> (pvalue, 'a names_scheme) cfun" where
  "tokval tp =
     (case tok_type tp of
        NAME1 \<Rightarrow> getS (\<lambda>s. \<lparr>val = (if is_defined tp s then 1 else 0), vty = SGN\<rparr>)
      | NUMBER \<Rightarrow> number_val tp
      | CCON \<Rightarrow> ccon_val tp
      | STRING \<Rightarrow> seqS (error ERROR ''String in #if/#elsif'') (returnS \<lparr>val = 0, vty = SGN\<rparr>)
      | _ \<Rightarrow> returnS \<lparr>val = 0, vty = SGN\<rparr>)"

section \<open>Reduction of the stacks\<close>

definition pushv :: "pvalue \<Rightarrow> (unit, 'a evaluator_scheme) cfun" where
  "pushv v = putS (\<lambda>s. s\<lparr>vals := v # vals s\<rparr>)"

definition popv :: "(pvalue, 'a evaluator_scheme) cfun" where
  "popv s = (case vals s of [] \<Rightarrow> Undef | v # vs \<Rightarrow> Ret (v, s\<lparr>vals := vs\<rparr>))"

definition pushop :: "toktype \<Rightarrow> (unit, 'a evaluator_scheme) cfun" where
  "pushop t s = (if length (ops s) < NSTAK then Ret ((), s\<lparr>ops := t # ops s\<rparr>) else Undef)"

definition topop :: "(toktype, 'a evaluator_scheme) cfun" where
  "topop s = (case ops s of [] \<Rightarrow> Undef | t # _ \<Rightarrow> Ret (t, s))"

definition popop :: "(toktype, 'a evaluator_scheme) cfun" where
  "popop = bindS topop (\<lambda>t. seqS (putS (\<lambda>s. s\<lparr>ops := tl (ops s)\<rparr>)) (returnS t))"

text \<open>The type of the result, and whether the operands are compared or shifted unsigned.\<close>

definition arith_type :: "vtype \<Rightarrow> vtype \<Rightarrow> vtype" where
  "arith_type a b = (if a = UND \<or> b = UND then UND else if a = UNS \<or> b = UNS then UNS else SGN)"

definition convert :: "ctype \<Rightarrow> vtype \<Rightarrow> vtype \<Rightarrow> vtype \<Rightarrow> vtype \<times> bool" where
  "convert c a b rtype =
     (case c of
        ARITH \<Rightarrow> (arith_type a b, False)
      | RELAT \<Rightarrow> (if arith_type a b = UNS then (SGN, True) else (arith_type a b, False))
      | SHIFT \<Rightarrow> (let r = if a = UND \<or> b = UND then UND else a in (r, r = UNS))
      | UNARY \<Rightarrow> (a, False)
      | _ \<Rightarrow> (rtype, False))"

definition of_bool_val :: "bool \<Rightarrow> vtype \<Rightarrow> pvalue outcome" where
  "of_bool_val b ty = Ret \<lparr>val = of_bool b, vty = ty\<rparr>"

definition long_val :: "int \<Rightarrow> vtype \<Rightarrow> pvalue outcome" where
  "long_val v ty = bind_outcome (chk_long v) (\<lambda>v. Ret \<lparr>val = v, vty = ty\<rparr>)"

definition shift_count :: "int \<Rightarrow> bool" where
  "shift_count n \<longleftrightarrow> 0 \<le> n \<and> n < 64"

text \<open>The operators that take their operands from the stack only; None: an unknown operator.\<close>

definition apply_oper :: "toktype \<Rightarrow> bool \<Rightarrow> pvalue \<Rightarrow> pvalue \<Rightarrow> vtype \<Rightarrow> pvalue outcome option" where
  "apply_oper oper uns v1 v2 rtype =
     (let rv1 = val v1; rv2 = val v2; undef1 = vty v1 = UND; undef2 = vty v2 = UND in
      case oper of
        EQ \<Rightarrow> Some (of_bool_val (rv1 = rv2) rtype)
      | NEQ \<Rightarrow> Some (of_bool_val (rv1 \<noteq> rv2) rtype)
      | LEQ \<Rightarrow> Some (of_bool_val (if uns then ulong rv1 \<le> ulong rv2 else rv1 \<le> rv2) rtype)
      | GEQ \<Rightarrow> Some (of_bool_val (if uns then ulong rv1 \<ge> ulong rv2 else rv1 \<ge> rv2) rtype)
      | LT \<Rightarrow> Some (of_bool_val (if uns then ulong rv1 < ulong rv2 else rv1 < rv2) rtype)
      | GT \<Rightarrow> Some (of_bool_val (if uns then ulong rv1 > ulong rv2 else rv1 > rv2) rtype)
      | LSH \<Rightarrow> Some
          (if \<not> shift_count rv2 then Undef
           else if uns then Ret \<lparr>val = slong (ulong rv1 * 2 ^ nat rv2), vty = rtype\<rparr>
           else if rv1 < 0 then Undef
           else long_val (rv1 * 2 ^ nat rv2) rtype)
      | RSH \<Rightarrow> Some
          (if \<not> shift_count rv2 then Undef
           else if uns then Ret \<lparr>val = slong (ulong rv1 div 2 ^ nat rv2), vty = rtype\<rparr>
           else Ret \<lparr>val = rv1 div 2 ^ nat rv2, vty = rtype\<rparr>)
      | LAND \<Rightarrow> Some
          (if undef1 then Ret \<lparr>val = rv1, vty = UND\<rparr>
           else if rv1 \<noteq> 0 then (if undef2 then Ret \<lparr>val = rv1, vty = UND\<rparr> else of_bool_val (rv2 \<noteq> 0) SGN)
           else of_bool_val False SGN)
      | LOR \<Rightarrow> Some
          (if undef1 then Ret \<lparr>val = rv1, vty = UND\<rparr>
           else if rv1 = 0 then (if undef2 then Ret \<lparr>val = rv1, vty = UND\<rparr> else of_bool_val (rv2 \<noteq> 0) SGN)
           else of_bool_val True SGN)
      | ANDt \<Rightarrow> Some (Ret \<lparr>val = rv1 AND rv2, vty = rtype\<rparr>)
      | STAR \<Rightarrow> Some (long_val (rv1 * rv2) rtype)
      | PLUS \<Rightarrow> Some (long_val (rv1 + rv2) rtype)
      | MINUS \<Rightarrow> Some (long_val (rv1 - rv2) rtype)
      | UMINUS \<Rightarrow> Some (long_val (- rv1) (if undef1 then UND else rtype))
      | ORt \<Rightarrow> Some (Ret \<lparr>val = rv1 OR rv2, vty = rtype\<rparr>)
      | CIRC \<Rightarrow> Some (Ret \<lparr>val = rv1 XOR rv2, vty = rtype\<rparr>)
      | TILDE \<Rightarrow> Some (Ret \<lparr>val = NOT rv1, vty = rtype\<rparr>)
      | NOTt \<Rightarrow> Some (of_bool_val (rv1 = 0) (if rtype \<noteq> UND then SGN else rtype))
      | SLASH \<Rightarrow> Some
          (if rv2 = 0 then Ret \<lparr>val = rv1, vty = UND\<rparr>
           else if rtype = UNS then Ret \<lparr>val = slong (ulong rv1 div ulong rv2), vty = rtype\<rparr>
           else long_val (rv1 sdiv rv2) rtype)
      | PCT \<Rightarrow> Some
          (if rv2 = 0 then Ret \<lparr>val = rv1, vty = UND\<rparr>
           else if rtype = UNS then Ret \<lparr>val = slong (ulong rv1 mod ulong rv2), vty = rtype\<rparr>
           else bind_outcome (chk_long (rv1 sdiv rv2)) (\<lambda>_. Ret \<lparr>val = rv1 smod rv2, vty = rtype\<rparr>))
      | DEFINED \<Rightarrow> Some (Ret \<lparr>val = rv1, vty = rtype\<rparr>)
      | _ \<Rightarrow> None)"

text \<open>The end of a conditional: its condition is below the operands.\<close>

definition conditional :: "pvalue \<Rightarrow> pvalue \<Rightarrow> vtype \<Rightarrow> (pvalue, 'a evaluator_scheme) cfun" where
  "conditional v1 v2 rtype =
     bindS topop (\<lambda>t.
       if t \<noteq> QUEST then seqS (error ERROR ''Bad ?: in #if/endif'') (returnS \<lparr>val = val v1, vty = rtype\<rparr>)
       else seqS popop (bindS popv (\<lambda>v. returnS (if val v = 0 then v2 else v1))))"

text \<open>
  One round of the loop of evalop: \<open>Inl\<close> is the value that evalop returns, \<open>Inr\<close> the type of the
  result, which the loop keeps.
\<close>

definition push_result :: "pvalue \<Rightarrow> (int + vtype, 'a evaluator_scheme) cfun" where
  "push_result v =
     bindS (getS (\<lambda>s. length (vals s))) (\<lambda>n.
       if n = NSTAK then seqS (error ERROR ''Eval botch (stack overflow)'') (returnS (Inl 0))
       else seqS (pushv v) (returnS (Inr (vty v))))"

definition perform_oper :: "toktype \<Rightarrow> vtype \<Rightarrow> (int + vtype, 'a evaluator_scheme) cfun" where
  "perform_oper oper rtype =
     bindS (if arity (priority oper) = 2 then popv else returnS \<lparr>val = 0, vty = SGN\<rparr>) (\<lambda>v2.
     bindS popv (\<lambda>v1.
     if ctype (priority oper) = NOCONV then
       seqS (error WARNING ''Syntax error in #if/#endif'') (returnS (Inl 1))
     else
       let (rtype, uns) = convert (ctype (priority oper)) (vty v1) (vty v2) rtype in
       if oper = COLON then bindS (conditional v1 v2 rtype) push_result
       else case apply_oper oper uns v1 v2 rtype of
          None \<Rightarrow> seqS (error ERROR ''Eval botch (unknown operator)'') (returnS (Inl 1))
        | Some r \<Rightarrow> bindS (lift_out r) push_result))"

definition evalop_round :: "vtype \<Rightarrow> (int + vtype, 'a evaluator_scheme) cfun" where
  "evalop_round rtype = bindS popop (\<lambda>oper. perform_oper oper rtype)"

text \<open>Every round takes an operator from the stack.\<close>

definition ops_below :: "nat \<Rightarrow> 'a evaluator_scheme \<Rightarrow> bool" where
  "ops_below n s \<longleftrightarrow> length (ops s) \<le> n"

lemma ops_below_steps [pres]:
  "preserves (ops_below n) (error ty msg)" "preserves (ops_below n) popv" "preserves (ops_below n) (pushv v)"
  "preserves (ops_below n) topop" "preserves (ops_below n) popop"
  by (auto simp: preserves_def ops_below_def error_def popv_def pushv_def topop_def popop_def cfun_defs simp del: bindS_Ret
      split: if_splits list.splits)

lemma ops_below_push [pres]: "preserves (ops_below n) (push_result v)" "preserves (ops_below n) (conditional v1 v2 rtype)"
  unfolding push_result_def conditional_def by (intro pres)+

lemma popop_ops: "popop s = Ret (t, s') \<longleftrightarrow> ops s = t # ops s' \<and> s' = s\<lparr>ops := ops s'\<rparr>"
  by (cases "ops s") (auto simp: popop_def topop_def cfun_defs simp del: bindS_Ret)

lemma ops_below_perform [pres]: "preserves (ops_below n) (perform_oper oper rtype)"
  unfolding perform_oper_def Let_def by (intro pres)+

lemma evalop_round_ops:
  assumes "evalop_round rtype s = Ret (r, s')"
  shows "length (ops s') < length (ops s)"
proof -
  obtain t s1 where 1: "popop s = Ret (t, s1)" "perform_oper t rtype s1 = Ret (r, s')"
    using assms by (auto simp: evalop_round_def)
  have "length (ops s') \<le> length (ops s1)"
    using preservesD [OF ops_below_perform _ 1(2), of "length (ops s1)"] by (simp add: ops_below_def)
  then show ?thesis using 1(1) by (simp add: popop_ops)
qed

function evalop :: "nat \<Rightarrow> vtype \<Rightarrow> (int, 'a evaluator_scheme) cfun" where
  "evalop p rtype s =
     bindS topop (\<lambda>t s.
       if p < pri (priority t) then
         bindS (evalop_round rtype) (\<lambda>r s. case r of Inl i \<Rightarrow> Ret (i, s) | Inr rtype \<Rightarrow> evalop p rtype s) s
       else Ret (0, s)) s"
  by pat_completeness auto
termination
  by (relation "measure (\<lambda>(_, _, s). length (ops s))")
     (auto dest!: evalop_round_ops simp: topop_def split: list.splits)

declare evalop.simps [simp del]

lemma evalop_top:
  "ops s = t # os \<Longrightarrow> evalop p rtype s =
     (if p < pri (priority t)
      then bindS (evalop_round rtype) (\<lambda>r s. case r of Inl i \<Rightarrow> Ret (i, s) | Inr rtype \<Rightarrow> evalop p rtype s) s
      else Ret (0, s))"
  by (subst evalop.simps) (simp add: bindS_def topop_def)

lemma evalop_empty: "ops s = [] \<Longrightarrow> evalop p rtype s = Undef"
  by (subst evalop.simps) (simp add: bindS_def topop_def)

section \<open>Evaluation of a line\<close>

definition syntax_error :: "(int, 'a evaluator_scheme) cfun" where
  "syntax_error = seqS (error ERROR ''Syntax error in #if/#elsif'') (returnS 0)"

definition reduce :: "toktype \<Rightarrow> (int, 'a evaluator_scheme) cfun" where
  "reduce t = evalop (pri (priority t)) SGN"

definition eval_end :: "(int, 'a evaluator_scheme) cfun" where
  "eval_end =
     bindS (reduce END) (\<lambda>r.
     if r \<noteq> 0 then returnS 0
     else (\<lambda>s.
       if length (ops s) \<noteq> 1 \<or> length (vals s) \<noteq> 1
       then seqS (error ERROR ''Botch in #if/#elsif'') (returnS 0) s
       else seqS (whenS (vty (hd (vals s)) = UND) (error ERROR ''Undefined expression value''))
                 (returnS (val (hd (vals s)))) s))"

definition nilary :: "toktype \<Rightarrow> bool" where
  "nilary t \<longleftrightarrow> t \<in> {NAME, NAME1, NUMBER, CCON, STRING}"

definition unary :: "toktype \<Rightarrow> bool" where
  "unary t \<longleftrightarrow> t \<in> {DEFINED, TILDE, NOTt}"

definition unary_binary :: "toktype \<Rightarrow> bool" where
  "unary_binary t \<longleftrightarrow> t \<in> {PLUS, MINUS, STAR, ANDt}"

definition binary :: "toktype \<Rightarrow> bool" where
  "binary t \<longleftrightarrow> t \<in> {EQ, NEQ, LEQ, GEQ, LSH, RSH, LAND, LOR, SLASH, PCT, LT, GT, CIRC, ORt, QUEST, COLON, COMMA}"

fun eval_loop :: "bool \<Rightarrow> token list \<Rightarrow> (int, 'a evaluator_scheme) cfun" where
  "eval_loop rand [] = (if \<not> rand then syntax_error else eval_end)"
| "eval_loop rand (tp # tps) =
     (let t = tok_type tp in
      if t = WS \<or> t = NL then eval_loop rand tps
      else if nilary t then
        if rand then syntax_error
        else bindS (getS (\<lambda>s. length (vals s))) (\<lambda>n.
          if n = NSTAK then seqS (error ERROR ''Eval botch (stack overflow)'') (returnS 0)
          else bindS (tokval tp) (\<lambda>v. seqS (pushv v) (eval_loop True tps)))
      else if unary t then
        if rand then syntax_error else seqS (pushop t) (eval_loop rand tps)
      else if unary_binary t \<and> \<not> rand then
        if t = MINUS then seqS (pushop UMINUS) (eval_loop rand tps)
        else if t = STAR \<or> t = ANDt then
          seqS (error ERROR ''Illegal operator * or & in #if/#elsif'') (returnS 0)
        else eval_loop rand tps
      else if unary_binary t \<or> binary t then
        if \<not> rand then syntax_error
        else bindS (reduce t) (\<lambda>r. if r \<noteq> 0 then returnS 0 else seqS (pushop t) (eval_loop False tps))
      else if t = LP then
        if rand then syntax_error else seqS (pushop LP) (eval_loop rand tps)
      else if t = RP then
        if \<not> rand then syntax_error
        else bindS (reduce RP) (\<lambda>r.
          if r \<noteq> 0 then returnS 0
          else bindS (getS (\<lambda>s. ops s = [] \<or> hd (ops s) \<noteq> LP)) (\<lambda>bad.
            if bad then syntax_error else seqS popop (eval_loop rand tps)))
      else seqS (error ERROR (''Bad operator ('' @ spelling tp @ '') in #if/#elsif'')) (returnS 0))"

text \<open>The evaluation of a line whose macros are expanded.\<close>

definition eval_row :: "token list \<Rightarrow> (int, 'a evaluator_scheme) cfun" where
  "eval_row tps = seqS (putS (\<lambda>s. s\<lparr>vals := [], ops := [END]\<rparr>)) (eval_loop False tps)"

end
