(* ===== verification/CPP_Expr.thy ===== *)
theory CPP_Expr
  imports CPP_Eval
begin

text \<open>
  What the evaluator of \#if computes: the expressions it accepts, as trees with the tokens they are
  written with, and their values.
\<close>

section \<open>Constants\<close>

text \<open>The number that digits of a base denote.\<close>

fun digits_num :: "int \<Rightarrow> int \<Rightarrow> int list \<Rightarrow> int" where
  "digits_num base n [] = n"
| "digits_num base n (d # ds) = digits_num base (n * base + d) ds"

definition number_literal :: "string \<Rightarrow> pvalue option" where
  "number_literal str =
     (let (base, p) = number_base str;
          ds = map digit (takeWhile (\<lambda>c. 0 \<le> digit c) p);
          suffix = dropWhile (\<lambda>c. 0 \<le> digit c) p;
          n = digits_num base 0 ds mod 2 ^ 64
      in if (\<forall>d \<in> set ds. d < base) \<and> set suffix \<subseteq> set ''uUlL''
         then Some \<lparr>val = slong n, vty = (if base \<noteq> 10 \<and> 2 ^ 31 \<le> n \<or> set suffix \<inter> set ''uU'' \<noteq> {} then UNS else SGN)\<rparr>
         else None)"

definition char_literal :: "string \<Rightarrow> pvalue option" where
  "char_literal str =
     (case str of
        [q, c, q'] \<Rightarrow> if q = CHR 0x27 \<and> q' = CHR 0x27 \<and> c \<notin> {CHR 0x27, CHR 0x5C} \<and> code_of c \<le> 127
                      then Some \<lparr>val = int (code_of c), vty = SGN\<rparr> else None
      | _ \<Rightarrow> None)"

text \<open>The value of a token that is read without a message.\<close>

definition literal :: "'a names_scheme \<Rightarrow> token \<Rightarrow> pvalue option" where
  "literal s tp =
     (case tok_type tp of
        NAME \<Rightarrow> Some \<lparr>val = 0, vty = SGN\<rparr>
      | NAME1 \<Rightarrow> Some \<lparr>val = of_bool (is_defined tp s), vty = SGN\<rparr>
      | NUMBER \<Rightarrow> number_literal (c_prefix (tok_len tp) (tok_t tp))
      | CCON \<Rightarrow> char_literal (tok_t tp)
      | _ \<Rightarrow> None)"

lemma scan_number_quiet:
  assumes "\<forall>d \<in> set (map digit (takeWhile (\<lambda>c. 0 \<le> digit c) p)). d < base"
  shows "scan_number tp base p n =
    returnS (word_of_int (digits_num base (uint n) (map digit (takeWhile (\<lambda>c. 0 \<le> digit c) p))), dropWhile (\<lambda>c. 0 \<le> digit c) p)"
  using assms
proof (induction p arbitrary: n)
  case (Cons c p)
  show ?case
  proof (cases "0 \<le> digit c")
    case True
    have cong: "word_of_int (digits_num base m ds) = (word_of_int (digits_num base m' ds) :: 64 word)"
      if "word_of_int m = (word_of_int m' :: 64 word)" for m m' ds
      using that
    proof (induction ds arbitrary: m m')
      case (Cons d ds)
      have "word_of_int (m * base + d) = (word_of_int (m' * base + d) :: 64 word)"
        using Cons.prems by (simp add: of_int_add of_int_mult)
      from Cons.IH [OF this] show ?case by simp
    qed simp
    have "\<not> base \<le> digit c" using Cons.prems True by auto
    then show ?thesis using Cons True cong [of "uint (n * word_of_int base + word_of_int (digit c))" "uint n * base + digit c"]
      by (simp add: whenS_def seqS_def)
  qed simp
qed simp

lemma scan_suffix_quiet:
  "set p \<subseteq> set ''uUlL'' \<Longrightarrow> scan_suffix tp p ty = returnS (if set p \<inter> set ''uU'' \<noteq> {} then UNS else ty)"
  by (induction p arbitrary: ty) auto

lemma number_val_literal:
  assumes "number_literal (c_prefix (tok_len tp) (tok_t tp)) = Some v"
  shows "number_val tp s = Ret (v, s)"
proof -
  obtain base p where b: "number_base (c_prefix (tok_len tp) (tok_t tp)) = (base, p)" by fastforce
  let ?ds = "map digit (takeWhile (\<lambda>c. 0 \<le> digit c) p)" and ?suf = "dropWhile (\<lambda>c. 0 \<le> digit c) p"
  have ok: "\<forall>d \<in> set ?ds. d < base" "set ?suf \<subseteq> set ''uUlL''" and v: "v = \<lparr>val = slong (digits_num base 0 ?ds mod 2 ^ 64),
     vty = (if base \<noteq> 10 \<and> 2 ^ 31 \<le> digits_num base 0 ?ds mod 2 ^ 64 \<or> set ?suf \<inter> set ''uU'' \<noteq> {} then UNS else SGN)\<rparr>"
    using assms unfolding number_literal_def b Let_def by (auto split: if_splits)
  have n: "uint (word_of_int (digits_num base 0 ?ds) :: 64 word) = digits_num base 0 ?ds mod 2 ^ 64"
    by (simp add: unsigned_of_int take_bit_eq_mod)
  have le: "(0x80000000 :: 64 word) \<le> word_of_int (digits_num base 0 ?ds) \<longleftrightarrow> 2 ^ 31 \<le> digits_num base 0 ?ds mod 2 ^ 64"
    unfolding word_le_def n by simp
  show ?thesis
    by (auto simp add: number_val_def b scan_number_quiet [OF ok(1)] scan_suffix_quiet [OF ok(2)] v n le returnS_def simp del: bindS_Ret)
qed

lemma ccon_val_literal:
  assumes "char_literal (tok_t tp) = Some v"
  shows "ccon_val tp s = Ret (v, s)"
proof -
  obtain c where c: "tok_t tp = [CHR 0x27, c, CHR 0x27]" "c \<noteq> CHR 0x27" "c \<noteq> CHR 0x5C" "code_of c \<le> 127" "v = \<lparr>val = int (code_of c), vty = SGN\<rparr>"
    using assms by (auto simp: char_literal_def split: list.splits if_splits)
  have u: "uint (word_of_nat (code_of c) :: 64 word) = int (code_of c)"
    using c(4) by (simp add: unsigned_of_nat take_bit_nat_eq_self)
  then have w: "\<not> 127 < (word_of_nat (code_of c) :: 64 word)" using c(4) unfolding word_less_def by simp
  show ?thesis using c u w
    by (simp add: ccon_val_def ccon_char_def slong_id long_def numeral_2_eq_2 cfun_defs del: bindS_Ret)
qed

lemma tokval_literal: "literal s tp = Some v \<Longrightarrow> tokval tp s = Ret (v, s)"
  by (auto simp: literal_def tokval_def cfun_defs number_val_literal ccon_val_literal split: toktype.splits)

section \<open>Expressions\<close>

datatype cexpr =
  Leaf token
| Unop token cexpr
| Binop cexpr token cexpr
| Cond cexpr token cexpr token cexpr
| Paren token cexpr token

fun toks :: "cexpr \<Rightarrow> token list" where
  "toks (Leaf tp) = [tp]"
| "toks (Unop tp e) = tp # toks e"
| "toks (Binop a tp b) = toks a @ tp # toks b"
| "toks (Cond a q b c d) = toks a @ q # toks b @ c # toks d"
| "toks (Paren l e r) = l # toks e @ [r]"

fun level :: "cexpr \<Rightarrow> nat" where
  "level (Leaf tp) = 17"
| "level (Unop tp e) = 16"
| "level (Binop a tp b) = pri (priority (tok_type tp))"
| "level (Cond a q b c d) = 5"
| "level (Paren l e r) = 17"

definition prefix_op :: "toktype \<Rightarrow> toktype" where
  "prefix_op t = (if t = MINUS then UMINUS else t)"

definition binary_op :: "toktype \<Rightarrow> bool" where
  "binary_op t \<longleftrightarrow> (unary_binary t \<or> binary t) \<and> t \<notin> {QUEST, COLON, COMMA}"

text \<open>
  The expressions that are parsed as they are meant: the right operand of an operator may be of
  the same level, the left operand may not.
\<close>

fun well_formed :: "cexpr \<Rightarrow> bool" where
  "well_formed (Leaf tp) \<longleftrightarrow> nilary (tok_type tp)"
| "well_formed (Unop tp e) \<longleftrightarrow> (unary (tok_type tp) \<or> tok_type tp = MINUS) \<and> well_formed e \<and> 16 \<le> level e"
| "well_formed (Binop a tp b) \<longleftrightarrow> binary_op (tok_type tp) \<and> well_formed a \<and> well_formed b \<and>
     pri (priority (tok_type tp)) < level a \<and> pri (priority (tok_type tp)) \<le> level b"
| "well_formed (Cond a q b c d) \<longleftrightarrow> tok_type q = QUEST \<and> tok_type c = COLON \<and> well_formed a \<and> well_formed b \<and> well_formed d \<and>
     5 < level a \<and> 5 < level b"
| "well_formed (Paren l e r) \<longleftrightarrow> tok_type l = LP \<and> tok_type r = RP \<and> well_formed e"

text \<open>The room that an expression takes on the stacks.\<close>

fun ops_need :: "cexpr \<Rightarrow> nat" where
  "ops_need (Leaf tp) = 0"
| "ops_need (Unop tp e) = 1 + ops_need e"
| "ops_need (Binop a tp b) = max (ops_need a) (1 + ops_need b)"
| "ops_need (Cond a q b c d) = max (ops_need a) (max (1 + ops_need b) (2 + ops_need d))"
| "ops_need (Paren l e r) = 1 + ops_need e"

fun vals_need :: "cexpr \<Rightarrow> nat" where
  "vals_need (Leaf tp) = 1"
| "vals_need (Unop tp e) = vals_need e"
| "vals_need (Binop a tp b) = max (vals_need a) (1 + vals_need b)"
| "vals_need (Cond a q b c d) = max (vals_need a) (max (1 + vals_need b) (2 + vals_need d))"
| "vals_need (Paren l e r) = vals_need e"

text \<open>The value of an expression; None: it has none, or its evaluation is undefined in C.\<close>

definition oper_val :: "toktype \<Rightarrow> pvalue \<Rightarrow> pvalue \<Rightarrow> pvalue option" where
  "oper_val t v1 v2 =
     (let (r, u) = convert (ctype (priority t)) (vty v1) (vty v2) SGN in
      case apply_oper t u v1 v2 r of Some (Ret v) \<Rightarrow> Some v | _ \<Rightarrow> None)"

fun ceval :: "'a names_scheme \<Rightarrow> cexpr \<Rightarrow> pvalue option" where
  "ceval s (Leaf tp) = literal s tp"
| "ceval s (Unop tp e) = Option.bind (ceval s e) (\<lambda>v. oper_val (prefix_op (tok_type tp)) v \<lparr>val = 0, vty = SGN\<rparr>)"
| "ceval s (Binop a tp b) = Option.bind (ceval s a) (\<lambda>v1. Option.bind (ceval s b) (\<lambda>v2. oper_val (tok_type tp) v1 v2))"
| "ceval s (Cond a q b c d) =
     Option.bind (ceval s a) (\<lambda>v. Option.bind (ceval s b) (\<lambda>v1. Option.bind (ceval s d) (\<lambda>v2. Some (if val v = 0 then v2 else v1))))"
| "ceval s (Paren l e r) = ceval s e"

section \<open>Reduction\<close>

definition stk :: "'a evaluator_scheme \<Rightarrow> pvalue list \<Rightarrow> toktype list \<Rightarrow> 'a evaluator_scheme" where
  "stk s vs os = s\<lparr>vals := vs, ops := os\<rparr>"

lemma stk_sel [simp]: "vals (stk s vs os) = vs" "ops (stk s vs os) = os"
  by (simp_all add: stk_def)

lemma stk_upd [simp]: "stk s vs os\<lparr>vals := vs'\<rparr> = stk s vs' os" "stk s vs os\<lparr>ops := os'\<rparr> = stk s vs os'"
  by (simp_all add: stk_def)

lemma literal_stk [simp]: "literal (stk s vs os) tp = literal s tp"
  by (simp add: literal_def is_defined_def lookup_def stk_def split: toktype.split option.split)

lemma stack_steps:
  "popv (stk s (v # vs) os) = Ret (v, stk s vs os)"
  "pushv v (stk s vs os) = Ret ((), stk s (v # vs) os)"
  "topop (stk s vs (t # os)) = Ret (t, stk s vs (t # os))"
  "popop (stk s vs (t # os)) = Ret (t, stk s vs os)"
  "length os < NSTAK \<Longrightarrow> pushop t (stk s vs os) = Ret ((), stk s vs (t # os))"
  "length vs < NSTAK \<Longrightarrow> push_result v (stk s vs os) = Ret (Inr (vty v), stk s (v # vs) os)"
  by (simp_all add: popv_def pushv_def topop_def popop_def pushop_def push_result_def cfun_defs del: bindS_Ret)

lemma apply_any_type:
  assumes "oper_val t v1 v2 = Some v"
  shows "\<exists>r' u. convert (ctype (priority t)) (vty v1) (vty v2) r = (r', u) \<and> apply_oper t u v1 v2 r' = Some (Ret v)"
  using assms by (cases t) (auto simp: oper_val_def convert_def prio_def apply_oper_def Let_def split: if_splits outcome.splits)

lemma oper_val_known: "oper_val t v1 v2 = Some v \<Longrightarrow> t \<noteq> COLON \<and> ctype (priority t) \<noteq> NOCONV"
  by (cases t) (auto simp: oper_val_def apply_oper_def Let_def prio_def split: prod.splits)

lemma evalop_stop: "pri (priority t) \<le> p \<Longrightarrow> evalop p r (stk s vs (t # os)) = Ret (0, stk s vs (t # os))"
  by (simp add: evalop_top)

lemma evalop_round_result:
  assumes "p < pri (priority t)" "perform_oper t r (stk s vs os) = Ret (Inr r', s')"
  shows "evalop p r (stk s vs (t # os)) = evalop p r' s'"
  using assms by (simp add: evalop_top bindS_def stack_steps evalop_round_def)

lemma perform_oper_val:
  assumes v: "oper_val t v1 v2 = Some v" and vs: "length vs < NSTAK" and vs': "vs' = (if arity (priority t) = 2 then v2 # v1 # vs else v1 # vs)"
    and v2: "arity (priority t) \<noteq> 2 \<longrightarrow> v2 = \<lparr>val = 0, vty = SGN\<rparr>"
  shows "perform_oper t r (stk s vs' os) = Ret (Inr (vty v), stk s (v # vs) os)"
proof -
  obtain r' u where "convert (ctype (priority t)) (vty v1) (vty v2) r = (r', u)" "apply_oper t u v1 v2 r' = Some (Ret v)"
    using apply_any_type [OF v] by blast
  then show ?thesis using oper_val_known [OF v] vs v2 unfolding vs'
    by (cases "arity (priority t) = 2") (simp_all add: perform_oper_def bindS_def returnS_def stack_steps lift_out_def)
qed

lemma evalop_oper:
  assumes "p < pri (priority t)" "oper_val t v1 v2 = Some v" "length vs < NSTAK"
  shows "arity (priority t) = 2 \<Longrightarrow> evalop p r (stk s (v2 # v1 # vs) (t # os)) = evalop p (vty v) (stk s (v # vs) os)"
    and "arity (priority t) \<noteq> 2 \<Longrightarrow> v2 = \<lparr>val = 0, vty = SGN\<rparr> \<Longrightarrow> evalop p r (stk s (v1 # vs) (t # os)) = evalop p (vty v) (stk s (v # vs) os)"
  by (rule evalop_round_result [OF assms(1)], rule perform_oper_val [OF assms(2,3)]; simp)+

lemma evalop_cond:
  assumes "p < 5" "length vs < NSTAK"
  shows "\<exists>r'. evalop p r (stk s (v2 # v1 # v # vs) (COLON # QUEST # os)) = evalop p r' (stk s ((if val v = 0 then v2 else v1) # vs) os)"
proof -
  have "perform_oper COLON r (stk s (v2 # v1 # v # vs) (QUEST # os)) =
      Ret (Inr (vty (if val v = 0 then v2 else v1)), stk s ((if val v = 0 then v2 else v1) # vs) os)"
    using assms(2) by (simp add: perform_oper_def prio_def convert_def conditional_def bindS_def seqS_def returnS_def stack_steps)
  from evalop_round_result [OF _ this] show ?thesis using assms(1) by (intro exI) (simp add: prio_def)
qed

section \<open>Evaluation\<close>

lemma token_kinds:
  "nilary t \<Longrightarrow> t \<noteq> WS \<and> t \<noteq> NL"
  "unary t \<Longrightarrow> t \<noteq> WS \<and> t \<noteq> NL \<and> \<not> nilary t"
  "unary_binary t \<or> binary t \<Longrightarrow> t \<noteq> WS \<and> t \<noteq> NL \<and> \<not> nilary t \<and> \<not> unary t"
  by (auto simp: nilary_def unary_def unary_binary_def binary_def)

lemma eval_leaf:
  assumes "nilary (tok_type tp)" "literal s tp = Some v" "length vs < NSTAK"
  shows "eval_loop False (tp # tps) (stk s vs os) = eval_loop True tps (stk s (v # vs) os)"
  using assms token_kinds(1) [OF assms(1)] tokval_literal [of "stk s vs os" tp v]
  by (simp add: Let_def bindS_def seqS_def getS_def stack_steps)

lemma eval_prefix:
  assumes "unary (tok_type tp) \<or> tok_type tp = MINUS" "length os < NSTAK"
  shows "eval_loop False (tp # tps) (stk s vs os) = eval_loop False tps (stk s vs (prefix_op (tok_type tp) # os))"
proof (cases "tok_type tp = MINUS")
  case True
  then show ?thesis using assms(2) by (simp add: nilary_def unary_def unary_binary_def prefix_op_def bindS_def seqS_def stack_steps)
next
  case False
  then show ?thesis using assms token_kinds(2) [of "tok_type tp"] by (simp add: Let_def prefix_op_def bindS_def seqS_def stack_steps)
qed

text \<open>An operator after an operand: what is above it in the stack and binds tighter is reduced first.\<close>

lemma eval_oper:
  assumes "unary_binary (tok_type tp) \<or> binary (tok_type tp)" "length os < NSTAK"
    "evalop (pri (priority (tok_type tp))) SGN s' = Ret (0, stk s vs os)"
  shows "eval_loop True (tp # tps) s' = eval_loop False tps (stk s vs (tok_type tp # os))"
  using assms token_kinds(3) [OF assms(1)] by (simp add: Let_def bindS_def seqS_def reduce_def stack_steps)

lemma eval_open:
  assumes "tok_type tp = LP" "length os < NSTAK"
  shows "eval_loop False (tp # tps) (stk s vs os) = eval_loop False tps (stk s vs (LP # os))"
  using assms by (simp add: nilary_def unary_def unary_binary_def binary_def bindS_def seqS_def stack_steps)

lemma eval_close:
  assumes "tok_type tp = RP" "evalop 3 SGN s' = Ret (0, stk s vs (LP # os))"
  shows "eval_loop True (tp # tps) s' = eval_loop True tps (stk s vs os)"
  using assms by (simp add: nilary_def unary_def unary_binary_def binary_def bindS_def seqS_def getS_def stack_steps reduce_def prio_def)

declare eval_loop.simps [simp del]

text \<open>
  The tokens of an expression leave the stacks in a state that reduces, for every operator that
  binds less tightly, to the value of the expression on top of the stacks before it.
\<close>

definition leaves :: "'a evaluator_scheme \<Rightarrow> nat \<Rightarrow> 'a evaluator_scheme \<Rightarrow> bool" where
  "leaves s' l s \<longleftrightarrow> (\<forall>p r. p < l \<longrightarrow> (\<exists>r'. evalop p r s' = evalop p r' s))"

lemma leaves_stop:
  assumes "leaves s' l (stk s vs (t # os))" "p < l" "pri (priority t) \<le> p"
  shows "evalop p r s' = Ret (0, stk s vs (t # os))"
  using assms(1,2) evalop_stop [OF assms(3)] unfolding leaves_def by metis

lemma leaves_trans:
  assumes "leaves s' l s" "k \<le> l" "\<And>p r. p < k \<Longrightarrow> \<exists>r'. evalop p r s = evalop p r' s0"
  shows "leaves s' k s0"
  unfolding leaves_def
proof (intro allI impI)
  fix p r assume "p < k"
  then obtain r' where "evalop p r s' = evalop p r' s" using assms(1,2) unfolding leaves_def by (meson order_less_le_trans)
  then show "\<exists>r'. evalop p r s' = evalop p r' s0" using assms(3) [OF \<open>p < k\<close>] by metis
qed

lemma binary_op_entry: "binary_op t \<Longrightarrow> arity (priority t) = 2"
  by (auto simp: binary_op_def unary_binary_def binary_def prio_def)

lemma prefix_op_entry: "unary t \<or> t = MINUS \<Longrightarrow> arity (priority (prefix_op t)) \<noteq> 2 \<and> pri (priority (prefix_op t)) = 16"
  by (auto simp: prefix_op_def unary_def prio_def)

lemma level_pos: "well_formed e \<Longrightarrow> 5 \<le> level e"
  by (cases e) (auto simp: binary_op_def unary_binary_def binary_def prio_def)

lemma vals_need_pos: "0 < vals_need e"
  by (induction e) auto

definition scans :: "'a evaluator_scheme \<Rightarrow> cexpr \<Rightarrow> pvalue \<Rightarrow> bool" where
  "scans s e v \<longleftrightarrow> (\<forall>t os vs tps. length (t # os) + ops_need e \<le> NSTAK \<longrightarrow> length vs + vals_need e \<le> NSTAK \<longrightarrow>
     pri (priority t) \<le> level e \<longrightarrow>
     (\<exists>s'. eval_loop False (toks e @ tps) (stk s vs (t # os)) = eval_loop True tps s' \<and> leaves s' (level e) (stk s (v # vs) (t # os))))"

lemma scansD:
  assumes "scans s e v" "length os + ops_need e < NSTAK" "length vs + vals_need e \<le> NSTAK" "pri (priority t) \<le> level e"
  obtains s' where "eval_loop False (toks e @ tps) (stk s vs (t # os)) = eval_loop True tps s'" "leaves s' (level e) (stk s (v # vs) (t # os))"
proof -
  have "length (t # os) + ops_need e \<le> NSTAK" using assms(2) by simp
  then show ?thesis using assms that unfolding scans_def by meson
qed

lemma scansI:
  assumes "\<And>t os vs tps. length os + ops_need e < NSTAK \<Longrightarrow> length vs + vals_need e \<le> NSTAK \<Longrightarrow> pri (priority t) \<le> level e \<Longrightarrow>
     \<exists>s'. eval_loop False (toks e @ tps) (stk s vs (t # os)) = eval_loop True tps s' \<and> leaves s' (level e) (stk s (v # vs) (t # os))"
  shows "scans s e v"
  using assms by (simp add: scans_def Suc_le_eq)

lemma scans_Leaf:
  assumes "nilary (tok_type tp)" "literal s tp = Some v"
  shows "scans s (Leaf tp) v"
proof (rule scansI)
  fix t tps and os :: "toktype list" and vs :: "pvalue list" assume "length vs + vals_need (Leaf tp) \<le> NSTAK"
  moreover have "leaves s' l s'" for s' :: "'a evaluator_scheme" and l by (auto simp: leaves_def)
  ultimately show "\<exists>s'. eval_loop False (toks (Leaf tp) @ tps) (stk s vs (t # os)) = eval_loop True tps s' \<and> leaves s' (level (Leaf tp)) (stk s (v # vs) (t # os))"
    using eval_leaf [OF assms, of vs tps "t # os"] by auto
qed

lemma scans_Unop:
  assumes e: "scans s e u" "16 \<le> level e" and tp: "unary (tok_type tp) \<or> tok_type tp = MINUS"
    and v: "oper_val (prefix_op (tok_type tp)) u \<lparr>val = 0, vty = SGN\<rparr> = Some v"
  shows "scans s (Unop tp e) v"
proof (rule scansI)
  fix t tps and os :: "toktype list" and vs :: "pvalue list"
  assume n: "length os + ops_need (Unop tp e) < NSTAK" "length vs + vals_need (Unop tp e) \<le> NSTAK" "pri (priority t) \<le> level (Unop tp e)"
  let ?t = "prefix_op (tok_type tp)"
  note t = prefix_op_entry [OF tp]
  obtain s' where s': "eval_loop False (toks e @ tps) (stk s vs (?t # t # os)) = eval_loop True tps s'" "leaves s' (level e) (stk s (u # vs) (?t # t # os))"
    using scansD [OF e(1), of "t # os" vs ?t tps] n e(2) t by auto
  have vs: "length vs < NSTAK" using n(2) vals_need_pos [of e] by simp
  have "evalop p r (stk s (u # vs) (?t # t # os)) = evalop p (vty v) (stk s (v # vs) (t # os))" if "p < 16" for p r
    using evalop_oper(2) [OF _ v vs] that t by auto
  then have "leaves s' 16 (stk s (v # vs) (t # os))" by (intro leaves_trans [OF s'(2) e(2)]) blast
  then show "\<exists>s'. eval_loop False (toks (Unop tp e) @ tps) (stk s vs (t # os)) = eval_loop True tps s' \<and> leaves s' (level (Unop tp e)) (stk s (v # vs) (t # os))"
    using s'(1) eval_prefix [OF tp, of "t # os" "toks e @ tps" s vs] n(1) by auto
qed

lemma scans_Binop:
  assumes a: "scans s a u" "pri (priority (tok_type tp)) < level a" and b: "scans s b w" "pri (priority (tok_type tp)) \<le> level b"
    and tp: "binary_op (tok_type tp)" and v: "oper_val (tok_type tp) u w = Some v"
  shows "scans s (Binop a tp b) v"
proof (rule scansI)
  fix t tps and os :: "toktype list" and vs :: "pvalue list"
  let ?t = "tok_type tp" and ?e = "Binop a tp b"
  assume n: "length os + ops_need ?e < NSTAK" "length vs + vals_need ?e \<le> NSTAK" "pri (priority t) \<le> level ?e"
  have na: "length os + ops_need a < NSTAK" "length vs + vals_need a \<le> NSTAK" "pri (priority t) \<le> level a" using n a(2) by simp_all
  have nb: "length (t # os) + ops_need b < NSTAK" "length (u # vs) + vals_need b \<le> NSTAK" "length (t # os) < NSTAK" "length vs < NSTAK"
    using n by simp_all
  obtain s1 where s1: "eval_loop False (toks a @ tp # toks b @ tps) (stk s vs (t # os)) = eval_loop True (tp # toks b @ tps) s1"
      "leaves s1 (level a) (stk s (u # vs) (t # os))"
    by (rule scansD [OF a(1) na])
  have op: "eval_loop True (tp # toks b @ tps) s1 = eval_loop False (toks b @ tps) (stk s (u # vs) (?t # t # os))"
    using tp n(3) nb(3) leaves_stop [OF s1(2) a(2)] by (intro eval_oper) (auto simp: binary_op_def)
  obtain s2 where s2: "eval_loop False (toks b @ tps) (stk s (u # vs) (?t # t # os)) = eval_loop True tps s2"
      "leaves s2 (level b) (stk s (w # u # vs) (?t # t # os))"
    by (rule scansD [OF b(1) nb(1,2) b(2)])
  have "evalop p r (stk s (w # u # vs) (?t # t # os)) = evalop p (vty v) (stk s (v # vs) (t # os))" if "p < level ?e" for p r
    using evalop_oper(1) [OF _ v nb(4)] binary_op_entry [OF tp] that by auto
  then have "leaves s2 (level ?e) (stk s (v # vs) (t # os))" using b(2) by (intro leaves_trans [OF s2(2)]) auto
  then show "\<exists>s'. eval_loop False (toks ?e @ tps) (stk s vs (t # os)) = eval_loop True tps s' \<and> leaves s' (level ?e) (stk s (v # vs) (t # os))"
    using s1(1) op s2(1) by auto
qed

lemma scans_Cond:
  assumes a: "scans s a u" "5 < level a" and b: "scans s b w" "5 < level b" and d: "scans s d x" "5 \<le> level d"
    and tps: "tok_type q = QUEST" "tok_type c = COLON"
  shows "scans s (Cond a q b c d) (if val u = 0 then x else w)"
proof (rule scansI)
  fix t tps and os :: "toktype list" and vs :: "pvalue list"
  let ?e = "Cond a q b c d" and ?v = "if val u = 0 then x else w"
  assume n: "length os + ops_need ?e < NSTAK" "length vs + vals_need ?e \<le> NSTAK" "pri (priority t) \<le> level ?e"
  have na: "length os + ops_need a < NSTAK" "length vs + vals_need a \<le> NSTAK" "pri (priority t) \<le> level a" using n a(2) by simp_all
  have nb: "length (t # os) + ops_need b < NSTAK" "length (u # vs) + vals_need b \<le> NSTAK" "length (t # os) < NSTAK" "length vs < NSTAK"
    using n by simp_all
  have nd: "length (QUEST # t # os) + ops_need d < NSTAK" "length (w # u # vs) + vals_need d \<le> NSTAK" "length (QUEST # t # os) < NSTAK"
    using n by simp_all
  have pris: "pri (priority QUEST) = 5" "pri (priority COLON) = 5" "binary QUEST" "binary COLON" by (simp_all add: prio_def binary_def)
  obtain s1 where s1: "eval_loop False (toks a @ q # toks b @ c # toks d @ tps) (stk s vs (t # os)) = eval_loop True (q # toks b @ c # toks d @ tps) s1"
      "leaves s1 (level a) (stk s (u # vs) (t # os))"
    by (rule scansD [OF a(1) na])
  have op1: "eval_loop True (q # toks b @ c # toks d @ tps) s1 = eval_loop False (toks b @ c # toks d @ tps) (stk s (u # vs) (QUEST # t # os))"
    using eval_oper [of q "t # os" s1 s "u # vs"] tps(1) n(3) nb(3) leaves_stop [OF s1(2) a(2)] pris by auto
  obtain s2 where s2: "eval_loop False (toks b @ c # toks d @ tps) (stk s (u # vs) (QUEST # t # os)) = eval_loop True (c # toks d @ tps) s2"
      "leaves s2 (level b) (stk s (w # u # vs) (QUEST # t # os))"
    by (rule scansD [OF b(1) nb(1,2), of QUEST]) (use b(2) pris in simp_all)
  have op2: "eval_loop True (c # toks d @ tps) s2 = eval_loop False (toks d @ tps) (stk s (w # u # vs) (COLON # QUEST # t # os))"
    using eval_oper [of c "QUEST # t # os" s2 s "w # u # vs"] tps(2) nd(3) leaves_stop [OF s2(2) b(2)] pris by auto
  obtain s3 where s3: "eval_loop False (toks d @ tps) (stk s (w # u # vs) (COLON # QUEST # t # os)) = eval_loop True tps s3"
      "leaves s3 (level d) (stk s (x # w # u # vs) (COLON # QUEST # t # os))"
    by (rule scansD [OF d(1) nd(1,2), of COLON]) (use d(2) pris in simp_all)
  have "leaves s3 (level ?e) (stk s (?v # vs) (t # os))"
    using d(2) nb(4) by (intro leaves_trans [OF s3(2)] evalop_cond) auto
  then show "\<exists>s'. eval_loop False (toks ?e @ tps) (stk s vs (t # os)) = eval_loop True tps s' \<and> leaves s' (level ?e) (stk s (?v # vs) (t # os))"
    using s1(1) op1 s2(1) op2 s3(1) by auto
qed

lemma scans_Paren:
  assumes e: "scans s e v" "5 \<le> level e" and tps: "tok_type l = LP" "tok_type r = RP"
  shows "scans s (Paren l e r) v"
proof (rule scansI)
  fix t tps and os :: "toktype list" and vs :: "pvalue list"
  let ?e = "Paren l e r"
  assume n: "length os + ops_need ?e < NSTAK" "length vs + vals_need ?e \<le> NSTAK"
  have pris: "pri (priority LP) = 3" by (simp add: prio_def)
  obtain s1 where s1: "eval_loop False (toks e @ r # tps) (stk s vs (LP # t # os)) = eval_loop True (r # tps) s1"
      "leaves s1 (level e) (stk s (v # vs) (LP # t # os))"
    using scansD [OF e(1), of "t # os" vs LP "r # tps"] n e(2) pris by auto
  have "eval_loop True (r # tps) s1 = eval_loop True tps (stk s (v # vs) (t # os))"
    using leaves_stop [OF s1(2), of 3] e(2) pris by (intro eval_close tps) auto
  moreover have "leaves s' k s'" for s' :: "'a evaluator_scheme" and k by (auto simp: leaves_def)
  ultimately show "\<exists>s'. eval_loop False (toks ?e @ tps) (stk s vs (t # os)) = eval_loop True tps s' \<and> leaves s' (level ?e) (stk s (v # vs) (t # os))"
    using s1(1) eval_open [OF tps(1), of "t # os" "toks e @ r # tps" s vs] n by auto
qed

lemma scans_expr: "well_formed e \<Longrightarrow> ceval s e = Some v \<Longrightarrow> scans s e v"
proof (induction e arbitrary: v)
  case (Cond a q b c d)
  then obtain u w x where "ceval s a = Some u" "ceval s b = Some w" "ceval s d = Some x" "v = (if val u = 0 then x else w)"
    by (auto simp: bind_eq_Some_conv split: if_splits)
  then show ?case using Cond level_pos [of d] scans_Cond [of s a u b w d x q c] by auto
qed (auto simp: bind_eq_Some_conv intro: scans_Leaf scans_Unop scans_Binop scans_Paren level_pos)

section \<open>Lines\<close>

definition blank :: "token \<Rightarrow> bool" where
  "blank tp \<longleftrightarrow> tok_type tp = WS \<or> tok_type tp = NL"

lemma eval_loop_blank: "eval_loop rand (filter (\<lambda>tp. \<not> blank tp) tps) = eval_loop rand tps"
proof (induction tps arbitrary: rand)
  case (Cons tp tps)
  show ?case
  proof (cases "blank tp")
    case True
    then show ?thesis using Cons by (auto simp: eval_loop.simps(2) blank_def)
  next
    case False
    then have "filter (\<lambda>tp. \<not> blank tp) (tp # tps) = tp # filter (\<lambda>tp. \<not> blank tp) tps" by simp
    then show ?thesis by (simp only: eval_loop.simps(2) Cons.IH)
  qed
qed simp

lemma eval_row_expr:
  assumes e: "filter (\<lambda>tp. \<not> blank tp) tps = toks e" "well_formed e" and v: "ceval s e = Some v"
    and n: "ops_need e < NSTAK" "vals_need e \<le> NSTAK"
  shows "eval_row tps s =
    seqS (whenS (vty v = UND) (error ERROR ''Undefined expression value'')) (returnS (val v)) (s\<lparr>vals := [v], ops := [END]\<rparr>)"
proof -
  have sc: "scans s e v" using e(2) v by (rule scans_expr)
  obtain s' where s': "eval_loop False (toks e @ []) (stk s [] [END]) = eval_loop True [] s'" "leaves s' (level e) (stk s [v] [END])"
    by (rule scansD [OF sc, of "[]" "[]" END "[]"]) (use n in \<open>simp_all add: prio_def\<close>)
  have "evalop 0 SGN s' = Ret (0, stk s [v] [END])"
    using leaves_stop [OF s'(2), of 0] level_pos [OF e(2)] by (simp add: prio_def)
  then have "eval_loop True [] s' = seqS (whenS (vty v = UND) (error ERROR ''Undefined expression value'')) (returnS (val v)) (stk s [v] [END])"
    by (simp add: eval_loop.simps eval_end_def reduce_def bindS_def prio_def)
  moreover have "eval_row tps s = eval_loop False (toks e) (stk s [] [END])"
    unfolding e(1) [symmetric] eval_loop_blank by (simp add: eval_row_def seqS_def bindS_def putS_def stk_def)
  ultimately show ?thesis using s'(1) by (simp add: stk_def)
qed

text \<open>
  Claim C10: a condition that is written as a well-formed expression, with any white space between
  its tokens, evaluates to the value of the expression, with a message when the value is
  undefined, as long as the expression fits on the stacks.
\<close>

theorem eval_row_value:
  assumes "filter (\<lambda>tp. \<not> blank tp) tps = toks e" "well_formed e" "ceval s e = Some v" "ops_need e < NSTAK" "vals_need e \<le> NSTAK"
  shows "eval_row tps s =
    (let s' = s\<lparr>vals := [v], ops := [END]\<rparr> in
     Ret (val v, if vty v = UND then s'\<lparr>messages := messages s @ [(ERROR, ''Undefined expression value'')], nerrs := 1\<rparr> else s'))"
  using eval_row_expr [OF assms] by (simp add: Let_def cfun_defs error_def del: bindS_Ret)

definition op_token :: "toktype \<Rightarrow> token" where
  "op_token t = (name_token [])\<lparr>tok_type := t\<rparr>"

definition number_token :: "string \<Rightarrow> token" where
  "number_token str = (name_token str)\<lparr>tok_type := NUMBER\<rparr>"

lemmas demo_token_defs = op_token_def number_token_def name_token_def

text \<open>The condition 10 \% 4 == 0x2 \&\& !X\<close>

definition demo_expr :: cexpr where
  "demo_expr =
     Binop (Binop (Binop (Leaf (number_token ''10'')) (op_token PCT) (Leaf (number_token ''4''))) (op_token EQ) (Leaf (number_token ''0x2'')))
       (op_token LAND) (Unop (op_token NOTt) (Leaf (name_token ''X'')))"

definition demo_evaluator :: evaluator where
  "demo_evaluator = names.extend no_names \<lparr>vals = [], ops = []\<rparr>"

lemma demo_literals:
  "literal s (number_token ''10'') = Some \<lparr>val = 10, vty = SGN\<rparr>" "literal s (number_token ''4'') = Some \<lparr>val = 4, vty = SGN\<rparr>"
  "literal s (number_token ''0x2'') = Some \<lparr>val = 2, vty = SGN\<rparr>" "literal s (name_token ''X'') = Some \<lparr>val = 0, vty = SGN\<rparr>"
  by (simp_all add: literal_def demo_token_defs number_literal_def c_prefix_def number_base_def digit_def numeral_2_eq_2 slong_def)

lemma demo_expr_value: "ceval demo_evaluator demo_expr = Some \<lparr>val = 1, vty = SGN\<rparr>"
  by (simp add: demo_expr_def demo_literals oper_val_def convert_def arith_type_def apply_oper_def of_bool_val_def prio_def
      op_token_def prefix_op_def chk_long_def long_def signed_divide_int_def signed_modulo_int_def)

theorem eval_row_value_witness:
  "eval_row (toks demo_expr) demo_evaluator = Ret (1, demo_evaluator\<lparr>vals := [\<lparr>val = 1, vty = SGN\<rparr>], ops := [END]\<rparr>)"
  using eval_row_value [of "toks demo_expr" demo_expr, OF _ _ demo_expr_value]
  by (simp add: demo_expr_def blank_def demo_token_defs binary_op_def binary_def unary_binary_def nilary_def unary_def prio_def NSTAK_def)

end
