(* ===== verification/CPP_Eval_Safe.thy ===== *)
theory CPP_Eval_Safe
  imports CPP_Expr
begin

text \<open>
  The stacks of the evaluator: for every row of tokens, right or wrong, the value stack holds one
  value for each binary operator on the operator stack, and one more after an operand, so that no
  reduction reads below its start.  The operator stack is not checked when it grows.
\<close>

section \<open>The balance of the stacks\<close>

definition nbin :: "toktype list \<Rightarrow> nat" where
  "nbin os = length (filter (\<lambda>t. arity (priority t) = 2) os)"

text \<open>The operators whose evaluation is defined for all operands.\<close>

definition calm :: "toktype \<Rightarrow> bool" where
  "calm t \<longleftrightarrow> t \<in> {EQ, NEQ, LEQ, GEQ, LT, GT, LAND, LOR, LP, ANDt, ORt, CIRC, TILDE, NOTt, QUEST, COLON, COMMA, DEFINED}"

text \<open>k values more than binary operators; at most n operators and m values.\<close>

definition balanced :: "nat \<Rightarrow> nat \<Rightarrow> nat \<Rightarrow> 'a evaluator_scheme \<Rightarrow> bool" where
  "balanced k n m s \<longleftrightarrow> length (vals s) = nbin (ops s) + k \<and> length (vals s) \<le> m \<and> length (ops s) \<le> n \<and>
     (\<exists>os. ops s = os @ [END] \<and> (\<forall>t \<in> set os. calm t))"

lemma nbin_simps [simp]:
  "nbin [] = 0" "nbin (t # os) = (if arity (priority t) = 2 then 1 else 0) + nbin os" "nbin (os @ os') = nbin os + nbin os'"
  by (simp_all add: nbin_def)

lemma triple_error: "triple (balanced k n m) (error ty msg) (\<lambda>_. balanced k n m)"
  by (auto simp: triple_def error_def balanced_def split: if_splits)

lemma triple_popv: "triple (balanced (Suc k) n (Suc m)) popv (\<lambda>_. balanced k n m)"
  by (auto simp: triple_def popv_def balanced_def split: list.splits)

lemma triple_pushv: "triple (balanced k n m) (pushv v) (\<lambda>_. balanced (Suc k) n (Suc m))"
  by (auto simp: triple_def pushv_def putS_def balanced_def)

lemma triple_pushop:
  assumes "calm t" "n < NSTAK"
  shows "triple (balanced (if arity (priority t) = 2 then Suc k else k) n m) (pushop t) (\<lambda>_. balanced k (Suc n) m)"
proof -
  have "\<exists>os'. t # os @ [END] = os' @ [END] \<and> (\<forall>t \<in> set os'. calm t)" if "\<forall>t \<in> set os. calm t" for os
    using that assms(1) by (intro exI [of _ "t # os"]) auto
  then show ?thesis using assms(2) by (auto simp: triple_def pushop_def balanced_def split: if_splits)
qed

lemma triple_topop: "triple (balanced k n m) topop (\<lambda>t s. balanced k n m s \<and> t = hd (ops s))"
  by (auto simp: triple_def topop_def balanced_def split: list.splits)

lemma triple_popop:
  assumes "t \<noteq> END"
  shows "triple (\<lambda>s. balanced k n m s \<and> t = hd (ops s)) popop
    (\<lambda>t' s. t' = t \<and> calm t \<and> balanced (if arity (priority t) = 2 then Suc k else k) n m s)"
  unfolding triple_def
proof (intro allI impI)
  fix s :: "'a evaluator_scheme" assume s: "balanced k n m s \<and> t = hd (ops s)"
  then obtain os where os: "ops s = os @ [END]" "\<forall>t \<in> set os. calm t" by (auto simp: balanced_def)
  then obtain os' where os': "ops s = t # os' @ [END]" "calm t" "\<forall>t \<in> set os'. calm t" using s assms by (cases os) auto
  then have "popop s = Ret (t, s\<lparr>ops := os' @ [END]\<rparr>)" by (simp add: popop_ops)
  moreover have "balanced (if arity (priority t) = 2 then Suc k else k) n m (s\<lparr>ops := os' @ [END]\<rparr>)"
    using s os' by (auto simp: balanced_def)
  ultimately show "popop s \<noteq> Undef \<and> popop s \<noteq> Abort \<and>
      (\<forall>a s'. popop s = Ret (a, s') \<longrightarrow> a = t \<and> calm t \<and> balanced (if arity (priority t) = 2 then Suc k else k) n m s')"
    using os'(2) by simp
qed

lemma triple_push_result: "m < NSTAK \<Longrightarrow> triple (balanced 0 n m) (push_result v) (\<lambda>r s. \<exists>ty. r = Inr ty \<and> balanced 1 n NSTAK s)"
  by (auto simp: triple_def push_result_def balanced_def cfun_defs pushv_def simp del: bindS_Ret)

lemma triple_conditional:
  "triple (balanced 0 n (Suc m)) (conditional v1 v2 rtype) (\<lambda>_. balanced 0 n (Suc m))"
  unfolding conditional_def
proof (rule triple_bind [OF triple_topop], rule triple_if)
  fix t
  show "triple (\<lambda>s. balanced 0 n (Suc m) s \<and> t = hd (ops s))
      (seqS (error ERROR ''Bad ?: in #if/endif'') (returnS \<lparr>val = val v1, vty = rtype\<rparr>)) (\<lambda>_. balanced 0 n (Suc m))"
    by (rule triple_conseq [OF triple_seq [OF triple_error triple_return]]) auto
  assume "\<not> t \<noteq> QUEST"
  then have t: "t \<noteq> END" "arity (priority t) = 2" by (simp_all add: prio_def)
  show "triple (\<lambda>s. balanced 0 n (Suc m) s \<and> t = hd (ops s))
      (seqS popop (bindS popv (\<lambda>v. returnS (if val v = 0 then v2 else v1)))) (\<lambda>_. balanced 0 n (Suc m))"
    unfolding seqS_def
    by (rule triple_bind [OF triple_popop [OF t(1)]], rule triple_conseq [OF triple_bind [OF triple_popv [of 0 n m] triple_return]])
       (use t(2) in \<open>auto simp: balanced_def\<close>)
qed

lemma calm_apply: "calm t \<Longrightarrow> apply_oper t u v1 v2 r = Some out \<Longrightarrow> \<exists>v. out = Ret v"
  unfolding calm_def by (elim insertE emptyE; auto simp: apply_oper_def of_bool_val_def Let_def split: if_splits)

text \<open>A round ends with value 1, or goes on with the stacks in balance.\<close>

definition goes_on :: "nat \<Rightarrow> int + vtype \<Rightarrow> 'a evaluator_scheme \<Rightarrow> bool" where
  "goes_on n r s \<longleftrightarrow> (case r of Inl i \<Rightarrow> i = 1 | Inr _ \<Rightarrow> balanced 1 n NSTAK s)"

lemma triple_operands:
  "triple (balanced 2 n NSTAK) popv (\<lambda>_. balanced 1 n NSTAK)" "triple (balanced 1 n NSTAK) popv (\<lambda>_. balanced 0 n 31)"
  by (rule triple_conseq [OF triple_popv [of 1 n 31]], auto simp: NSTAK_def balanced_def)
     (rule triple_conseq [OF triple_popv [of 0 n 31]], auto simp: NSTAK_def balanced_def)

lemma triple_lift: "triple P (f v) Q \<Longrightarrow> triple P (bindS (lift_out (Ret v)) f) Q"
  by (simp add: triple_def bindS_def lift_out_def)

lemma triple_push: "triple (balanced 0 n 31) (push_result v) (goes_on n)"
  by (rule triple_conseq [OF triple_push_result [of 31 n v]]) (auto simp: NSTAK_def goes_on_def)

lemma triple_choose: "triple (balanced 0 n 31) (bindS (conditional v1 v2 r) push_result) (goes_on n)"
  by (rule triple_bind [OF _ triple_push], rule triple_conseq [OF triple_conditional [of n 30]]) auto

lemma triple_message: "triple (balanced 0 n 31) (seqS (error ty msg) (returnS (Inl 1))) (goes_on n)"
  by (rule triple_seq [OF triple_error triple_return]) (simp add: goes_on_def)

lemma triple_perform:
  assumes "calm t"
  shows "triple (balanced (if arity (priority t) = 2 then 2 else 1) n NSTAK) (perform_oper t rtype) (goes_on n)"
  unfolding perform_oper_def Let_def
proof (rule triple_bind)
  show "triple (balanced (if arity (priority t) = 2 then 2 else 1) n NSTAK) (if arity (priority t) = 2 then popv else returnS \<lparr>val = 0, vty = SGN\<rparr>)
      (\<lambda>_. balanced 1 n NSTAK)"
    by (cases "arity (priority t) = 2") (simp_all only: triple_operands triple_return refl if_True if_False)
  have "triple (balanced 0 n 31) (bindS (lift_out out) push_result) (goes_on n)"
    if "apply_oper t u v1 v2 r = Some out" for u v1 v2 r out
    using calm_apply [OF assms that] by (auto intro: triple_lift triple_push)
  then show "triple (balanced 1 n NSTAK) (bindS popv (\<lambda>v1. if ctype (priority t) = NOCONV
      then seqS (error WARNING ''Syntax error in #if/#endif'') (returnS (Inl 1))
      else case convert (ctype (priority t)) (vty v1) (vty v2) rtype of (rtype, uns) \<Rightarrow>
        if t = COLON then bindS (conditional v1 v2 rtype) push_result
        else case apply_oper t uns v1 v2 rtype of
           None \<Rightarrow> seqS (error ERROR ''Eval botch (unknown operator)'') (returnS (Inl 1))
         | Some r \<Rightarrow> bindS (lift_out r) push_result)) (goes_on n)" for v2
    by (intro triple_bind [OF triple_operands(2)]) (auto simp: case_prod_unfold triple_message triple_choose split: option.split)
qed

lemma triple_round:
  assumes "t \<noteq> END"
  shows "triple (\<lambda>s. balanced 1 n NSTAK s \<and> t = hd (ops s)) (evalop_round rtype) (goes_on n)"
proof -
  have "triple (\<lambda>s. t' = t \<and> calm t \<and> balanced (if arity (priority t) = 2 then Suc 1 else 1) n NSTAK s) (perform_oper t' rtype) (goes_on n)" for t'
    using triple_perform [of t n rtype] by (auto simp: triple_def numeral_2_eq_2)
  then show ?thesis unfolding evalop_round_def by (rule triple_bind [OF triple_popop [OF assms]])
qed

lemma evalop_balanced:
  "balanced 1 n NSTAK s \<Longrightarrow> evalop p rtype s \<noteq> Undef \<and> evalop p rtype s \<noteq> Abort \<and>
    (\<forall>s'. evalop p rtype s = Ret (0, s') \<longrightarrow> balanced 1 n NSTAK s')"
proof (induction p rtype s rule: evalop.induct)
  case (1 p rtype s)
  then obtain t os where t: "ops s = t # os" by (cases "ops s") (auto simp: balanced_def)
  then have top: "topop s = Ret (t, s)" by (simp add: topop_def)
  show ?case
  proof (cases "p < pri (priority t)")
    case False
    then have "evalop p rtype s = Ret (0, s)" by (simp add: evalop_top [OF t])
    then show ?thesis using 1(2) by simp
  next
    case True
    then have "t \<noteq> END" by (auto simp: prio_def)
    then have round: "evalop_round rtype s \<noteq> Undef" "evalop_round rtype s \<noteq> Abort"
       "\<And>r s'. evalop_round rtype s = Ret (r, s') \<Longrightarrow> goes_on n r s'"
      using triple_round [of t n rtype] 1(2) t by (auto simp: triple_def)
    have eq: "evalop p rtype s = bindS (evalop_round rtype) (\<lambda>r s. case r of Inl i \<Rightarrow> Ret (i, s) | Inr rtype \<Rightarrow> evalop p rtype s) s"
      using True by (simp add: evalop_top [OF t])
    show ?thesis
    proof (cases "evalop_round rtype s")
      case (Ret x)
      then obtain r s' where r: "evalop_round rtype s = Ret (r, s')" by (cases x) auto
      then show ?thesis using 1(1) [OF top True r] round(3) [OF r] eq by (cases r) (auto simp: bindS_def goes_on_def)
    qed (use round eq in \<open>auto simp: bindS_def\<close>)
  qed
qed

section \<open>Rows of tokens\<close>

definition harmless :: "token \<Rightarrow> bool" where
  "harmless tp \<longleftrightarrow> tok_type tp \<notin> {CCON, PLUS, MINUS, STAR, SLASH, PCT, LSH, RSH}"

lemma triple_scan_number: "triple (balanced k n m) (scan_number tp base p w) (\<lambda>_. balanced k n m)"
  by (induction p arbitrary: w) (auto intro!: triple_return triple_seq [OF triple_when] triple_error)

lemma triple_scan_suffix: "triple (balanced k n m) (scan_suffix tp p ty) (\<lambda>_. balanced k n m)"
  by (induction p arbitrary: ty) (auto intro!: triple_return triple_seq triple_error)

lemma triple_get_keep: "triple P (getS f) (\<lambda>_. P)"
  by (simp add: triple_def getS_def)

lemma triple_tokval:
  assumes "harmless tp"
  shows "triple (balanced k n m) (tokval tp) (\<lambda>_. balanced k n m)"
proof -
  have "triple (balanced k n m) (number_val tp) (\<lambda>_. balanced k n m)"
    unfolding number_val_def Let_def
    by (cases "number_base (c_prefix (tok_len tp) (tok_t tp))")
       (auto intro!: triple_bind [OF triple_scan_number] triple_bind [OF triple_scan_suffix] triple_return simp: case_prod_unfold)
  then show ?thesis using assms
    by (auto simp: tokval_def harmless_def intro!: triple_return triple_seq [OF triple_error] triple_get_keep
        split: toktype.split)
qed

lemma triple_reduce: "triple (balanced 1 n NSTAK) (reduce t) (\<lambda>r s. r = 0 \<longrightarrow> balanced 1 n NSTAK s)"
  using evalop_balanced unfolding triple_def reduce_def by blast

lemma triple_any: "triple P m Q \<Longrightarrow> triple P m (\<lambda>_ _. True)"
  by (auto simp: triple_def)

lemma triple_syntax_error: "triple (balanced k n m) syntax_error (\<lambda>_ _. True)"
  unfolding syntax_error_def by (rule triple_seq [OF triple_error triple_return]) simp

lemma triple_eval_end: "triple (balanced 1 n NSTAK) eval_end (\<lambda>_ _. True)"
proof -
  have "triple (\<lambda>s. r = 0 \<longrightarrow> balanced 1 n NSTAK s)
      (if r \<noteq> 0 then returnS 0
       else (\<lambda>s. if length (ops s) \<noteq> 1 \<or> length (vals s) \<noteq> 1 then seqS (error ERROR ''Botch in #if/#elsif'') (returnS 0) s
         else seqS (whenS (vty (hd (vals s)) = UND) (error ERROR ''Undefined expression value'')) (returnS (val (hd (vals s)))) s))
      (\<lambda>_ _. True)" for r :: int
    by (auto simp: triple_def cfun_defs error_def simp del: bindS_Ret)
  then show ?thesis unfolding eval_end_def by (rule triple_bind [OF triple_reduce])
qed

lemma harmless_kinds:
  "harmless tp \<Longrightarrow> unary (tok_type tp) \<Longrightarrow> calm (tok_type tp) \<and> arity (priority (tok_type tp)) \<noteq> 2"
  "harmless tp \<Longrightarrow> unary_binary (tok_type tp) \<or> binary (tok_type tp) \<Longrightarrow> calm (tok_type tp) \<and> arity (priority (tok_type tp)) = 2"
  by (auto simp: harmless_def unary_def unary_binary_def binary_def calm_def prio_def)

lemma triple_operand:
  assumes "harmless tp" "triple (balanced 1 n NSTAK) next (\<lambda>_ _. True)"
  shows "triple (balanced 0 n NSTAK) (bindS (getS (\<lambda>s. length (vals s))) (\<lambda>k.
      if k = NSTAK then seqS (error ERROR ''Eval botch (stack overflow)'') (returnS 0)
      else bindS (tokval tp) (\<lambda>v. seqS (pushv v) next))) (\<lambda>_ _. True)"
proof (rule triple_bind [OF triple_get], rule triple_if)
  fix k
  show "triple (\<lambda>s. balanced 0 n NSTAK s \<and> k = length (vals s)) (seqS (error ERROR ''Eval botch (stack overflow)'') (returnS 0)) (\<lambda>_ _. True)"
    by (rule triple_conseq [OF triple_seq [OF triple_error [of 0 n NSTAK] triple_return]]) auto
  assume k: "k \<noteq> NSTAK"
  have "triple (balanced 0 n 31) (bindS (tokval tp) (\<lambda>v. seqS (pushv v) next)) (\<lambda>_ _. True)"
    by (rule triple_bind [OF triple_tokval [OF assms(1)]], rule triple_seq [OF triple_conseq [OF triple_pushv]])
       (use assms(2) in \<open>auto simp: NSTAK_def\<close>)
  then show "triple (\<lambda>s. balanced 0 n NSTAK s \<and> k = length (vals s)) (bindS (tokval tp) (\<lambda>v. seqS (pushv v) next)) (\<lambda>_ _. True)"
    by (rule triple_conseq) (use k in \<open>auto simp: balanced_def NSTAK_def\<close>)
qed

lemma triple_operator:
  assumes t: "calm t" "arity (priority t) = 2" and n: "n < NSTAK" and rest: "triple (balanced 0 (Suc n) NSTAK) next (\<lambda>_ _. True)"
  shows "triple (balanced 1 n NSTAK) (bindS (reduce t) (\<lambda>r. if r \<noteq> 0 then returnS 0 else seqS (pushop t) next)) (\<lambda>_ _. True)"
proof (rule triple_bind [OF triple_reduce], rule triple_if)
  fix r :: int
  show "triple (\<lambda>s. r = 0 \<longrightarrow> balanced 1 n NSTAK s) (returnS 0) (\<lambda>_ _. True)" by (rule triple_return) simp
  have "triple (balanced 1 n NSTAK) (pushop t) (\<lambda>_. balanced 0 (Suc n) NSTAK)" using triple_pushop [OF t(1) n, of 0] t(2) by simp
  from triple_seq [OF this rest] show "\<not> r \<noteq> 0 \<Longrightarrow> triple (\<lambda>s. r = 0 \<longrightarrow> balanced 1 n NSTAK s) (seqS (pushop t) next) (\<lambda>_ _. True)"
    by (rule triple_conseq) auto
qed

lemma triple_closing:
  assumes "triple (balanced 1 n NSTAK) next (\<lambda>_ _. True)"
  shows "triple (balanced 1 n NSTAK) (bindS (reduce RP) (\<lambda>r. if r \<noteq> 0 then returnS 0
      else bindS (getS (\<lambda>s. ops s = [] \<or> hd (ops s) \<noteq> LP)) (\<lambda>bad. if bad then syntax_error else seqS popop next))) (\<lambda>_ _. True)"
proof (rule triple_bind [OF triple_reduce], rule triple_if)
  fix r :: int
  show "triple (\<lambda>s. r = 0 \<longrightarrow> balanced 1 n NSTAK s) (returnS 0) (\<lambda>_ _. True)" by (rule triple_return) simp
  have lp: "arity (priority LP) \<noteq> 2" by (simp add: prio_def)
  have "triple (\<lambda>s. balanced 1 n NSTAK s \<and> LP = hd (ops s)) (seqS popop next) (\<lambda>_ _. True)"
    unfolding seqS_def
    by (rule triple_bind [OF triple_popop], simp, rule triple_conseq [OF assms]) (use lp in auto)
  then have "triple (\<lambda>s. balanced 1 n NSTAK s \<and> bad = (ops s = [] \<or> hd (ops s) \<noteq> LP)) (if bad then syntax_error else seqS popop next) (\<lambda>_ _. True)" for bad
    by (intro triple_if triple_conseq [OF triple_syntax_error [of 1 n NSTAK]]) (auto elim!: triple_conseq)
  then have "triple (balanced 1 n NSTAK) (bindS (getS (\<lambda>s. ops s = [] \<or> hd (ops s) \<noteq> LP)) (\<lambda>bad. if bad then syntax_error else seqS popop next)) (\<lambda>_ _. True)"
    by (rule triple_bind [OF triple_get])
  then show "\<not> r \<noteq> 0 \<Longrightarrow> triple (\<lambda>s. r = 0 \<longrightarrow> balanced 1 n NSTAK s)
      (bindS (getS (\<lambda>s. ops s = [] \<or> hd (ops s) \<noteq> LP)) (\<lambda>bad. if bad then syntax_error else seqS popop next)) (\<lambda>_ _. True)"
    by (rule triple_conseq) auto
qed

lemma triple_eval_loop:
  "\<forall>tp \<in> set tps. harmless tp \<Longrightarrow> n + length tps \<le> NSTAK \<Longrightarrow>
   triple (balanced (if rand then 1 else 0) n NSTAK) (eval_loop rand tps) (\<lambda>_ _. True)"
proof (induction tps arbitrary: rand n)
  case Nil
  show ?case
    using triple_syntax_error [of 0 n NSTAK] triple_eval_end [of n] by (cases rand) (simp_all add: eval_loop.simps)
next
  case (Cons tp tps)
  let ?t = "tok_type tp"
  have tp: "harmless tp" and n: "n < NSTAK" using Cons.prems by auto
  have same: "triple (balanced (if rand then 1 else 0) n NSTAK) (eval_loop rand tps :: (int, 'a evaluator_scheme) cfun) (\<lambda>_ _. True)" for rand
    by (rule Cons.IH) (use Cons.prems in auto)
  have more: "triple (balanced (if rand then 1 else 0) (Suc n) NSTAK) (eval_loop rand tps :: (int, 'a evaluator_scheme) cfun) (\<lambda>_ _. True)" for rand
    by (rule Cons.IH) (use Cons.prems in auto)
  have message: "triple (balanced k n NSTAK) (seqS (error ERROR msg) (returnS 0) :: (int, 'a evaluator_scheme) cfun) (\<lambda>_ _. True)" for k msg
    by (rule triple_seq [OF triple_error triple_return]) simp
  have syntx: "triple (balanced (if rand then 1 else 0) n NSTAK) (syntax_error :: (int, 'a evaluator_scheme) cfun) (\<lambda>_ _. True)" by (rule triple_syntax_error)
  have prefix: "triple (balanced 0 n NSTAK) (seqS (pushop t) (eval_loop False tps) :: (int, 'a evaluator_scheme) cfun) (\<lambda>_ _. True)" if "calm t" "arity (priority t) \<noteq> 2" for t
    using triple_seq [OF triple_pushop [OF that(1) n, of 0] more [of False, unfolded if_False]] that(2) by simp
  have lp: "calm LP \<and> arity (priority LP) \<noteq> 2" by (simp add: calm_def prio_def)
  show ?case
  proof (cases rand)
    case True
    have operator: "triple (balanced 1 n NSTAK)
        (bindS (reduce ?t) (\<lambda>r. if r \<noteq> 0 then returnS 0 else seqS (pushop ?t) (eval_loop False tps)) :: (int, 'a evaluator_scheme) cfun) (\<lambda>_ _. True)"
      if "unary_binary ?t \<or> binary ?t"
      using harmless_kinds(2) [OF tp that] by (intro triple_operator n) (use more [of False] in \<open>simp_all\<close>)
    show ?thesis using True syntx same [of True] operator triple_closing [OF same [of True, unfolded if_True]] message [of 1]
      by (simp add: eval_loop.simps Let_def)
  next
    case False
    have "triple (balanced 0 n NSTAK) (seqS (pushop ?t) (eval_loop False tps) :: (int, 'a evaluator_scheme) cfun) (\<lambda>_ _. True)" if "unary ?t"
      using harmless_kinds(1) [OF tp that] prefix by blast
    moreover have "triple (balanced 0 n NSTAK) (seqS (pushop LP) (eval_loop False tps) :: (int, 'a evaluator_scheme) cfun) (\<lambda>_ _. True)"
      using lp prefix by blast
    moreover have "?t \<noteq> MINUS" using tp by (auto simp: harmless_def)
    ultimately show ?thesis using False syntx same [of False] triple_operand [OF tp same [of True, unfolded if_True]] message [of 0]
      by (simp add: eval_loop.simps Let_def)
  qed
qed

text \<open>
  Claim C25: on a row of at most 31 tokens without arithmetic operators and character constants,
  however malformed, the evaluator does not leave its stacks and ends with a value.
\<close>

theorem eval_row_safe:
  fixes s :: "'a evaluator_scheme"
  assumes "\<forall>tp \<in> set tps. harmless tp" "length tps < NSTAK"
  shows "eval_row tps s \<noteq> Undef \<and> eval_row tps s \<noteq> Abort"
proof -
  have "balanced 0 1 NSTAK (s\<lparr>vals := [], ops := [END]\<rparr>)" by (simp add: balanced_def prio_def)
  moreover have "triple (balanced 0 1 NSTAK) (eval_loop False tps :: (int, 'a evaluator_scheme) cfun) (\<lambda>_ _. True)"
    by (rule triple_eval_loop [of tps 1 False, unfolded if_False]) (use assms in simp_all)
  ultimately show ?thesis by (simp add: triple_def eval_row_def seqS_def bindS_def putS_def)
qed

theorem eval_row_safe_witness:
  "eval_row [op_token RP, op_token QUEST, name_token ''X''] demo_evaluator \<noteq> Undef \<and>
   eval_row [op_token RP, op_token QUEST, name_token ''X''] demo_evaluator \<noteq> Abort"
  by (rule eval_row_safe) (simp_all add: harmless_def demo_token_defs NSTAK_def)

lemma eval_prefixes_overflow:
  assumes "\<forall>tp \<in> set pre. unary (tok_type tp) \<or> tok_type tp = MINUS \<or> tok_type tp = LP" "NSTAK < length os + length pre" "length os \<le> NSTAK"
  shows "eval_loop False (pre @ tps) (stk s vs os) = Undef"
  using assms
proof (induction pre arbitrary: os)
  case (Cons tp pre)
  let ?t = "if tok_type tp = LP then LP else prefix_op (tok_type tp)"
  have tp: "unary (tok_type tp) \<or> tok_type tp = MINUS \<or> tok_type tp = LP" using Cons.prems(1) by simp
  then have step: "eval_loop False ((tp # pre) @ tps) = seqS (pushop ?t) (eval_loop False (pre @ tps))"
    using token_kinds(2) [of "tok_type tp"]
    by (auto simp: eval_loop.simps Let_def prefix_op_def nilary_def unary_def unary_binary_def binary_def)
  show ?case
  proof (cases "length os < NSTAK")
    case True
    then show ?thesis using Cons.IH [of "?t # os"] Cons.prems unfolding step by (simp add: seqS_def bindS_def stack_steps)
  next
    case False
    then show ?thesis unfolding step by (simp add: seqS_def bindS_def pushop_def)
  qed
qed simp

text \<open>
  32 or more operators or parentheses before the first operand overrun the operator
  stack, which is not checked.
\<close>

lemma eval_row_overflow:
  assumes "\<forall>tp \<in> set pre. unary (tok_type tp) \<or> tok_type tp = MINUS \<or> tok_type tp = LP" "NSTAK \<le> length pre"
  shows "eval_row (pre @ tps) s = Undef"
  using eval_prefixes_overflow [OF assms(1), of "[END]" tps s "[]"] assms(2)
  by (simp add: eval_row_def seqS_def bindS_def putS_def stk_def NSTAK_def)

lemma literal_nilary: "literal s tp = Some v \<Longrightarrow> nilary (tok_type tp)"
  by (auto simp: literal_def nilary_def split: toktype.splits)

text \<open>
  Claim C26: operators of the same priority associate to the right, also where C associates to the
  left: a - b - c evaluates to a - (b - c).
\<close>

theorem minus_associates_right:
  assumes lit: "literal s a = Some \<lparr>val = x, vty = SGN\<rparr>" "literal s b = Some \<lparr>val = y, vty = SGN\<rparr>" "literal s c = Some \<lparr>val = z, vty = SGN\<rparr>"
    and op: "tok_type m = MINUS" "tok_type m' = MINUS" and r: "long (y - z)" "long (x - (y - z))"
  shows "eval_row [a, m, b, m', c] s = Ret (x - (y - z), s\<lparr>vals := [\<lparr>val = x - (y - z), vty = SGN\<rparr>], ops := [END]\<rparr>)"
proof -
  let ?e = "Binop (Leaf a) m (Binop (Leaf b) m' (Leaf c))"
  have minus: "oper_val MINUS \<lparr>val = u, vty = SGN\<rparr> \<lparr>val = w, vty = SGN\<rparr> = Some \<lparr>val = u - w, vty = SGN\<rparr>" if "long (u - w)" for u w
    using that by (simp add: oper_val_def convert_def arith_type_def apply_oper_def long_val_def chk_long_def prio_def)
  have nil: "nilary (tok_type a)" "nilary (tok_type b)" "nilary (tok_type c)" using lit by (auto dest: literal_nilary)
  then have "filter (\<lambda>tp. \<not> blank tp) [a, m, b, m', c] = toks ?e"
    using op token_kinds(1) by (simp add: blank_def)
  moreover have "well_formed ?e" using nil op by (simp add: binary_op_def unary_binary_def prio_def)
  moreover have "ceval s ?e = Some \<lparr>val = x - (y - z), vty = SGN\<rparr>" using lit op minus [OF r(1)] minus [OF r(2)] by simp
  ultimately show ?thesis using eval_row_expr [of _ ?e s] by (simp add: NSTAK_def cfun_defs del: bindS_Ret)
qed

theorem minus_associates_right_witness:
  "eval_row [number_token ''10'', op_token MINUS, number_token ''4'', op_token MINUS, number_token ''0x2''] demo_evaluator =
   Ret (8, demo_evaluator\<lparr>vals := [\<lparr>val = 8, vty = SGN\<rparr>], ops := [END]\<rparr>)"
  using minus_associates_right [OF demo_literals(1,2,3), of "op_token MINUS" "op_token MINUS" demo_evaluator]
  by (simp add: demo_token_defs long_def)

end
