(* ===== verification/CPP_Control.thy ===== *)
theory CPP_Control
  imports CPP_Expr
begin

text \<open>
  Control lines (control, process of src/lcc-1.3/cpp/cpp.c, dodefine of macro.c, the row operations of
  tokens.c they use).  Macro expansion and the opening of include files are arguments of the
  definitions; the lines are the rows of tokens that the lexer delivers.
\<close>

section \<open>State\<close>

definition NIF :: nat where "NIF = 32"

text \<open>The output is the rows that are written.\<close>

record cpp = evaluator +
  ifdepth :: int
  ifsatisfied :: "int list"
  skipping :: int
  src_ifdepth :: int
  src_line :: int
  src_filename :: string
  src_lineinc :: int
  out :: "token list list"

type_synonym 'a cact = "('a, cpp) cfun"

text \<open>A line with what the lexer found on it: whether a name may be a macro, how many lines it spans.\<close>

record row =
  row_tokens :: "token list"
  anymacros :: bool
  lineinc :: int

definition nltoken :: token where
  "nltoken = \<lparr>tok_type = NL, tok_flag = 0, tok_hideset = 0, tok_wslen = 0, tok_len = 1, tok_t = [CHR 0x0A]\<rparr>"

definition setempty :: "token list" where
  "setempty = [nltoken]"

text \<open>A token of a row; a row ends with a newline, and nothing is read past it.\<close>

definition tok_at :: "token list \<Rightarrow> nat \<Rightarrow> token outcome" where
  "tok_at r i = (if i < length r then Ret (r ! i) else Undef)"

section \<open>Definitions of macros\<close>

definition norm_token :: "token \<Rightarrow> token" where
  "norm_token tp =
     (if tok_len tp \<noteq> 0
      then tp\<lparr>tok_t := c_prefix (tok_len tp) (tok_t tp), tok_wslen := (if tok_wslen tp \<noteq> 0 then 1 else 0)\<rparr>
      else tp)"

definition normtokenrow :: "token list \<Rightarrow> token list" where
  "normtokenrow r =
     (case map norm_token r of [] \<Rightarrow> [] | tp # tps \<Rightarrow> tp\<lparr>tok_wslen := 0\<rparr> # tps)"

definition differ :: "token \<Rightarrow> token \<Rightarrow> bool" where
  "differ tp1 tp2 \<longleftrightarrow>
     tok_type tp1 \<noteq> tok_type tp2 \<or> (tok_wslen tp1 = 0) \<noteq> (tok_wslen tp2 = 0) \<or> tok_len tp1 \<noteq> tok_len tp2 \<or>
     c_prefix (tok_len tp1) (tok_t tp1) \<noteq> c_prefix (tok_len tp1) (tok_t tp2)"

definition comparetokens :: "token list \<Rightarrow> token list \<Rightarrow> bool" where
  "comparetokens r1 r2 \<longleftrightarrow> length r1 \<noteq> length r2 \<or> list_ex (\<lambda>(a, b). differ a b) (zip r1 r2)"

definition same_arg :: "token \<Rightarrow> token \<Rightarrow> bool" where
  "same_arg tp atp \<longleftrightarrow> tok_len atp = tok_len tp \<and> c_prefix (tok_len tp) (tok_t atp) = c_prefix (tok_len tp) (tok_t tp)"

text \<open>The parameters from a token on, and the rest of the line; None: a syntax error.\<close>

fun collect_args :: "token list \<Rightarrow> token list \<Rightarrow> ((token list \<times> token list) option, 'a diag_scheme) cfun" where
  "collect_args args [] = undefS"
| "collect_args args (tp # tps) =
     (if tok_type tp \<noteq> NAME then returnS None
      else
        seqS (forS (\<lambda>_. error ERROR ''Duplicate macro argument'') (filter (same_arg tp) args))
          (case tps of
             [] \<Rightarrow> undefS
           | sep # rest \<Rightarrow>
               if tok_type sep = RP then returnS (Some (args @ [tp], rest))
               else if tok_type sep \<noteq> COMMA then returnS None
               else collect_args (args @ [tp]) rest))"

text \<open>The tokens after the name: parameters that follow it without white space, and the value.\<close>

definition macro_args :: "token list \<Rightarrow> ((token list option \<times> token list) option, 'a diag_scheme) cfun" where
  "macro_args r =
     (case r of
        lp # tps \<Rightarrow>
          if tok_type lp = LP \<and> tok_wslen lp = 0 then
            (case tps of
               [] \<Rightarrow> undefS
             | rp # rest \<Rightarrow>
                 if tok_type rp = RP then returnS (Some (Some [], rest))
                 else mapS (map_option (\<lambda>(args, rest). (Some args, rest))) (collect_args [] tps))
          else returnS (Some (None, r))
      | [] \<Rightarrow> returnS (Some (None, [])))"

definition drop_NL :: "token list \<Rightarrow> token list" where
  "drop_NL r = (if r \<noteq> [] \<and> tok_type (last r) = NL then butlast r else r)"

definition redefined :: "token list \<Rightarrow> token list option \<Rightarrow> nlist_entry \<Rightarrow> bool outcome" where
  "redefined def args e =
     (case np_vp e of
        None \<Rightarrow> Undef
      | Some vp \<Rightarrow> Ret (comparetokens def vp \<or> (np_ap e = None) \<noteq> (args = None) \<or>
          (case (np_ap e, args) of (Some ap, Some as) \<Rightarrow> comparetokens as ap | _ \<Rightarrow> False)))"

definition dodefine :: "token list \<Rightarrow> (unit, 'a names_scheme) cfun" where
  "dodefine r =
     (if length r \<le> 2 \<or> tok_type (r ! 2) \<noteq> NAME then error ERROR ''#defined token is not a name''
      else
        let tp = r ! 2 in
        bindS (\<lambda>s. Ret (lookup tp True s)) (\<lambda>np.
        bindS (getS (\<lambda>s. np_flag (entries s np))) (\<lambda>fl.
        if fl AND ISUNCHANGE \<noteq> 0 then error ERROR (''#defined token '' @ spelling tp @ '' can't be redefined'')
        else
          bindS (macro_args (drop 3 r)) (\<lambda>a. case a of
            None \<Rightarrow> error ERROR ''Syntax error in macro parameters''
          | Some (args, value) \<Rightarrow>
              let def = normtokenrow (drop_NL value) in
              seqS
                (whenS (fl AND ISDEFINED \<noteq> 0)
                  (bindS (\<lambda>s. bind_outcome (redefined def args (entries s np)) (\<lambda>b. Ret (b, s))) (\<lambda>b.
                   whenS b (error ERROR (''Macro redefinition of '' @ spelling tp)))))
                (putS (set_entry np (\<lambda>e. e\<lparr>np_ap := map_option normtokenrow args, np_vp := Some def,
                  np_flag := np_flag e OR ISDEFINED\<rparr>)))))))"

section \<open>Conditions\<close>

definition need_tok :: "token list \<Rightarrow> nat \<Rightarrow> (token, 's) cfun" where
  "need_tok r i = lift_out (tok_at r i)"

definition set_kwdefined :: "int \<Rightarrow> (unit, 'a names_scheme) cfun" where
  "set_kwdefined v = putS (\<lambda>s. set_entry (kwdefined s) (\<lambda>e. e\<lparr>np_val := v\<rparr>) s)"

text \<open>The row starts with the number sign and the keyword; the value of NAME is 2.\<close>

definition eval :: "(token list \<Rightarrow> token list cact) \<Rightarrow> token list \<Rightarrow> int \<Rightarrow> int cact" where
  "eval expandrow r kw =
     (if kw = kw_code KIFDEF \<or> kw = kw_code KIFNDEF then
        bindS (need_tok r 2) (\<lambda>tp.
        if length r \<noteq> 4 \<or> tok_type tp \<noteq> NAME
        then seqS (error ERROR ''Syntax error in #ifdef/#ifndef'') (returnS 0)
        else getS (\<lambda>s. of_bool ((kw = kw_code KIFDEF) = is_defined tp s)))
      else
        seqS (set_kwdefined (kw_code KDEFINED))
       (bindS (expandrow (drop 2 r)) (\<lambda>tps.
        seqS (set_kwdefined 2) (eval_row tps))))"

section \<open>Control lines\<close>

definition get_satisfied :: "int cact" where
  "get_satisfied s =
     (if 0 \<le> ifdepth s \<and> nat (ifdepth s) < length (ifsatisfied s) then Ret (ifsatisfied s ! nat (ifdepth s), s) else Undef)"

definition set_satisfied :: "int \<Rightarrow> unit cact" where
  "set_satisfied v s =
     (if 0 \<le> ifdepth s \<and> nat (ifdepth s) < length (ifsatisfied s)
      then Ret ((), s\<lparr>ifsatisfied := (ifsatisfied s)[nat (ifdepth s) := v]\<rparr>) else Undef)"

definition deeper :: "unit cact" where
  "deeper =
     seqS (putS (\<lambda>s. s\<lparr>ifdepth := ifdepth s + 1\<rparr>))
    (seqS (\<lambda>s. whenS (int NIF \<le> ifdepth s) (error FATAL ''#if too deeply nested'') s)
          (putS (\<lambda>s. s\<lparr>src_ifdepth := src_ifdepth s + 1\<rparr>)))"

text \<open>While lines are skipped; True: the line is handled as if they were not.\<close>

definition control_skipping :: "token list \<Rightarrow> nlist_entry \<Rightarrow> (bool \<times> token list) cact" where
  "control_skipping r e =
     (if np_flag e AND ISKW = 0 then returnS (False, r)
      else if np_val e = kw_code KENDIF then
        seqS (putS (\<lambda>s. let d = ifdepth s - 1 in
               s\<lparr>ifdepth := d, skipping := (if d < skipping s then 0 else skipping s), src_ifdepth := src_ifdepth s - 1\<rparr>))
             (returnS (False, setempty))
      else if np_val e \<in> {kw_code KIFDEF, kw_code KIFNDEF, kw_code KIF} then seqS deeper (returnS (False, r))
      else if np_val e \<in> {kw_code KELIF, kw_code KELSE} then
        getS (\<lambda>s. (ifdepth s \<le> skipping s, r))
      else returnS (False, r))"

definition do_undef :: "token list \<Rightarrow> unit cact" where
  "do_undef r =
     bindS (need_tok r 2) (\<lambda>tp.
     if tok_type tp \<noteq> NAME \<or> length r \<noteq> 4 then error ERROR ''Syntax error in #undef''
     else putS (\<lambda>s. let np = fst (lookup tp False s) in
       if np \<noteq> 0 then set_entry np (\<lambda>e. e\<lparr>np_flag := np_flag e AND NOT ISDEFINED\<rparr>) s else s))"

definition do_if :: "(token list \<Rightarrow> token list cact) \<Rightarrow> token list \<Rightarrow> int \<Rightarrow> unit cact" where
  "do_if expandrow r kw =
     seqS deeper
    (seqS (set_satisfied 0)
    (bindS (eval expandrow r kw) (\<lambda>v.
       if v \<noteq> 0 then set_satisfied 1 else putS (\<lambda>s. s\<lparr>skipping := ifdepth s\<rparr>))))"

definition take_elif :: "int \<Rightarrow> unit cact" where
  "take_elif v =
     bindS get_satisfied (\<lambda>sat.
     if v \<noteq> 0 then
       if sat \<noteq> 0 then putS (\<lambda>s. s\<lparr>skipping := ifdepth s\<rparr>)
       else seqS (putS (\<lambda>s. s\<lparr>skipping := 0\<rparr>)) (set_satisfied 1)
     else putS (\<lambda>s. s\<lparr>skipping := ifdepth s\<rparr>))"

definition do_elif :: "(token list \<Rightarrow> token list cact) \<Rightarrow> token list \<Rightarrow> int \<Rightarrow> bool cact" where
  "do_elif expandrow r kw =
     bindS (getS ifdepth) (\<lambda>d.
     if d = 0 then seqS (error ERROR ''#elif with no #if'') (returnS False)
     else
       bindS get_satisfied (\<lambda>sat.
       seqS (whenS (sat = 2) (error ERROR ''#elif after #else''))
      (bindS (eval expandrow r kw) (\<lambda>v. seqS (take_elif v) (returnS True)))))"

definition do_else :: "token list \<Rightarrow> bool cact" where
  "do_else r =
     bindS (getS (\<lambda>s. ifdepth s = 0 \<or> src_ifdepth s = 0)) (\<lambda>bad.
     if bad then seqS (error ERROR ''#else with no #if'') (returnS False)
     else
       bindS get_satisfied (\<lambda>sat.
       seqS (whenS (sat = 2) (error ERROR ''#else after #else''))
      (seqS (whenS (length r \<noteq> 3) (error ERROR ''Syntax error in #else''))
      (seqS (putS (\<lambda>s. s\<lparr>skipping := (if sat \<noteq> 0 then ifdepth s else 0)\<rparr>))
      (seqS (set_satisfied 2) (returnS True))))))"

definition do_endif :: "token list \<Rightarrow> bool cact" where
  "do_endif r =
     bindS (getS (\<lambda>s. ifdepth s = 0 \<or> src_ifdepth s = 0)) (\<lambda>bad.
     if bad then seqS (error ERROR ''#endif with no #if'') (returnS False)
     else
       seqS (putS (\<lambda>s. s\<lparr>ifdepth := ifdepth s - 1, src_ifdepth := src_ifdepth s - 1\<rparr>))
      (seqS (whenS (length r \<noteq> 3) (error WARNING ''Syntax error in #endif''))
            (returnS True)))"

text \<open>The text of a row from a token on, as the messages print it.\<close>

fun row_text :: "bool \<Rightarrow> token list \<Rightarrow> string" where
  "row_text start [] = []"
| "row_text start (tp # tps) =
     (if tok_type tp = NL then [] else (if \<not> start \<and> tok_wslen tp \<noteq> 0 then '' '' else []) @ spelling tp @ row_text False tps)"

definition atol :: "string \<Rightarrow> int outcome" where
  "atol p = chk_long (digits_num 10 0 (map digit (takeWhile (\<lambda>c. 0 \<le> digit c \<and> digit c < 10) p)))"

text \<open>A line directive whose number is the token at an index.\<close>

definition do_line :: "token list \<Rightarrow> nat \<Rightarrow> unit cact" where
  "do_line r i =
     (if length r \<le> i + 1 \<or> tok_type (r ! i) \<noteq> NUMBER \<or> i + 3 < length r \<or>
         i + 3 = length r \<and> tok_type (r ! (i + 1)) \<noteq> STRING \<or> char_at (tok_t (r ! (i + 1))) 0 = CHR ''L''
      then error ERROR ''Syntax error in #line''
      else
        bindS (lift_out (atol (tok_t (r ! i)))) (\<lambda>n.
        seqS (putS (\<lambda>s. s\<lparr>src_line := to_int32 (n - 1)\<rparr>))
       (seqS (\<lambda>s. whenS (src_line s < 0 \<or> 32768 \<le> src_line s) (error WARNING ''#line specifies number out of range'') s)
             (whenS (i + 2 < length r)
               (putS (\<lambda>s. s\<lparr>src_filename := c_prefix (tok_len (r ! (i + 1)) - 2) (drop 1 (tok_t (r ! (i + 1))))\<rparr>))))))"

text \<open>The row that a control line leaves.\<close>

definition emptied :: "token list \<Rightarrow> unit cact \<Rightarrow> token list cact" where
  "emptied r m = seqS m (returnS setempty)"

definition emptied_if :: "token list \<Rightarrow> bool cact \<Rightarrow> token list cact" where
  "emptied_if r m = bindS m (\<lambda>b. returnS (if b then setempty else r))"

definition control_kw ::
  "(token list \<Rightarrow> token list cact) \<Rightarrow> (token list \<Rightarrow> unit cact) \<Rightarrow> token list \<Rightarrow> int \<Rightarrow> token list cact" where
  "control_kw expandrow doinclude r kw =
     (if kw = kw_code KDEFINE then emptied r (dodefine r)
      else if kw = kw_code KUNDEF then emptied r (do_undef r)
      else if kw = kw_code KPRAGMA then returnS r
      else if kw \<in> {kw_code KIFDEF, kw_code KIFNDEF, kw_code KIF} then emptied r (do_if expandrow r kw)
      else if kw = kw_code KELIF then emptied_if r (do_elif expandrow r kw)
      else if kw = kw_code KELSE then emptied_if r (do_else r)
      else if kw = kw_code KENDIF then emptied_if r (do_endif r)
      else if kw = kw_code KERROR then emptied r (error WARNING (''#error directive: '' @ row_text True (drop 2 r)))
      else if kw = kw_code KLINE then
        bindS (expandrow (drop 2 r)) (\<lambda>tps. let r = take 2 r @ tps in seqS (do_line r 2) (returnS r))
      else if kw = kw_code KDEFINED then emptied r (error ERROR ''Bad syntax for control line'')
      else if kw = kw_code KINCLUDE then seqS (doinclude r) (returnS [])
      else if kw = kw_code KEVAL then emptied r (seqS (eval expandrow r kw) (returnS ()))
      else bindS (need_tok r 1) (\<lambda>tp. emptied r (error ERROR (''Preprocessor control `'' @ spelling tp @ ''' not yet implemented''))))"

definition control ::
  "(token list \<Rightarrow> token list cact) \<Rightarrow> (token list \<Rightarrow> unit cact) \<Rightarrow> token list \<Rightarrow> token list cact" where
  "control expandrow doinclude r =
     bindS (need_tok r 1) (\<lambda>tp.
     if tok_type tp \<noteq> NAME then
       if tok_type tp = NUMBER then seqS (do_line r 1) (returnS r)
       else seqS (whenS (tok_type tp \<noteq> NL) (error ERROR ''Unidentifiable control line'')) (returnS r)
     else
       bindS (getS (\<lambda>s. fst (lookup tp False s))) (\<lambda>np.
       bindS (getS (\<lambda>s. entries s np)) (\<lambda>e.
       bindS (getS skipping) (\<lambda>skip.
       if np = 0 \<or> np_flag e AND ISKW = 0 \<and> skip = 0 then
         seqS (error WARNING (''Unknown preprocessor control '' @ spelling tp)) (returnS r)
       else
         bindS (if skip \<noteq> 0 then control_skipping r e else returnS (True, r)) (\<lambda>(go_on, r).
         if go_on then control_kw expandrow doinclude r (np_val e) else returnS r)))))"

section \<open>Lines\<close>

definition puttokens :: "token list \<Rightarrow> unit cact" where
  "puttokens r = putS (\<lambda>s. s\<lparr>out := out s @ [r]\<rparr>)"

function outnum :: "int \<Rightarrow> string" where
  "outnum n = (if 10 \<le> n then outnum (n div 10) else []) @ [char_of (nat ((48 + n smod 10) mod 256))]"
  by pat_completeness auto
termination by (relation "measure nat") auto

definition genline :: "unit cact" where
  "genline s =
     (let str = ''#line '' @ outnum (src_line s) @ '' '' @ [CHR 0x22] @ src_filename s @ [CHR 0x22, CHR 0x0A] in
      puttokens [\<lparr>tok_type = UNCLASS, tok_flag = 0, tok_hideset = 0, tok_wslen = 0, tok_len = length str, tok_t = str\<rparr>] s)"

text \<open>The body of the loop of process, for a line other than the end of a file.\<close>

definition process_row ::
  "(token list \<Rightarrow> token list cact) \<Rightarrow> (token list \<Rightarrow> unit cact) \<Rightarrow> row \<Rightarrow> unit cact" where
  "process_row expandrow doinclude l =
     (let r = row_tokens l in
      bindS (need_tok r 0) (\<lambda>tp.
      seqS (putS (\<lambda>s. s\<lparr>src_lineinc := lineinc l\<rparr>))
     (bindS (if tok_type tp = SHARP then control expandrow doinclude r
             else (\<lambda>s. if skipping s = 0 \<and> anymacros l then expandrow r s else Ret (r, s))) (\<lambda>r.
      seqS (\<lambda>s. puttokens (if skipping s \<noteq> 0 then setempty else r) s)
     (seqS (putS (\<lambda>s. s\<lparr>src_line := src_line s + src_lineinc s\<rparr>))
           (\<lambda>s. whenS (1 < src_lineinc s) genline s))))))"

definition process_rows ::
  "(token list \<Rightarrow> token list cact) \<Rightarrow> (token list \<Rightarrow> unit cact) \<Rightarrow> row list \<Rightarrow> unit cact" where
  "process_rows expandrow doinclude ls = forS (process_row expandrow doinclude) ls"

end
