(* ===== verification/CPP_Cond.thy ===== *)
theory CPP_Cond
  imports CPP_Control
begin

text \<open>
  The conditional lines refine a stack of open conditionals.  The code keeps the depth, the
  outcome of the groups of each depth and the depth from which lines are skipped.
\<close>

section \<open>What evaluation leaves alone\<close>

definition more_is :: "'a \<Rightarrow> 'a evaluator_scheme \<Rightarrow> bool" where
  "more_is c s \<longleftrightarrow> evaluator.more s = c"

lemma error_evaluator [pres]: "preserves (more_is c) (error ty msg)"
  by (auto simp: preserves_def more_is_def error_def split: if_splits)

lemma scan_number_names [pres]: "preserves (more_is c) (scan_number tp base p n)"
  by (induction p arbitrary: n) (auto intro!: pres)

lemma scan_suffix_names [pres]: "preserves (more_is c) (scan_suffix tp p ty)"
  by (induction p arbitrary: ty) (auto intro!: pres)

lemma tokval_names [pres]: "preserves (more_is c) (tokval tp)"
  unfolding tokval_def number_val_def ccon_val_def ccon_char_def char_escape_def Let_def
  by (cases "tok_type tp"; simp only: toktype.case; (intro pres)?)

lemma stacks_evaluator [pres]:
  "preserves (more_is c) popv" "preserves (more_is c) (pushv v)"
  "preserves (more_is c) topop" "preserves (more_is c) popop"
  "preserves (more_is c) (pushop t)"
  by (auto simp: preserves_def more_is_def popv_def pushv_def topop_def popop_def pushop_def cfun_defs simp del: bindS_Ret
      split: if_splits list.splits)

lemma results_evaluator [pres]:
  "preserves (more_is c) (push_result v)" "preserves (more_is c) (conditional v1 v2 rtype)"
  unfolding push_result_def conditional_def by (intro pres)+

lemma perform_evaluator [pres]: "preserves (more_is c) (perform_oper t rtype)"
  unfolding perform_oper_def Let_def
  by (intro preserves_bind preserves_if preserves_return preserves_seq preserves_prod preserves_option preserves_lift_out
      error_evaluator stacks_evaluator results_evaluator)

lemma evalop_evaluator:
  "evalop p rtype s = Ret (i, s') \<Longrightarrow> evaluator.more s' = evaluator.more s"
proof (induction p rtype s arbitrary: i s' rule: evalop.induct)
  case (1 p rtype s)
  have keep: "evaluator.more s2 = evaluator.more s1" if "evalop_round r s1 = Ret (a, s2)" for r s1 a s2
    using preservesD [OF preserves_bind [OF stacks_evaluator(4) perform_evaluator] _ that [unfolded evalop_round_def]]
    by (simp add: more_is_def)
  show ?case
  proof (cases "ops s")
    case Nil
    then show ?thesis using 1(2) by (simp add: evalop_empty)
  next
    case t: (Cons t os)
    then have top: "topop s = Ret (t, s)" by (simp add: topop_def)
    show ?thesis
    proof (cases "p < pri (priority t)")
      case False
      then show ?thesis using 1(2) by (simp add: evalop_top [OF t])
    next
      case True
      then obtain r s2 where r: "evalop_round rtype s = Ret (r, s2)"
        "(case r of Inl i \<Rightarrow> Ret (i, s2) | Inr rtype \<Rightarrow> evalop p rtype s2) = Ret (i, s')"
        using 1(2) unfolding evalop_top [OF t] by auto
      show ?thesis
      proof (cases r)
        case (Inl j)
        then show ?thesis using r keep [OF r(1)] by simp
      next
        case (Inr ty)
        then have "evaluator.more s' = evaluator.more s2" using 1(1) [OF top True r(1) Inr, of i s'] r(2) by simp
        then show ?thesis using keep [OF r(1)] by simp
      qed
    qed
  qed
qed

lemma reduce_evaluator [pres]: "preserves (more_is c) (reduce t)"
  unfolding reduce_def preserves_def more_is_def using evalop_evaluator by blast

lemma eval_end_evaluator [pres]: "preserves (more_is c) eval_end"
  unfolding eval_end_def
  by (rule preserves_bind [OF reduce_evaluator], rule preserves_if)
     (auto simp: preserves_def more_is_def cfun_defs error_def simp del: bindS_Ret split: if_splits)

lemma eval_loop_evaluator [pres]: "preserves (more_is c) (eval_loop rand tps)"
proof (induction tps arbitrary: rand)
  case (Cons tp tps)
  then show ?case unfolding eval_loop.simps Let_def syntax_error_def by (intro pres) simp_all
qed (simp add: eval_loop.simps syntax_error_def; intro pres conjI impI)

lemma eval_row_evaluator [pres]: "preserves (more_is c) (eval_row tps)"
  unfolding eval_row_def by (intro pres) (simp add: more_is_def)

section \<open>The stack of open conditionals\<close>

text \<open>
  The last group of an open conditional is being output; no group of it has been chosen yet; one
  was chosen and it is past; or the conditional is inside lines that are skipped.
\<close>

datatype frame = Taking | Waiting | Passed | Dead

datatype directive = DIf | DElif | DElse | DEndif | DOther

fun next_group :: "bool \<Rightarrow> frame \<Rightarrow> frame" where
  "next_group v Taking = Passed"
| "next_group v Waiting = (if v then Taking else Waiting)"
| "next_group v Passed = Passed"
| "next_group v Dead = Dead"

fun stack_step :: "directive \<Rightarrow> bool \<Rightarrow> frame list \<Rightarrow> frame list" where
  "stack_step DIf v st = (if \<forall>f \<in> set st. f = Taking then (if v then Taking else Waiting) # st else Dead # st)"
| "stack_step DElif v (f # st) = next_group v f # st"
| "stack_step DElse v (f # st) = next_group True f # st"
| "stack_step DEndif v (f # st) = st"
| "stack_step d v st = st"

definition frame_at :: "int list \<Rightarrow> int \<Rightarrow> nat \<Rightarrow> frame" where
  "frame_at sat k i =
     (if k = 0 \<or> int i < k then Taking else if k < int i then Dead else if sat ! i = 0 then Waiting else Passed)"

definition frames :: "int \<Rightarrow> int list \<Rightarrow> int \<Rightarrow> frame list" where
  "frames d sat k = map (frame_at sat k) (rev [1..<Suc (nat d)])"

definition cond_stack :: "cpp \<Rightarrow> frame list" where
  "cond_stack s = frames (ifdepth s) (ifsatisfied s) (skipping s)"

definition inv_of :: "int \<Rightarrow> int list \<Rightarrow> int \<Rightarrow> bool" where
  "inv_of d sat k \<longleftrightarrow> 0 \<le> d \<and> d < int NIF \<and> length sat = NIF \<and> 0 \<le> k \<and> k \<le> d \<and>
     (\<forall>i. 1 \<le> i \<longrightarrow> int i \<le> d \<longrightarrow> k = 0 \<or> int i < k \<longrightarrow> sat ! i \<noteq> 0)"

definition cond_inv :: "cpp \<Rightarrow> bool" where
  "cond_inv s \<longleftrightarrow> inv_of (ifdepth s) (ifsatisfied s) (skipping s)"

lemma frames_Suc: "0 \<le> d \<Longrightarrow> frames (d + 1) sat k = frame_at sat k (nat (d + 1)) # frames d sat k"
  by (simp add: frames_def nat_add_distrib)

lemma frames_pred: "0 < d \<Longrightarrow> frames d sat k = frame_at sat k (nat d) # frames (d - 1) sat k"
  using frames_Suc [of "d - 1" sat k] by simp

lemma frames_0: "frames 0 sat k = []"
  by (simp add: frames_def)

lemma frames_cong:
  "(\<And>i. 1 \<le> i \<Longrightarrow> int i \<le> d \<Longrightarrow> frame_at sat k i = frame_at sat' k' i) \<Longrightarrow> frames d sat k = frames d sat' k'"
  by (auto simp: frames_def)

lemma frames_set: "set (frames d sat k) = frame_at sat k ` {1..nat d}"
  by (simp only: frames_def set_map set_rev set_upt atLeastLessThanSuc_atLeastAtMost)

lemma frames_active:
  assumes "inv_of d sat k"
  shows "(\<forall>f \<in> set (frames d sat k). f = Taking) \<longleftrightarrow> k = 0"
proof
  assume taking: "\<forall>f \<in> set (frames d sat k). f = Taking"
  show "k = 0"
  proof (rule ccontr)
    assume "k \<noteq> 0"
    then have "nat k \<in> {1..nat d}" "frame_at sat k (nat k) \<noteq> Taking"
      using assms by (auto simp: inv_of_def frame_at_def)
    then show False using taking unfolding frames_set by blast
  qed
qed (auto simp: frames_set frame_at_def)

lemma frames_taken: "frames d sat 0 = frames d sat' 0"
  by (rule frames_cong) (simp add: frame_at_def)

text \<open>Below a depth that is skipped every group is output.\<close>

lemma frames_below: "d < k \<Longrightarrow> frames d sat k = frames d sat' 0"
  by (rule frames_cong) (simp add: frame_at_def)

lemma open_taken:
  assumes "inv_of d sat 0" "d + 1 < int NIF"
  shows "inv_of (d + 1) (sat[nat (d + 1) := 1]) 0" "frames (d + 1) (sat[nat (d + 1) := 1]) 0 = Taking # frames d sat 0"
  using assms frames_taken [of d] by (auto simp: inv_of_def frames_Suc frame_at_def nth_list_update)

lemma open_waiting:
  assumes "inv_of d sat 0" "d + 1 < int NIF"
  shows "inv_of (d + 1) (sat[nat (d + 1) := 0]) (d + 1)" "frames (d + 1) (sat[nat (d + 1) := 0]) (d + 1) = Waiting # frames d sat 0"
proof -
  show "inv_of (d + 1) (sat[nat (d + 1) := 0]) (d + 1)" using assms by (auto simp: inv_of_def nth_list_update)
  have "frame_at (sat[nat (d + 1) := 0]) (d + 1) (nat (d + 1)) = Waiting" using assms by (auto simp: inv_of_def frame_at_def)
  then show "frames (d + 1) (sat[nat (d + 1) := 0]) (d + 1) = Waiting # frames d sat 0"
    using assms frames_below [of d "d + 1"] by (auto simp: inv_of_def frames_Suc)
qed

lemma open_dead:
  assumes "inv_of d sat k" "k \<noteq> 0" "d + 1 < int NIF"
  shows "inv_of (d + 1) sat k" "frames (d + 1) sat k = Dead # frames d sat k"
  using assms by (auto simp: inv_of_def frames_Suc frame_at_def)

lemma close_group:
  assumes "inv_of d sat k" "0 < d"
  shows "inv_of (d - 1) sat (if d - 1 < k then 0 else k)" "frames (d - 1) sat (if d - 1 < k then 0 else k) = tl (frames d sat k)"
  using assms frames_below [of "d - 1" k sat sat] by (auto simp: inv_of_def frames_pred)

text \<open>The next group of a conditional that is not inside skipped lines.\<close>

lemma frames_lower: "k = 0 \<or> k = d \<Longrightarrow> frames (d - 1) sat k = frames (d - 1) sat' 0"
  using frames_below [of "d - 1" d] frames_taken by auto

lemma choose_group:
  assumes inv: "inv_of d sat k" and d: "0 < d" and k: "k = 0 \<or> k = d" and v: "v \<noteq> 0" and sat: "sat ! nat d = 0"
  shows "inv_of d (sat[nat d := v]) 0 \<and> frames d (sat[nat d := v]) 0 = next_group True (hd (frames d sat k)) # tl (frames d sat k)"
proof -
  have len: "nat d < length sat" and kd: "k = d" using inv k d sat by (auto simp: inv_of_def)
  have "inv_of d (sat[nat d := v]) 0" using inv v len kd by (auto simp: inv_of_def nth_list_update)
  moreover have "frame_at sat k (nat d) = Waiting" using sat kd d by (simp add: frame_at_def)
  ultimately show ?thesis using d frames_lower [OF k, of sat "sat[nat d := v]"] by (simp add: frames_pred frame_at_def)
qed

lemma pass_group:
  assumes inv: "inv_of d sat k" and d: "0 < d" and k: "k = 0 \<or> k = d" and v: "v \<noteq> 0" and sat: "sat ! nat d \<noteq> 0"
  shows "inv_of d (sat[nat d := v]) d \<and> frames d (sat[nat d := v]) d = next_group True (hd (frames d sat k)) # tl (frames d sat k)"
proof -
  have len: "nat d < length sat" using inv d by (auto simp: inv_of_def)
  have "inv_of d (sat[nat d := v]) d" using inv v len k by (auto simp: inv_of_def nth_list_update)
  moreover have "next_group True (frame_at sat k (nat d)) = Passed" using sat k d by (auto simp: frame_at_def)
  moreover have "frame_at (sat[nat d := v]) d (nat d) = Passed" using len v d by (simp add: frame_at_def)
  moreover have "frames (d - 1) (sat[nat d := v]) d = frames (d - 1) sat k"
    using frames_lower [of d d "sat[nat d := v]" sat] frames_lower [OF k, of sat sat] by simp
  ultimately show ?thesis using d by (simp add: frames_pred)
qed

lemma skip_group:
  assumes inv: "inv_of d sat k" and d: "0 < d" and k: "k = 0 \<or> k = d"
  shows "inv_of d sat d \<and> frames d sat d = next_group False (hd (frames d sat k)) # tl (frames d sat k)"
proof -
  have low: "frames (d - 1) sat d = frames (d - 1) sat k" using k frames_below [of "d - 1" d sat sat] by auto
  have "frame_at sat d (nat d) = next_group False (frame_at sat k (nat d))" using inv d k by (auto simp: frame_at_def inv_of_def)
  moreover have "inv_of d sat d" using inv d k by (auto simp: inv_of_def)
  ultimately show ?thesis using d low by (simp add: frames_pred)
qed

section \<open>Control lines act on the stack\<close>

text \<open>A call that leaves the conditional state alone.\<close>

definition cond_is :: "int \<times> int list \<times> int \<Rightarrow> cpp \<Rightarrow> bool" where
  "cond_is c s \<longleftrightarrow> (ifdepth s, ifsatisfied s, skipping s) = c"

definition keeps_cond :: "'a cact \<Rightarrow> bool" where
  "keeps_cond m \<longleftrightarrow> (\<forall>c. preserves (cond_is c) m)"

lemma keeps_condD: "keeps_cond m \<Longrightarrow> m s = Ret (a, s') \<Longrightarrow> ifdepth s' = ifdepth s \<and> ifsatisfied s' = ifsatisfied s \<and> skipping s' = skipping s"
  unfolding keeps_cond_def preserves_def cond_is_def by blast

lemma cond_is_error [pres]: "preserves (cond_is c) (error ty msg)"
  by (auto simp: preserves_def cond_is_def error_def split: if_splits)

lemma cond_is_evaluator:
  assumes "\<And>c. preserves (more_is c) m"
  shows "preserves (cond_is c) m"
proof -
  have "evaluator.more s' = evaluator.more s \<Longrightarrow> cond_is c s \<Longrightarrow> cond_is c s'" for s s' :: cpp
    by (cases s, cases s') (simp add: cond_is_def)
  then show ?thesis using assms unfolding preserves_def more_is_def by blast
qed

lemma cond_is_entry: "cond_is c (set_entry np f s) = cond_is c s"
  by (simp add: cond_is_def set_entry_def)

lemma cond_is_need_tok [pres]: "preserves (cond_is c) (need_tok r i)"
  by (simp add: need_tok_def)

lemma cond_is_eval [pres]:
  assumes "\<And>r. keeps_cond (expandrow r)"
  shows "preserves (cond_is c) (eval expandrow r kw)"
proof -
  have "preserves (cond_is c) (expandrow r)" for r using assms unfolding keeps_cond_def by blast
  moreover have "preserves (cond_is c) (set_kwdefined v)" for v
    unfolding set_kwdefined_def by (rule preserves_put) (simp add: cond_is_entry)
  moreover have "preserves (cond_is c) (eval_row tps)" for tps by (rule cond_is_evaluator) (rule eval_row_evaluator)
  ultimately show ?thesis unfolding eval_def by (intro pres)
qed

lemma cond_is_collect_args [pres]: "preserves (cond_is c) (collect_args args tps)"
  by (induction args tps rule: collect_args.induct) (auto intro!: pres split: list.split)

lemma cond_is_macro_args [pres]: "preserves (cond_is c) (macro_args r)"
  unfolding macro_args_def by (intro pres)

lemma cond_is_dodefine [pres]: "preserves (cond_is c) (dodefine r)"
proof -
  have "preserves (cond_is c) (\<lambda>s. Ret (lookup tp True s))" for tp
    by (auto simp: preserves_def cond_is_def lookup_def install_name_def quickset_def Let_def split: option.splits)
  moreover have "preserves (cond_is c) (\<lambda>s. bind_outcome (f s) (\<lambda>b. Ret (b, s)))" for f :: "cpp \<Rightarrow> bool outcome"
    by (simp add: preserves_def)
  ultimately show ?thesis unfolding dodefine_def Let_def by (intro pres) (simp_all add: cond_is_entry)
qed

lemma cond_is_others [pres]:
  "preserves (cond_is c) (do_undef r)" "preserves (cond_is c) (do_line r i)"
proof -
  show "preserves (cond_is c) (do_undef r)"
    unfolding do_undef_def by (intro pres) (simp add: Let_def cond_is_entry)
  have "preserves (cond_is c) (\<lambda>s. whenS (b s) (error ty msg) s)" for b ty msg
    using cond_is_error by (auto simp: preserves_def whenS_def returnS_def)
  then show "preserves (cond_is c) (do_line r i)"
    unfolding do_line_def by (intro pres) (simp_all add: cond_is_def)
qed

definition keyword_of :: "token list \<Rightarrow> cpp \<Rightarrow> int option" where
  "keyword_of r s =
     (let np = fst (lookup (r ! 1) False s); e = entries s np in
      if 1 < length r \<and> tok_type (r ! 1) = NAME \<and> np \<noteq> 0 \<and> np_flag e AND ISKW \<noteq> 0 then Some (np_val e) else None)"

text \<open>What a control line asks for; in a file an else or endif needs an open conditional of the file.\<close>

definition directive :: "token list \<Rightarrow> cpp \<Rightarrow> directive" where
  "directive r s =
     (case keyword_of r s of
        None \<Rightarrow> DOther
      | Some kw \<Rightarrow>
          if kw \<in> {kw_code KIFDEF, kw_code KIFNDEF, kw_code KIF} then DIf
          else if kw = kw_code KELIF then DElif
          else if kw = kw_code KELSE then if src_ifdepth s = 0 then DOther else DElse
          else if kw = kw_code KENDIF then if skipping s = 0 \<and> src_ifdepth s = 0 then DOther else DEndif
          else DOther)"

text \<open>The state in which the condition of a line is evaluated, and whether it holds.\<close>

definition opened :: "cpp \<Rightarrow> cpp" where
  "opened s =
     s\<lparr>ifdepth := ifdepth s + 1, src_ifdepth := src_ifdepth s + 1,
       ifsatisfied := (ifsatisfied s)[nat (ifdepth s + 1) := 0]\<rparr>"

definition told :: "cpp \<Rightarrow> cpp" where
  "told s =
     (if ifsatisfied s ! nat (ifdepth s) = 2
      then s\<lparr>messages := messages s @ [(ERROR, ''#elif after #else'')], nerrs := 1\<rparr> else s)"

definition truth :: "(token list \<Rightarrow> token list cact) \<Rightarrow> token list \<Rightarrow> cpp \<Rightarrow> bool" where
  "truth expandrow r s \<longleftrightarrow>
     (\<exists>v s'. eval expandrow r (the (keyword_of r s)) (if directive r s = DIf then opened s else told s) = Ret (v, s') \<and> v \<noteq> 0)"

lemma deeper_run: "deeper s = (if ifdepth s + 1 < int NIF then Ret ((), s\<lparr>ifdepth := ifdepth s + 1, src_ifdepth := src_ifdepth s + 1\<rparr>) else Exit 1)"
  by (simp add: deeper_def error_def cfun_defs del: bindS_Ret)

lemma satisfied_run:
  assumes "cond_inv s"
  shows "get_satisfied s = Ret (ifsatisfied s ! nat (ifdepth s), s)"
    "set_satisfied v s = Ret ((), s\<lparr>ifsatisfied := (ifsatisfied s)[nat (ifdepth s) := v]\<rparr>)"
  using assms by (auto simp: get_satisfied_def set_satisfied_def cond_inv_def inv_of_def)

lemmas cond_state = cond_inv_def cond_stack_def

lemma do_if_step:
  assumes inv: "cond_inv s" "skipping s = 0" and ex: "\<And>r. keeps_cond (expandrow r)" and r: "do_if expandrow r kw s = Ret ((), s')"
  shows "\<exists>v t. eval expandrow r kw (opened s) = Ret (v, t) \<and> cond_inv s' \<and> cond_stack s' = (if v \<noteq> 0 then Taking else Waiting) # cond_stack s"
proof -
  let ?d = "ifdepth s + 1"
  have d: "?d < int NIF" using r by (auto simp: do_if_def seqS_def bindS_def deeper_run split: if_splits)
  have len: "nat ?d < length (ifsatisfied s)" "0 \<le> ?d" using inv d by (auto simp: cond_inv_def inv_of_def)
  have opened: "seqS deeper (set_satisfied 0) s = Ret ((), opened s)"
    using d len by (simp add: seqS_def bindS_def deeper_run set_satisfied_def opened_def)
  then obtain v t where v: "eval expandrow r kw (opened s) = Ret (v, t)"
    "(if v \<noteq> 0 then set_satisfied 1 else putS (\<lambda>s. s\<lparr>skipping := ifdepth s\<rparr>)) t = Ret ((), s')"
    using r unfolding do_if_def by (auto simp: seqS_def bindS_def split: outcome.splits)
  have keep: "ifdepth t = ?d" "ifsatisfied t = (ifsatisfied s)[nat ?d := 0]" "skipping t = 0"
    using preservesD [OF cond_is_eval [OF ex] _ v(1), of "(?d, (ifsatisfied s)[nat ?d := 0], 0)"] inv(2)
    by (auto simp: cond_is_def opened_def)
  have s': "ifdepth s' = ?d" "if v \<noteq> 0 then ifsatisfied s' = (ifsatisfied s)[nat ?d := 1] \<and> skipping s' = 0
      else ifsatisfied s' = (ifsatisfied s)[nat ?d := 0] \<and> skipping s' = ?d"
    using v(2) keep len by (auto simp: set_satisfied_def putS_def split: if_splits)
  have "inv_of (ifdepth s) (ifsatisfied s) 0" using inv by (simp add: cond_inv_def)
  note o = open_taken [OF this d] open_waiting [OF this d]
  show ?thesis using v(1) s' o inv(2) by (cases "v = 0") (auto simp: cond_state)
qed

text \<open>A line that starts another group of the innermost conditional, outside of skipped lines.\<close>

lemma told_run:
  "cond_inv s \<Longrightarrow> bindS get_satisfied (\<lambda>sat. seqS (whenS (sat = 2) (error ERROR ''#elif after #else'')) m) s = m (told s)"
  by (simp add: bindS_def seqS_def satisfied_run told_def error_def whenS_def returnS_def)

lemma told_fields [simp]:
  "ifdepth (told s) = ifdepth s" "ifsatisfied (told s) = ifsatisfied s" "skipping (told s) = skipping s"
  by (simp_all add: told_def)

lemma frame_top:
  "0 < d \<Longrightarrow> k = 0 \<or> k = d \<Longrightarrow> frame_at sat k (nat d) = (if k = 0 then Taking else if sat ! nat d = 0 then Waiting else Passed)"
  by (auto simp: frame_at_def)

lemma take_elif_run:
  assumes "cond_inv t" "take_elif v t = Ret ((), s')"
  shows "ifdepth s' = ifdepth t" "v \<noteq> 0 \<and> ifsatisfied t ! nat (ifdepth t) = 0 \<Longrightarrow>
      ifsatisfied s' = (ifsatisfied t)[nat (ifdepth t) := 1] \<and> skipping s' = 0"
    "\<not> (v \<noteq> 0 \<and> ifsatisfied t ! nat (ifdepth t) = 0) \<Longrightarrow> ifsatisfied s' = ifsatisfied t \<and> skipping s' = ifdepth t"
  using assms(2) satisfied_run(1) [OF assms(1)]
  by (auto simp: take_elif_def bindS_def seqS_def putS_def set_satisfied_def split: if_splits)

lemma do_elif_step:
  assumes inv: "cond_inv s" "skipping s = 0 \<or> skipping s = ifdepth s" "ifdepth s \<noteq> 0" and ex: "\<And>r. keeps_cond (expandrow r)"
    and r: "do_elif expandrow r kw s = Ret (b, s')"
  shows "\<exists>v t. eval expandrow r kw (told s) = Ret (v, t) \<and> cond_inv s' \<and>
    cond_stack s' = next_group (v \<noteq> 0) (hd (cond_stack s)) # tl (cond_stack s)"
proof -
  let ?sat = "ifsatisfied s ! nat (ifdepth s)"
  have d: "0 < ifdepth s" using inv by (auto simp: cond_inv_def inv_of_def)
  have "do_elif expandrow r kw s = bindS (eval expandrow r kw) (\<lambda>v. seqS (take_elif v) (returnS True)) (told s)"
    unfolding do_elif_def bind_getS using inv(3) told_run [OF inv(1)] by simp
  with r obtain v t where v: "eval expandrow r kw (told s) = Ret (v, t)" "take_elif v t = Ret ((), s')"
    by (auto simp: seqS_def returnS_def)
  have keep: "ifdepth t = ifdepth s" "ifsatisfied t = ifsatisfied s" "skipping t = skipping s"
    using preservesD [OF cond_is_eval [OF ex] _ v(1), of "(ifdepth s, ifsatisfied s, skipping s)"] by (auto simp: cond_is_def)
  then have "cond_inv t" using inv(1) by (simp add: cond_inv_def)
  note s' = take_elif_run [OF this v(2), unfolded keep]
  have inv': "inv_of (ifdepth s) (ifsatisfied s) (skipping s)" using inv(1) by (simp add: cond_inv_def)
  have same: "next_group True f = next_group False f" if "f \<noteq> Waiting" for f using that by (cases f) auto
  have not_waiting: "hd (cond_stack s) \<noteq> Waiting" if "?sat \<noteq> 0"
    using that frame_top [OF d inv(2)] d by (simp add: cond_stack_def frames_pred)
  have "cond_inv s' \<and> cond_stack s' = next_group (v \<noteq> 0) (hd (cond_stack s)) # tl (cond_stack s)"
  proof (cases "v \<noteq> 0 \<and> ?sat = 0")
    case True
    then show ?thesis using s'(1) s'(2) [OF True] choose_group [OF inv' d inv(2), of 1] by (simp add: cond_state)
  next
    case False
    then have "cond_inv s' \<and> cond_stack s' = next_group False (hd (cond_stack s)) # tl (cond_stack s)"
      using s'(1) s'(3) [OF False] skip_group [OF inv' d inv(2)] by (simp add: cond_state)
    moreover have "next_group (v \<noteq> 0) (hd (cond_stack s)) = next_group False (hd (cond_stack s))"
      using False same [OF not_waiting] by (cases "v = 0") simp_all
    ultimately show ?thesis by simp
  qed
  then show ?thesis using v(1) by blast
qed

lemma do_else_step:
  assumes inv: "cond_inv s" "skipping s = 0 \<or> skipping s = ifdepth s" "ifdepth s \<noteq> 0" "src_ifdepth s \<noteq> 0"
    and r: "do_else r s = Ret (b, s')"
  shows "cond_inv s' \<and> cond_stack s' = next_group True (hd (cond_stack s)) # tl (cond_stack s)"
proof -
  let ?sat = "ifsatisfied s ! nat (ifdepth s)"
  have d: "0 < ifdepth s" using inv by (auto simp: cond_inv_def inv_of_def)
  have inv': "inv_of (ifdepth s) (ifsatisfied s) (skipping s)" using inv(1) by (simp add: cond_inv_def)
  have s': "ifdepth s' = ifdepth s" "ifsatisfied s' = (ifsatisfied s)[nat (ifdepth s) := 2]"
      "skipping s' = (if ?sat \<noteq> 0 then ifdepth s else 0)"
    using r inv(3,4) satisfied_run(1) [OF inv(1)]
    by (auto simp: do_else_def bindS_def seqS_def getS_def putS_def whenS_def returnS_def error_def set_satisfied_def split: if_splits)
  show ?thesis
    using s' choose_group [OF inv' d inv(2), of 2] pass_group [OF inv' d inv(2), of 2] by (cases "?sat = 0") (auto simp: cond_state)
qed

lemma do_endif_step:
  assumes inv: "cond_inv s" "skipping s = 0" "ifdepth s \<noteq> 0" "src_ifdepth s \<noteq> 0" and r: "do_endif r s = Ret (b, s')"
  shows "cond_inv s' \<and> cond_stack s' = tl (cond_stack s)"
proof -
  have d: "0 < ifdepth s" using inv by (auto simp: cond_inv_def inv_of_def)
  have "ifdepth s' = ifdepth s - 1" "ifsatisfied s' = ifsatisfied s" "skipping s' = 0"
    using r inv by (auto simp: do_endif_def bindS_def seqS_def getS_def putS_def whenS_def returnS_def error_def split: if_splits)
  then show ?thesis using close_group [of "ifdepth s" "ifsatisfied s" 0] d inv by (simp add: cond_state)
qed

text \<open>While lines are skipped.\<close>

lemma control_skipping_step:
  assumes inv: "cond_inv s" "skipping s \<noteq> 0" and kw: "np_flag e AND ISKW \<noteq> 0" and r: "control_skipping r e s = Ret ((go_on, r'), s')"
  shows "np_val e = kw_code KENDIF \<Longrightarrow> \<not> go_on \<and> cond_inv s' \<and> cond_stack s' = tl (cond_stack s)"
    "np_val e \<in> {kw_code KIFDEF, kw_code KIFNDEF, kw_code KIF} \<Longrightarrow> \<not> go_on \<and> cond_inv s' \<and> cond_stack s' = Dead # cond_stack s"
    "np_val e \<in> {kw_code KELIF, kw_code KELSE} \<Longrightarrow> s' = s \<and> r' = r \<and> go_on = (ifdepth s \<le> skipping s)"
    "np_val e \<notin> {kw_code KENDIF, kw_code KIFDEF, kw_code KIFNDEF, kw_code KIF, kw_code KELIF, kw_code KELSE} \<Longrightarrow> s' = s \<and> \<not> go_on"
proof -
  have inv': "inv_of (ifdepth s) (ifsatisfied s) (skipping s)" using inv(1) by (simp add: cond_inv_def)
  then have d: "0 < ifdepth s" using inv(2) by (auto simp: inv_of_def)
  show "\<not> go_on \<and> cond_inv s' \<and> cond_stack s' = tl (cond_stack s)" if "np_val e = kw_code KENDIF"
    using r kw that close_group [OF inv' d] by (auto simp: control_skipping_def bindS_def seqS_def putS_def returnS_def cond_state Let_def)
  show "\<not> go_on \<and> cond_inv s' \<and> cond_stack s' = Dead # cond_stack s" if "np_val e \<in> {kw_code KIFDEF, kw_code KIFNDEF, kw_code KIF}"
    using r kw that open_dead [OF inv' inv(2)]
    by (auto simp: control_skipping_def bindS_def seqS_def deeper_run returnS_def cond_state split: if_splits)
  show "s' = s \<and> r' = r \<and> go_on = (ifdepth s \<le> skipping s)" if "np_val e \<in> {kw_code KELIF, kw_code KELSE}"
    using r kw that by (auto simp: control_skipping_def getS_def)
  show "s' = s \<and> \<not> go_on" if "np_val e \<notin> {kw_code KENDIF, kw_code KIFDEF, kw_code KIFNDEF, kw_code KIF, kw_code KELIF, kw_code KELSE}"
    using r kw that by (auto simp: control_skipping_def returnS_def)
qed

lemma control_kw_other:
  assumes "\<And>r. keeps_cond (expandrow r)" "\<And>r. keeps_cond (doinclude r)"
    "kw \<notin> {kw_code KENDIF, kw_code KIFDEF, kw_code KIFNDEF, kw_code KIF, kw_code KELIF, kw_code KELSE}"
  shows "preserves (cond_is c) (control_kw expandrow doinclude r kw)"
proof -
  have "preserves (cond_is c) (expandrow r)" "preserves (cond_is c) (doinclude r)" for r
    using assms(1,2) unfolding keeps_cond_def by blast+
  then show ?thesis using assms(3) cond_is_eval [OF assms(1)]
    unfolding control_kw_def emptied_def Let_def by (simp add: pres preserves_if)
qed

lemma stack_empty: "cond_inv s \<Longrightarrow> ifdepth s = 0 \<Longrightarrow> cond_stack s = [] \<and> skipping s = 0"
  by (auto simp: cond_state inv_of_def frames_0)

lemma stack_top:
  assumes "cond_inv s" "ifdepth s \<noteq> 0"
  obtains st where "cond_stack s = frame_at (ifsatisfied s) (skipping s) (nat (ifdepth s)) # st"
  using assms frames_pred [of "ifdepth s"] by (auto simp: cond_state inv_of_def)

lemma stack_dead:
  assumes "cond_inv s" "skipping s \<noteq> 0" "\<not> ifdepth s \<le> skipping s"
  obtains st where "cond_stack s = Dead # st"
proof -
  have "ifdepth s \<noteq> 0" "skipping s < ifdepth s" "0 < skipping s" using assms by (auto simp: cond_inv_def inv_of_def)
  then have "frame_at (ifsatisfied s) (skipping s) (nat (ifdepth s)) = Dead" by (simp add: frame_at_def)
  then show ?thesis using stack_top [OF assms(1) \<open>ifdepth s \<noteq> 0\<close>] that by metis
qed

lemma stack_active: "cond_inv s \<Longrightarrow> (\<forall>f \<in> set (cond_stack s). f = Taking) \<longleftrightarrow> skipping s = 0"
  by (simp add: cond_state frames_active)

text \<open>The line as it is handled when it is not passed over.\<close>

lemma control_kw_step:
  assumes inv: "cond_inv s" "skipping s = 0 \<or> skipping s = ifdepth s \<and> kw \<in> {kw_code KELIF, kw_code KELSE}"
    and ex: "\<And>r. keeps_cond (expandrow r)" and inc: "\<And>r. keeps_cond (doinclude r)"
    and kw: "keyword_of r s = Some kw" and r: "control_kw expandrow doinclude r kw s = Ret (r', s')"
  shows "cond_inv s' \<and> cond_stack s' = stack_step (directive r s) (truth expandrow r s) (cond_stack s)"
proof -
  consider "kw \<in> {kw_code KIFDEF, kw_code KIFNDEF, kw_code KIF}" | "kw = kw_code KELIF" | "kw = kw_code KELSE" | "kw = kw_code KENDIF"
    | "kw \<notin> {kw_code KENDIF, kw_code KIFDEF, kw_code KIFNDEF, kw_code KIF, kw_code KELIF, kw_code KELSE}" by blast
  then show ?thesis
  proof cases
    case 1
    then have d: "directive r s = DIf" "skipping s = 0" using kw inv(2) by (auto simp: directive_def)
    have "do_if expandrow r kw s = Ret ((), s')"
      using r 1 by (auto simp: control_kw_def emptied_def seqS_def returnS_def)
    from do_if_step [OF inv(1) d(2) ex this] show ?thesis using d kw stack_active [OF inv(1)] by (auto simp: truth_def)
  next
    case 2
    then have d: "directive r s = DElif" using kw by (simp add: directive_def)
    obtain b where b: "do_elif expandrow r kw s = Ret (b, s')" using r 2 by (auto simp: control_kw_def emptied_if_def returnS_def)
    show ?thesis
    proof (cases "ifdepth s = 0")
      case True
      then show ?thesis using b d inv(1) stack_empty [OF inv(1)]
        by (auto simp: do_elif_def bindS_def getS_def seqS_def error_def returnS_def cond_state)
    next
      case False
      obtain f st where st: "cond_stack s = f # st" using stack_top [OF inv(1) False] by blast
      obtain v t where "eval expandrow r kw (told s) = Ret (v, t)" "cond_inv s'" "cond_stack s' = next_group (v \<noteq> 0) f # st"
        using do_elif_step [OF inv(1) _ False ex b] inv(2) st by auto
      then show ?thesis using d kw st by (auto simp: truth_def)
    qed
  next
    case 3
    obtain b where b: "do_else r s = Ret (b, s')" using r 3 by (auto simp: control_kw_def emptied_if_def returnS_def)
    show ?thesis
    proof (cases "ifdepth s = 0 \<or> src_ifdepth s = 0")
      case True
      then show ?thesis using b kw 3 inv(1) stack_empty [OF inv(1)]
        by (auto simp: directive_def do_else_def bindS_def getS_def seqS_def error_def returnS_def cond_state)
    next
      case False
      then obtain f st where st: "cond_stack s = f # st" using stack_top [OF inv(1)] by blast
      show ?thesis using do_else_step [OF inv(1) _ _ _ b] inv(2) False 3 kw st by (auto simp: directive_def)
    qed
  next
    case 4
    then have z: "skipping s = 0" using inv(2) by auto
    obtain b where b: "do_endif r s = Ret (b, s')" using r 4 by (auto simp: control_kw_def emptied_if_def returnS_def)
    show ?thesis
    proof (cases "ifdepth s = 0 \<or> src_ifdepth s = 0")
      case True
      then show ?thesis using b kw 4 z inv(1) stack_empty [OF inv(1)]
        by (auto simp: directive_def do_endif_def bindS_def getS_def seqS_def error_def returnS_def cond_state)
    next
      case False
      then obtain f st where st: "cond_stack s = f # st" using stack_top [OF inv(1)] by blast
      show ?thesis using do_endif_step [OF inv(1) z _ _ b] False 4 kw st by (auto simp: directive_def)
    qed
  next
    case 5
    then have "directive r s = DOther" using kw by (auto simp: directive_def)
    moreover have "cond_is (ifdepth s, ifsatisfied s, skipping s) s'"
      using preservesD [OF control_kw_other [OF ex inc 5] _ r] by (simp add: cond_is_def)
    ultimately show ?thesis using inv(1) by (simp add: cond_is_def cond_state)
  qed
qed

lemma control_no_keyword:
  assumes kw: "keyword_of r s = None" and r: "control expandrow doinclude r s = Ret (r', s')"
  shows "cond_is (ifdepth s, ifsatisfied s, skipping s) s'"
proof -
  let ?c = "(ifdepth s, ifsatisfied s, skipping s)" and ?tp = "r ! 1" and ?np = "fst (lookup (r ! 1) False s)"
  have s: "cond_is ?c s" by (simp add: cond_is_def)
  have len: "1 < length r" "need_tok r 1 s = Ret (?tp, s)"
    using r by (auto simp: control_def need_tok_def tok_at_def lift_out_def bindS_def split: if_splits)
  show ?thesis
  proof (cases "tok_type ?tp = NAME")
    case False
    then have "(if tok_type ?tp = NUMBER then seqS (do_line r 1) (returnS r)
       else seqS (whenS (tok_type ?tp \<noteq> NL) (error ERROR ''Unidentifiable control line'')) (returnS r)) s = Ret (r', s')"
      using r len(2) unfolding control_def by (auto simp: bindS_def split: if_splits)
    then show ?thesis by (rule preservesD [rotated 2]) (intro pres s)+
  next
    case True
    then have no: "?np = 0 \<or> np_flag (entries s ?np) AND ISKW = 0" using kw len(1) by (auto simp: keyword_of_def Let_def split: if_splits)
    show ?thesis
    proof (cases "?np = 0 \<or> skipping s = 0")
      case _: True
      then have "seqS (error WARNING (''Unknown preprocessor control '' @ spelling ?tp)) (returnS r) s = Ret (r', s')"
        using r len(2) True no unfolding control_def by (auto simp: bindS_def getS_def)
      then show ?thesis by (rule preservesD [rotated 2]) (intro pres s)+
    next
      case False
      then have "s' = s" using r len(2) True no by (auto simp: control_def bindS_def getS_def control_skipping_def returnS_def)
      then show ?thesis using s by simp
    qed
  qed
qed

text \<open>
  Claim C9: a control line acts on the stack of open conditionals, in and outside of skipped lines:
  a conditional is opened, its next group is started or passed over depending on the condition
  and on the groups before it, or it is closed; every other line leaves the stack as it is.
\<close>

theorem control_refines_stack:
  assumes inv: "cond_inv s" and ex: "\<And>r. keeps_cond (expandrow r)" and inc: "\<And>r. keeps_cond (doinclude r)"
    and r: "control expandrow doinclude r s = Ret (r', s')"
  shows "cond_inv s' \<and> cond_stack s' = stack_step (directive r s) (truth expandrow r s) (cond_stack s)"
proof (cases "keyword_of r s")
  case None
  then show ?thesis using control_no_keyword [OF None r] inv by (auto simp: cond_is_def cond_state directive_def)
next
  case (Some kw)
  let ?np = "fst (lookup (r ! 1) False s)"
  let ?e = "entries s ?np"
  have tp: "tok_type (r ! 1) = NAME" "need_tok r 1 s = Ret (r ! 1, s)" "?np \<noteq> 0" "np_flag ?e AND ISKW \<noteq> 0" "np_val ?e = kw"
    using Some by (auto simp: keyword_of_def Let_def need_tok_def tok_at_def lift_out_def split: if_splits)
  have run: "bindS (if skipping s \<noteq> 0 then control_skipping r ?e else returnS (True, r)) (\<lambda>(go_on, r).
       if go_on then control_kw expandrow doinclude r kw else returnS r) s = Ret (r', s')"
    unfolding tp(5) [symmetric] using r unfolding control_def bindS_def [of "need_tok r 1"]
    by (simp add: bind_getS tp(1-4) del: bindS_Ret One_nat_def split del: if_split)
  show ?thesis
  proof (cases "skipping s = 0")
    case True
    then show ?thesis using run by (intro control_kw_step [OF inv _ ex inc Some]) (auto simp: returnS_def)
  next
    case False
    then obtain go_on r1 s1 where sk: "control_skipping r ?e s = Ret ((go_on, r1), s1)"
      "(if go_on then control_kw expandrow doinclude r1 kw else returnS r1) s1 = Ret (r', s')"
      using run by auto
    note step = control_skipping_step [OF inv False tp(4) sk(1), unfolded tp(5)]
    consider "kw = kw_code KENDIF" | "kw \<in> {kw_code KIFDEF, kw_code KIFNDEF, kw_code KIF}" | "kw \<in> {kw_code KELIF, kw_code KELSE}"
      | "kw \<notin> {kw_code KENDIF, kw_code KIFDEF, kw_code KIFNDEF, kw_code KIF, kw_code KELIF, kw_code KELSE}" by blast
    then show ?thesis
    proof cases
      case 1
      obtain f st where "cond_stack s = f # st" using stack_top [OF inv] False stack_empty [OF inv] by blast
      then show ?thesis using step(1) [OF 1] sk(2) 1 Some False by (auto simp: directive_def returnS_def)
    next
      case 2
      then show ?thesis using step(2) [OF 2] sk(2) Some False stack_active [OF inv] by (auto simp: directive_def returnS_def)
    next
      case 3
      show ?thesis
      proof (cases "ifdepth s \<le> skipping s")
        case True
        then have "skipping s = ifdepth s" using inv by (auto simp: cond_inv_def inv_of_def)
        then show ?thesis using step(3) [OF 3] sk(2) 3 True by (intro control_kw_step [OF inv _ ex inc Some]) auto
      next
        case dead: False
        obtain st where "cond_stack s = Dead # st" using stack_dead [OF inv False dead] by blast
        then show ?thesis using step(3) [OF 3] sk(2) 3 Some dead inv by (auto simp: directive_def returnS_def)
      qed
    next
      case 4
      then show ?thesis using step(4) [OF 4] sk(2) Some inv by (auto simp: directive_def returnS_def)
    qed
  qed
qed

text \<open>An else line of a conditional whose first group was not chosen.\<close>

definition demo_cpp :: cpp where
  "demo_cpp =
     \<lparr>messages = [], nerrs = 0, nlist = (\<lambda>_. [1]),
      entries = (\<lambda>_. \<lparr>np_name = ''else'', np_len = 4, np_vp = None, np_ap = None, np_val = kw_code KELSE, np_flag = ISKW\<rparr>),
      next_np = 2, namebit = (\<lambda>_. 0), kwdefined = 0, vals = [], ops = [], ifdepth = 1, ifsatisfied = replicate 32 0, skipping = 1,
      src_ifdepth = 1, src_line = 1, src_filename = [], src_lineinc = 1, out = []\<rparr>"

definition demo_row :: "token list" where
  "demo_row = [op_token SHARP, name_token ''else'', nltoken]"

lemma demo_cpp_sel:
  "ifdepth demo_cpp = 1" "ifsatisfied demo_cpp = replicate 32 0" "skipping demo_cpp = 1" "src_ifdepth demo_cpp = 1"
  "np_val (entries demo_cpp np) = kw_code KELSE" "np_flag (entries demo_cpp np) AND ISKW \<noteq> 0"
  "fst (lookup (name_token ''else'') False demo_cpp) = 1"
  by (simp_all add: demo_cpp_def ISKW_def lookup_def same_name_def name_token_def c_prefix_def)

lemma demo_else:
  "control returnS (\<lambda>_. returnS ()) demo_row demo_cpp =
     Ret (setempty, demo_cpp\<lparr>skipping := 0, ifsatisfied := (replicate 32 0)[1 := 2]\<rparr>)"
proof -
  let ?e = "entries demo_cpp 1"
  have kws: "kw_code KELSE \<notin> {kw_code KENDIF, kw_code KIFDEF, kw_code KIFNDEF, kw_code KIF}" by simp
  have sk: "control_skipping demo_row ?e demo_cpp = Ret ((True, demo_row), demo_cpp)"
    using kws by (simp add: control_skipping_def demo_cpp_sel getS_def del: kw_code.simps)
  have "do_else demo_row demo_cpp = Ret (True, demo_cpp\<lparr>skipping := 0, ifsatisfied := (replicate 32 0)[1 := 2]\<rparr>)"
    by (simp add: do_else_def bind_getS bindS_def seqS_def putS_def whenS_def returnS_def get_satisfied_def set_satisfied_def
        demo_cpp_sel demo_row_def getS_def del: replicate.simps bindS_Ret bind_outcome_eq_Ret)
  then have el: "control_kw returnS (\<lambda>_. returnS ()) demo_row (kw_code KELSE) demo_cpp =
      Ret (setempty, demo_cpp\<lparr>skipping := 0, ifsatisfied := (replicate 32 0)[1 := 2]\<rparr>)"
    by (simp add: control_kw_def emptied_if_def bindS_def returnS_def del: bindS_Ret bind_outcome_eq_Ret)
  have "need_tok demo_row 1 demo_cpp = Ret (name_token ''else'', demo_cpp)" "tok_type (name_token ''else'') = NAME"
    by (simp_all add: need_tok_def tok_at_def lift_out_def demo_row_def name_token_def)
  then show ?thesis unfolding control_def bindS_def [of "need_tok demo_row 1"]
    using sk el by (simp add: bind_getS demo_cpp_sel getS_def bindS_def del: kw_code.simps replicate.simps bindS_Ret bind_outcome_eq_Ret)
qed

lemma demo_directive: "directive demo_row demo_cpp = DElse"
proof -
  have "keyword_of demo_row demo_cpp = Some (kw_code KELSE)"
    using demo_cpp_sel(7) by (simp add: keyword_of_def demo_row_def Let_def demo_cpp_sel del: kw_code.simps) (simp add: name_token_def)
  then show ?thesis by (simp add: directive_def demo_cpp_sel)
qed

theorem control_refines_stack_witness:
  "cond_stack demo_cpp = [Waiting] \<and> cond_stack (demo_cpp\<lparr>skipping := 0, ifsatisfied := (replicate 32 0)[1 := 2]\<rparr>) = [Taking]"
proof -
  have inv: "cond_inv demo_cpp" "cond_stack demo_cpp = [Waiting]"
    by (simp_all add: cond_state inv_of_def NIF_def frames_def frame_at_def demo_cpp_sel del: replicate.simps)
  have "keeps_cond (returnS r)" "keeps_cond (returnS ())" for r :: "token list"
    by (simp_all add: keeps_cond_def)
  then show ?thesis using control_refines_stack [OF inv(1) _ _ demo_else] inv(2) demo_directive by simp
qed

end
