(* ===== verification/CPP_Lex.thy ===== *)
theory CPP_Lex
  imports CPP_Control
begin

text \<open>
  The lexer of the preprocessor (src/lcc-1.3/cpp/lex.c): the table of the automaton, its expansion, and
  the loop of gettokens.  The input of a source is the text that is still to be read; a byte EOB in
  it is taken for the end of the file, as fillbuf does.  The limits of the input buffer are not
  modelled.
\<close>

section \<open>The automaton\<close>

datatype lexstate =
  START | NUM1 | NUM2 | NUM3 | ID1 | ST1 | ST2 | ST3 | COM1 | COM2 | COM3 | COM4
| CC1 | CC2 | WS1 | PLUS1 | MINUS1 | STAR1 | SLASH1 | PCT1 | SHARP1
| CIRC1 | GT1 | GT2 | LT1 | LT2 | OR1 | AND1 | ASG1 | NOT1 | DOTS1
| S_CR1 | S_COMCR1
| S_SELF | S_SELFB | S_EOF | S_NL | S_EOFSTR
| S_STNL | S_COMNL | S_EOFCOM | S_COMMENT | S_EOB | S_WS | S_NAME

definition MAXSTATE :: nat where "MAXSTATE = 32"

text \<open>The values of the enumeration: S_SELF is set to MAXSTATE, the value of S_COMCR1.\<close>

fun st_code :: "lexstate \<Rightarrow> nat" where
  "st_code START = 0" | "st_code NUM1 = 1" | "st_code NUM2 = 2" | "st_code NUM3 = 3" | "st_code ID1 = 4" | "st_code ST1 = 5"
| "st_code ST2 = 6" | "st_code ST3 = 7" | "st_code COM1 = 8" | "st_code COM2 = 9" | "st_code COM3 = 10" | "st_code COM4 = 11"
| "st_code CC1 = 12" | "st_code CC2 = 13" | "st_code WS1 = 14" | "st_code PLUS1 = 15" | "st_code MINUS1 = 16" | "st_code STAR1 = 17"
| "st_code SLASH1 = 18" | "st_code PCT1 = 19" | "st_code SHARP1 = 20" | "st_code CIRC1 = 21" | "st_code GT1 = 22" | "st_code GT2 = 23"
| "st_code LT1 = 24" | "st_code LT2 = 25" | "st_code OR1 = 26" | "st_code AND1 = 27" | "st_code ASG1 = 28" | "st_code NOT1 = 29"
| "st_code DOTS1 = 30" | "st_code S_CR1 = 31" | "st_code S_COMCR1 = 32"
| "st_code S_SELF = 32" | "st_code S_SELFB = 33" | "st_code S_EOF = 34" | "st_code S_NL = 35" | "st_code S_EOFSTR = 36"
| "st_code S_STNL = 37" | "st_code S_COMNL = 38" | "st_code S_EOFCOM = 39" | "st_code S_COMMENT = 40" | "st_code S_EOB = 41"
| "st_code S_WS = 42" | "st_code S_NAME = 43"

text \<open>The token types in the order of enum toktype.\<close>

definition toktypes :: "toktype list" where
  "toktypes =
    [END, UNCLASS, NAME, NUMBER, STRING, CCON, NL, WS, DSHARP, EQ, NEQ, LEQ, GEQ, LSH, RSH, LAND, LOR, PPLUS, MMINUS,
     ARROW, SBRA, SKET, LP, RP, DOT, ANDt, STAR, PLUS, MINUS, TILDE, NOTt, SLASH, PCT, LT, GT, CIRC, ORt, QUEST,
     COLON, ASGN, COMMA, SHARP, SEMIC, CBRA, CKET, ASPLUS, ASMINUS, ASSTAR, ASSLASH, ASPCT, ASCIRC, ASLSH,
     ASRSH, ASOR, ASAND, ELLIPS, DSHARP1, NAME1, DEFINED, UMINUS]"

definition tok_code :: "toktype \<Rightarrow> nat" where
  "tok_code t = length (takeWhile (\<lambda>u. u \<noteq> t) toktypes)"

datatype fsm_ch = C_XX | C_ALPH | C_NUM | Ch char

datatype fsm_next = St lexstate | Act toktype lexstate

text \<open>ACT keeps the token type in the bits above the state.\<close>

fun next_code :: "fsm_next \<Rightarrow> int" where
  "next_code (St x) = int (st_code x)"
| "next_code (Act t x) = int (tok_code t * 128 + st_code x)"

definition fsm :: "(lexstate \<times> fsm_ch list \<times> fsm_next) list" where
  "fsm =
    [(START, [C_XX], Act UNCLASS S_SELF), (START, [Ch (CHR 0x20), Ch (CHR 0x09), Ch (CHR 0x0B)], St WS1), (START, [C_NUM], St NUM1),
     (START, [Ch (CHR ''.'')], St NUM3), (START, [C_ALPH], St ID1), (START, [Ch (CHR ''L'')], St ST1), (START, [Ch (CHR 0x22)], St ST2),
     (START, [Ch (CHR 0x27)], St CC1), (START, [Ch (CHR ''/'')], St COM1), (START, [Ch (CHR 0xFD)], St S_EOF),
     (START, [Ch (CHR 0x0D)], St S_CR1), (START, [Ch (CHR 0x0A)], St S_NL), (START, [Ch (CHR ''-'')], St MINUS1),
     (START, [Ch (CHR ''+'')], St PLUS1), (START, [Ch (CHR ''<'')], St LT1), (START, [Ch (CHR ''>'')], St GT1),
     (START, [Ch (CHR ''='')], St ASG1), (START, [Ch (CHR ''!'')], St NOT1), (START, [Ch (CHR ''&'')], St AND1),
     (START, [Ch (CHR ''|'')], St OR1), (START, [Ch (CHR ''#'')], St SHARP1), (START, [Ch (CHR ''%'')], St PCT1),
     (START, [Ch (CHR ''['')], Act SBRA S_SELF), (START, [Ch (CHR '']'')], Act SKET S_SELF), (START, [Ch (CHR ''('')], Act LP S_SELF),
     (START, [Ch (CHR '')'')], Act RP S_SELF), (START, [Ch (CHR ''*'')], St STAR1), (START, [Ch (CHR '','')], Act COMMA S_SELF),
     (START, [Ch (CHR ''?'')], Act QUEST S_SELF), (START, [Ch (CHR '':'')], Act COLON S_SELF), (START, [Ch (CHR '';'')], Act SEMIC S_SELF),
     (START, [Ch (CHR ''{'')], Act CBRA S_SELF), (START, [Ch (CHR ''}'')], Act CKET S_SELF), (START, [Ch (CHR ''~'')], Act TILDE S_SELF),
     (START, [Ch (CHR ''^'')], St CIRC1), (S_COMCR1, [Ch (CHR 0x0A)], St S_COMNL), (S_CR1, [Ch (CHR 0x0A)], St S_NL),
     (NUM1, [C_XX], Act NUMBER S_SELFB), (NUM1, [C_NUM, C_ALPH, Ch (CHR ''.'')], St NUM1),
     (NUM1, [Ch (CHR ''E''), Ch (CHR ''e'')], St NUM2), (NUM1, [Ch (CHR ''_'')], Act NUMBER S_SELFB), (NUM2, [C_XX], Act NUMBER S_SELFB),
     (NUM2, [Ch (CHR ''+''), Ch (CHR ''-'')], St NUM1), (NUM2, [C_NUM, C_ALPH], St NUM1), (NUM2, [Ch (CHR ''_'')], Act NUMBER S_SELFB),
     (NUM3, [C_XX], Act DOT S_SELFB), (NUM3, [Ch (CHR ''.'')], St DOTS1), (NUM3, [C_NUM], St NUM1),
     (DOTS1, [C_XX], Act UNCLASS S_SELFB), (DOTS1, [C_NUM], St NUM1), (DOTS1, [Ch (CHR ''.'')], Act ELLIPS S_SELF),
     (ID1, [C_XX], Act NAME S_NAME), (ID1, [C_ALPH, C_NUM], St ID1), (ST1, [C_XX], Act NAME S_NAME), (ST1, [C_ALPH, C_NUM], St ID1),
     (ST1, [Ch (CHR 0x22)], St ST2), (ST1, [Ch (CHR 0x27)], St CC1), (ST2, [C_XX], St ST2), (ST2, [Ch (CHR 0x22)], Act STRING S_SELF),
     (ST2, [Ch (CHR 0x5C)], St ST3), (ST2, [Ch (CHR 0x0D), Ch (CHR 0x0A)], St S_STNL), (ST2, [Ch (CHR 0xFD)], St S_EOFSTR),
     (ST3, [C_XX], St ST2), (ST3, [Ch (CHR 0x0D), Ch (CHR 0x0A)], St S_STNL), (ST3, [Ch (CHR 0xFD)], St S_EOFSTR), (CC1, [C_XX], St CC1),
     (CC1, [Ch (CHR 0x27)], Act CCON S_SELF), (CC1, [Ch (CHR 0x5C)], St CC2), (CC1, [Ch (CHR 0x0D), Ch (CHR 0x0A)], St S_STNL),
     (CC1, [Ch (CHR 0xFD)], St S_EOFSTR), (CC2, [C_XX], St CC1), (CC2, [Ch (CHR 0x0A)], St S_STNL), (CC2, [Ch (CHR 0xFD)], St S_EOFSTR),
     (COM1, [C_XX], Act SLASH S_SELFB), (COM1, [Ch (CHR ''='')], Act ASSLASH S_SELF), (COM1, [Ch (CHR ''*'')], St COM2),
     (COM1, [Ch (CHR ''/'')], St COM4), (COM2, [C_XX], St COM2), (COM2, [Ch (CHR 0x0D)], St S_COMCR1), (COM2, [Ch (CHR 0x0A)], St S_COMNL),
     (COM2, [Ch (CHR ''*'')], St COM3), (COM2, [Ch (CHR 0xFD)], St S_EOFCOM), (COM3, [C_XX], St COM2), (COM3, [Ch (CHR 0x0D)], St S_COMCR1),
     (COM3, [Ch (CHR 0x0A)], St S_COMNL), (COM3, [Ch (CHR ''*'')], St COM3), (COM3, [Ch (CHR ''/'')], St S_COMMENT),
     (COM4, [C_XX], St COM4), (COM4, [Ch (CHR 0x0D)], St S_CR1), (COM4, [Ch (CHR 0x0A)], St S_NL), (COM4, [Ch (CHR 0xFD)], St S_EOFCOM),
     (WS1, [C_XX], St S_WS), (WS1, [Ch (CHR 0x20), Ch (CHR 0x09), Ch (CHR 0x0B)], St WS1), (MINUS1, [C_XX], Act MINUS S_SELFB),
     (MINUS1, [Ch (CHR ''-'')], Act MMINUS S_SELF), (MINUS1, [Ch (CHR ''='')], Act ASMINUS S_SELF),
     (MINUS1, [Ch (CHR ''>'')], Act ARROW S_SELF), (PLUS1, [C_XX], Act PLUS S_SELFB), (PLUS1, [Ch (CHR ''+'')], Act PPLUS S_SELF),
     (PLUS1, [Ch (CHR ''='')], Act ASPLUS S_SELF), (LT1, [C_XX], Act LT S_SELFB), (LT1, [Ch (CHR ''<'')], St LT2),
     (LT1, [Ch (CHR ''='')], Act LEQ S_SELF), (LT2, [C_XX], Act LSH S_SELFB), (LT2, [Ch (CHR ''='')], Act ASLSH S_SELF),
     (GT1, [C_XX], Act GT S_SELFB), (GT1, [Ch (CHR ''>'')], St GT2), (GT1, [Ch (CHR ''='')], Act GEQ S_SELF),
     (GT2, [C_XX], Act RSH S_SELFB), (GT2, [Ch (CHR ''='')], Act ASRSH S_SELF), (ASG1, [C_XX], Act ASGN S_SELFB),
     (ASG1, [Ch (CHR ''='')], Act EQ S_SELF), (NOT1, [C_XX], Act NOTt S_SELFB), (NOT1, [Ch (CHR ''='')], Act NEQ S_SELF),
     (AND1, [C_XX], Act ANDt S_SELFB), (AND1, [Ch (CHR ''&'')], Act LAND S_SELF), (AND1, [Ch (CHR ''='')], Act ASAND S_SELF),
     (OR1, [C_XX], Act ORt S_SELFB), (OR1, [Ch (CHR ''|'')], Act LOR S_SELF), (OR1, [Ch (CHR ''='')], Act ASOR S_SELF),
     (SHARP1, [C_XX], Act SHARP S_SELFB), (SHARP1, [Ch (CHR ''#'')], Act DSHARP S_SELF), (PCT1, [C_XX], Act PCT S_SELFB),
     (PCT1, [Ch (CHR ''='')], Act ASPCT S_SELF), (STAR1, [C_XX], Act STAR S_SELFB), (STAR1, [Ch (CHR ''='')], Act ASSTAR S_SELF),
     (CIRC1, [C_XX], Act CIRC S_SELFB), (CIRC1, [Ch (CHR ''='')], Act ASCIRC S_SELF)]"

section \<open>The expanded table\<close>

fun in_class :: "fsm_ch \<Rightarrow> nat \<Rightarrow> bool" where
  "in_class C_XX j \<longleftrightarrow> j < 256"
| "in_class C_ALPH j \<longleftrightarrow> 97 \<le> j \<and> j \<le> 122 \<or> 65 \<le> j \<and> j \<le> 90 \<or> j = 95"
| "in_class C_NUM j \<longleftrightarrow> 48 \<le> j \<and> j \<le> 57"
| "in_class (Ch c) j \<longleftrightarrow> j = code_of c"

definition entry_value :: "fsm_next \<Rightarrow> int" where
  "entry_value n = (if int (st_code S_SELF) \<le> next_code n then NOT (next_code n) else next_code n)"

text \<open>
  The table bigfsm has a row of MAXSTATE cells for each character.  A cell is addressed as 32 * j + i;
  the column MAXSTATE, which one entry uses, is the first cell of the next row.
\<close>

definition put_class :: "nat \<Rightarrow> int \<Rightarrow> fsm_ch \<Rightarrow> (nat \<Rightarrow> int) \<Rightarrow> nat \<Rightarrow> int" where
  "put_class i v ch tab k = (if i \<le> k \<and> (k - i) mod MAXSTATE = 0 \<and> in_class ch ((k - i) div MAXSTATE) then v else tab k)"

definition put_entry :: "lexstate \<times> fsm_ch list \<times> fsm_next \<Rightarrow> (nat \<Rightarrow> int) \<Rightarrow> nat \<Rightarrow> int" where
  "put_entry fp tab = (case fp of (x, chs, n) \<Rightarrow> fold (put_class (st_code x) (entry_value n)) chs tab)"

definition raw_fsm :: "nat \<Rightarrow> int" where
  "raw_fsm = fold put_entry fsm (\<lambda>_. 0)"

definition QBSBIT :: int where "QBSBIT = 64"

definition EOB :: nat where "EOB = 0xFE"

definition EOFC :: nat where "EOFC = 0xFD"

definition expandlex :: "nat \<Rightarrow> nat \<Rightarrow> int" where
  "expandlex j i =
     (let v = raw_fsm (MAXSTATE * j + i) in
      if j = EOB then NOT (int (st_code S_EOB))
      else if j = EOFC then (if 0 \<le> v then NOT (int (st_code S_EOF)) else v)
      else if j = 63 \<or> j = 92 then (if 0 < v then NOT v else v) AND NOT QBSBIT
      else v)"

text \<open>Without C++ comments a second slash is like any other character.\<close>

definition fixlex :: "nat \<Rightarrow> (nat \<Rightarrow> nat \<Rightarrow> int) \<Rightarrow> nat \<Rightarrow> nat \<Rightarrow> int" where
  "fixlex cplusplus tab j i =
     (if cplusplus = 0 \<and> j = 47 \<and> i = st_code COM1 then tab 120 i else tab j i)"

definition bigfsm :: "nat \<Rightarrow> nat \<Rightarrow> int" where
  "bigfsm = fixlex 1 expandlex"

section \<open>Reading the table\<close>

definition fsm_cells :: "(nat \<times> fsm_ch \<times> int) list" where
  "fsm_cells = rev (concat (map (\<lambda>(x, chs, n). map (\<lambda>ch. (st_code x, ch, entry_value n)) chs) fsm))"

definition hits :: "nat \<Rightarrow> nat \<times> fsm_ch \<times> int \<Rightarrow> bool" where
  "hits k e = (case e of (i, ch, v) \<Rightarrow> i \<le> k \<and> (k - i) mod MAXSTATE = 0 \<and> in_class ch ((k - i) div MAXSTATE))"

definition first_hit :: "nat \<Rightarrow> (nat \<times> fsm_ch \<times> int) list \<Rightarrow> int" where
  "first_hit k es = (case find (hits k) es of Some (i, ch, v) \<Rightarrow> v | None \<Rightarrow> 0)"

lemma fold_put_class:
  "fold (\<lambda>(i, ch, v). put_class i v ch) cs tab k = (case find (hits k) (rev cs) of Some (i, ch, v) \<Rightarrow> v | None \<Rightarrow> tab k)"
proof (induction cs rule: rev_induct)
  case (snoc e cs)
  then show ?case by (cases e) (auto simp: put_class_def hits_def)
qed simp

lemma raw_fsm_hit: "raw_fsm k = first_hit k fsm_cells"
proof -
  have "fold put_entry fs tab = fold (\<lambda>(i, ch, v). put_class i v ch) (concat (map (\<lambda>(x, chs, n). map (\<lambda>ch. (st_code x, ch, entry_value n)) chs) fs)) tab"
    for fs tab
    by (induction fs arbitrary: tab) (auto simp: put_entry_def fold_map comp_def)
  then show ?thesis unfolding raw_fsm_def first_hit_def fsm_cells_def by (simp add: fold_put_class)
qed

text \<open>The entries of a column; the first column has the entry of the column that does not exist.\<close>

definition column :: "nat \<Rightarrow> (nat \<times> fsm_ch \<times> int) list" where
  "column s = filter (\<lambda>(i, ch, v). i = s \<or> i = 32 \<and> s = 0) fsm_cells"

lemma st_code_less: "e \<in> set fsm_cells \<Longrightarrow> fst e \<le> 32"
proof -
  have "list_all (\<lambda>(x, chs, n). st_code x \<le> 32) fsm" by (simp add: fsm_def)
  then show "e \<in> set fsm_cells \<Longrightarrow> fst e \<le> 32" by (auto simp: fsm_cells_def list_all_iff)
qed

lemma hits_column:
  assumes "s < 32" "i \<le> 32"
  shows "hits (32 * j + s) (i, ch, v) \<longleftrightarrow> i = s \<and> in_class ch j \<or> i = 32 \<and> s = 0 \<and> 0 < j \<and> in_class ch (j - 1)"
proof (cases "i = 32")
  case True
  show ?thesis
  proof (cases "s = 0 \<and> 0 < j")
    case t: True
    then obtain j' where "j = Suc j'" by (cases j) auto
    then show ?thesis using t True assms by (auto simp: hits_def MAXSTATE_def)
  next
    case f: False
    then have "\<not> (32 \<le> 32 * j + s \<and> (32 * j + s - 32) mod 32 = 0)"
      using assms by (cases j) auto
    then show ?thesis using f True assms by (auto simp: hits_def MAXSTATE_def)
  qed
next
  case False
  then have i: "i < 32" using assms by simp
  have "i \<le> 32 * j + s \<and> (32 * j + s - i) mod 32 = 0 \<longleftrightarrow> i = s"
  proof
    assume h: "i \<le> 32 * j + s \<and> (32 * j + s - i) mod 32 = 0"
    then obtain q where "32 * j + s - i = 32 * q" by auto
    then have "32 * j + s = 32 * q + i" using h by simp
    then have "(32 * j + s) mod 32 = (32 * q + i) mod 32" by simp
    then show "i = s" using i assms by simp
  qed simp
  then show ?thesis using False by (auto simp: hits_def MAXSTATE_def)
qed

lemma raw_fsm_column:
  assumes "s < 32"
  shows "raw_fsm (32 * j + s) =
    (case find (\<lambda>(i, ch, v). in_class ch (if i = s then j else j - 1) \<and> (i = s \<or> 0 < j)) (column s) of Some (i, ch, v) \<Rightarrow> v | None \<Rightarrow> 0)"
proof -
  have "find (hits (32 * j + s)) es =
      find (\<lambda>(i, ch, v). in_class ch (if i = s then j else j - 1) \<and> (i = s \<or> 0 < j)) (filter (\<lambda>(i, ch, v). i = s \<or> i = 32 \<and> s = 0) es)"
    if "\<forall>e \<in> set es. fst e \<le> 32" for es
    using that
  proof (induction es)
    case (Cons e es)
    obtain i ch v where e: "e = (i, ch, v)" by (cases e)
    then have "hits (32 * j + s) e \<longleftrightarrow> i = s \<and> in_class ch j \<or> i = 32 \<and> s = 0 \<and> 0 < j \<and> in_class ch (j - 1)"
      using Cons.prems hits_column [OF assms] by simp
    then show ?case using Cons e by auto
  qed simp
  then show ?thesis using st_code_less by (simp add: raw_fsm_hit first_hit_def column_def)
qed

section \<open>The loop of gettokens\<close>

text \<open>
  The text of the token so far, the white space before it, the input that is not read yet, the
  tokens of the row, and what the row did: lines, messages, whether a name may be a macro.
\<close>

record lexing =
  lx_state :: nat
  lx_text :: string
  lx_ws :: nat
  lx_in :: string
  lx_toks :: "token list"
  lx_lineinc :: int
  lx_msgs :: "(errtype \<times> string) list"
  lx_nmac :: bool

definition lex_char :: "string \<Rightarrow> char" where
  "lex_char p = (case p of [] \<Rightarrow> CHR 0xFD | c # _ \<Rightarrow> if c = CHR 0xFE then CHR 0xFD else c)"

definition trigraph :: "string \<Rightarrow> string option" where
  "trigraph p =
     (if char_at p 1 \<noteq> CHR ''?'' then None
      else map_option (\<lambda>c. c # drop 3 p)
        (map_of [(CHR ''='', CHR ''#''), (CHR ''('', CHR ''[''), (CHR ''/'', CHR 0x5C), (CHR '')'', CHR '']''), (CHR 0x27, CHR ''^''),
                 (CHR ''<'', CHR ''{''), (CHR ''!'', CHR ''|''), (CHR ''>'', CHR ''}''), (CHR ''-'', CHR ''~'')] (char_at p 2)))"

definition foldline :: "string \<Rightarrow> string option" where
  "foldline p = (if char_at p 1 = CHR 0x0A then Some (drop 2 p) else None)"

definition lex_token :: "toktype \<Rightarrow> string \<Rightarrow> nat \<Rightarrow> string \<Rightarrow> token" where
  "lex_token t str ws p = \<lparr>tok_type = t, tok_flag = 0, tok_hideset = 0, tok_wslen = ws, tok_len = length str, tok_t = str @ p\<rparr>"

text \<open>The next token starts at the next character.\<close>

definition add_token :: "token \<Rightarrow> string \<Rightarrow> lexing \<Rightarrow> lexing" where
  "add_token tp p l = l\<lparr>lx_state := 0, lx_text := [], lx_ws := 0, lx_in := p, lx_toks := lx_toks l @ [tp]\<rparr>"

definition consume :: "nat \<Rightarrow> lexing \<Rightarrow> lexing" where
  "consume x l = l\<lparr>lx_state := x, lx_text := lx_text l @ [lex_char (lx_in l)], lx_in := tl (lx_in l)\<rparr>"

definition add_msg :: "errtype \<Rightarrow> string \<Rightarrow> lexing \<Rightarrow> lexing" where
  "add_msg ty msg l = l\<lparr>lx_msgs := lx_msgs l @ [(ty, msg)]\<rparr>"

definition newline_row :: "lexing \<Rightarrow> lexing" where
  "newline_row l =
     (add_token (lex_token NL [lex_char (lx_in l)] 0 (tl (lx_in l))) (tl (lx_in l)) l)\<lparr>lx_lineinc := lx_lineinc l + 1\<rparr>"

text \<open>
  The action for a state that requires one; \<open>Inl\<close>: the row ends.  The message about a missing
  newline depends on whether the source is a file.
\<close>

definition lex_act :: "(token \<Rightarrow> bool) \<Rightarrow> bool \<Rightarrow> nat \<Rightarrow> lexing \<Rightarrow> lexing + lexing" where
  "lex_act quick from_file x l =
     (let p = lx_in l; str = lx_text l; ws = lx_ws l; k = x mod 128 in
      if k = st_code S_SELF then
        Inr (add_token (lex_token (toktypes ! (x div 128)) (str @ [lex_char p]) ws (tl p)) (tl p) l)
      else if k = st_code S_SELFB then Inr (add_token (lex_token (toktypes ! (x div 128)) str ws p) p l)
      else if k = st_code S_NAME then
        let tp = lex_token NAME str ws p in Inr ((add_token tp p l)\<lparr>lx_nmac := lx_nmac l \<or> quick tp\<rparr>)
      else if k = st_code S_WS then Inr (l\<lparr>lx_state := 0, lx_ws := length str, lx_text := []\<rparr>)
      else if k = st_code S_EOF then
        Inl (add_token ((lex_token END [] ws p)\<lparr>tok_t := str @ p\<rparr>) p
          (if lx_toks l \<noteq> [] \<and> tok_type (last (lx_toks l)) \<noteq> NL \<and> from_file then add_msg WARNING ''No newline at end of file'' l else l))
      else if k = st_code S_STNL then Inl (newline_row (add_msg ERROR ''Unterminated string or char const'' l))
      else if k = st_code S_NL then Inl (newline_row l)
      else if k = st_code S_EOFSTR then Inl (add_msg FATAL ''EOF in string or char constant'' l)
      else if k = st_code S_COMNL then Inr ((consume (st_code COM2) l)\<lparr>lx_lineinc := lx_lineinc l + 1\<rparr>)
      else if k = st_code S_EOFCOM then Inr ((add_msg WARNING ''EOF inside comment'' l)\<lparr>lx_state := 0, lx_ws := 1, lx_text := []\<rparr>)
      else if k = st_code S_COMMENT then Inr (l\<lparr>lx_state := 0, lx_ws := 1, lx_text := [], lx_in := tl p\<rparr>)
      else Inr (consume x l))"

definition lex_step :: "(token \<Rightarrow> bool) \<Rightarrow> bool \<Rightarrow> lexing \<Rightarrow> lexing + lexing" where
  "lex_step quick from_file l =
     (let c = lex_char (lx_in l); v = bigfsm (code_of c) (lx_state l) in
      if 0 \<le> v then Inr (consume (nat v) l)
      else
        let x = nat (NOT v) in
        if \<not> bit x 6 then lex_act quick from_file x l
        else
          let x = x - 64 in
          if c = CHR ''?'' then
            (case trigraph (lx_in l) of Some p \<Rightarrow> Inr (l\<lparr>lx_in := p\<rparr>) | None \<Rightarrow> lex_act quick from_file x l)
          else if c = CHR 0x5C then
            (case foldline (lx_in l) of
               Some p \<Rightarrow> Inr (l\<lparr>lx_in := p, lx_lineinc := lx_lineinc l + 1\<rparr>)
             | None \<Rightarrow> lex_act quick from_file x l)
          else Inr (consume x (add_msg WARNING ''Lexical botch in cpp'' l)))"

partial_function (option) lex_loop :: "(token \<Rightarrow> bool) \<Rightarrow> bool \<Rightarrow> lexing \<Rightarrow> lexing option" where
  "lex_loop quick from_file l =
     (case lex_step quick from_file l of Inl l' \<Rightarrow> Some l' | Inr l' \<Rightarrow> lex_loop quick from_file l')"

text \<open>The tokens of a line go after the tokens that the row already has.\<close>

definition lex_init :: "token list \<Rightarrow> string \<Rightarrow> lexing" where
  "lex_init ts p = \<lparr>lx_state = 0, lx_text = [], lx_ws = 0, lx_in = p, lx_toks = ts, lx_lineinc = 0, lx_msgs = [], lx_nmac = False\<rparr>"

definition lex_row :: "(token \<Rightarrow> bool) \<Rightarrow> bool \<Rightarrow> token list \<Rightarrow> string \<Rightarrow> lexing option" where
  "lex_row quick from_file ts p = lex_loop quick from_file (lex_init ts p)"

end
