(* ===== verification/CPP_Lex_Total.thy ===== *)
theory CPP_Lex_Total
  imports CPP_Lex
begin

text \<open>
  The automaton of the preprocessor ends on every input: the values of the table, the effect of a
  step, the measure.
\<close>

section \<open>Values of the table\<close>

lemma raw_fsm_value:
  assumes "s < 32"
  obtains "raw_fsm (32 * j + s) = 0"
  | x chs n ch where "(x, chs, n) \<in> set fsm" "ch \<in> set chs" "raw_fsm (32 * j + s) = entry_value n"
      "st_code x = s \<and> in_class ch j \<or> st_code x = 32 \<and> s = 0 \<and> 0 < j \<and> in_class ch (j - 1)"
proof (cases "find (hits (32 * j + s)) fsm_cells")
  case None
  then have "raw_fsm (32 * j + s) = 0" by (simp add: raw_fsm_hit first_hit_def)
  then show ?thesis using that(1) by blast
next
  case (Some e)
  obtain i ch v where e: "e = (i, ch, v)" by (cases e)
  have mem: "e \<in> set fsm_cells" and hit: "hits (32 * j + s) e" using Some by (auto simp: find_Some_iff)
  then obtain x chs n where fp: "(x, chs, n) \<in> set fsm" "ch \<in> set chs" "i = st_code x" "v = entry_value n"
    using e by (auto simp: fsm_cells_def)
  have "i \<le> 32" using st_code_less [OF mem] e by simp
  then have "i = s \<and> in_class ch j \<or> i = 32 \<and> s = 0 \<and> 0 < j \<and> in_class ch (j - 1)"
    using hits_column [OF assms, of i j ch v] hit e by simp
  moreover have "raw_fsm (32 * j + s) = entry_value n" using Some e fp by (simp add: raw_fsm_hit first_hit_def)
  ultimately show ?thesis using that(2) [of x chs n ch] fp by simp
qed

lemma entry_value_nonneg: "0 \<le> entry_value n \<Longrightarrow> entry_value n < 32"
  by (auto simp: entry_value_def split: if_splits)

lemma raw_fsm_nonneg: "s < 32 \<Longrightarrow> 0 \<le> raw_fsm (32 * j + s) \<Longrightarrow> raw_fsm (32 * j + s) < 32"
  by (erule raw_fsm_value [of s j]) (auto dest: entry_value_nonneg)

lemma fsm_states: "(x, chs, n) \<in> set fsm \<Longrightarrow> st_code x \<in> {0, 32} \<Longrightarrow> x \<in> {START, S_COMCR1}"
proof -
  have "list_all (\<lambda>(x, chs, n). st_code x \<in> {0, 32} \<longrightarrow> x \<in> {START, S_COMCR1}) fsm" by (simp add: fsm_def)
  then show "(x, chs, n) \<in> set fsm \<Longrightarrow> st_code x \<in> {0, 32} \<Longrightarrow> x \<in> {START, S_COMCR1}" by (auto simp: list_all_iff)
qed

text \<open>In the first column only the actions that take the character, and the ends of the row.\<close>

definition start_action :: "nat \<Rightarrow> bool" where
  "start_action k \<longleftrightarrow> k \<in> {32, 34, 35, 38}"

definition next_state :: "fsm_next \<Rightarrow> nat" where
  "next_state n = (case n of St x \<Rightarrow> st_code x | Act t x \<Rightarrow> st_code x)"

lemma fsm_start: "list_all (\<lambda>(x, chs, n). x \<in> {START, S_COMCR1} \<longrightarrow> next_state n < 32 \<or> start_action (next_state n)) fsm"
  by (simp add: fsm_def next_state_def start_action_def)

text \<open>At the end of the input no action that takes a character.\<close>

definition eof_action :: "nat \<Rightarrow> bool" where
  "eof_action k \<longleftrightarrow> k \<in> {33, 34, 36, 39, 42, 43}"

lemma fsm_eof:
  "list_all (\<lambda>(x, chs, n). x \<noteq> START \<and> x \<noteq> S_COMCR1 \<and> list_ex (\<lambda>ch. in_class ch EOFC) chs \<longrightarrow> next_state n < 32 \<or> eof_action (next_state n)) fsm"
  by (simp add: fsm_def next_state_def eof_action_def EOFC_def)

lemma column_0:
  "column 0 =
    [(32, Ch (CHR 0x0A), - 39), (0, Ch (CHR ''^''), 21), (0, Ch (CHR ''~''), - 3745), (0, Ch (CHR ''}''), - 5665),
     (0, Ch (CHR ''{''), - 5537), (0, Ch (CHR '';''), - 5409), (0, Ch (CHR '':''), - 4897), (0, Ch (CHR ''?''), - 4769),
     (0, Ch (CHR '',''), - 5153), (0, Ch (CHR ''*''), 17), (0, Ch (CHR '')''), - 2977), (0, Ch (CHR ''(''), - 2849),
     (0, Ch (CHR '']''), - 2721), (0, Ch (CHR ''[''), - 2593), (0, Ch (CHR ''%''), 19), (0, Ch (CHR ''#''), 20),
     (0, Ch (CHR ''|''), 26), (0, Ch (CHR ''&''), 27), (0, Ch (CHR ''!''), 29), (0, Ch (CHR ''=''), 28), (0, Ch (CHR ''>''), 22),
     (0, Ch (CHR ''<''), 24), (0, Ch (CHR ''+''), 15), (0, Ch (CHR ''-''), 16), (0, Ch (CHR 0x0A), - 36), (0, Ch (CHR 0x0D), 31),
     (0, Ch (CHR 0xFD), - 35), (0, Ch (CHR ''/''), 8), (0, Ch (CHR 0x27), 12), (0, Ch (CHR 0x22), 6), (0, Ch (CHR ''L''), 5),
     (0, C_ALPH, 4), (0, Ch (CHR ''.''), 3), (0, C_NUM, 1), (0, Ch (CHR 0x0B), 14), (0, Ch (CHR 0x09), 14),
     (0, Ch (CHR 0x20), 14), (0, C_XX, - 161)]"
  by (simp add: tok_code_def toktypes_def column_def fsm_cells_def fsm_def entry_value_def)


section \<open>A step\<close>

lemma or_64: "\<not> bit y 6 \<Longrightarrow> y OR 64 = y + (64 :: int)"
  using set_bit_eq_or [of 6 y] set_bit_eq [of 6 y] by (simp add: push_bit_eq_mult)

lemma no_mark: "k < 64 \<Longrightarrow> \<not> bit (int (t * 128 + k)) 6"
proof -
  assume k: "k < 64"
  have "(t * 128 + k) div 64 = 2 * t" using k by simp
  then have "\<not> bit (t * 128 + k) 6" by (simp add: bit_iff_odd)
  then show ?thesis by (simp only: bit_of_nat_iff_bit not_False_eq_True)
qed

lemma st_code_bound: "st_code x < 64"
  by (cases x) auto

lemma next_code_no_mark: "\<not> bit (next_code n) 6"
  using no_mark [OF st_code_bound] no_mark [OF st_code_bound, of 0] by (cases n) simp_all

definition cell :: "char \<Rightarrow> nat \<Rightarrow> int" where
  "cell c s = raw_fsm (32 * code_of c + s)"

lemma bigfsm_expandlex: "bigfsm j i = expandlex j i"
  by (simp add: bigfsm_def fixlex_def)

text \<open>A cell is a state or the complement of an action.\<close>

lemma cell_cases:
  assumes "s < 32"
  obtains x where "cell c s = int x" "x < 32"
  | n where "cell c s = NOT (next_code n)" "32 \<le> next_code n"
proof (rule raw_fsm_value [OF assms, of "code_of c"])
  assume "raw_fsm (32 * code_of c + s) = 0"
  then show thesis using that(1) [of 0] by (simp add: cell_def)
next
  fix x chs n ch assume v: "raw_fsm (32 * code_of c + s) = entry_value n"
  show thesis
  proof (cases "32 \<le> next_code n")
    case True
    then show thesis using that(2) v by (simp add: cell_def entry_value_def)
  next
    case False
    moreover have "0 \<le> next_code n" by (cases n) auto
    ultimately show thesis using that(1) [of "nat (next_code n)"] v by (simp add: cell_def entry_value_def)
  qed
qed

text \<open>The value of a cell without the marker.\<close>

lemma marked_state: "0 < x \<Longrightarrow> x < 32 \<Longrightarrow> nat (NOT (NOT (int x) AND NOT QBSBIT)) = x + 64"
  using no_mark [of x 0] or_64 [of "int x"] by (simp add: QBSBIT_def)

lemma marked_action: "0 \<le> next_code n \<Longrightarrow> nat (NOT (NOT (next_code n) AND NOT QBSBIT)) = nat (next_code n) + 64"
  using next_code_no_mark [of n] or_64 [of "next_code n"] by (simp add: QBSBIT_def nat_add_distrib)

lemma marked_neg: "0 \<le> y \<Longrightarrow> NOT y AND NOT QBSBIT < (0 :: int)"
  by (simp add: QBSBIT_def)

lemma bit_plus_64: "\<not> bit (int x) 6 \<Longrightarrow> bit (x + 64) 6"
  using or_64 [of "int x"] bit_of_nat_iff_bit [of "x + 64" 6, where ?'a = int] by (simp add: bit_or_iff flip: or_64)

lemma bit_nat_code: "\<not> bit (nat (next_code n)) 6"
proof -
  have "0 \<le> next_code n" by (cases n) auto
  then show ?thesis using next_code_no_mark [of n] bit_of_nat_iff_bit [of "nat (next_code n)" 6, where ?'a = int] by simp
qed

lemma lex_act_state: "x < 32 \<Longrightarrow> lex_act quick ff x l = Inr (consume x l)"
  by (simp add: lex_act_def)

definition unmarked :: "(token \<Rightarrow> bool) \<Rightarrow> bool \<Rightarrow> lexing \<Rightarrow> lexing + lexing" where
  "unmarked quick ff l =
     (let c = lex_char (lx_in l); v = cell c (lx_state l) in
      if v < 0 then lex_act quick ff (nat (NOT v)) l
      else if c = CHR 0xFD then lex_act quick ff 34 l
      else Inr (consume (nat v) l))"

lemma code_of_eq_iff: "code_of c = code_of d \<longleftrightarrow> c = d"
  by simp

lemma code_of_special:
  "code_of c = EOB \<longleftrightarrow> c = CHR 0xFE" "code_of c = EOFC \<longleftrightarrow> c = CHR 0xFD"
  "code_of c = 63 \<longleftrightarrow> c = CHR ''?''" "code_of c = 92 \<longleftrightarrow> c = CHR 0x5C"
  using code_of_eq_iff [of c "CHR 0xFE"] code_of_eq_iff [of c "CHR 0xFD"] code_of_eq_iff [of c "CHR ''?''"]
    code_of_eq_iff [of c "CHR 0x5C"]
  by (simp_all add: EOB_def EOFC_def del: of_char_eq_iff)

lemma lex_char_not_EOB: "lex_char p \<noteq> CHR 0xFE"
  by (auto simp: lex_char_def split: list.split)

lemma bigfsm_cell:
  assumes "c \<noteq> CHR 0xFE"
  shows "bigfsm (code_of c) s =
    (let v = cell c s in
     if c = CHR 0xFD then (if 0 \<le> v then NOT 34 else v)
     else if c = CHR ''?'' \<or> c = CHR 0x5C then (if 0 < v then NOT v else v) AND NOT QBSBIT else v)"
  using assms by (simp add: bigfsm_expandlex expandlex_def code_of_special cell_def MAXSTATE_def Let_def)

lemma lex_step_plain:
  assumes "c = lex_char (lx_in l)" "v = bigfsm (code_of c) (lx_state l)" "0 \<le> v \<or> \<not> bit (nat (NOT v)) 6"
  shows "lex_step quick ff l = (if 0 \<le> v then Inr (consume (nat v) l) else lex_act quick ff (nat (NOT v)) l)"
  using assms by (auto simp: lex_step_def Let_def)

lemma lex_step_marked:
  assumes "c = lex_char (lx_in l)" "v = bigfsm (code_of c) (lx_state l)" "v < 0" "nat (NOT v) = x + 64" "bit (x + 64) 6"
    "c = CHR ''?'' \<or> c = CHR 0x5C"
  shows "lex_step quick ff l =
    (if c = CHR ''?'' \<and> trigraph (lx_in l) \<noteq> None then Inr (l\<lparr>lx_in := the (trigraph (lx_in l))\<rparr>)
     else if c = CHR 0x5C \<and> foldline (lx_in l) \<noteq> None
     then Inr (l\<lparr>lx_in := the (foldline (lx_in l)), lx_lineinc := lx_lineinc l + 1\<rparr>)
     else lex_act quick ff x l)"
  using assms by (auto simp: lex_step_def Let_def)

lemma lex_step_unmarked:
  assumes "lx_state l < 32"
  shows "lex_step quick ff l =
    (let c = lex_char (lx_in l); v = cell c (lx_state l) in
     if c = CHR ''?'' \<and> v \<noteq> 0 \<and> trigraph (lx_in l) \<noteq> None then Inr (l\<lparr>lx_in := the (trigraph (lx_in l))\<rparr>)
     else if c = CHR 0x5C \<and> v \<noteq> 0 \<and> foldline (lx_in l) \<noteq> None
     then Inr (l\<lparr>lx_in := the (foldline (lx_in l)), lx_lineinc := lx_lineinc l + 1\<rparr>)
     else unmarked quick ff l)"
proof -
  define c v where "c = lex_char (lx_in l)" and "v = cell c (lx_state l)"
  have big: "bigfsm (code_of c) (lx_state l) =
     (if c = CHR 0xFD then (if 0 \<le> v then NOT 34 else v)
      else if c = CHR ''?'' \<or> c = CHR 0x5C then (if 0 < v then NOT v else v) AND NOT QBSBIT else v)"
    using bigfsm_cell [OF lex_char_not_EOB, of "lx_in l"] by (simp add: c_def v_def Let_def)
  have c34: "\<not> bit (34 :: nat) 6" by (simp add: bit_iff_odd)
  show ?thesis
  proof (cases rule: cell_cases [OF assms, of c])
    case (1 x)
    then have v: "v = int x" "x < 32" by (simp_all add: v_def)
    have nb: "\<not> bit (int x) 6" using no_mark [of x 0] v by simp
    show ?thesis
    proof (cases "(c = CHR ''?'' \<or> c = CHR 0x5C) \<and> 0 < x")
      case True
      then have b: "bigfsm (code_of c) (lx_state l) = NOT (int x) AND NOT QBSBIT" using big v by auto
      show ?thesis
        using lex_step_marked [OF c_def refl, of x quick ff] marked_state [of x] marked_neg [of "int x"] bit_plus_64 [OF nb] True b v
        by (auto simp: unmarked_def Let_def c_def [symmetric] v_def [symmetric] lex_act_state)
    next
      case False
      then show ?thesis
        using lex_step_plain [OF c_def refl, of quick ff] big v c34
        by (auto simp: unmarked_def Let_def c_def [symmetric] v_def [symmetric])
    qed
  next
    case (2 n)
    then have v: "v = NOT (next_code n)" "32 \<le> next_code n" by (simp_all add: v_def)
    then have neg: "v < 0" by simp
    then have nz: "v \<noteq> 0" "\<not> 0 < v" by linarith+
    show ?thesis
    proof (cases "c = CHR ''?'' \<or> c = CHR 0x5C")
      case True
      then have b: "bigfsm (code_of c) (lx_state l) = NOT (next_code n) AND NOT QBSBIT" using big v nz by auto
      have "bit (nat (next_code n) + 64) 6" using bit_plus_64 [of "nat (next_code n)"] next_code_no_mark [of n] v by simp
      then show ?thesis
        using lex_step_marked [OF c_def refl, of "nat (next_code n)" quick ff] marked_action [of n] marked_neg [of "next_code n"] True b v neg nz
        by (auto simp: unmarked_def Let_def c_def [symmetric] v_def [symmetric])
    next
      case False
      then show ?thesis
        using lex_step_plain [OF c_def refl, of quick ff] big v neg bit_nat_code [of n]
        by (auto simp: unmarked_def Let_def c_def [symmetric] v_def [symmetric])
    qed
  qed
qed


section \<open>Actions\<close>

lemma cell_column:
  "s < 32 \<Longrightarrow> cell c s =
    (case find (\<lambda>(i, ch, v). in_class ch (if i = s then code_of c else code_of c - 1) \<and> (i = s \<or> 0 < code_of c)) (column s) of
       Some (i, ch, v) \<Rightarrow> v | None \<Rightarrow> 0)"
  by (simp add: cell_def raw_fsm_column)

lemma cell_start_EOFC: "cell (CHR 0xFD) 0 = - 35"
  by (simp add: cell_column column_0)

text \<open>The actions of the table: none of the states, and not the refilling of the buffer.\<close>

definition an_action :: "nat \<Rightarrow> bool" where
  "an_action k \<longleftrightarrow> k \<in> {32, 33, 34, 35, 36, 37, 38, 39, 40, 42, 43}"

lemma fsm_actions: "list_all (\<lambda>(x, chs, n). 32 \<le> next_code n \<longrightarrow> an_action (next_state n)) fsm"
  by (simp add: fsm_def next_state_def an_action_def)

lemma next_code_mod: "nat (next_code n) mod 128 = next_state n"
proof -
  have "nat (int (t * 128 + st_code x)) mod 128 = st_code x" for t x
    using st_code_bound [of x] by (simp only: nat_int) simp
  from this [of 0] this show ?thesis by (cases n) (simp_all add: next_state_def)
qed

lemma next_code_nonneg: "0 \<le> next_code n"
  by (cases n) auto

lemma cell_action:
  assumes "s < 32" "cell c s < 0" "k = nat (NOT (cell c s)) mod 128"
  shows "an_action k" "s = 0 \<Longrightarrow> start_action k" "c = CHR 0xFD \<Longrightarrow> eof_action k"
proof -
  from assms obtain x chs n ch where fp: "(x, chs, n) \<in> set fsm" "ch \<in> set chs" "cell c s = entry_value n"
    and st: "st_code x = s \<and> in_class ch (code_of c) \<or> st_code x = 32 \<and> s = 0 \<and> 0 < code_of c \<and> in_class ch (code_of c - 1)"
    using raw_fsm_value [OF assms(1), of "code_of c"] by (metis cell_def less_irrefl)
  have big: "32 \<le> next_code n" and v: "cell c s = NOT (next_code n)"
    using fp assms(2) next_code_nonneg [of n] by (auto simp: entry_value_def split: if_splits)
  then have k: "k = next_state n" using assms(3) by (simp add: next_code_mod)
  show "an_action k" using fsm_actions fp big k by (auto simp: list_all_iff)
  have ge: "\<not> next_state n < 32" using fsm_actions fp big by (auto simp: list_all_iff an_action_def)
  show "start_action k" if "s = 0"
  proof -
    have "x \<in> {START, S_COMCR1}" using st fp that fsm_states by auto
    then show ?thesis using fsm_start fp ge k by (auto simp: list_all_iff)
  qed
  show "eof_action k" if c: "c = CHR 0xFD"
  proof (cases "s = 0")
    case True
    then show ?thesis using cell_start_EOFC c assms(3) by (simp add: eof_action_def)
  next
    case False
    then have "x \<noteq> START" "x \<noteq> S_COMCR1" "in_class ch EOFC" using st c assms(1) by (auto simp: EOFC_def)
    then show ?thesis using fsm_eof fp ge k by (auto simp: list_all_iff list_ex_iff)
  qed
qed

section \<open>The loop ends\<close>

definition lex_rank :: "lexing \<Rightarrow> nat" where
  "lex_rank l = 2 * length (lx_in l) + of_bool (lx_state l \<noteq> 0)"

lemma char_at_length: "char_at p i \<noteq> CHR 0x00 \<Longrightarrow> i < length p"
  by (auto simp: char_at_def split: if_splits)

lemma trigraph_shorter: "trigraph p = Some q \<Longrightarrow> length q < length p"
  using char_at_length [of p 2] by (auto simp: trigraph_def split: if_splits)

lemma foldline_shorter: "foldline p = Some q \<Longrightarrow> length q < length p"
  using char_at_length [of p 1] by (auto simp: foldline_def split: if_splits)

lemma lex_char_nonempty: "lex_char p \<noteq> CHR 0xFD \<Longrightarrow> p \<noteq> []"
  by (auto simp: lex_char_def)

lemma lex_step_rank:
  assumes s: "lx_state l < 32" and step: "lex_step quick ff l = Inr l'"
  shows "lx_state l' < 32 \<and> lex_rank l' < lex_rank l"
proof -
  define c v k where "c = lex_char (lx_in l)" and "v = cell c (lx_state l)" and "k = nat (NOT v) mod 128"
  show ?thesis
  proof (cases "unmarked quick ff l = Inr l'")
    case False
    then show ?thesis
      using step s trigraph_shorter foldline_shorter
      by (fastforce simp: lex_step_unmarked [OF s] Let_def lex_rank_def split: if_splits)
  next
    case True
    show ?thesis
    proof (cases "v < 0")
      case neg: True
      then have act: "lex_act quick ff (nat (NOT v)) l = Inr l'" using True by (simp add: unmarked_def Let_def c_def v_def)
      note facts = cell_action [OF s, of c k, folded v_def, OF neg k_def]
      have kk: "nat (NOT v) mod 128 = k" by (simp add: k_def)
      have ne: "lx_in l \<noteq> []" if "\<not> eof_action k"
        using that facts(3) lex_char_nonempty [of "lx_in l"] by (auto simp: c_def)
      have nz: "lx_state l \<noteq> 0" if "\<not> start_action k" using that facts(2) by auto
      show ?thesis using act facts(1) ne nz unfolding lex_act_def Let_def kk an_action_def
        by (cases "lx_in l") (auto simp: add_token_def consume_def add_msg_def lex_rank_def start_action_def eof_action_def)
    next
      case False
      then have l': "l' = consume (nat v) l" "lx_in l \<noteq> []"
        using True lex_char_nonempty [of "lx_in l"]
        by (auto simp: unmarked_def Let_def c_def [symmetric] v_def [symmetric] lex_act_def split: if_splits)
      have "nat v < 32" using raw_fsm_nonneg [OF s, of "code_of c"] False by (simp add: v_def cell_def)
      then show ?thesis using l' by (cases "lx_in l") (auto simp: consume_def lex_rank_def)
    qed
  qed
qed

text \<open>Induction over the steps of a row; the loop returns.\<close>

lemma lex_loop_rule:
  assumes s: "lx_state l < 32" and I: "I l"
    and inv: "\<And>l l'. I l \<Longrightarrow> lx_state l < 32 \<Longrightarrow> lex_step quick ff l = Inr l' \<Longrightarrow> I l'"
    and ends: "\<And>l l'. I l \<Longrightarrow> lx_state l < 32 \<Longrightarrow> lex_step quick ff l = Inl l' \<Longrightarrow> Q l'"
  shows "\<exists>l'. lex_loop quick ff l = Some l' \<and> Q l'"
  using s I
proof (induction "lex_rank l" arbitrary: l rule: less_induct)
  case less
  show ?case
  proof (cases "lex_step quick ff l")
    case (Inl l')
    then show ?thesis using ends [OF less.prems(2,1) Inl] by (subst lex_loop.simps) simp
  next
    case (Inr l')
    then show ?thesis
      using less.hyps [of l'] lex_step_rank [OF less.prems(1) Inr] inv [OF less.prems(2,1) Inr]
      by (subst lex_loop.simps) simp
  qed
qed

definition at_end :: "string \<Rightarrow> bool" where
  "at_end p \<longleftrightarrow> lex_char p = CHR 0xFD"

text \<open>How a row ends: a newline has been read, or the input has ended, or the process leaves.\<close>

definition row_ended :: "string \<Rightarrow> lexing \<Rightarrow> bool" where
  "row_ended p l \<longleftrightarrow>
     lx_toks l \<noteq> [] \<and> tok_type (last (lx_toks l)) = NL \<and> length (lx_in l) < length p \<or>
     lx_toks l \<noteq> [] \<and> tok_type (last (lx_toks l)) = END \<and> at_end (lx_in l) \<or>
     lx_msgs l \<noteq> [] \<and> fst (last (lx_msgs l)) = FATAL"

lemma fsm_S_EOF: "list_all (\<lambda>(x, chs, n). next_state n = 34 \<longrightarrow> x = START \<and> chs = [Ch (CHR 0xFD)]) fsm"
  by (simp add: fsm_def next_state_def)

lemma cell_S_EOF:
  assumes "s < 32" "cell c s < 0" "nat (NOT (cell c s)) mod 128 = 34"
  shows "c = CHR 0xFD"
proof -
  from assms obtain x chs n ch where fp: "(x, chs, n) \<in> set fsm" "ch \<in> set chs" "cell c s = entry_value n"
    and st: "st_code x = s \<and> in_class ch (code_of c) \<or> st_code x = 32 \<and> s = 0 \<and> 0 < code_of c \<and> in_class ch (code_of c - 1)"
    using raw_fsm_value [OF assms(1), of "code_of c"] by (metis cell_def less_irrefl)
  have "cell c s = NOT (next_code n)"
    using fp assms(2) next_code_nonneg [of n] by (auto simp: entry_value_def split: if_splits)
  then have "next_state n = 34" using assms(3) by (simp add: next_code_mod)
  then have "x = START" "ch = Ch (CHR 0xFD)" using fsm_S_EOF fp by (auto simp: list_all_iff)
  then show ?thesis using st code_of_special(2) [of c] by (simp add: EOFC_def)
qed

lemma lex_act_end:
  assumes act: "lex_act quick ff x l = Inl l'" and len: "length (lx_in l) \<le> length p"
    and ne: "x mod 128 \<in> {35, 37} \<Longrightarrow> lx_in l \<noteq> []" and eof: "x mod 128 = 34 \<Longrightarrow> at_end (lx_in l)"
  shows "row_ended p l'"
proof -
  have "x mod 128 \<in> {34, 35, 36, 37}" using act by (auto simp: lex_act_def Let_def split: if_splits)
  then consider "x mod 128 = 34" | "x mod 128 = 35" | "x mod 128 = 36" | "x mod 128 = 37" by auto
  then show ?thesis
  proof cases
    case 1
    then show ?thesis using act eof by (auto simp: lex_act_def Let_def add_token_def add_msg_def lex_token_def row_ended_def)
  next
    case 2
    then show ?thesis using act ne len
      by (cases "lx_in l") (auto simp: lex_act_def newline_row_def add_token_def lex_token_def row_ended_def)
  next
    case 3
    then show ?thesis using act by (auto simp: lex_act_def add_msg_def row_ended_def)
  next
    case 4
    then show ?thesis using act ne len
      by (cases "lx_in l") (auto simp: lex_act_def newline_row_def add_token_def add_msg_def lex_token_def row_ended_def)
  qed
qed

lemma lex_step_end:
  assumes s: "lx_state l < 32" and step: "lex_step quick ff l = Inl l'" and len: "length (lx_in l) \<le> length p"
  shows "row_ended p l'"
proof -
  define c v k where "c = lex_char (lx_in l)" and "v = cell c (lx_state l)" and "k = nat (NOT v) mod 128"
  have um: "unmarked quick ff l = Inl l'"
    using step by (auto simp: lex_step_unmarked [OF s] Let_def split: if_splits)
  show ?thesis
  proof (cases "v < 0")
    case neg: True
    then have act: "lex_act quick ff (nat (NOT v)) l = Inl l'" using um by (simp add: unmarked_def Let_def c_def v_def)
    note facts = cell_action [OF s, of c k, folded v_def, OF neg k_def]
    have kk: "nat (NOT v) mod 128 = k" by (simp add: k_def)
    have ne: "lx_in l \<noteq> []" if "\<not> eof_action k"
      using that facts(3) lex_char_nonempty [of "lx_in l"] by (auto simp: c_def)
    have eof: "at_end (lx_in l)" if "k = 34"
      using that cell_S_EOF [OF s, of c] neg by (simp add: at_end_def v_def k_def c_def)
    show ?thesis
      by (rule lex_act_end [OF act len]) (use ne eof in \<open>auto simp: kk eof_action_def\<close>)
  next
    case False
    then have "c = CHR 0xFD" "lex_act quick ff 34 l = Inl l'"
      using um by (auto simp: unmarked_def Let_def c_def [symmetric] v_def [symmetric] split: if_splits)
    then show ?thesis using lex_act_end [OF _ len, of quick ff 34 l'] by (simp add: at_end_def c_def)
  qed
qed

lemma lex_step_shrinks:
  assumes "lx_state l < 32" "lex_step quick ff l = Inr l'"
  shows "length (lx_in l') \<le> length (lx_in l)"
  using lex_step_rank [OF assms] by (simp add: lex_rank_def of_bool_def split: if_splits)

text \<open>
  Claim C29: gettokens returns on every input, whatever row it adds to: the row then ends with a
  newline token, and input has been used, or with the end token, and the input is at its end, or
  the last message was fatal (a string or a character constant that the end of the input cuts off).
\<close>

theorem lex_row_ends:
  "\<exists>l. lex_row quick from_file ts p = Some l \<and> row_ended p l"
  unfolding lex_row_def
proof (rule lex_loop_rule [where I = "\<lambda>l. length (lx_in l) \<le> length p"])
  show "lx_state (lex_init ts p) < 32" "length (lx_in (lex_init ts p)) \<le> length p" by (simp_all add: lex_init_def)
next
  show "length (lx_in l') \<le> length p"
    if "length (lx_in l) \<le> length p" "lx_state l < 32" "lex_step quick from_file l = Inr l'" for l l'
    using lex_step_shrinks [OF that(2,3)] that(1) by simp
qed (rule lex_step_end)

end
