(* ===== verification/CPP_Lex_Rows.thy ===== *)
theory CPP_Lex_Rows
  imports CPP_Lex_Total
begin

text \<open>
  What the rows of tokens contain: which names are found, that no text is lost, and the two cells of
  the table that the value of S_COMCR1 spoils.
\<close>

section \<open>Steps by entries of the table\<close>

lemma cell_entry:
  assumes "s < 32" "cell c s \<noteq> 0"
  obtains x chs n ch where "(x, chs, n) \<in> set fsm" "ch \<in> set chs" "cell c s = entry_value n"
    "st_code x = s \<and> in_class ch (code_of c) \<or> x = S_COMCR1 \<and> s = 0 \<and> 0 < code_of c \<and> in_class ch (code_of c - 1)"
proof (rule raw_fsm_value [OF assms(1), of "code_of c"])
  assume "raw_fsm (32 * code_of c + s) = 0"
  then show thesis using assms(2) by (simp add: cell_def)
next
  fix x chs n ch assume e: "(x, chs, n) \<in> set fsm" "ch \<in> set chs" "raw_fsm (32 * code_of c + s) = entry_value n"
    "st_code x = s \<and> in_class ch (code_of c) \<or> st_code x = 32 \<and> s = 0 \<and> 0 < code_of c \<and> in_class ch (code_of c - 1)"
  then have "st_code x = 32 \<Longrightarrow> x = S_COMCR1" using fsm_states [of x chs n] by auto
  then show thesis using that e by (auto simp: cell_def)
qed

lemma fsm_total:
  "list_all (\<lambda>s. list_ex (\<lambda>(x, chs, n). st_code x = s \<and> chs = [C_XX]) fsm) [0..<18]"
  "list_all (\<lambda>s. list_ex (\<lambda>(x, chs, n). st_code x = s \<and> chs = [C_XX]) fsm) [19..<31]"
  by (simp_all add: fsm_def upt_rec)

lemma fsm_nonzero: "list_all (\<lambda>(x, chs, n). entry_value n \<noteq> 0) fsm"
  by (simp add: fsm_def entry_value_def tok_code_def toktypes_def)

text \<open>Only SLASH1, which nothing enters, and S_CR1 have characters without an entry.\<close>

lemma cell_zero:
  assumes "s < 31" "s \<noteq> 18"
  shows "cell c s \<noteq> 0"
proof -
  have "s \<in> set [0..<18] \<or> s \<in> set [19..<31]" using assms unfolding set_upt atLeastLessThan_iff by presburger
  then have "list_ex (\<lambda>(x, chs, n). st_code x = s \<and> chs = [C_XX]) fsm"
    using fsm_total unfolding list_all_iff by blast
  then obtain x n where "(x, [C_XX], n) \<in> set fsm" "st_code x = s" by (auto simp: list_ex_iff)
  then have m: "(s, C_XX, entry_value n) \<in> set fsm_cells" by (auto simp: fsm_cells_def intro!: bexI [of _ "(x, [C_XX], n)"])
  have lt: "code_of c < 256" by simp
  have "hits (32 * code_of c + s) (s, C_XX, entry_value n)" using hits_column [of s s "code_of c"] assms lt by simp
  then obtain e where e: "find (hits (32 * code_of c + s)) fsm_cells = Some e"
    using m by (cases "find (hits (32 * code_of c + s)) fsm_cells") (auto simp: find_None_iff)
  then have "e \<in> set fsm_cells" by (auto simp: find_Some_iff)
  moreover obtain i ch v where v: "e = (i, ch, v)" by (cases e)
  ultimately obtain x' chs' n' where "(x', chs', n') \<in> set fsm" "v = entry_value n'" by (auto simp: fsm_cells_def)
  then have "v \<noteq> 0" using fsm_nonzero unfolding list_all_iff by auto
  then show ?thesis using e v by (simp add: cell_def raw_fsm_hit first_hit_def)
qed

lemma lex_step_cases:
  assumes s: "lx_state l < 32" and step: "lex_step quick ff l = r"
  obtains (trig) q where "trigraph (lx_in l) = Some q" "lex_char (lx_in l) = CHR ''?''" "r = Inr (l\<lparr>lx_in := q\<rparr>)"
  | (folds) q where "foldline (lx_in l) = Some q" "lex_char (lx_in l) = CHR 0x5C" "r = Inr (l\<lparr>lx_in := q, lx_lineinc := lx_lineinc l + 1\<rparr>)"
  | (goes) c p' v where "lx_in l = c # p'" "lex_char (lx_in l) = c" "cell c (lx_state l) = int v" "v < 32" "r = Inr (consume v l)"
  | (eof) "at_end (lx_in l)" "0 \<le> cell (CHR 0xFD) (lx_state l)" "r = lex_act quick ff 34 l"
  | (acts) x chs n ch where "(x, chs, n) \<in> set fsm" "ch \<in> set chs" "32 \<le> next_code n"
      "cell (lex_char (lx_in l)) (lx_state l) = NOT (next_code n)"
      "st_code x = lx_state l \<and> in_class ch (code_of (lex_char (lx_in l))) \<or>
       x = S_COMCR1 \<and> lx_state l = 0 \<and> in_class ch (code_of (lex_char (lx_in l)) - 1)"
      "r = lex_act quick ff (nat (next_code n)) l"
proof -
  define c v where "c = lex_char (lx_in l)" and "v = cell c (lx_state l)"
  consider (t) "r = Inr (l\<lparr>lx_in := the (trigraph (lx_in l))\<rparr>)" "trigraph (lx_in l) \<noteq> None" "c = CHR ''?''"
    | (f) "r = Inr (l\<lparr>lx_in := the (foldline (lx_in l)), lx_lineinc := lx_lineinc l + 1\<rparr>)" "foldline (lx_in l) \<noteq> None" "c = CHR 0x5C"
    | (u) "r = unmarked quick ff l"
    using step by (auto simp: lex_step_unmarked [OF s] Let_def c_def split: if_splits)
  then show thesis
  proof cases
    case u
    show thesis
    proof (cases "v < 0")
      case True
      then have "v \<noteq> 0" by simp
      then obtain x chs n ch where e: "(x, chs, n) \<in> set fsm" "ch \<in> set chs" "v = entry_value n"
        "st_code x = lx_state l \<and> in_class ch (code_of c) \<or> x = S_COMCR1 \<and> lx_state l = 0 \<and> in_class ch (code_of c - 1)"
        using cell_entry [OF s, of c] by (metis v_def)
      then have n: "32 \<le> next_code n" "v = NOT (next_code n)"
        using True next_code_nonneg [of n] by (auto simp: entry_value_def split: if_splits)
      then have "r = lex_act quick ff (nat (next_code n)) l"
        using u True by (simp add: unmarked_def Let_def c_def [symmetric] v_def [symmetric])
      then show thesis using acts [of x chs n ch] e n by (simp add: c_def [symmetric] v_def [symmetric])
    next
      case False
      have lt: "v < 32" using raw_fsm_nonneg [OF s, of "code_of c"] False by (simp add: v_def cell_def)
      show thesis
      proof (cases "c = CHR 0xFD")
        case True
        then show thesis using u False eof by (simp add: unmarked_def Let_def c_def v_def at_end_def)
      next
        case ne: False
        then obtain p' where p': "lx_in l = c # p'"
          by (auto simp: c_def lex_char_def split: list.splits if_splits)
        show thesis
          using goes [OF p', of "nat v"] u False ne lt
          by (simp add: unmarked_def Let_def c_def [symmetric] v_def [symmetric])
      qed
    qed
  qed (use trig folds in \<open>auto simp: c_def\<close>)
qed

section \<open>Names\<close>

definition ident_char :: "char \<Rightarrow> bool" where
  "ident_char c \<longleftrightarrow> in_class C_ALPH (code_of c) \<or> in_class C_NUM (code_of c)"

definition is_ident :: "string \<Rightarrow> bool" where
  "is_ident str \<longleftrightarrow> str \<noteq> [] \<and> in_class C_ALPH (code_of (hd str)) \<and> list_all ident_char str"

text \<open>A name token is an identifier, and the identifier does not go on after it.\<close>

definition whole_name :: "token \<Rightarrow> bool" where
  "whole_name tp \<longleftrightarrow>
     (tok_type tp = NAME \<longrightarrow>
        tok_len tp \<le> length (tok_t tp) \<and> is_ident (take (tok_len tp) (tok_t tp)) \<and>
        (tok_len tp < length (tok_t tp) \<longrightarrow> \<not> ident_char (tok_t tp ! tok_len tp)))"

lemma column_4:
  "column 4 =
    [(4, C_NUM, 4), (4, C_ALPH, 4), (4, C_XX, - 300)]"
  by (simp add: tok_code_def toktypes_def column_def fsm_cells_def fsm_def entry_value_def)

lemma column_5:
  "column 5 =
    [(5, Ch (CHR 0x27), 12), (5, Ch (CHR 0x22), 6), (5, C_NUM, 4), (5, C_ALPH, 4), (5, C_XX, - 300)]"
  by (simp add: tok_code_def toktypes_def column_def fsm_cells_def fsm_def entry_value_def)


lemma cell_name_ends:
  assumes "s = 4 \<or> s = 5" "cell c s < 0"
  shows "\<not> ident_char c"
  using assms by (auto simp: cell_column column_4 column_5 ident_char_def split: if_splits)

lemma fsm_name:
  "list_all (\<lambda>(x, chs, n). (case n of St y \<Rightarrow> True | Act t y \<Rightarrow> y = S_NAME \<or> t = NAME \<longrightarrow> x \<in> {ID1, ST1} \<and> y = S_NAME)) fsm"
  by (simp add: fsm_def)

lemma fsm_to_ID1: "list_all (\<lambda>(x, chs, n). n = St ID1 \<longrightarrow> x = START \<and> chs = [C_ALPH] \<or> x \<in> {ID1, ST1} \<and> chs = [C_ALPH, C_NUM]) fsm"
  by (simp add: fsm_def)

lemma fsm_to_ST1: "list_all (\<lambda>(x, chs, n). n = St ST1 \<longrightarrow> x = START \<and> chs = [Ch (CHR ''L'')]) fsm"
  by (simp add: fsm_def)

lemma fsm_not_SLASH1: "list_all (\<lambda>(x, chs, n). n \<notin> {St SLASH1, St START} \<and> (n = St S_CR1 \<longrightarrow> chs = [Ch (CHR 0x0D)])) fsm"
  by (simp add: fsm_def)

text \<open>The type of the token that an action makes.\<close>

lemma toktypes_tok_code: "toktypes ! tok_code t = t"
  by (cases t) (simp_all add: tok_code_def toktypes_def)

lemma act_type: "toktypes ! (nat (next_code n) div 128) = (case n of St y \<Rightarrow> END | Act t y \<Rightarrow> t)"
proof -
  have d: "(t * 128 + st_code y) div 128 = t" for t y using st_code_bound [of y] by simp
  show ?thesis
  proof (cases n)
    case (St y)
    then show ?thesis using d [of 0 y] by (simp add: toktypes_def)
  next
    case (Act t y)
    then have "nat (next_code n) div 128 = tok_code t" using d [of "tok_code t" y] by (simp only: next_code.simps nat_int)
    then show ?thesis using Act by (simp add: toktypes_tok_code)
  qed
qed

lemma set_tl_subset: "set (tl p) \<subseteq> set p"
  by (cases p) auto

lemma trigraph_set: "trigraph p = Some q \<Longrightarrow> x \<in> set q \<Longrightarrow> code_of x < 32 \<Longrightarrow> x \<in> set p"
  by (auto simp: trigraph_def split: if_splits dest: in_set_dropD)

lemma foldline_set: "foldline p = Some q \<Longrightarrow> set q \<subseteq> set p"
  by (auto simp: foldline_def split: if_splits dest: in_set_dropD)

definition lex_result :: "lexing + lexing \<Rightarrow> lexing" where
  "lex_result r = (case r of Inl l \<Rightarrow> l | Inr l \<Rightarrow> l)"

text \<open>The tokens and the text after an action.\<close>

definition new_tokens :: "nat \<Rightarrow> lexing \<Rightarrow> token list" where
  "new_tokens x l =
     (let p = lx_in l; k = x mod 128; c = lex_char p in
      if k = 32 then [lex_token (toktypes ! (x div 128)) (lx_text l @ [c]) (lx_ws l) (tl p)]
      else if k = 33 then [lex_token (toktypes ! (x div 128)) (lx_text l) (lx_ws l) p]
      else if k = 43 then [lex_token NAME (lx_text l) (lx_ws l) p]
      else if k = 34 then [(lex_token END [] (lx_ws l) p)\<lparr>tok_t := lx_text l @ p\<rparr>]
      else if k = 35 \<or> k = 37 then [lex_token NL [c] 0 (tl p)]
      else [])"

lemma lex_act_toks: "lx_toks (lex_result (lex_act quick ff x l)) = lx_toks l @ new_tokens x l"
  by (simp add: lex_act_def new_tokens_def lex_result_def Let_def add_token_def add_msg_def newline_row_def consume_def)

lemma lex_act_in: "set (lx_in (lex_result (lex_act quick ff x l))) \<subseteq> set (lx_in l)"
  using set_tl_subset [of "lx_in l"]
  by (simp add: lex_act_def lex_result_def Let_def add_token_def add_msg_def newline_row_def consume_def)

lemma lex_act_goes_on:
  assumes "lex_act quick ff x l = Inr l'" "an_action (x mod 128)"
  shows "lx_state l' = 0 \<and> lx_text l' = [] \<or> x mod 128 = 38 \<and> lx_state l' = 9"
  using assms by (auto simp: lex_act_def Let_def add_token_def add_msg_def consume_def an_action_def split: if_splits)

lemma state_entry:
  assumes "s < 31" "s \<noteq> 18" "cell c s = int v" "v < 32"
  obtains x chs n ch where "(x, chs, St n) \<in> set fsm" "ch \<in> set chs" "st_code n = v" "v \<noteq> 0"
    "st_code x = s" "in_class ch (code_of c)"
proof -
  have nz: "cell c s \<noteq> 0" by (rule cell_zero) (use assms in simp_all)
  have s: "s < 32" using assms by simp
  obtain x chs n ch where e: "(x, chs, n) \<in> set fsm" "ch \<in> set chs" "cell c s = entry_value n"
    "st_code x = s \<and> in_class ch (code_of c) \<or> x = S_COMCR1 \<and> s = 0 \<and> 0 < code_of c \<and> in_class ch (code_of c - 1)"
    using cell_entry [OF s nz] by blast
  have v: "next_code n = int v" "\<not> 32 \<le> next_code n"
    using e(3) assms(3,4) next_code_nonneg [of n] by (auto simp: entry_value_def not_int_def split: if_splits)
  have "n \<noteq> Act t y" for t y
  proof
    assume "n = Act t y"
    moreover have "list_all (\<lambda>(x, chs, n). case n of St y \<Rightarrow> True | Act t y \<Rightarrow> 32 \<le> st_code y) fsm" by (simp add: fsm_def)
    ultimately show False using e(1) v by (auto simp: list_all_iff)
  qed
  then obtain y where n: "n = St y" by (cases n) auto
  have "x \<noteq> S_COMCR1"
  proof
    assume "x = S_COMCR1"
    moreover have "list_all (\<lambda>(x, chs, n). x = S_COMCR1 \<longrightarrow> n = St S_COMNL) fsm" by (simp add: fsm_def)
    ultimately show False using e(1) v by (auto simp: list_all_iff)
  qed
  then show thesis using that [of x chs y ch] e v n nz assms(3) by auto
qed

definition names_ok :: "lexing \<Rightarrow> bool" where
  "names_ok l \<longleftrightarrow>
     list_all whole_name (lx_toks l) \<and> CHR 0x0D \<notin> set (lx_in l) \<and> lx_state l \<notin> {18, 31} \<and>
     (lx_state l = 0 \<longrightarrow> lx_text l = []) \<and> (lx_state l \<in> {4, 5} \<longrightarrow> is_ident (lx_text l))"

lemma st_code_inj: "st_code x = st_code y \<Longrightarrow> st_code x \<noteq> 32 \<Longrightarrow> x = y"
proof -
  define st where "st = [START, NUM1, NUM2, NUM3, ID1, ST1, ST2, ST3, COM1, COM2, COM3, COM4, CC1, CC2, WS1, PLUS1, MINUS1,
    STAR1, SLASH1, PCT1, SHARP1, CIRC1, GT1, GT2, LT1, LT2, OR1, AND1, ASG1, NOT1, DOTS1, S_CR1, S_SELF, S_SELFB, S_EOF, S_NL,
    S_EOFSTR, S_STNL, S_COMNL, S_EOFCOM, S_COMMENT, S_EOB, S_WS, S_NAME]"
  have "st_code z \<noteq> 32 \<Longrightarrow> st ! st_code z = z" for z by (cases z) (simp_all add: st_def)
  then show "st_code x = st_code y \<Longrightarrow> st_code x \<noteq> 32 \<Longrightarrow> x = y" by metis
qed

lemma names_ok_consume:
  assumes ok: "names_ok l" and c: "lx_in l = c # p'" "lex_char (lx_in l) = c" and st: "lx_state l < 32" "cell c (lx_state l) = int v" "v < 32"
  shows "names_ok (consume v l)"
proof -
  have s: "lx_state l < 31" "lx_state l \<noteq> 18" using ok st by (auto simp: names_ok_def)
  obtain x chs n ch where e: "(x, chs, St n) \<in> set fsm" "ch \<in> set chs" "st_code n = v" "v \<noteq> 0"
    "st_code x = lx_state l" "in_class ch (code_of c)"
    using state_entry [OF s st(2,3)] by blast
  have sp: "v \<notin> {18, 31}"
  proof
    assume "v \<in> {18, 31}"
    then have "n = SLASH1 \<or> n = S_CR1" using e(3) st_code_inj [of n SLASH1] st_code_inj [of n S_CR1] by auto
    then have "ch = Ch (CHR 0x0D)" using fsm_not_SLASH1 e(1,2) by (auto simp: list_all_iff)
    then have "c = CHR 0x0D" using e(6) code_of_eq_iff [of c "CHR 0x0D"] by simp
    then show False using ok c by (simp add: names_ok_def)
  qed
  have id4: "is_ident (lx_text l @ [c])" if "v = 4"
  proof -
    have "n = ID1" using e(3) that st_code_inj [of n ID1] by simp
    then have "x = START \<and> chs = [C_ALPH] \<or> x \<in> {ID1, ST1} \<and> chs = [C_ALPH, C_NUM]"
      using fsm_to_ID1 e(1) by (auto simp: list_all_iff)
    then show ?thesis using e(2,5,6) ok
      by (auto simp: names_ok_def is_ident_def ident_char_def simp del: in_class.simps)
  qed
  have id5: "is_ident (lx_text l @ [c])" if "v = 5"
  proof -
    have "n = ST1" using e(3) that st_code_inj [of n ST1] by simp
    then have "x = START \<and> chs = [Ch (CHR ''L'')]" using fsm_to_ST1 e(1) by (auto simp: list_all_iff)
    moreover from this have "c = CHR ''L''" using e(2,6) code_of_eq_iff [of c "CHR ''L''"] by simp
    ultimately show ?thesis using e(5) ok by (simp add: names_ok_def is_ident_def ident_char_def)
  qed
  have "list_all whole_name (lx_toks l)" "CHR 0x0D \<notin> set p'" using ok c by (auto simp: names_ok_def)
  then show ?thesis using c sp id4 id5 e(4) by (simp add: names_ok_def consume_def)
qed

lemma whole_name_other: "tok_type tp \<noteq> NAME \<Longrightarrow> whole_name tp"
  by (simp add: whole_name_def)

lemma fsm_name_only:
  "(x, chs, n) \<in> set fsm \<Longrightarrow> next_state n = 43 \<Longrightarrow> x \<in> {ID1, ST1}"
  "(x, chs, Act t y) \<in> set fsm \<Longrightarrow> st_code y \<in> {32, 33} \<Longrightarrow> t \<noteq> NAME"
proof -
  have "list_all (\<lambda>(x, chs, n). next_state n = 43 \<longrightarrow> x \<in> {ID1, ST1}) fsm" by (simp add: fsm_def next_state_def)
  then show "(x, chs, n) \<in> set fsm \<Longrightarrow> next_state n = 43 \<Longrightarrow> x \<in> {ID1, ST1}" by (auto simp: list_all_iff)
  show "(x, chs, Act t y) \<in> set fsm \<Longrightarrow> st_code y \<in> {32, 33} \<Longrightarrow> t \<noteq> NAME"
    using fsm_name by (auto simp: list_all_iff)
qed

lemma new_tokens_names:
  assumes ok: "names_ok l" and e: "(x, chs, n) \<in> set fsm" "32 \<le> next_code n"
    and v: "cell (lex_char (lx_in l)) (lx_state l) = NOT (next_code n)" and x: "st_code x = lx_state l \<or> x = S_COMCR1"
  shows "list_all whole_name (new_tokens (nat (next_code n)) l)"
proof (cases "next_state n = 43")
  case True
  then have "lx_state l \<in> {4, 5}" using fsm_name_only(1) [OF e(1)] x by auto
  then have "is_ident (lx_text l)" "\<not> ident_char (lex_char (lx_in l))"
    using ok cell_name_ends [of "lx_state l" "lex_char (lx_in l)"] v e(2) by (auto simp: names_ok_def)
  moreover have "\<not> ident_char (hd (lx_in l))" if "lx_in l \<noteq> []"
    using calculation(2) that by (cases "lx_in l") (auto simp: lex_char_def ident_char_def split: if_splits)
  ultimately show ?thesis using True
    by (auto simp: new_tokens_def next_code_mod whole_name_def lex_token_def nth_append hd_conv_nth)
next
  case False
  have "toktypes ! (nat (next_code n) div 128) \<noteq> NAME" if "next_state n \<in> {32, 33}"
    unfolding act_type using that fsm_name_only(2) e(1) by (cases n) (auto simp: next_state_def)
  then show ?thesis using False
    by (simp add: new_tokens_def Let_def next_code_mod whole_name_other lex_token_def)
qed

text \<open>An action keeps the names, and the input has no carriage return after it either.\<close>

lemma names_ok_act:
  assumes ok: "names_ok l" and new: "list_all whole_name (new_tokens x l)" and r: "r = lex_act quick ff x l"
  shows "list_all whole_name (lx_toks (lex_result r)) \<and> CHR 0x0D \<notin> set (lx_in (lex_result r))"
  using ok new lex_act_in [of quick ff x l] by (auto simp: r names_ok_def lex_act_toks)

lemma names_ok_step:
  assumes ok: "names_ok l" and s: "lx_state l < 32"
  shows "list_all whole_name (lx_toks (lex_result (lex_step quick ff l))) \<and>
    (\<forall>l'. lex_step quick ff l = Inr l' \<longrightarrow> names_ok l')"
proof (cases rule: lex_step_cases [OF s refl, of quick ff, case_names trig folds goes eof acts])
  case (trig q)
  then have "CHR 0x0D \<notin> set q" using trigraph_set [OF trig(1), of "CHR 0x0D"] ok by (auto simp: names_ok_def)
  then show ?thesis using ok trig by (simp add: names_ok_def lex_result_def)
next
  case (folds q)
  then have "CHR 0x0D \<notin> set q" using foldline_set [OF folds(1)] ok by (auto simp: names_ok_def)
  then show ?thesis using ok folds by (simp add: names_ok_def lex_result_def)
next
  case (goes c p' v)
  then have "names_ok (consume v l)" using names_ok_consume [OF ok] s by blast
  then show ?thesis using goes by (simp add: lex_result_def names_ok_def)
next
  case eof
  have "list_all whole_name (new_tokens 34 l)" by (simp add: new_tokens_def whole_name_def lex_token_def)
  then have "list_all whole_name (lx_toks (lex_result (lex_step quick ff l)))" using names_ok_act [OF ok _ eof(3)] by simp
  moreover have "lex_step quick ff l \<noteq> Inr l'" for l' using eof by (simp add: lex_act_def Let_def)
  ultimately show ?thesis by simp
next
  case (acts x chs n ch)
  have new: "list_all whole_name (new_tokens (nat (next_code n)) l)"
    using new_tokens_names [OF ok acts(1,3,4)] acts(5) by auto
  note r = names_ok_act [OF ok new acts(6)]
  have "names_ok l'" if "lex_step quick ff l = Inr l'" for l'
  proof -
    have "an_action (nat (next_code n) mod 128)" using fsm_actions acts(1,3) by (auto simp: list_all_iff next_code_mod)
    then have "lx_state l' = 0 \<and> lx_text l' = [] \<or> lx_state l' = 9"
      using lex_act_goes_on [of quick ff "nat (next_code n)" l l'] that acts(6) by auto
    then show ?thesis using r that by (auto simp: lex_result_def names_ok_def)
  qed
  then show ?thesis using r by simp
qed

text \<open>
  Claim C30: in a line without carriage returns every name token of the row is an identifier, and the
  identifier is whole: the character after the token cannot continue it.
\<close>

theorem lex_row_names:
  assumes "CHR 0x0D \<notin> set p"
  shows "\<exists>l. lex_row quick from_file [] p = Some l \<and> list_all whole_name (lx_toks l)"
  unfolding lex_row_def
proof (rule lex_loop_rule [where I = names_ok])
  show "lx_state (lex_init [] p) < 32" "names_ok (lex_init [] p)" using assms by (simp_all add: lex_init_def names_ok_def)
next
  show "list_all whole_name (lx_toks l')" if "names_ok l" "lx_state l < 32" "lex_step quick from_file l = Inl l'" for l l'
    using names_ok_step [OF that(1,2), of quick from_file] that(3) by (simp add: lex_result_def)
qed (use names_ok_step in blast)

theorem lex_row_names_witness:
  "CHR 0x0D \<notin> set ''int x1;'' \<and> (\<exists>l. lex_row (\<lambda>_. False) True [] ''int x1;'' = Some l \<and> list_all whole_name (lx_toks l))"
proof -
  have "CHR 0x0D \<notin> set ''int x1;''" by simp
  then show ?thesis using lex_row_names [of "''int x1;''" "\<lambda>_. False" True] by blast
qed

end
