(* ===== verification/CPP_Lex_Text.thy ===== *)
theory CPP_Lex_Text
  imports CPP_Lex_Rows
begin

text \<open>
  The tokens of a row cover the text of its line: nothing is lost between them but white space.
  This needs a line without comments, folds and trigraphs, and without the two characters for which
  the table is wrong.
\<close>

section \<open>Covering a text\<close>

definition is_blank :: "char \<Rightarrow> bool" where
  "is_blank c \<longleftrightarrow> c = CHR 0x20 \<or> c = CHR 0x09"

text \<open>The tokens follow one another in the text, each after its white space; what is left.\<close>

fun covers :: "string \<Rightarrow> token list \<Rightarrow> string \<Rightarrow> bool" where
  "covers p [] r \<longleftrightarrow> r = p"
| "covers p (tp # tps) r \<longleftrightarrow>
     tok_t tp = drop (tok_wslen tp) p \<and> tok_wslen tp + tok_len tp \<le> length p \<and> 0 < tok_len tp \<and> tok_type tp \<notin> {NL, END} \<and>
     list_all is_blank (take (tok_wslen tp) p) \<and> covers (drop (tok_wslen tp + tok_len tp) p) tps r"

fun quiet :: "string \<Rightarrow> bool" where
  "quiet (a # b # p) \<longleftrightarrow>
     (a, b) \<notin> {(CHR ''?'', CHR ''?''), (CHR 0x5C, CHR 0x0A), (CHR ''/'', CHR ''*''), (CHR ''/'', CHR ''/'')} \<and> quiet (b # p)"
| "quiet p \<longleftrightarrow> True"

definition plain_line :: "string \<Rightarrow> bool" where
  "plain_line p \<longleftrightarrow> quiet p \<and> CHR 0x0D \<notin> set p \<and> CHR 0x0B \<notin> set p"

lemma covers_snoc: "covers p (tps @ [tp]) r \<longleftrightarrow> (\<exists>q. covers p tps q \<and> covers q [tp] r)"
  by (induction tps arbitrary: p) auto

lemma quiet_tl: "quiet (c # p) \<Longrightarrow> quiet p"
  by (cases p) auto

lemma plain_line_tl: "plain_line (c # p) \<Longrightarrow> plain_line p"
  by (auto simp: plain_line_def dest: quiet_tl)

lemma quiet_trigraph: "quiet p \<Longrightarrow> lex_char p = CHR ''?'' \<Longrightarrow> trigraph p = None"
  by (cases p rule: quiet.cases) (auto simp: trigraph_def char_at_def lex_char_def split: if_splits)

lemma quiet_foldline: "quiet p \<Longrightarrow> lex_char p = CHR 0x5C \<Longrightarrow> foldline p = None"
  by (cases p rule: quiet.cases) (auto simp: foldline_def char_at_def lex_char_def split: if_splits)

section \<open>Entries of the table\<close>

lemma fsm_to_comment:
  "list_all (\<lambda>(x, chs, n). n \<in> {St COM2, St COM3, St COM4} \<longrightarrow>
     x \<in> {COM2, COM3, COM4} \<or> x = COM1 \<and> chs \<in> {[Ch (CHR ''*'')], [Ch (CHR ''/'')]}) fsm"
  by (simp add: fsm_def)

lemma fsm_to_WS1:
  "list_all (\<lambda>(x, chs, n). n = St WS1 \<longrightarrow> x \<in> {START, WS1} \<and> chs = [Ch (CHR 0x20), Ch (CHR 0x09), Ch (CHR 0x0B)]) fsm"
  by (simp add: fsm_def)

lemma fsm_to_COM1: "list_all (\<lambda>(x, chs, n). n = St COM1 \<longrightarrow> x = START \<and> chs = [Ch (CHR ''/'')]) fsm"
  by (simp add: fsm_def)

lemma fsm_from_COMCR1: "list_all (\<lambda>(x, chs, n). x = S_COMCR1 \<longrightarrow> chs = [Ch (CHR 0x0A)]) fsm"
  by (simp add: fsm_def)

lemma fsm_comment_actions: "list_all (\<lambda>(x, chs, n). next_state n \<in> {38, 39, 40} \<longrightarrow> x \<in> {COM2, COM3, COM4, S_COMCR1}) fsm"
  by (simp add: fsm_def next_state_def)

lemma fsm_S_WS: "list_all (\<lambda>(x, chs, n). next_state n = 42 \<longrightarrow> x = WS1) fsm"
  by (simp add: fsm_def next_state_def)

lemma fsm_S_NL: "list_all (\<lambda>(x, chs, n). next_state n = 35 \<longrightarrow> x \<in> {START, COM4, S_CR1} \<and> chs = [Ch (CHR 0x0A)]) fsm"
  by (simp add: fsm_def next_state_def)

lemma fsm_token_types:
  "list_all (\<lambda>(x, chs, n). next_state n \<in> {32, 33} \<longrightarrow>
     (case n of St y \<Rightarrow> chs = [Ch (CHR 0x0D)] | Act t y \<Rightarrow> t \<notin> {NL, END})) fsm"
  by (simp add: fsm_def next_state_def)

lemma column_6:
  "column 6 =
    [(6, Ch (CHR 0xFD), - 37), (6, Ch (CHR 0x0A), - 38), (6, Ch (CHR 0x0D), - 38), (6, Ch (CHR 0x5C), 7),
     (6, Ch (CHR 0x22), - 545), (6, C_XX, 6)]"
  by (simp add: tok_code_def toktypes_def column_def fsm_cells_def fsm_def entry_value_def)

lemma column_7:
  "column 7 =
    [(7, Ch (CHR 0xFD), - 37), (7, Ch (CHR 0x0A), - 38), (7, Ch (CHR 0x0D), - 38), (7, C_XX, 6)]"
  by (simp add: tok_code_def toktypes_def column_def fsm_cells_def fsm_def entry_value_def)

lemma column_12:
  "column 12 =
    [(12, Ch (CHR 0xFD), - 37), (12, Ch (CHR 0x0A), - 38), (12, Ch (CHR 0x0D), - 38), (12, Ch (CHR 0x5C), 13),
     (12, Ch (CHR 0x27), - 673), (12, C_XX, 12)]"
  by (simp add: tok_code_def toktypes_def column_def fsm_cells_def fsm_def entry_value_def)

lemma column_13:
  "column 13 =
    [(13, Ch (CHR 0xFD), - 37), (13, Ch (CHR 0x0A), - 38), (13, C_XX, 12)]"
  by (simp add: tok_code_def toktypes_def column_def fsm_cells_def fsm_def entry_value_def)

lemma column_14:
  "column 14 =
    [(14, Ch (CHR 0x0B), 14), (14, Ch (CHR 0x09), 14), (14, Ch (CHR 0x20), 14), (14, C_XX, - 43)]"
  by (simp add: tok_code_def toktypes_def column_def fsm_cells_def fsm_def entry_value_def)


lemma cell_blank_ends: "cell c 14 < 0 \<Longrightarrow> \<not> is_blank c"
  by (auto simp: cell_column column_14 is_blank_def split: if_splits)

lemma cell_EOFC_quoted: "cell (CHR 0xFD) 6 < 0" "cell (CHR 0xFD) 7 < 0" "cell (CHR 0xFD) 12 < 0" "cell (CHR 0xFD) 13 < 0"
  by (simp_all add: cell_column column_6 column_7 column_12 column_13)

lemma fsm_EOFC_states:
  "list_all (\<lambda>(x, chs, n). list_ex (\<lambda>ch. in_class ch EOFC) chs \<and> next_state n < 32 \<longrightarrow> x \<in> {ST2, ST3, CC1, CC2, COM2, COM3, COM4}) fsm"
  by (simp add: fsm_def next_state_def EOFC_def)

section \<open>The invariant\<close>

text \<open>The tokens cover the text up to the white space, the text of the current token and the input.\<close>

definition covering :: "string \<Rightarrow> lexing \<Rightarrow> bool" where
  "covering p l \<longleftrightarrow>
     (\<exists>w. covers p (lx_toks l) (w @ lx_text l @ lx_in l) \<and> length w = lx_ws l \<and> list_all is_blank w) \<and>
     plain_line (lx_in l) \<and> lx_state l \<notin> {9, 10, 11, 18, 31} \<and>
     (lx_state l = 0 \<longleftrightarrow> lx_text l = []) \<and>
     (lx_state l = 0 \<and> 0 < lx_ws l \<longrightarrow> \<not> is_blank (lex_char (lx_in l))) \<and>
     (lx_state l = 14 \<longrightarrow> lx_ws l = 0 \<and> list_all is_blank (lx_text l)) \<and>
     (lx_state l = 8 \<longrightarrow> quiet (CHR ''/'' # lx_in l))"

lemma in_class_Ch: "in_class (Ch d) (code_of c) \<longleftrightarrow> c = d"
  by simp

lemma covering_consume:
  assumes ok: "covering p l" and c: "lx_in l = c # p'" "lex_char (lx_in l) = c"
    and st: "lx_state l < 32" "cell c (lx_state l) = int v" "v < 32"
  shows "covering p (consume v l)"
proof -
  have s: "lx_state l < 31" "lx_state l \<noteq> 18" using ok st by (auto simp: covering_def)
  obtain x chs n ch where e: "(x, chs, St n) \<in> set fsm" "ch \<in> set chs" "st_code n = v" "v \<noteq> 0"
    "st_code x = lx_state l" "in_class ch (code_of c)"
    using state_entry [OF s st(2,3)] by blast
  have plain: "plain_line (c # p')" "lx_state l \<notin> {9, 10, 11}" using ok c by (auto simp: covering_def)
  have n: "n = y" if "v = st_code y" "st_code y \<noteq> 32" for y using st_code_inj [of n y] that e(3) by simp
  have "v \<notin> {18, 31}"
  proof
    assume "v \<in> {18, 31}"
    then have "n = SLASH1 \<or> n = S_CR1" using n [of SLASH1] n [of S_CR1] by auto
    then have "ch = Ch (CHR 0x0D)" using fsm_not_SLASH1 e(1,2) by (auto simp: list_all_iff)
    then show False using e(6) plain by (auto simp: plain_line_def in_class_Ch simp del: in_class.simps)
  qed
  moreover have "v \<notin> {9, 10, 11}"
  proof
    assume "v \<in> {9, 10, 11}"
    then have "n \<in> {COM2, COM3, COM4}" using n [of COM2] n [of COM3] n [of COM4] by auto
    then have "x \<in> {COM2, COM3, COM4} \<or> x = COM1 \<and> chs \<in> {[Ch (CHR ''*'')], [Ch (CHR ''/'')]}"
      using fsm_to_comment e(1) by (auto simp: list_all_iff)
    then have "lx_state l = 8" "c = CHR ''*'' \<or> c = CHR ''/''" using plain(2) e(2,5,6) by (auto simp: in_class_Ch simp del: in_class.simps)
    then show False using ok c by (auto simp: covering_def)
  qed
  moreover have "list_all is_blank (lx_text l @ [c])" "lx_ws l = 0" if "v = 14"
  proof -
    have "n = WS1" using n [of WS1] that by simp
    then have w: "x \<in> {START, WS1}" "chs = [Ch (CHR 0x20), Ch (CHR 0x09), Ch (CHR 0x0B)]"
      using fsm_to_WS1 e(1) by (auto simp: list_all_iff)
    have b: "is_blank c" using e(2,6) w(2) plain by (auto simp: is_blank_def plain_line_def in_class_Ch simp del: in_class.simps)
    show "list_all is_blank (lx_text l @ [c])" "lx_ws l = 0" using w(1) e(5) ok b c by (auto simp: covering_def)
  qed
  moreover have "quiet (CHR ''/'' # p')" if "v = 8"
  proof -
    have "n = COM1" using n [of COM1] that by simp
    then have "ch = Ch (CHR ''/'')" using fsm_to_COM1 e(1,2) by (auto simp: list_all_iff)
    then have "c = CHR ''/''" using e(6) by (simp add: in_class_Ch del: in_class.simps)
    then show ?thesis using plain by (simp add: plain_line_def)
  qed
  ultimately show ?thesis using ok c e(4) plain_line_tl [OF plain(1)] by (auto simp: covering_def consume_def)
qed

text \<open>What a row is: the tokens before the last cover the line, up to white space and its end.\<close>

definition row_text_ok :: "string \<Rightarrow> lexing \<Rightarrow> bool" where
  "row_text_ok p l \<longleftrightarrow>
     (\<exists>w r. lx_toks l \<noteq> [] \<and> covers p (butlast (lx_toks l)) (w @ r) \<and> list_all is_blank w \<and>
        (tok_type (last (lx_toks l)) = NL \<and> r = CHR 0x0A # lx_in l \<or> tok_type (last (lx_toks l)) = END \<and> r = lx_in l))"

definition some_error :: "lexing \<Rightarrow> bool" where
  "some_error l \<longleftrightarrow> list_ex (\<lambda>m. fst m \<noteq> WARNING) (lx_msgs l)"

lemma covers_one:
  assumes "list_all is_blank w" "str \<noteq> []" "t \<notin> {NL, END}"
  shows "covers (w @ str @ r) [lex_token t str (length w) r] r"
  using assms by (simp add: lex_token_def)

lemma covering_token:
  assumes ok: "covering p l" and tp: "tp = lex_token t str (lx_ws l) r" "str @ r = lx_text l @ lx_in l" "str \<noteq> []" "t \<notin> {NL, END}"
    and r: "plain_line r"
  shows "covering p (add_token tp r l)"
proof -
  obtain w where w: "covers p (lx_toks l) (w @ lx_text l @ lx_in l)" "length w = lx_ws l" "list_all is_blank w"
    using ok by (auto simp: covering_def)
  have "covers (w @ lx_text l @ lx_in l) [tp] r" using covers_one [of w str t r] w tp by simp
  then have "covers p (lx_toks l @ [tp]) r" using w(1) by (auto simp: covers_snoc)
  then show ?thesis using r by (simp add: covering_def add_token_def)
qed

lemma covering_entry:
  assumes ok: "covering p l" and s: "lx_state l < 32" and e: "(x, chs, n) \<in> set fsm" "ch \<in> set chs" "32 \<le> next_code n"
    and st: "st_code x = lx_state l \<and> in_class ch (code_of (lex_char (lx_in l))) \<or>
       x = S_COMCR1 \<and> lx_state l = 0 \<and> in_class ch (code_of (lex_char (lx_in l)) - 1)"
  shows "next_state n \<notin> {38, 39, 40}" "st_code x = lx_state l" "in_class ch (code_of (lex_char (lx_in l)))"
    "next_state n \<in> {32, 33} \<Longrightarrow> (case n of St y \<Rightarrow> END | Act t y \<Rightarrow> t) \<notin> {NL, END}"
proof -
  have in_set: "lex_char (lx_in l) = c \<Longrightarrow> c \<noteq> CHR 0xFD \<Longrightarrow> c \<in> set (lx_in l)" for c
    by (auto simp: lex_char_def split: list.splits if_splits)
  have no: "lex_char (lx_in l) \<noteq> CHR 0x0D" "lex_char (lx_in l) \<noteq> CHR 0x0B"
    using ok in_set by (fastforce simp: covering_def plain_line_def)+
  have "x \<noteq> S_COMCR1"
  proof
    assume x: "x = S_COMCR1"
    then have "ch = Ch (CHR 0x0A)" using fsm_from_COMCR1 e by (auto simp: list_all_iff)
    then have "code_of (lex_char (lx_in l)) = 11" using st x s by auto
    then show False using no(2) code_of_eq_iff [of "lex_char (lx_in l)" "CHR 0x0B"] by (simp del: of_char_eq_iff)
  qed
  then show x: "st_code x = lx_state l" and c: "in_class ch (code_of (lex_char (lx_in l)))" using st by auto
  show "next_state n \<notin> {38, 39, 40}"
  proof
    assume "next_state n \<in> {38, 39, 40}"
    then have "x \<in> {COM2, COM3, COM4, S_COMCR1}" using fsm_comment_actions e(1) by (auto simp: list_all_iff)
    then show False using x ok s by (auto simp: covering_def)
  qed
  show "(case n of St y \<Rightarrow> END | Act t y \<Rightarrow> t) \<notin> {NL, END}" if "next_state n \<in> {32, 33}"
  proof (cases n)
    case (St y)
    then have "ch = Ch (CHR 0x0D)" using fsm_token_types e that by (auto simp: list_all_iff)
    then have "lex_char (lx_in l) = CHR 0x0D" using c by (simp add: in_class_Ch del: in_class.simps)
    then show ?thesis using no by simp
  next
    case (Act t y)
    then show ?thesis using fsm_token_types e that by (auto simp: list_all_iff)
  qed
qed

lemma covering_plain: "covering p l \<Longrightarrow> plain_line (tl (lx_in l))"
  using plain_line_tl by (cases "lx_in l") (auto simp: covering_def)

lemma lex_char_Cons: "lex_char p \<noteq> CHR 0xFD \<Longrightarrow> p = lex_char p # tl p"
  by (auto simp: lex_char_def split: list.splits if_splits)

lemma covering_end:
  assumes ok: "covering p l" and s: "lx_state l = 0" and t: "tok_type tp = NL \<and> lx_in l = CHR 0x0A # q \<or> tok_type tp = END \<and> lx_in l = q"
    and l': "lx_toks l' = lx_toks l @ [tp]" "lx_in l' = q"
  shows "row_text_ok p l'"
proof -
  obtain w where w: "covers p (lx_toks l) (w @ lx_text l @ lx_in l)" "list_all is_blank w"
    using ok by (auto simp: covering_def)
  have "lx_text l = []" using ok s by (simp add: covering_def)
  then show ?thesis using w t l' by (auto simp: row_text_ok_def)
qed

text \<open>The end of the input.\<close>

lemma covering_eof:
  assumes ok: "covering p l" and s: "lx_state l < 32" "lx_state l = 0" and r: "r = lex_act quick ff x l" "x mod 128 = 34"
  shows "\<exists>l'. r = Inl l' \<and> row_text_ok p l'"
proof -
  define l' where "l' = lex_result (lex_act quick ff x l)"
  have "r = Inl l'" using r by (simp add: l'_def lex_act_def Let_def lex_result_def)
  moreover have i: "lx_in l' = lx_in l" using r by (simp add: l'_def lex_act_def Let_def lex_result_def add_token_def)
  have t: "lx_toks l' = lx_toks l @ [(lex_token END [] (lx_ws l) (lx_in l))\<lparr>tok_t := lx_text l @ lx_in l\<rparr>]"
    using r by (simp add: l'_def lex_act_toks new_tokens_def Let_def)
  have "row_text_ok p l'" by (rule covering_end [OF ok s(2) _ t i]) (simp add: lex_token_def)
  ultimately show ?thesis by blast
qed

lemma covering_S_NL:
  assumes ok: "covering p l" and s: "lx_state l = 0" and c: "lex_char (lx_in l) = CHR 0x0A"
    and r: "r = lex_act quick ff x l" "x mod 128 = 35"
  shows "\<exists>l'. r = Inl l' \<and> row_text_ok p l'"
proof -
  have "r = Inl (newline_row l)" using r by (simp add: lex_act_def)
  moreover have "lx_in l = CHR 0x0A # tl (lx_in l)" using c lex_char_Cons [of "lx_in l"] by simp
  ultimately show ?thesis using covering_end [OF ok s, of _ "tl (lx_in l)" "newline_row l"]
    by (simp add: newline_row_def add_token_def lex_token_def)
qed

lemma covering_act:
  assumes ok: "covering p l" and s: "lx_state l < 32" and e: "(x, chs, n) \<in> set fsm" "ch \<in> set chs" "32 \<le> next_code n"
    and v: "cell (lex_char (lx_in l)) (lx_state l) = NOT (next_code n)"
    and st: "st_code x = lx_state l \<and> in_class ch (code_of (lex_char (lx_in l))) \<or>
       x = S_COMCR1 \<and> lx_state l = 0 \<and> in_class ch (code_of (lex_char (lx_in l)) - 1)"
    and r: "r = lex_act quick ff (nat (next_code n)) l"
  shows "case r of Inr l' \<Rightarrow> covering p l' | Inl l' \<Rightarrow> some_error l' \<or> row_text_ok p l'"
proof -
  note ent = covering_entry [OF ok s e st]
  define k where "k = next_state n"
  have k: "nat (next_code n) mod 128 = k" by (simp add: next_code_mod k_def)
  have "an_action k" using fsm_actions e by (auto simp: list_all_iff k_def)
  then have cs: "k = 32 \<or> k = 33 \<or> k = 43 \<or> k = 42 \<or> k = 34 \<or> k = 35 \<or> k = 36 \<or> k = 37"
    using ent(1) by (auto simp: an_action_def k_def)
  have neg: "cell (lex_char (lx_in l)) (lx_state l) < 0" "k = nat (NOT (cell (lex_char (lx_in l)) (lx_state l))) mod 128"
    using v e(3) k by simp_all
  note facts = cell_action [OF s neg]
  have ty: "toktypes ! (nat (next_code n) div 128) \<notin> {NL, END}" if "k \<in> {32, 33}"
    unfolding act_type using ent(4) that by (simp add: k_def)
  have nonempty: "lx_text l \<noteq> []" if "k \<notin> {32, 34, 35, 38}" using facts(2) that ok by (auto simp: start_action_def covering_def)
  have pl: "plain_line (lx_in l)" using ok by (simp add: covering_def)
  from cs consider "k = 32" | "k = 33" | "k = 43" | "k = 42" | "k = 34" | "k = 35" | "k = 36 \<or> k = 37" by auto
  then show ?thesis
  proof cases
    case 1
    have "lex_char (lx_in l) \<noteq> CHR 0xFD" using facts(3) 1 by (auto simp: eof_action_def)
    then have "lx_in l = lex_char (lx_in l) # tl (lx_in l)" by (rule lex_char_Cons)
    then have "(lx_text l @ [lex_char (lx_in l)]) @ tl (lx_in l) = lx_text l @ lx_in l" by simp
    then show ?thesis using covering_token [OF ok refl _ _ ty covering_plain [OF ok]] 1 r k by (simp add: lex_act_def Let_def)
  next
    case 2
    then show ?thesis using covering_token [OF ok refl refl nonempty ty pl] r k by (simp add: lex_act_def Let_def)
  next
    case 3
    have "covering p (l'\<lparr>lx_nmac := b\<rparr>) = covering p l'" for l' b by (simp add: covering_def)
    then show ?thesis using covering_token [OF ok refl refl nonempty _ pl, of NAME] 3 r k by (simp add: lex_act_def Let_def)
  next
    case 4
    then have st14: "lx_state l = 14" using fsm_S_WS e(1) ent(2) by (auto simp: list_all_iff k_def)
    then have "\<not> is_blank (lex_char (lx_in l))" using cell_blank_ends neg by simp
    then show ?thesis using ok 4 r k st14
      by (auto simp: lex_act_def Let_def covering_def intro!: exI [of _ "lx_text l"])
  next
    case 5
    then have "lx_state l = 0" using fsm_S_EOF e(1) ent(2) by (auto simp: list_all_iff k_def)
    then show ?thesis using covering_eof [OF ok s _ r] 5 k by auto
  next
    case 6
    then have "x \<in> {START, COM4, S_CR1}" "ch = Ch (CHR 0x0A)" using fsm_S_NL e(1,2) by (auto simp: list_all_iff k_def)
    then have "lx_state l = 0" "lex_char (lx_in l) = CHR 0x0A"
      using ent(2,3) ok by (auto simp: covering_def in_class_Ch simp del: in_class.simps)
    then show ?thesis using covering_S_NL [OF ok _ _ r] 6 k by auto
  next
    case 7
    then show ?thesis using r k by (auto simp: lex_act_def add_msg_def newline_row_def add_token_def some_error_def)
  qed
qed

lemma covering_not_eof:
  assumes ok: "covering p l" and s: "lx_state l < 32"
  shows "cell (CHR 0xFD) (lx_state l) < 0"
proof (rule ccontr)
  assume "\<not> cell (CHR 0xFD) (lx_state l) < 0"
  moreover have "cell (CHR 0xFD) (lx_state l) < 32"
    using raw_fsm_nonneg [OF s, of "code_of (CHR 0xFD)"] calculation by (simp add: cell_def)
  ultimately obtain v where v: "cell (CHR 0xFD) (lx_state l) = int v" "v < 32"
    by (metis not_less of_nat_less_numeral_iff zero_le_imp_eq_int)
  have s': "lx_state l < 31" "lx_state l \<noteq> 18" "lx_state l \<notin> {9, 10, 11}" using ok s by (auto simp: covering_def)
  obtain x chs n ch where e: "(x, chs, St n) \<in> set fsm" "ch \<in> set chs" "st_code n = v" "v \<noteq> 0"
    "st_code x = lx_state l" "in_class ch (code_of (CHR 0xFD))"
    using state_entry [OF s'(1,2) v] by blast
  then have "list_ex (\<lambda>ch. in_class ch EOFC) chs" by (auto simp: list_ex_iff EOFC_def)
  then have "x \<in> {ST2, ST3, CC1, CC2, COM2, COM3, COM4}"
    using fsm_EOFC_states e(1,3) v(2) unfolding list_all_iff next_state_def by fastforce
  then have "lx_state l \<in> {6, 7, 12, 13}" using e(5) s'(3) by auto
  then show False using cell_EOFC_quoted v by auto
qed

lemma covering_step:
  assumes ok: "covering p l" and s: "lx_state l < 32"
  shows "case lex_step quick ff l of Inr l' \<Rightarrow> covering p l' | Inl l' \<Rightarrow> some_error l' \<or> row_text_ok p l'"
proof (cases rule: lex_step_cases [OF s refl, of quick ff, case_names trig folds goes eof acts])
  case (trig q)
  then show ?thesis using quiet_trigraph [of "lx_in l"] ok by (simp add: covering_def plain_line_def)
next
  case (folds q)
  then show ?thesis using quiet_foldline [of "lx_in l"] ok by (simp add: covering_def plain_line_def)
next
  case (goes c p' v)
  then show ?thesis using covering_consume [OF ok goes(1,2) s goes(3,4)] by simp
next
  case eof
  then show ?thesis using covering_not_eof [OF ok s] by simp
next
  case (acts x chs n ch)
  then show ?thesis using covering_act [OF ok s acts(1-5) refl] by simp
qed

text \<open>
  Claim C28: nothing is lost: of a line without comments, folded lines, trigraphs, carriage returns
  and vertical tabs gettokens makes a row whose tokens, each with the white space before it, cover
  the text one after the other up to the newline or the end of the input; no token is empty, and
  none but the last is a newline or the end.  Or it reports an error.
\<close>

theorem lex_row_covers:
  assumes "plain_line p"
  shows "\<exists>l. lex_row quick from_file [] p = Some l \<and> (some_error l \<or> row_text_ok p l)"
  unfolding lex_row_def
proof (rule lex_loop_rule [where I = "covering p"])
  show "lx_state (lex_init [] p) < 32" "covering p (lex_init [] p)" using assms by (simp_all add: lex_init_def covering_def)
next
  show "covering p l'" if "covering p l" "lx_state l < 32" "lex_step quick from_file l = Inr l'" for l l'
    using covering_step [OF that(1,2), of quick from_file] that(3) by simp
next
  show "some_error l' \<or> row_text_ok p l'" if "covering p l" "lx_state l < 32" "lex_step quick from_file l = Inl l'" for l l'
    using covering_step [OF that(1,2), of quick from_file] that(3) by simp
qed

theorem lex_row_covers_witness:
  "plain_line ''x = y/2; z'' \<and>
   (\<exists>l. lex_row (\<lambda>_. False) True [] ''x = y/2; z'' = Some l \<and> (some_error l \<or> row_text_ok ''x = y/2; z'' l))"
proof -
  have "plain_line ''x = y/2; z''" by (simp add: plain_line_def)
  then show ?thesis using lex_row_covers [of "''x = y/2; z''" "\<lambda>_. False" True] by blast
qed

section \<open>The value of S_COMCR1\<close>

lemma column_8:
  "column 8 =
    [(8, Ch (CHR ''/''), 11), (8, Ch (CHR ''*''), 9), (8, Ch (CHR ''=''), - 6177), (8, C_XX, - 4002)]"
  by (simp add: tok_code_def toktypes_def column_def fsm_cells_def fsm_def entry_value_def)

lemma column_9:
  "column 9 =
    [(9, Ch (CHR 0xFD), - 40), (9, Ch (CHR ''*''), 10), (9, Ch (CHR 0x0A), - 39), (9, Ch (CHR 0x0D), - 33), (9, C_XX, 9)]"
  by (simp add: tok_code_def toktypes_def column_def fsm_cells_def fsm_def entry_value_def)


lemma lex_loop_Inr: "lex_step quick ff l = Inr l' \<Longrightarrow> lex_loop quick ff l = lex_loop quick ff l'"
  by (subst lex_loop.simps) simp

lemma cells_comment:
  "cell (CHR ''/'') 0 = 8" "cell (CHR ''*'') 8 = 9" "cell (CHR 0x0D) 9 = - 33" "cell (CHR 0x0B) 0 = - 39"
  by (simp_all add: cell_column column_0 column_8 column_9)

lemma lex_step_cell:
  assumes "lx_in l = c # p" "lx_state l < 32" "c \<notin> {CHR 0xFD, CHR 0xFE, CHR ''?'', CHR 0x5C}"
  shows "lex_step quick ff l =
    (if 0 \<le> cell c (lx_state l) then Inr (consume (nat (cell c (lx_state l))) l) else lex_act quick ff (nat (NOT (cell c (lx_state l)))) l)"
  using assms by (simp add: lex_step_unmarked unmarked_def lex_char_def)

text \<open>
  Claim C31: the state S_COMCR1 has the value of the action S_SELF, for which the table has no column.
  So a carriage return in a comment ends the comment as a token of type END, and the rest of the
  comment is read as program text; and a vertical tab between tokens starts a comment and counts a
  line, because the entry meant for S_COMCR1 replaces its entry in the start state.
\<close>

theorem comment_state_collision:
  "lex_row quick from_file ts (''/*'' @ CHR 0x0D # p) =
     lex_row quick from_file (ts @ [lex_token END (''/*'' @ [CHR 0x0D]) 0 p]) p \<and>
   lex_row quick from_file ts (CHR 0x0B # p) =
     lex_loop quick from_file ((lex_init ts p)\<lparr>lx_state := st_code COM2, lx_text := [CHR 0x0B], lx_lineinc := 1\<rparr>)"
proof
  define l0 where "l0 = lex_init ts (''/*'' @ CHR 0x0D # p)"
  define l1 where "l1 = consume 8 l0"
  define l2 where "l2 = consume 9 l1"
  have 1: "lex_step quick from_file l0 = Inr l1" "lx_state l1 = 8" "lx_in l1 = CHR ''*'' # CHR 0x0D # p"
    using lex_step_cell [of l0 "CHR ''/''"] by (simp_all add: l1_def l0_def lex_init_def consume_def cells_comment)
  have 2: "lex_step quick from_file l1 = Inr l2" "lx_state l2 = 9" "lx_in l2 = CHR 0x0D # p"
    using lex_step_cell [of l1 "CHR ''*''"] 1 by (simp_all add: l2_def consume_def cells_comment)
  have l2: "lx_text l2 = ''/*''" "lx_ws l2 = 0" "lx_toks l2 = ts" "lx_lineinc l2 = 0" "lx_msgs l2 = []" "\<not> lx_nmac l2"
    by (simp_all add: l2_def l1_def l0_def lex_init_def consume_def lex_char_def)
  have "lex_step quick from_file l2 = Inr (add_token (lex_token END (''/*'' @ [CHR 0x0D]) 0 p) p l2)"
    using lex_step_cell [of l2 "CHR 0x0D"] 2 l2 by (simp add: cells_comment lex_act_def toktypes_def lex_char_def)
  moreover have "add_token tp p l2 = lex_init (ts @ [tp]) p" for tp
    using l2 by (simp add: add_token_def lex_init_def)
  ultimately show "lex_row quick from_file ts (''/*'' @ CHR 0x0D # p) =
     lex_row quick from_file (ts @ [lex_token END (''/*'' @ [CHR 0x0D]) 0 p]) p"
    using lex_loop_Inr [OF 1(1)] lex_loop_Inr [OF 2(1)] lex_loop_Inr [of quick from_file l2] by (simp add: lex_row_def l0_def)
next
  have "lex_step quick from_file (lex_init ts (CHR 0x0B # p)) =
      Inr ((lex_init ts p)\<lparr>lx_state := st_code COM2, lx_text := [CHR 0x0B], lx_lineinc := 1\<rparr>)"
    using lex_step_cell [of "lex_init ts (CHR 0x0B # p)" "CHR 0x0B" p]
    by (simp add: lex_init_def cells_comment lex_act_def consume_def lex_char_def)
  then show "lex_row quick from_file ts (CHR 0x0B # p) =
     lex_loop quick from_file ((lex_init ts p)\<lparr>lx_state := st_code COM2, lx_text := [CHR 0x0B], lx_lineinc := 1\<rparr>)"
    using lex_loop_Inr by (simp add: lex_row_def)
qed

end
