(* ===== verification/CPP_Row.thy ===== *)
theory CPP_Row
  imports CPP_Lex_Rows CPP_Hideset
begin

text \<open>
  Rows of tokens with a current position (src/lcc-1.3/cpp/tokens.c), the sources of characters and the
  reading of a line (setsource, unsetsource, gettokens of lex.c).  The tokens before the position
  and from it on are two lists.  The characters of white space are not modelled, the allocated
  sizes of rows and the buffer for generated text neither.
\<close>

section \<open>State\<close>

record char_source =
  sr_filename :: string
  sr_line :: int
  sr_lineinc :: int
  sr_ifdepth :: int
  sr_fd :: bool
  sr_in :: string

text \<open>
  The current source is in the fields of the state, the sources below it are a list.  A position at
  the end of a row is read in some places: \<open>past\<close> is the type that the memory there has.
\<close>

record mcpp = cpp +
  src_fd :: bool
  src_in :: string
  src_outer :: "char_source list"
  hides :: hideset_table
  curtime :: string
  past :: toktype

type_synonym 'a mact = "('a, mcpp) cfun"

type_synonym 'a mrun = "mcpp \<Rightarrow> ('a \<times> mcpp) outcome option"

definition cur_source :: "mcpp \<Rightarrow> char_source" where
  "cur_source s =
     \<lparr>sr_filename = src_filename s, sr_line = src_line s, sr_lineinc = src_lineinc s, sr_ifdepth = src_ifdepth s,
      sr_fd = src_fd s, sr_in = src_in s\<rparr>"

definition set_cur :: "char_source \<Rightarrow> mcpp \<Rightarrow> mcpp" where
  "set_cur c s =
     s\<lparr>src_filename := sr_filename c, src_line := sr_line c, src_lineinc := sr_lineinc c, src_ifdepth := sr_ifdepth c,
       src_fd := sr_fd c, src_in := sr_in c\<rparr>"

definition c_string :: "string \<Rightarrow> string" where
  "c_string p = takeWhile (\<lambda>c. c \<noteq> CHR 0x00) p"

definition setsource :: "string \<Rightarrow> bool \<Rightarrow> string \<Rightarrow> mcpp \<Rightarrow> mcpp" where
  "setsource name fd str s =
     set_cur \<lparr>sr_filename = name, sr_line = 1, sr_lineinc = 0, sr_ifdepth = 0, sr_fd = fd, sr_in = str\<rparr>
       (s\<lparr>src_outer := cur_source s # src_outer s\<rparr>)"

text \<open>Without a source below nothing is left to read from.\<close>

definition unsetsource :: "unit mact" where
  "unsetsource s = (case src_outer s of [] \<Rightarrow> Undef | c # cs \<Rightarrow> Ret ((), set_cur c (s\<lparr>src_outer := cs\<rparr>)))"

lemma set_cur_back [simp]: "set_cur (cur_source s) (s\<lparr>src_outer := src_outer s\<rparr>) = s"
  by (simp add: set_cur_def cur_source_def)

section \<open>Reading a line\<close>

text \<open>The messages of the lexer in their order; a fatal one ends the program.\<close>

definition gettokens :: "token list \<Rightarrow> bool \<Rightarrow> (token list \<times> bool) mrun" where
  "gettokens ts reset s =
     map_option (\<lambda>l.
       seqS (forS (\<lambda>(ty, msg). error ty msg) (lx_msgs l))
      (seqS (putS (\<lambda>s. s\<lparr>src_in := lx_in l, src_lineinc := (if reset then 0 else src_lineinc s) + lx_lineinc l\<rparr>))
            (returnS (lx_toks l, lx_nmac l))) s)
       (lex_row (\<lambda>tp. quicklook tp s) (src_fd s) ts (src_in s))"

section \<open>White space\<close>

text \<open>The types that need no white space around them.\<close>

definition wstab :: "toktype \<Rightarrow> bool" where
  "wstab t \<longleftrightarrow> t \<in> {NL, SBRA, SKET, LP, RP, COMMA, SEMIC, CBRA, CKET}"

definition spaced :: "token list \<Rightarrow> token \<Rightarrow> token" where
  "spaced pre tp =
     (let free = wstab (tok_type tp) \<or> pre \<noteq> [] \<and> wstab (tok_type (last pre)) in
      if tok_wslen tp \<noteq> 0 then if tok_flag tp AND XPWS \<noteq> 0 \<and> free then tp\<lparr>tok_wslen := 0\<rparr> else tp
      else if free then tp
      else tp\<lparr>tok_t := c_prefix (tok_len tp) (tok_t tp), tok_wslen := 1, tok_flag := tok_flag tp OR XPWS\<rparr>)"

definition makespace :: "token list \<Rightarrow> token list \<Rightarrow> token list" where
  "makespace pre post = (case post of [] \<Rightarrow> [] | tp # tps \<Rightarrow> spaced pre tp # tps)"

text \<open>A number of tokens from the position on is replaced by a row; the position is then behind it.\<close>

definition insertrow :: "token list \<Rightarrow> token list \<Rightarrow> nat \<Rightarrow> token list \<Rightarrow> token list \<times> token list" where
  "insertrow pre post ntok str =
     (let q = makespace pre (str @ drop ntok post);
          a = take (length str) q;
          b = drop (length str) q
      in (pre @ a, makespace (pre @ a) b))"

lemma makespace_Nil [simp]: "makespace pre [] = []"
  by (simp add: makespace_def)

lemma makespace_Cons [simp]: "makespace pre (tp # tps) = spaced pre tp # tps"
  by (simp add: makespace_def)

lemma length_makespace [simp]: "length (makespace pre post) = length post"
  by (simp add: makespace_def split: list.split)

lemma length_insertrow:
  "length (fst (insertrow pre post ntok str)) = length pre + length str"
  "length (snd (insertrow pre post ntok str)) = length post - ntok"
  by (simp_all add: insertrow_def Let_def)

text \<open>A token keeps its type and its name; only white space changes.\<close>

lemma spaced_type [simp]:
  "tok_type (spaced pre tp) = tok_type tp" "tok_hideset (spaced pre tp) = tok_hideset tp" "tok_len (spaced pre tp) = tok_len tp"
  by (simp_all add: spaced_def Let_def)

lemma map_makespace:
  assumes "\<And>pre tp. f (spaced pre tp) = f tp"
  shows "map f (makespace pre post) = map f post"
  using assms by (simp add: makespace_def split: list.split)

lemma insertrow_map:
  assumes "\<And>pre tp. f (spaced pre tp) = f tp"
  shows "map f (fst (insertrow pre post ntok str)) = map f pre @ map f str"
    "map f (snd (insertrow pre post ntok str)) = map f (drop ntok post)"
proof -
  have m: "map f (makespace pre (str @ drop ntok post)) = map f str @ map f (drop ntok post)"
    using map_makespace [of f, OF assms] by simp
  show "map f (fst (insertrow pre post ntok str)) = map f pre @ map f str"
    unfolding insertrow_def Let_def fst_conv map_append take_map [symmetric] m by simp
  show "map f (snd (insertrow pre post ntok str)) = map f (drop ntok post)"
    unfolding insertrow_def Let_def snd_conv map_makespace [of f, OF assms] drop_map [symmetric] m by (simp add: drop_map)
qed

section \<open>Parameters and strings\<close>

text \<open>The index of a parameter of the macro; None: the token is not one.\<close>

definition lookuparg :: "nlist_entry \<Rightarrow> token \<Rightarrow> nat option" where
  "lookuparg mac tp =
     (case np_ap mac of
        None \<Rightarrow> None
      | Some ap \<Rightarrow>
          if tok_type tp \<noteq> NAME then None
          else let i = length (takeWhile (\<lambda>a. \<not> (tok_len a = tok_len tp \<and> c_prefix (tok_len a) (tok_t a) = c_prefix (tok_len a) (tok_t tp))) ap)
               in if i < length ap then Some i else None)"

definition STRLEN :: nat where "STRLEN = 512"

definition quoted_token :: "token \<Rightarrow> string" where
  "quoted_token tp =
     (let instring = tok_type tp = STRING \<or> tok_type tp = CCON in
      concat (map (\<lambda>c. if instring \<and> (c = CHR 0x22 \<or> c = CHR 0x5C) then [CHR 0x5C, c] else [c]) (spelling tp)))"

text \<open>The text so far, with its opening quote; a text that does not fit is cut with a message.\<close>

fun stringify_text :: "string \<Rightarrow> token list \<Rightarrow> string mact" where
  "stringify_text str [] = returnS str"
| "stringify_text str (tp # tps) =
     (if STRLEN - 10 \<le> length str + 2 * tok_len tp
      then seqS (error ERROR ''Stringified macro arg is too long'') (returnS str)
      else stringify_text
        (str @ (if tok_wslen tp \<noteq> 0 \<and> tok_flag tp AND XPWS = 0 then '' '' else []) @ quoted_token tp) tps)"

text \<open>The one token of the result is a static object: its other fields stay zero.\<close>

definition stringify :: "token list \<Rightarrow> token list mact" where
  "stringify vp =
     bindS (stringify_text [CHR 0x22] vp) (\<lambda>str.
       let t = c_string (str @ [CHR 0x22]) in
       returnS [\<lparr>tok_type = STRING, tok_flag = 0, tok_hideset = 0, tok_wslen = 0, tok_len = length t, tok_t = t\<rparr>])"

end
