(* ===== verification/CPP_Macro.thy ===== *)
theory CPP_Macro
  imports CPP_Row
begin

text \<open>
  Macro expansion (src/lcc-1.3/cpp/macro.c).  A function of C that may not return gives no outcome,
  \<open>None\<close>; the expansion of an argument is an argument of the functions that expandrow calls.
\<close>

section \<open>Arguments of a call\<close>

definition NARG :: nat where "NARG = 32"

text \<open>
  The row from the name of the macro on, and how many of its tokens are passed; more lines are read
  where the row ends.  \<open>NoCall\<close>: there is no parenthesis, and the position is at the given token.
\<close>

datatype gathered = NoCall nat | Gathered nat "token list list"

partial_function (option) find_lp :: "token list \<Rightarrow> nat \<Rightarrow> (token list \<times> nat \<times> bool) mrun" where
  "find_lp r i s =
     (if length r \<le> Suc i then
        bind_run (gettokens r False s) (\<lambda>(r, _) s.
          if tok_type (last r) = END then Some (Ret ((butlast r, 0, False), s))
          else if tok_type (r ! Suc i) = LP then Some (Ret ((r, Suc i, True), s))
          else if tok_type (r ! Suc i) \<noteq> NL then Some (Ret ((r, Suc i, False), s))
          else find_lp r (Suc i) s)
      else if tok_type (r ! Suc i) = LP then Some (Ret ((r, Suc i, True), s))
      else if tok_type (r ! Suc i) \<noteq> NL then Some (Ret ((r, Suc i, False), s))
      else find_lp r (Suc i) s)"

definition space_at :: "nat \<Rightarrow> token list \<Rightarrow> token list" where
  "space_at i r = take i r @ makespace (take i r) (drop i r)"

text \<open>The rest of the call; newlines in it are removed.  False: the input ends before the parenthesis.\<close>

partial_function (option) find_rp :: "token list \<Rightarrow> nat \<Rightarrow> nat \<Rightarrow> bool \<Rightarrow> (token list \<times> nat \<times> bool) mrun" where
  "find_rp r i parens needspace s =
     (if parens = 0 then Some (Ret ((r, i, True), s))
      else
        bind_run (if length r \<le> i then gettokens r False s else Some (Ret ((r, False), s))) (\<lambda>(r, _) s.
        let r = (if needspace then space_at i r else r); t = tok_type (r ! i) in
        if t = END then Some (seqS (error ERROR ''EOF in macro arglist'') (returnS (butlast r, i, False)) s)
        else if t = NL then find_rp (space_at i (take i r @ drop (Suc i) r)) i parens True s
        else find_rp r (Suc i) (if t = LP then parens + 1 else if t = RP then parens - 1 else parens) False s))"

text \<open>The tokens between the parentheses and the closing one, cut at the commas of the call.\<close>

fun scan_args :: "token \<Rightarrow> int \<Rightarrow> token list \<Rightarrow> token list list \<Rightarrow> token list \<Rightarrow> token list list mact" where
  "scan_args prev parens cur args [] = undefS"
| "scan_args prev parens cur args (tp # tps) =
     (if tok_type tp = LP then scan_args tp (parens + 1) (cur @ [tp]) args tps
      else
        let parens = (if tok_type tp = RP then parens - 1 else parens);
            tp = (if tok_type tp = DSHARP then tp\<lparr>tok_type := DSHARP1\<rparr> else tp) in
        if tok_type tp = COMMA \<and> parens = 0 \<or> parens < 0 \<and> tok_type prev \<noteq> LP then
          seqS (whenS (NARG - 1 \<le> length args) (error FATAL ''Sorry, too many macro arguments''))
            (if parens < 0 then returnS (args @ [normtokenrow cur])
             else scan_args tp parens [] (args @ [normtokenrow cur]) tps)
        else if parens < 0 then returnS args
        else scan_args tp parens (cur @ [tp]) args tps)"

definition hide_sharps :: "token list \<Rightarrow> token list" where
  "hide_sharps r = map (\<lambda>tp. if tok_type tp = DSHARP then tp\<lparr>tok_type := DSHARP1\<rparr> else tp) r"

definition gatherargs :: "token list \<Rightarrow> (token list \<times> gathered) mrun" where
  "gatherargs r s =
     bind_run (find_lp r 0 s) (\<lambda>(r, i, call) s.
     if \<not> call then Some (Ret ((r, NoCall i), s))
     else
       bind_run (find_rp r (Suc i) 1 False s) (\<lambda>(r, n, ended) s.
       if \<not> ended then Some (Ret ((r, Gathered n []), s))
       else
         Some (bindS (scan_args (r ! i) 0 [] [] (take (n - Suc i) (drop (Suc i) r)))
           (\<lambda>args. returnS (take (Suc i) r @ hide_sharps (take (n - Suc i) (drop (Suc i) r)) @ drop n r, Gathered n args)) s)))"

section \<open>Substitution\<close>

text \<open>
  The arguments in the replacement: the tokens before the position and from it on.  The token after
  a parameter is looked at even at the end of the row.
\<close>

definition type_after :: "token list \<Rightarrow> mcpp \<Rightarrow> toktype" where
  "type_after tps s = (case tps of [] \<Rightarrow> past s | tp # _ \<Rightarrow> tok_type tp)"

definition after_DSHARP :: "token list \<Rightarrow> bool" where
  "after_DSHARP pre \<longleftrightarrow> pre \<noteq> [] \<and> tok_type (last pre) = DSHARP"

function substargs ::
  "(token list \<Rightarrow> token list mrun) \<Rightarrow> nlist_entry \<Rightarrow> token list list \<Rightarrow> token list \<Rightarrow> token list \<Rightarrow> token list mrun" where
  "substargs expandrow np args pre [] s = Some (Ret (pre, s))"
| "substargs expandrow np args pre (tp # tps) s =
     (if tok_type tp = SHARP then
        (case tps of
           [] \<Rightarrow> if past s = NAME then Some Undef
                 else bind_run (Some (error ERROR ''# not followed by macro parameter'' s)) (\<lambda>_ s.
                   substargs expandrow np args (pre @ [tp]) tps s)
         | tp' # _ \<Rightarrow>
             (case lookuparg np tp' of
                None \<Rightarrow> bind_run (Some (error ERROR ''# not followed by macro parameter'' s)) (\<lambda>_ s.
                  substargs expandrow np args (pre @ [tp]) tps s)
              | Some i \<Rightarrow>
                  if length args \<le> i then Some Undef
                  else
                    bind_run (Some (stringify (args ! i) s)) (\<lambda>str s.
                    let (pre', post') = insertrow pre (tp # tps) 2 str in substargs expandrow np args pre' post' s)))
      else
        (case lookuparg np tp of
           None \<Rightarrow> substargs expandrow np args (pre @ [tp]) tps s
         | Some i \<Rightarrow>
             if length args \<le> i then Some Undef
             else
               bind_run (if type_after tps s = DSHARP \<or> after_DSHARP pre then Some (Ret (args ! i, s)) else expandrow (args ! i) s) (\<lambda>str s.
               let (pre', post') = insertrow pre (tp # tps) 1 str in substargs expandrow np args pre' post' s)))"
  by pat_completeness auto
termination
  by (relation "measure (\<lambda>(e, np, args, pre, post, s). length post)")
    (auto dest!: arg_cong [of _ _ snd] simp: length_insertrow dest: arg_cong [of _ _ length])

section \<open>Pasting tokens\<close>

text \<open>What strncpy writes: the text, filled up with null characters.\<close>

definition strn :: "nat \<Rightarrow> string \<Rightarrow> string" where
  "strn n p = c_prefix n p @ replicate (n - length (c_prefix n p)) (CHR 0x00)"

definition paste_text :: "token \<Rightarrow> token \<Rightarrow> string" where
  "paste_text l r = c_string (strn (tok_len l) (tok_t l) @ strn (tok_len r) (tok_t r))"

text \<open>Two tokens are joined in a buffer of 128 characters and read again.\<close>

definition paste_tokens :: "token \<Rightarrow> token \<Rightarrow> token list mrun" where
  "paste_tokens l r s =
     (if 128 \<le> tok_len l + tok_len r then Some Undef
      else
        bind_run (gettokens [] True (setsource ''<##>'' False (paste_text l r) s)) (\<lambda>(ntr, _) s.
        Some (seqS unsetsource
          (seqS (whenS (length ntr \<noteq> 2 \<or> tok_type (hd ntr) = UNCLASS)
                  (error WARNING (''Bad token '' @ row_text True ntr @ '' produced by ##'')))
                (returnS (makespace [] [hd ntr]))) s)))"

function doconcat :: "token list \<Rightarrow> token list \<Rightarrow> token list mrun" where
  "doconcat pre [] s = Some (Ret (pre, s))"
| "doconcat pre (tp # tps) s =
     (if tok_type tp = DSHARP1 then doconcat (pre @ [tp\<lparr>tok_type := DSHARP\<rparr>]) tps s
      else if tok_type tp = DSHARP then
        if pre = [] \<or> tps = [] then
          bind_run (Some (error ERROR ''## occurs at border of replacement'' s)) (\<lambda>_ s. doconcat (pre @ [tp]) tps s)
        else
          bind_run (paste_tokens (last pre) (hd tps) s) (\<lambda>ntr s.
          let (pre', post') = insertrow (butlast pre) (last pre # tp # tps) 3 ntr in doconcat pre' post' s)
      else doconcat (pre @ [tp]) tps s)"
  by pat_completeness auto
termination
  by (relation "measure (\<lambda>(pre, post, s). length post)")
    (auto dest!: arg_cong [of _ _ snd] simp: length_insertrow dest: arg_cong [of _ _ length])

section \<open>Built-in names\<close>

text \<open>The source that is a file, or the current one.\<close>

definition real_source :: "mcpp \<Rightarrow> char_source" where
  "real_source s = (case find sr_fd (cur_source s # src_outer s) of Some c \<Rightarrow> c | None \<Rightarrow> cur_source s)"

definition double_backslash :: "string \<Rightarrow> string" where
  "double_backslash p = concat (map (\<lambda>c. if c = CHR 0x5C then [c, c] else [c]) p)"

definition builtin :: "token \<Rightarrow> int \<Rightarrow> token mact" where
  "builtin tp biname s =
     (let tp = tp\<lparr>tok_type := STRING, tok_wslen := (if tok_wslen tp \<noteq> 0 then 1 else 0)\<rparr>;
          put = (\<lambda>ty str. Ret (tp\<lparr>tok_type := ty, tok_t := str, tok_len := length str\<rparr>, s));
          quote = (\<lambda>str. [CHR 0x22] @ str @ [CHR 0x22]) in
      if biname = kw_code KLINENO then put NUMBER (outnum (sr_line (real_source s)))
      else if biname = kw_code KFILE then put STRING (quote (double_backslash (sr_filename (real_source s))))
      else if biname = kw_code KDATE then put STRING (quote (strn 7 (drop 4 (curtime s)) @ strn 4 (drop 20 (curtime s))))
      else if biname = kw_code KTIME then put STRING (quote (strn 8 (drop 11 (curtime s))))
      else seqS (error ERROR ''cpp botch: unknown internal macro'') (returnS tp) s)"

section \<open>Expansion\<close>

definition newhidesetM :: "nat \<Rightarrow> nlist_ptr \<Rightarrow> nat mact" where
  "newhidesetM hs np s = bind_outcome (newhideset hs np (hides s)) (\<lambda>(h, t). Ret (h, s\<lparr>hides := t\<rparr>))"

text \<open>The names of the replacement get the hide set.\<close>

definition hide_token :: "nat \<Rightarrow> token \<Rightarrow> token mact" where
  "hide_token hs tp s =
     (if tok_type tp \<noteq> NAME then Ret (tp, s)
      else if tok_hideset tp = 0 then Ret (tp\<lparr>tok_hideset := hs\<rparr>, s)
      else bind_outcome (unionhideset (tok_hideset tp) hs (hides s)) (\<lambda>(h, t). Ret (tp\<lparr>tok_hideset := h\<rparr>, s\<lparr>hides := t\<rparr>)))"

fun distribute :: "nat \<Rightarrow> token list \<Rightarrow> token list mact" where
  "distribute hs [] = returnS []"
| "distribute hs (tp # tps) = bindS (hide_token hs tp) (\<lambda>tp. mapS (\<lambda>tps. tp # tps) (distribute hs tps))"

text \<open>The replacement is put in; the position is then at its first token.\<close>

definition put_expansion :: "nlist_ptr \<Rightarrow> token list \<Rightarrow> token list \<Rightarrow> nat \<Rightarrow> token list \<Rightarrow> (token list \<times> token list) mrun" where
  "put_expansion np pre r ntokc ntr s =
     bind_run (doconcat [] ntr s) (\<lambda>ntr s.
     Some (bindS (newhidesetM (tok_hideset (hd r)) np) (\<lambda>hs.
           bindS (distribute hs ntr) (\<lambda>ntr.
             let (a, b) = insertrow pre r ntokc ntr in returnS (pre, drop (length pre) a @ b))) s))"

definition expand ::
  "(token list \<Rightarrow> token list mrun) \<Rightarrow> nlist_ptr \<Rightarrow> token list \<Rightarrow> token list \<Rightarrow> (token list \<times> token list) mrun" where
  "expand expandrow np pre r s =
     (let e = entries s np in
      case np_vp e of
        None \<Rightarrow> Some Undef
      | Some vp \<Rightarrow>
          (case np_ap e of
             None \<Rightarrow> put_expansion np pre r 1 vp s
           | Some ap \<Rightarrow>
               bind_run (gatherargs r s) (\<lambda>(r, g) s.
               case g of
                 NoCall i \<Rightarrow> Some (Ret ((pre @ take i r, drop i r), s))
               | Gathered n args \<Rightarrow>
                   if length args \<noteq> length ap then
                     Some (seqS (error ERROR ''Disagreement in number of macro arguments'')
                       (bindS (newhidesetM (tok_hideset (hd r)) np) (\<lambda>hs.
                        let r = (hd r)\<lparr>tok_hideset := hs\<rparr> # tl r in returnS (pre @ take n r, drop n r))) s)
                   else
                     bind_run (substargs expandrow e args [] vp s) (\<lambda>ntr s. put_expansion np pre r n ntr s))))"

text \<open>The entry of the macro that a token calls; 0: the token is not expanded.\<close>

definition macro_at :: "token \<Rightarrow> nlist_ptr mact" where
  "macro_at tp s =
     (let np = fst (lookup tp False s) in
      if tok_type tp \<noteq> NAME \<or> \<not> quicklook tp s \<or> np = 0 \<or> np_flag (entries s np) AND (ISDEFINED OR ISMAC) = 0 then Ret (0, s)
      else if tok_hideset tp = 0 then Ret (np, s)
      else bind_outcome (checkhideset (tok_hideset tp) np (hides s)) (\<lambda>b. Ret (if b then 0 else np, s)))"

definition bad_defined :: "token list \<Rightarrow> token list mact" where
  "bad_defined tps = seqS (error ERROR (''Incorrect syntax for `defined'' @ [CHR 0x27])) (returnS tps)"

definition mark_defined :: "token list \<Rightarrow> token list mact" where
  "mark_defined tps =
     (case tps of
        a # r \<Rightarrow>
          if tok_type a = NAME then returnS (a\<lparr>tok_type := NAME1\<rparr> # r)
          else (case r of
            b # c # r' \<Rightarrow>
              if tok_type a = LP \<and> tok_type b = NAME \<and> tok_type c = RP then returnS (a # b\<lparr>tok_type := NAME1\<rparr> # c # r')
              else bad_defined tps
          | _ \<Rightarrow> bad_defined tps)
      | [] \<Rightarrow> bad_defined tps)"

section \<open>Definitions from the command line\<close>

definition one_token :: token where
  "one_token = \<lparr>tok_type = NUMBER, tok_flag = 0, tok_hideset = 0, tok_wslen = 0, tok_len = 1, tok_t = ''1''\<rparr>"

definition bad_adefine :: "token list \<Rightarrow> (unit, 'a names_scheme) cfun" where
  "bad_adefine r = error FATAL (''Illegal -D or -U argument '' @ row_text True r)"

definition doadefine :: "token list \<Rightarrow> bool \<Rightarrow> (unit, 'a names_scheme) cfun" where
  "doadefine r undef =
     (if undef then
        if length r \<noteq> 2 \<or> tok_type (hd r) \<noteq> NAME then bad_adefine r
        else putS (\<lambda>s. let np = fst (lookup (hd r) False s) in
          if np = 0 then s else set_entry np (\<lambda>e. e\<lparr>np_flag := np_flag e AND NOT ISDEFINED\<rparr>) s)
      else if r = [] \<or> tok_type (hd r) \<noteq> NAME then bad_adefine r
      else
        bindS (\<lambda>s. Ret (lookup (hd r) True s)) (\<lambda>np.
        seqS (putS (set_entry np (\<lambda>e. e\<lparr>np_flag := np_flag e OR ISDEFINED\<rparr>)))
          (if tl r = [] \<or> tok_type (hd (tl r)) = END then putS (set_entry np (\<lambda>e. e\<lparr>np_vp := Some [one_token]\<rparr>))
           else if tok_type (hd (tl r)) \<noteq> ASGN then bad_adefine (tl r)
           else
             let v = drop 2 (if tok_type (last r) = END then butlast r else r) in
             putS (set_entry np (\<lambda>e. e\<lparr>np_vp := Some (normtokenrow v)\<rparr>)))))"

section \<open>The expansion of rows\<close>

lemma substargs_mono:
  assumes G: "\<And>r s. monotone (fun_ord option_ord) option_ord (\<lambda>f. G f r s)"
  shows "monotone (fun_ord option_ord) option_ord (\<lambda>f. substargs (G f) np args pre post s)"
proof (induction "length post" arbitrary: pre post s rule: less_induct)
  case less
  show ?case
  proof (cases post)
    case (Cons tp tps)
    have IH: "length post' < Suc (length tps) \<Longrightarrow> monotone (fun_ord option_ord) option_ord (\<lambda>f. substargs (G f) np args pre' post' s')" for pre' post' s'
      using less Cons by simp
    have ins: "monotone (fun_ord option_ord) option_ord
        (\<lambda>f. case insertrow pre (tp # tps) n str of (pre', post') \<Rightarrow> substargs (G f) np args pre' post' s')" if "0 < n" for n str s'
      using length_insertrow(2) [of pre "tp # tps" n str] that by (simp add: split_beta IH)
    show ?thesis
    proof (cases "tok_type tp = SHARP")
      case True
      show ?thesis
      proof (cases tps)
        case Nil
        then show ?thesis unfolding Cons using True
          by (cases "past s = NAME") (auto intro!: bind_run_mono const_run_mono)
      next
        case (Cons a l)
        note ins' = ins [unfolded Cons] and IH' = IH [unfolded Cons]
        show ?thesis unfolding \<open>post = tp # tps\<close> Cons using True
          by (cases "lookuparg np a"; cases "length args \<le> the (lookuparg np a)")
            (auto simp: Let_def intro!: bind_run_mono const_run_mono IH' ins')
      qed
    next
      case False
      then show ?thesis unfolding Cons
        by (cases "lookuparg np tp"; cases "length args \<le> the (lookuparg np tp)"; cases "type_after tps s = DSHARP \<or> after_DSHARP pre")
          (auto simp: Let_def intro!: bind_run_mono const_run_mono IH ins G)
    qed
  qed (simp add: const_run_mono)
qed

lemma expand_mono [partial_function_mono]:
  assumes G: "\<And>r s. monotone (fun_ord option_ord) option_ord (\<lambda>f. G f r s)"
  shows "monotone (fun_ord option_ord) option_ord (\<lambda>f. expand (G f) np pre r s)"
proof -
  have m: "monotone (fun_ord option_ord) option_ord (\<lambda>f.
      case g of NoCall i \<Rightarrow> Some (Ret ((pre @ take i r, drop i r), s))
      | Gathered n args \<Rightarrow>
          if length args \<noteq> length ap then
            Some (seqS (error ERROR ''Disagreement in number of macro arguments'')
              (bindS (newhidesetM (tok_hideset (hd r)) np) (\<lambda>hs.
               let r = (hd r)\<lparr>tok_hideset := hs\<rparr> # tl r in returnS (pre @ take n r, drop n r))) s)
          else bind_run (substargs (G f) e args [] vp s) (\<lambda>ntr s. put_expansion np pre r n ntr s))" for g ap e vp r s
    by (cases g; cases "length (case g of Gathered n args \<Rightarrow> args) = length ap")
      (auto intro!: bind_run_mono const_run_mono substargs_mono G)
  show ?thesis
    unfolding expand_def Let_def
    by (cases "np_vp (entries s np)"; cases "np_ap (entries s np)")
      (simp_all only: option.case, auto intro!: bind_run_mono const_run_mono m [unfolded Let_def])
qed

definition in_source :: "string \<Rightarrow> (mcpp \<Rightarrow> ('a \<times> mcpp) outcome option) \<Rightarrow> 'a mrun" where
  "in_source name m s =
     bind_run (m (setsource name False [] s)) (\<lambda>a s. Some (seqS unsetsource (returnS a) s))"

lemma in_source_mono [partial_function_mono]:
  assumes "\<And>s. monotone (fun_ord option_ord) option_ord (\<lambda>f. G f s)"
  shows "monotone (fun_ord option_ord) option_ord (\<lambda>f. in_source name (G f) s)"
  unfolding in_source_def by (intro bind_run_mono const_run_mono assms)

text \<open>The row from the position on; the tokens before it are not looked at again.\<close>

partial_function (option) expand_from :: "token list \<Rightarrow> token list \<Rightarrow> token list mrun" where
  "expand_from pre post s =
     (case post of
        [] \<Rightarrow> Some (Ret (pre, s))
      | tp # tps \<Rightarrow>
          bind_run (Some (macro_at tp s)) (\<lambda>np s.
          if np = 0 then expand_from (pre @ [tp]) tps s
          else if np_val (entries s np) = kw_code KDEFINED then
            bind_run (Some (mark_defined tps s)) (\<lambda>tps s. expand_from (pre @ [tp\<lparr>tok_type := DEFINED\<rparr>]) tps s)
          else if np_flag (entries s np) AND ISMAC \<noteq> 0 then
            bind_run (Some (builtin tp (np_val (entries s np)) s)) (\<lambda>tp s. expand_from (pre @ [tp]) tps s)
          else
            bind_run (expand (\<lambda>r. in_source ''<macro>'' (expand_from [] r)) np pre (tp # tps) s) (\<lambda>a s.
            expand_from (fst a) (snd a) s)))"

text \<open>With a flag, no more input can be gathered.\<close>

definition expandrow :: "string option \<Rightarrow> token list \<Rightarrow> token list mrun" where
  "expandrow flag r =
     (case flag of None \<Rightarrow> expand_from [] r | Some name \<Rightarrow> in_source name (expand_from [] r))"

end
