(* ===== verification/CPP_Macro_Object.thy ===== *)
theory CPP_Macro_Object
  imports CPP_Macro
begin

text \<open>
  The expansion of macros without parameters: it ends, because a name that comes out of its own
  expansion is hidden in it, and what it gives has no macro left to expand.
\<close>

section \<open>The names a token may still be expanded to\<close>

definition names_of :: "'a names_scheme \<Rightarrow> (nat \<Rightarrow> nlist_ptr list) \<times> (nlist_ptr \<Rightarrow> nlist_entry) \<times> (nat \<Rightarrow> 64 word)" where
  "names_of s = (nlist s, entries s, namebit s)"

text \<open>Macros without parameters and pastings, of at most L tokens, and the built-in names.\<close>

definition plain_value :: "nat \<Rightarrow> token list \<Rightarrow> bool" where
  "plain_value L vp \<longleftrightarrow> length vp \<le> L \<and> list_all (\<lambda>tp. tok_hideset tp = 0 \<and> tok_type tp \<notin> {DSHARP, DSHARP1}) vp"

definition object_entry :: "nat \<Rightarrow> nlist_entry \<Rightarrow> bool" where
  "object_entry L e \<longleftrightarrow> np_ap e = None \<and> (case np_vp e of None \<Rightarrow> False | Some vp \<Rightarrow> plain_value L vp)"

definition object_macros :: "nlist_ptr set \<Rightarrow> nat \<Rightarrow> 'a names_scheme \<Rightarrow> bool" where
  "object_macros M L s \<longleftrightarrow>
     (\<forall>np. np \<noteq> 0 \<and> np_flag (entries s np) AND (ISDEFINED OR ISMAC) \<noteq> 0 \<longrightarrow>
        np_val (entries s np) \<noteq> kw_code KDEFINED \<and>
        (np_flag (entries s np) AND ISMAC = 0 \<longrightarrow> np \<in> M \<and> object_entry L (entries s np)))"

definition hidden_in :: "nlist_ptr set \<Rightarrow> hideset_table \<Rightarrow> token \<Rightarrow> bool" where
  "hidden_in M t tp \<longleftrightarrow> tok_hideset tp < length (hidesets t) \<and> members t (tok_hideset tp) \<subseteq> M"

definition weight :: "nlist_ptr set \<Rightarrow> nat \<Rightarrow> hideset_table \<Rightarrow> token \<Rightarrow> nat" where
  "weight M L t tp = (if tok_type tp = NAME then (L + 2) ^ card (M - members t (tok_hideset tp)) else 1)"

definition row_weight :: "nlist_ptr set \<Rightarrow> nat \<Rightarrow> hideset_table \<Rightarrow> token list \<Rightarrow> nat" where
  "row_weight M L t r = sum_list (map (weight M L t) r)"

text \<open>A token that is not expanded in a state.\<close>

definition settled :: "mcpp \<Rightarrow> token \<Rightarrow> bool" where
  "settled s tp \<longleftrightarrow> macro_at tp s = Ret (0, s)"

section \<open>Steps\<close>

lemma lookup_names_of: "names_of s = names_of s' \<Longrightarrow> fst (lookup tp False s) = fst (lookup tp False s')"
  by (simp add: lookup_def names_of_def split: option.split)

lemma quicklook_names_of: "names_of s = names_of s' \<Longrightarrow> quicklook tp s = quicklook tp s'"
  by (simp add: quicklook_def names_of_def)

lemma settled_later:
  assumes "settled s tp" "names_of s' = names_of s" "extends (hides s) (hides s')" "hidden_in M (hides s) tp"
  shows "settled s' tp"
proof -
  define np where "np = fst (lookup tp False s)"
  have np: "fst (lookup tp False s') = np" "quicklook tp s' = quicklook tp s" "entries s' = entries s"
    using lookup_names_of [OF assms(2)] quicklook_names_of [OF assms(2)] assms(2) by (simp_all add: np_def names_of_def)
  have "tok_hideset tp < length (hidesets (hides s'))" "members (hides s') (tok_hideset tp) = members (hides s) (tok_hideset tp)"
    using extends_members [OF assms(3)] assms(4) by (auto simp: hidden_in_def)
  then have "checkhideset (tok_hideset tp) np (hides s') = checkhideset (tok_hideset tp) np (hides s)"
    using assms(4) by (simp add: checkhideset_def members_def hidden_in_def)
  then show ?thesis using assms(1) by (auto simp: settled_def macro_at_def np np_def [symmetric] Let_def split: if_splits)
qed

lemma doconcat_plain:
  "list_all (\<lambda>tp. tok_type tp \<notin> {DSHARP, DSHARP1}) ts \<Longrightarrow> doconcat pre ts s = Some (Ret (pre @ ts, s))"
  by (induction ts arbitrary: pre) auto

lemma distribute_plain:
  "list_all (\<lambda>tp. tok_hideset tp = 0) ts \<Longrightarrow>
    distribute hs ts s = Ret (map (\<lambda>tp. if tok_type tp = NAME then tp\<lparr>tok_hideset := hs\<rparr> else tp) ts, s)"
  by (induction ts) (auto simp: returnS_def bindS_def mapS_def hide_token_def)

lemma weight_spaced [simp]: "weight M L t (spaced pre tp) = weight M L t tp"
  by (simp add: weight_def)

lemma hidden_in_spaced [simp]: "hidden_in M t (spaced pre tp) = hidden_in M t tp"
  by (simp add: hidden_in_def)

lemma weight_pos: "0 < weight M L t tp"
  by (simp add: weight_def)

lemma sum_list_bound: "(\<And>x. f x \<le> c) \<Longrightarrow> sum_list (map f xs) \<le> length xs * (c :: nat)"
  by (induction xs) (auto intro: add_mono)

text \<open>A name weighs more than any value of a macro in which it is hidden.\<close>

lemma weight_expansion:
  assumes M: "finite M" "np \<in> M" "np \<notin> members t (tok_hideset tp)" "tok_type tp = NAME"
    and t': "members t' hs = insert np (members t (tok_hideset tp))"
    and vp: "length vp \<le> L" "list_all (\<lambda>tp. tok_hideset tp = 0) vp"
  shows "row_weight M L t' (map (\<lambda>tp. if tok_type tp = NAME then tp\<lparr>tok_hideset := hs\<rparr> else tp) vp) < weight M L t tp"
proof -
  define k where "k = card (M - members t (tok_hideset tp))"
  have "M - members t' hs = (M - members t (tok_hideset tp)) - {np}" using t' by auto
  then have k: "card (M - members t' hs) = k - 1" "0 < k" using M by (auto simp: k_def card_Diff_singleton card_gt_0_iff)
  have "weight M L t' (if tok_type tp = NAME then tp\<lparr>tok_hideset := hs\<rparr> else tp) \<le> (L + 2) ^ (k - 1)" for tp
    using k by (auto simp: weight_def)
  then have "row_weight M L t' (map (\<lambda>tp. if tok_type tp = NAME then tp\<lparr>tok_hideset := hs\<rparr> else tp) vp) \<le> length vp * (L + 2) ^ (k - 1)"
    unfolding row_weight_def map_map comp_def by (rule sum_list_bound)
  also have "\<dots> \<le> L * (L + 2) ^ (k - 1)" using vp(1) by simp
  also have "\<dots> < (L + 2) ^ k" using k(2) by (cases k) auto
  finally show ?thesis using M by (simp add: weight_def k_def)
qed

text \<open>What the expansion looks at in a token that is not expanded: its type and its hide set.\<close>

definition key :: "token \<Rightarrow> toktype \<times> nat" where
  "key tp = (tok_type tp, tok_hideset tp)"

lemma row_weight_key: "map key a = map key b \<Longrightarrow> row_weight M L t a = row_weight M L t b"
proof -
  assume k: "map key a = map key b"
  have "map (weight M L t) r = map (\<lambda>(ty, h). if ty = NAME then (L + 2) ^ card (M - members t h) else 1) (map key r)" for r
    by (induction r) (simp_all add: weight_def key_def)
  then show ?thesis unfolding row_weight_def by (simp only: k)
qed

lemma hidden_in_key: "map key a = map key b \<Longrightarrow> list_all (hidden_in M t) a = list_all (hidden_in M t) b"
proof -
  assume k: "map key a = map key b"
  have "list_all (hidden_in M t) r = list_all (\<lambda>(ty, h). h < length (hidesets t) \<and> members t h \<subseteq> M) (map key r)" for r
    by (induction r) (simp_all add: hidden_in_def key_def)
  then show ?thesis by (simp only: k)
qed

text \<open>The effect of expanding a macro without parameters at the position.\<close>

lemma expand_object:
  assumes e: "object_entry L (entries s np)" "np_vp (entries s np) = Some vp" and np: "np \<noteq> 0"
    and t: "hideset_inv (hides s)" "tok_hideset tp < length (hidesets (hides s))"
    and small: "card (insert np (members (hides s) (tok_hideset tp))) \<le> 30"
  obtains hs t' post' where "expand f np pre (tp # tps) s = Some (Ret ((pre, post'), s\<lparr>hides := t'\<rparr>))"
    "hideset_inv t'" "extends (hides s) t'" "hs < length (hidesets t')" "members t' hs = insert np (members (hides s) (tok_hideset tp))"
    "map key post' = map key (map (\<lambda>tp. if tok_type tp = NAME then tp\<lparr>tok_hideset := hs\<rparr> else tp) vp @ tps)"
proof -
  let ?h = "\<lambda>hs. map (\<lambda>tp. if tok_type tp = NAME then tp\<lparr>tok_hideset := hs\<rparr> else tp) vp"
  have v: "np_ap (entries s np) = None" "list_all (\<lambda>tp. tok_type tp \<notin> {DSHARP, DSHARP1}) vp" "list_all (\<lambda>tp. tok_hideset tp = 0) vp"
    using e by (auto simp: object_entry_def plain_value_def list_all_iff)
  have small': "card (insert np (members (hides s) (tok_hideset tp))) + 1 < HSSIZ" using small by (simp add: HSSIZ_def)
  obtain hs t' where n: "newhideset (tok_hideset tp) np (hides s) = Ret (hs, t')" "hideset_inv t'" "extends (hides s) t'" "hs < length (hidesets t')"
    "members t' hs = insert np (members (hides s) (tok_hideset tp))"
    by (rule newhideset_result [OF t np]) (simp only: small' if_True)
  obtain a b where ab: "insertrow pre (tp # tps) 1 (?h hs) = (a, b)" by (cases "insertrow pre (tp # tps) 1 (?h hs)")
  have "expand f np pre (tp # tps) s = Some (Ret ((pre, drop (length pre) a @ b), s\<lparr>hides := t'\<rparr>))"
    using e(2) v n(1) ab
    by (simp add: expand_def put_expansion_def doconcat_plain bind_run_def bindS_def newhidesetM_def distribute_plain returnS_def)
  moreover have "map key (drop (length pre) a @ b) = map key (?h hs @ tps)"
    using insertrow_map [of key pre "tp # tps" 1 "?h hs"] ab
    by (simp add: key_def flip: drop_map)
  ultimately show thesis using that n by blast
qed

lemma builtin_result:
  "\<exists>tp' s'. builtin tp n s = Ret (tp', s') \<and> tok_type tp' \<noteq> NAME \<and> tok_hideset tp' = tok_hideset tp \<and>
    names_of s' = names_of s \<and> hides s' = hides s"
  by (auto simp: builtin_def Let_def error_def seqS_def bindS_def returnS_def names_of_def simp del: bindS_Ret)

lemma hidden_in_later: "extends t t' \<Longrightarrow> hidden_in M t tp \<Longrightarrow> hidden_in M t' tp"
  using extends_members by (fastforce simp: hidden_in_def)

lemma weight_later: "extends t t' \<Longrightarrow> hidden_in M t tp \<Longrightarrow> weight M L t' tp = weight M L t tp"
  using extends_members by (fastforce simp: hidden_in_def weight_def)

lemma row_weight_later: "extends t t' \<Longrightarrow> list_all (hidden_in M t) r \<Longrightarrow> row_weight M L t' r = row_weight M L t r"
  by (induction r) (simp_all add: row_weight_def weight_later)

lemma row_weight_append [simp]: "row_weight M L t (a @ b) = row_weight M L t a + row_weight M L t b"
  by (simp add: row_weight_def)

lemma row_weight_Cons [simp]: "row_weight M L t (tp # r) = weight M L t tp + row_weight M L t r"
  by (simp add: row_weight_def)

text \<open>The state during the expansion.\<close>

definition expansion_ok :: "nlist_ptr set \<Rightarrow> nat \<Rightarrow> mcpp \<Rightarrow> bool" where
  "expansion_ok M L s \<longleftrightarrow>
     object_macros M L s \<and> hideset_inv (hides s) \<and> 0 < length (hidesets (hides s)) \<and> members (hides s) 0 = {}"

lemma expansion_ok_later:
  "expansion_ok M L s \<Longrightarrow> names_of s' = names_of s \<Longrightarrow> extends (hides s) (hides s') \<Longrightarrow> hideset_inv (hides s') \<Longrightarrow> expansion_ok M L s'"
  using extends_members [of "hides s" "hides s'" 0] by (auto simp: expansion_ok_def object_macros_def names_of_def)

lemma extends_refl [simp]: "extends t t"
  by (simp add: extends_def)

lemma extends_trans: "extends t t' \<Longrightarrow> extends t' t'' \<Longrightarrow> extends t t''"
  by (simp add: extends_def)

lemma macro_at_cases:
  assumes "expansion_ok M L s" "hidden_in M (hides s) tp"
  obtains "macro_at tp s = Ret (0, s)"
  | np where "macro_at tp s = Ret (np, s)" "np \<noteq> 0" "np_val (entries s np) \<noteq> kw_code KDEFINED" "tok_type tp = NAME"
      "np \<notin> members (hides s) (tok_hideset tp)" "np_flag (entries s np) AND ISMAC = 0 \<Longrightarrow> np \<in> M \<and> object_entry L (entries s np)"
proof -
  define np where "np = fst (lookup tp False s)"
  show thesis
  proof (cases "tok_type tp \<noteq> NAME \<or> \<not> quicklook tp s \<or> np = 0 \<or> np_flag (entries s np) AND (ISDEFINED OR ISMAC) = 0 \<or>
      np \<in> members (hides s) (tok_hideset tp)")
    case True
    then have "macro_at tp s = Ret (0, s)" using assms
      by (auto simp: macro_at_def np_def [symmetric] Let_def checkhideset_def members_def hidden_in_def expansion_ok_def)
    then show thesis using that(1) by blast
  next
    case False
    moreover have "macro_at tp s = Ret (np, s)" using False assms
      by (auto simp: macro_at_def np_def [symmetric] Let_def checkhideset_def members_def hidden_in_def)
    ultimately show thesis using that(2) [of np] assms(1) by (simp add: expansion_ok_def object_macros_def)
  qed
qed

section \<open>The whole row\<close>

definition expanded :: "mcpp \<Rightarrow> token list mrun \<Rightarrow> bool" where
  "expanded s m \<longleftrightarrow>
     (\<exists>r s'. m s = Some (Ret (r, s')) \<and> names_of s' = names_of s \<and> hideset_inv (hides s') \<and> extends (hides s) (hides s') \<and>
        list_all (settled s') r)"

lemma expanded_later:
  assumes "expanded s' m'" "m s = m' s'" "names_of s' = names_of s" "extends (hides s) (hides s')"
  shows "expanded s m"
  using assms extends_trans by (fastforce simp: expanded_def)

definition passed :: "nlist_ptr set \<Rightarrow> mcpp \<Rightarrow> token list \<Rightarrow> bool" where
  "passed M s pre \<longleftrightarrow> list_all (\<lambda>tp. hidden_in M (hides s) tp \<and> settled s tp) pre"

lemma passed_later:
  "passed M s pre \<Longrightarrow> names_of s' = names_of s \<Longrightarrow> extends (hides s) (hides s') \<Longrightarrow> passed M s' pre"
  unfolding passed_def list_all_iff using settled_later hidden_in_later by blast

lemma settled_not_name: "tok_type tp \<noteq> NAME \<Longrightarrow> settled s tp"
  by (simp add: settled_def macro_at_def)

lemma expand_from_object:
  assumes M: "finite M" "card M \<le> 30"
  shows "expansion_ok M L s \<Longrightarrow> list_all (hidden_in M (hides s)) post \<Longrightarrow> passed M s pre \<Longrightarrow> expanded s (expand_from pre post)"
proof (induction "row_weight M L (hides s) post" arbitrary: pre post s rule: less_induct)
  case less
  note ok = less.prems(1)
  have step: "expanded s (expand_from pre post)"
    if "expand_from pre post s = expand_from pre' post' s'" "names_of s' = names_of s" "hideset_inv (hides s')" "extends (hides s) (hides s')"
      "list_all (hidden_in M (hides s')) post'" "passed M s' pre'" "row_weight M L (hides s') post' < row_weight M L (hides s) post"
    for pre' post' s'
    using expanded_later [of s' "expand_from pre' post'" "expand_from pre post" s]
      less.hyps [OF that(7) expansion_ok_later [OF ok that(2,4,3)] that(5,6)] that(1,2,4) by simp
  show ?case
  proof (cases post)
    case Nil
    then have "expand_from pre post s = Some (Ret (pre, s))" by (simp add: expand_from.simps)
    then show ?thesis using less.prems by (auto simp: expanded_def expansion_ok_def passed_def list_all_iff)
  next
    case (Cons tp tps)
    have h: "hidden_in M (hides s) tp" "list_all (hidden_in M (hides s)) tps" using less.prems(2) Cons by simp_all
    show ?thesis
    proof (rule macro_at_cases [OF ok h(1)])
      assume "macro_at tp s = Ret (0, s)"
      then show ?thesis
        using step [of "pre @ [tp]" tps s] h less.prems ok weight_pos [of M L "hides s" tp]
        by (simp add: Cons expand_from.simps [of pre "tp # tps" s] bind_run_def passed_def settled_def expansion_ok_def)
    next
      fix np
      assume np: "macro_at tp s = Ret (np, s)" "np \<noteq> 0" "np_val (entries s np) \<noteq> kw_code KDEFINED" "tok_type tp = NAME"
        "np \<notin> members (hides s) (tok_hideset tp)" "np_flag (entries s np) AND ISMAC = 0 \<Longrightarrow> np \<in> M \<and> object_entry L (entries s np)"
      show ?thesis
      proof (cases "np_flag (entries s np) AND ISMAC = 0")
        case False
        obtain tp' s' where b: "builtin tp (np_val (entries s np)) s = Ret (tp', s')" "tok_type tp' \<noteq> NAME"
          "tok_hideset tp' = tok_hideset tp" "names_of s' = names_of s" "hides s' = hides s"
          using builtin_result by blast
        have "passed M s' (pre @ [tp'])"
          using passed_later [OF less.prems(3) b(4)] b settled_not_name [OF b(2)] h(1) by (simp add: passed_def hidden_in_def)
        then show ?thesis
          using step [of "pre @ [tp']" tps s'] h ok b np False weight_pos [of M L "hides s" tp]
          by (simp add: Cons expand_from.simps [of pre "tp # tps" s] bind_run_def expansion_ok_def)
      next
        case True
        then obtain vp where e: "np \<in> M" "object_entry L (entries s np)" "np_vp (entries s np) = Some vp"
          using np(6) by (auto simp: object_entry_def split: option.splits)
        have t: "hideset_inv (hides s)" "tok_hideset tp < length (hidesets (hides s))" using ok h by (simp_all add: expansion_ok_def hidden_in_def)
        have "card (insert np (members (hides s) (tok_hideset tp))) \<le> card M"
          using h(1) e(1) M(1) by (intro card_mono) (auto simp: hidden_in_def)
        then have small: "card (insert np (members (hides s) (tok_hideset tp))) \<le> 30" using M(2) by simp
        obtain hs t' post' where x:
          "expand (\<lambda>r. in_source ''<macro>'' (expand_from [] r)) np pre (tp # tps) s = Some (Ret ((pre, post'), s\<lparr>hides := t'\<rparr>))"
          "hideset_inv t'" "extends (hides s) t'" "hs < length (hidesets t')" "members t' hs = insert np (members (hides s) (tok_hideset tp))"
          "map key post' = map key (map (\<lambda>tp. if tok_type tp = NAME then tp\<lparr>tok_hideset := hs\<rparr> else tp) vp @ tps)"
          by (rule expand_object [OF e(2,3) np(2) t small])
        have vp: "length vp \<le> L" "list_all (\<lambda>tp. tok_hideset tp = 0) vp"
          using e(2,3) by (auto simp: object_entry_def plain_value_def list_all_iff)
        let ?vp = "map (\<lambda>tp. if tok_type tp = NAME then tp\<lparr>tok_hideset := hs\<rparr> else tp) vp"
        have zero: "0 < length (hidesets t')" "members t' 0 = {}"
          using extends_members [OF x(3), of 0] ok by (simp_all add: expansion_ok_def)
        have "insert np (members (hides s) (tok_hideset tp)) \<subseteq> M" using h(1) e(1) by (simp add: hidden_in_def)
        then have "list_all (hidden_in M t') ?vp"
          using x(4,5) vp(2) zero by (auto simp: list_all_iff hidden_in_def)
        moreover have "list_all (hidden_in M t') tps" using h(2) hidden_in_later [OF x(3)] by (auto simp: list_all_iff)
        ultimately have hid: "list_all (hidden_in M t') post'" using hidden_in_key [OF x(6), of M t'] by simp
        have "row_weight M L t' post' = row_weight M L t' ?vp + row_weight M L (hides s) tps"
          using row_weight_key [OF x(6), of M L t'] row_weight_later [OF x(3) h(2)] by simp
        also have "\<dots> < row_weight M L (hides s) post"
          using weight_expansion [OF M(1) e(1) np(5,4) x(5) vp] Cons by simp
        finally have w: "row_weight M L t' post' < row_weight M L (hides s) post" .
        have "expand_from pre post s = expand_from pre post' (s\<lparr>hides := t'\<rparr>)"
          using np True x(1) by (simp add: Cons expand_from.simps [of pre "tp # tps" s] bind_run_def)
        moreover have "passed M (s\<lparr>hides := t'\<rparr>) pre"
          using passed_later [OF less.prems(3), of "s\<lparr>hides := t'\<rparr>"] x(3) by (simp add: names_of_def)
        ultimately show ?thesis
          using step [of pre post' "s\<lparr>hides := t'\<rparr>"] x(2,3) hid w by (simp add: names_of_def)
      qed
    qed
  qed
qed

text \<open>
  Claim C32: with at most 30 macros, none with parameters or pastings, expandrow returns on every row:
  a name is hidden in its own expansion, so that macros may refer to themselves and to each other.
  The row it gives has no name left that would be expanded, and the name table is as before.
\<close>

theorem expandrow_object:
  assumes "finite M" "card M \<le> 30" "expansion_ok M L s" "list_all (hidden_in M (hides s)) r"
  shows "\<exists>r' s'. expandrow None r s = Some (Ret (r', s')) \<and> names_of s' = names_of s \<and> list_all (\<lambda>tp. macro_at tp s' = Ret (0, s')) r'"
proof -
  have "settled s' = (\<lambda>tp. macro_at tp s' = Ret (0, s'))" for s' by (auto simp: settled_def)
  then show ?thesis
    using expand_from_object [OF assms(1,2,3,4), of "[]"] by (auto simp: expandrow_def expanded_def passed_def)
qed

text \<open>Two macros that refer to each other: a is b, and b is a.\<close>

definition demo_entry :: "string \<Rightarrow> string \<Rightarrow> nlist_entry" where
  "demo_entry name v = \<lparr>np_name = name, np_len = length name, np_vp = Some [name_token v], np_ap = None, np_val = 0, np_flag = ISDEFINED\<rparr>"

definition demo_mcpp :: mcpp where
  "demo_mcpp =
     \<lparr>messages = [], nerrs = 0, nlist = (\<lambda>_. [1, 2]),
      entries = (entries no_names)(1 := demo_entry ''a'' ''b'', 2 := demo_entry ''b'' ''a''),
      next_np = 3, namebit = (\<lambda>_. - 1), kwdefined = 0, vals = [], ops = [], ifdepth = 0, ifsatisfied = [], skipping = 0,
      src_ifdepth = 0, src_line = 1, src_filename = ''demo.c'', src_lineinc = 0, out = [],
      src_fd = True, src_in = [], src_outer = [], hides = iniths, curtime = [], past = UNCLASS\<rparr>"

theorem expandrow_object_witness:
  "\<exists>r' s'. expandrow None [name_token ''a''] demo_mcpp = Some (Ret (r', s')) \<and> names_of s' = names_of demo_mcpp \<and>
    list_all (\<lambda>tp. macro_at tp s' = Ret (0, s')) r'"
proof (rule expandrow_object [of "{1, 2}" 1])
  have "object_macros {1, 2} 1 demo_mcpp"
    by (simp add: object_macros_def object_entry_def plain_value_def demo_mcpp_def demo_entry_def no_names_def name_token_def
        ISDEFINED_def ISMAC_def)
  then show "expansion_ok {1, 2} 1 demo_mcpp"
    by (simp add: expansion_ok_def demo_mcpp_def iniths_def hideset_inv_def members_def HSSIZ_def)
qed (simp_all add: hidden_in_def demo_mcpp_def iniths_def members_def name_token_def)

end
