(* ===== verification/CPP_Macro_Call.thy ===== *)
theory CPP_Macro_Call
  imports CPP_Macro_Object
begin

text \<open>
  Calls of macros with parameters: how gatherargs cuts a call into its arguments, and the two cases in
  which the expansion does not end.
\<close>

section \<open>The arguments of a call\<close>

text \<open>Tokens in which the parentheses match at a depth, and without a comma outside of them.\<close>

fun argument :: "nat \<Rightarrow> token list \<Rightarrow> bool" where
  "argument d [] \<longleftrightarrow> d = 0"
| "argument d (tp # tps) \<longleftrightarrow>
     (if tok_type tp = LP then argument (Suc d) tps
      else if tok_type tp = RP then 0 < d \<and> argument (d - 1) tps
      else tok_type tp \<notin> {NL, END} \<and> (tok_type tp = COMMA \<longrightarrow> 0 < d) \<and> argument d tps)"

text \<open>The tokens of a call: arguments with the commas after them, and the last argument.\<close>

definition call_tokens :: "(token list \<times> token) list \<Rightarrow> token list \<Rightarrow> token list" where
  "call_tokens cs a = concat (map (\<lambda>(x, c). x @ [c]) cs) @ a"

definition is_call :: "(token list \<times> token) list \<Rightarrow> token list \<Rightarrow> bool" where
  "is_call cs a \<longleftrightarrow> list_all (\<lambda>(x, c). argument 0 x \<and> tok_type c = COMMA) cs \<and> argument 0 a"

fun matched :: "nat \<Rightarrow> token list \<Rightarrow> bool" where
  "matched d [] \<longleftrightarrow> d = 0"
| "matched d (tp # tps) \<longleftrightarrow>
     (if tok_type tp = LP then matched (Suc d) tps
      else if tok_type tp = RP then 0 < d \<and> matched (d - 1) tps
      else tok_type tp \<notin> {NL, END} \<and> matched d tps)"

lemma matched_append: "argument d x \<Longrightarrow> matched (d + e) (x @ y) = matched e y"
  by (induction d x arbitrary: e rule: argument.induct) (auto split: if_splits simp: Suc_diff_le)

lemma matched_call: "is_call cs a \<Longrightarrow> matched 0 (call_tokens cs a)"
proof (induction cs)
  case Nil
  then show ?case using matched_append [of 0 a 0 "[]"] by (simp add: is_call_def call_tokens_def)
next
  case (Cons xc cs)
  then have "matched 0 (fst xc @ snd xc # call_tokens cs a) = matched 0 (snd xc # call_tokens cs a)"
    using matched_append [of 0 "fst xc" 0] by (auto simp: is_call_def)
  then show ?case using Cons by (auto simp: is_call_def call_tokens_def)
qed

lemma drop_Cons_nth:
  assumes "drop i r = x # xs"
  shows "i < length r" "r ! i = x" "drop (Suc i) r = xs"
proof -
  show "i < length r" using assms by (cases "i < length r") simp_all
  show "r ! i = x" using assms by (rule nth_via_drop)
  show "drop (Suc i) r = xs" using assms by (metis drop_Suc list.sel(3) tl_drop)
qed

lemma find_rp_matched:
  assumes "drop i r = ts @ rp # tps" "matched d ts" "tok_type rp = RP"
  shows "find_rp r i (Suc d) False s = Some (Ret ((r, i + length ts + 1, True), s))"
  using assms
proof (induction ts arbitrary: i d)
  case Nil
  then have "i < length r" "r ! i = rp" using drop_Cons_nth [of i r] by simp_all
  then show ?case using Nil by (subst find_rp.simps) (simp add: bind_run_def Let_def find_rp.simps)
next
  case (Cons tp ts)
  then have i: "i < length r" "r ! i = tp" "drop (Suc i) r = ts @ rp # tps" using drop_Cons_nth [of i r tp] by simp_all
  have st: "find_rp r i (Suc d) False s =
      find_rp r (Suc i) (if tok_type tp = LP then Suc (Suc d) else if tok_type tp = RP then d else Suc d) False s"
    using i Cons.prems(2) by (subst find_rp.simps) (auto simp: bind_run_def Let_def split: if_splits)
  show ?case unfolding st
    using Cons.IH [OF i(3), of "if tok_type tp = LP then Suc d else if tok_type tp = RP then d - 1 else d"] Cons.prems(2,3)
    by (cases d) (auto split: if_splits)
qed

lemma hide_sharps_simps [simp]:
  "hide_sharps [] = []"
  "hide_sharps (tp # tps) = (if tok_type tp = DSHARP then tp\<lparr>tok_type := DSHARP1\<rparr> else tp) # hide_sharps tps"
  "hide_sharps (a @ b) = hide_sharps a @ hide_sharps b"
  by (simp_all add: hide_sharps_def)

lemma scan_args_argument:
  "argument d x \<Longrightarrow>
    scan_args prev (int d) cur args (x @ tps) s = scan_args (last (prev # hide_sharps x)) 0 (cur @ hide_sharps x) args tps s"
  by (induction d x arbitrary: prev cur rule: argument.induct)
    (auto simp: Let_def of_nat_diff add.commute split: if_splits)

lemma last_argument: "argument d x \<Longrightarrow> x \<noteq> [] \<Longrightarrow> tok_type (last (hide_sharps x)) \<noteq> LP"
proof (induction d x rule: argument.induct)
  case (2 d tp tps)
  then show ?case by (cases tps) (auto split: if_splits)
qed simp

lemma scan_args_call:
  assumes "is_call cs a" "length args + length cs < 31" "tok_type rp = RP" "tok_type prev = LP \<longrightarrow> args = []"
  shows "scan_args prev 0 [] args (call_tokens cs a @ [rp]) s =
    Ret (if cs = [] \<and> a = [] \<and> tok_type prev = LP then args
         else args @ map (\<lambda>x. normtokenrow (hide_sharps x)) (map fst cs @ [a]), s)"
  using assms
proof (induction cs arbitrary: prev args)
  case Nil
  then have "scan_args prev 0 [] args (a @ [rp]) s = scan_args (last (prev # hide_sharps a)) 0 (hide_sharps a) args [rp] s"
    using scan_args_argument [of 0 a prev "[]" args "[rp]" s] by (simp add: is_call_def)
  moreover have "tok_type (last (prev # hide_sharps a)) \<noteq> LP \<or> a = []"
    using last_argument [of 0 a] Nil by (cases a) (auto simp: is_call_def)
  ultimately show ?case using Nil
    by (auto simp: call_tokens_def NARG_def whenS_def seqS_def bindS_def returnS_def Let_def simp del: bindS_Ret)
next
  case (Cons xc cs)
  obtain x c where xc: "xc = (x, c)" by (cases xc)
  then have c: "argument 0 x" "tok_type c = COMMA" "is_call cs a" using Cons.prems(1) by (auto simp: is_call_def)
  have "scan_args prev 0 [] args (call_tokens ((x, c) # cs) a @ [rp]) s =
      scan_args (last (prev # hide_sharps x)) 0 (hide_sharps x) args (c # call_tokens cs a @ [rp]) s"
    using scan_args_argument [OF c(1), of prev "[]" args "c # call_tokens cs a @ [rp]" s] by (simp add: call_tokens_def)
  also have "\<dots> = scan_args c 0 [] (args @ [normtokenrow (hide_sharps x)]) (call_tokens cs a @ [rp]) s"
    using c(2) Cons.prems(2) by (simp add: NARG_def whenS_def seqS_def bindS_def returnS_def Let_def del: bindS_Ret)
  finally show ?case using Cons.IH [OF c(3), of "args @ [normtokenrow (hide_sharps x)]" c] Cons.prems(2,3) c(2) xc by simp
qed

text \<open>
  Claim C33: a call that is complete in the row is cut into its arguments: a parenthesis follows the
  name, every argument has matching parentheses, and the commas outside of them separate the
  arguments.  gatherargs returns the normalized arguments, none for empty parentheses, and the
  number of tokens of the call; the rest of the row and the state do not change.
\<close>

theorem gatherargs_call:
  assumes "tok_type lp = LP" "tok_type rp = RP" "is_call cs a" "length cs < 31"
  shows "gatherargs (name # lp # call_tokens cs a @ rp # tps) s =
    Some (Ret ((name # lp # hide_sharps (call_tokens cs a) @ rp # tps,
      Gathered (length (call_tokens cs a) + 3)
        (if cs = [] \<and> a = [] then [] else map (\<lambda>x. normtokenrow (hide_sharps x)) (map fst cs @ [a]))), s))"
proof -
  let ?r = "name # lp # call_tokens cs a @ rp # tps" and ?n = "length (call_tokens cs a)"
  have 1: "find_lp ?r 0 s = Some (Ret ((?r, 1, True), s))" using assms(1) by (subst find_lp.simps) simp
  have 2: "find_rp ?r 2 1 False s = Some (Ret ((?r, ?n + 3, True), s))"
    using find_rp_matched [of 2 ?r "call_tokens cs a" rp tps 0 s] matched_call [OF assms(3)] assms(2) by simp
  have 3: "take (?n + 3 - 2) (drop 2 ?r) = call_tokens cs a @ [rp]" by simp
  have 4: "scan_args lp 0 [] [] (call_tokens cs a @ [rp]) s =
      Ret (if cs = [] \<and> a = [] then [] else map (\<lambda>x. normtokenrow (hide_sharps x)) (map fst cs @ [a]), s)"
    using scan_args_call [OF assms(3), of "[]" rp lp s] assms by simp
  show ?thesis
    unfolding gatherargs_def 1 bind_run_def
    using 2 4 assms(2) by (simp add: bind_run_def bindS_def returnS_def numeral_2_eq_2 numeral_3_eq_3 del: bindS_Ret)
qed

theorem gatherargs_call_witness:
  "gatherargs (name_token ''f'' # op_token LP # call_tokens [([name_token ''a''], op_token COMMA)] [name_token ''b''] @ op_token RP # []) demo_mcpp =
    Some (Ret ((name_token ''f'' # op_token LP # hide_sharps (call_tokens [([name_token ''a''], op_token COMMA)] [name_token ''b'']) @ op_token RP # [],
      Gathered (length (call_tokens [([name_token ''a''], op_token COMMA)] [name_token ''b'']) + 3)
        (if [([name_token ''a''], op_token COMMA)] = [] \<and> [name_token ''b''] = [] then []
         else map (\<lambda>x. normtokenrow (hide_sharps x)) (map fst [([name_token ''a''], op_token COMMA)] @ [[name_token ''b'']]))), demo_mcpp))"
  by (rule gatherargs_call) (simp_all add: is_call_def op_token_def name_token_def)

section \<open>Expansions that do not end\<close>

text \<open>The name at the position is the call of a macro whose expansion does not look at arguments.\<close>

definition calls :: "nlist_ptr \<Rightarrow> token \<Rightarrow> mcpp \<Rightarrow> bool" where
  "calls np tp s \<longleftrightarrow>
     macro_at tp s = Ret (np, s) \<and> np \<noteq> 0 \<and> np_val (entries s np) \<noteq> kw_code KDEFINED \<and> np_flag (entries s np) AND ISMAC = 0"

text \<open>A row that an expansion always leads back to has no outcome.\<close>

lemma expand_from_diverges:
  assumes P: "P pre post s"
    and step: "\<And>pre post s. P pre post s \<Longrightarrow> \<exists>tp tps np a s'. post = tp # tps \<and> calls np tp s \<and>
      (\<forall>f. expand f np pre post s = Some (Ret (a, s'))) \<and> P (fst a) (snd a) s'"
  shows "expand_from pre post s = None"
proof -
  have "\<not> P pre post s" if e: "expand_from pre post s = Some y" for pre post s y
  proof (rule expand_from.raw_induct [OF _ e, where P = "\<lambda>pre post s y. \<not> P pre post s"])
    fix f pre post s y
    assume IH: "\<And>pre post s y. f pre post s = Some y \<Longrightarrow> \<not> P pre post s"
      and body: "(case post of [] \<Rightarrow> Some (Ret (pre, s))
        | tp # tps \<Rightarrow>
          bind_run (Some (macro_at tp s)) (\<lambda>np s.
          if np = 0 then f (pre @ [tp]) tps s
          else if np_val (entries s np) = kw_code KDEFINED then
            bind_run (Some (mark_defined tps s)) (\<lambda>tps s. f (pre @ [tp\<lparr>tok_type := DEFINED\<rparr>]) tps s)
          else if np_flag (entries s np) AND ISMAC \<noteq> 0 then
            bind_run (Some (builtin tp (np_val (entries s np)) s)) (\<lambda>tp s. f (pre @ [tp]) tps s)
          else
            bind_run (expand (\<lambda>r. in_source ''<macro>'' (f [] r)) np pre (tp # tps) s) (\<lambda>a s. f (fst a) (snd a) s))) = Some y"
    show "\<not> P pre post s"
    proof
      assume "P pre post s"
      then obtain tp tps np a s' where st: "post = tp # tps" "calls np tp s" "\<And>f. expand f np pre post s = Some (Ret (a, s'))"
        "P (fst a) (snd a) s'"
        using step by metis
      then have "f (fst a) (snd a) s' = Some y" using body by (simp add: calls_def bind_run_def)
      then show False using IH st(4) by blast
    qed
  qed
  then show ?thesis using P by (cases "expand_from pre post s") blast+
qed


lemma gettokens_at_end:
  assumes "at_end (src_in s)" "\<not> src_fd s"
  obtains e where "gettokens r False s = Some (Ret ((r @ [e], False), s))" "tok_type e = END"
proof -
  define e where "e = (lex_token END [] 0 (src_in s))\<lparr>tok_t := src_in s\<rparr>"
  have "lex_step (\<lambda>tp. quicklook tp s) False (lex_init r (src_in s)) = Inl (add_token e (src_in s) (lex_init r (src_in s)))"
    using assms(1) cell_start_EOFC
    by (subst lex_step_unmarked) (simp_all add: lex_init_def unmarked_def at_end_def lex_act_def Let_def e_def)
  then have "lex_row (\<lambda>tp. quicklook tp s) False r (src_in s) = Some (add_token e (src_in s) (lex_init r (src_in s)))"
    unfolding lex_row_def by (subst lex_loop.simps) simp
  then have "gettokens r False s = Some (Ret ((r @ [e], False), s))"
    using assms(2) by (simp add: gettokens_def add_token_def lex_init_def seqS_def bindS_def putS_def returnS_def del: bindS_Ret)
  moreover have "tok_type e = END" by (simp add: e_def lex_token_def)
  ultimately show thesis using that by blast
qed

lemma find_lp_end:
  assumes "list_all (\<lambda>tp. tok_type tp = NL) nls" "at_end (src_in s)" "\<not> src_fd s" "i \<le> length nls"
  shows "find_lp (tp # nls) i s = Some (Ret ((tp # nls, 0, False), s))"
  using assms(4)
proof (induction "length nls - i" arbitrary: i)
  case 0
  obtain e where "gettokens (tp # nls) False s = Some (Ret (((tp # nls) @ [e], False), s))" "tok_type e = END"
    by (rule gettokens_at_end [OF assms(2,3)])
  moreover have "length (tp # nls) \<le> Suc i" using 0 by simp
  ultimately show ?case by (subst find_lp.simps) (simp add: bind_run_def)
next
  case (Suc k)
  then have i: "i < length nls" by simp
  then have "tok_type (nls ! i) = NL" using assms(1) by (auto simp: list_all_length)
  then show ?case using i Suc.hyps(1) [of "Suc i"] Suc.hyps(2) by (subst find_lp.simps) simp
qed

text \<open>A name of a macro with parameters, after which the input has only newlines.\<close>

definition stuck :: "nlist_ptr \<Rightarrow> token \<Rightarrow> token list \<Rightarrow> mcpp \<Rightarrow> bool" where
  "stuck np tp nls s \<longleftrightarrow>
     calls np tp s \<and> np_vp (entries s np) \<noteq> None \<and> np_ap (entries s np) \<noteq> None \<and> list_all (\<lambda>tp. tok_type tp = NL) nls \<and>
     at_end (src_in s) \<and> \<not> src_fd s"

lemma expand_stuck: "stuck np tp nls s \<Longrightarrow> expand f np pre (tp # nls) s = Some (Ret ((pre, tp # nls), s))"
  using find_lp_end [of nls s 0 tp] by (auto simp: stuck_def expand_def gatherargs_def bind_run_def)

lemma stuck_calls: "stuck np tp nls s \<Longrightarrow> calls np tp s"
  by (simp add: stuck_def)

lemma expand_from_stuck: "stuck np tp nls s \<Longrightarrow> expand_from pre (tp # nls) s = None"
  by (rule expand_from_diverges [where P = "\<lambda>pre post s. post = tp # nls \<and> stuck np tp nls s"])
    (auto simp: expand_stuck dest: stuck_calls)

lemma expand_from_settled:
  "list_all (settled s) ts \<Longrightarrow> expand_from pre (ts @ post) s = expand_from (pre @ ts) post s"
  by (induction ts arbitrary: pre) (simp_all add: expand_from.simps [of _ "_ # _"] settled_def bind_run_def)


lemma macro_at_same:
  assumes "names_of t = names_of s" "hides t = hides s" "macro_at tp s = Ret (np, s)"
  shows "macro_at tp t = Ret (np, t)"
proof -
  define q where "q = fst (lookup tp False s)"
  have q: "fst (lookup tp False t) = q" "quicklook tp t = quicklook tp s" "entries t = entries s"
    using lookup_names_of [OF assms(1)] quicklook_names_of [OF assms(1)] assms(1) by (simp_all add: q_def names_of_def)
  show ?thesis
  proof (cases "tok_type tp \<noteq> NAME \<or> \<not> quicklook tp s \<or> q = 0 \<or> np_flag (entries s q) AND (ISDEFINED OR ISMAC) = 0 \<or> tok_hideset tp = 0")
    case True
    then show ?thesis using assms(3) unfolding macro_at_def q q_def [symmetric] Let_def by (simp split: if_splits; blast)
  next
    case False
    then show ?thesis using assms(2,3) unfolding macro_at_def q q_def [symmetric] Let_def
      by (cases "checkhideset (tok_hideset tp) q (hides s)") simp_all
  qed
qed

lemma setsource_same: "names_of (setsource n fd p s) = names_of s" "hides (setsource n fd p s) = hides s"
  by (simp_all add: names_of_def setsource_def set_cur_def)

lemma calls_setsource: "calls np tp s \<Longrightarrow> calls np tp (setsource n fd p s)"
  using macro_at_same [OF setsource_same] setsource_same(1) [of n fd p s] by (simp add: calls_def names_of_def)

lemma settled_setsource: "settled s tp \<Longrightarrow> settled (setsource n fd p s) tp"
  using macro_at_same [OF setsource_same] by (simp add: settled_def)

text \<open>
  Claim C34: where no more input can be gathered, in a condition, a line or include directive or an
  argument of a call, a row that ends with the bare name of a macro with parameters is expanded
  forever: gatherargs puts the position back to the name when it meets the end of the input, and
  expandrow takes the name up again.
\<close>

theorem bare_name_loops:
  assumes "list_all (\<lambda>tp. macro_at tp s = Ret (0, s)) ts" "list_all (\<lambda>tp. tok_type tp = NL) nls"
    and "macro_at tp s = Ret (np, s)" "np \<noteq> 0" "np_val (entries s np) \<noteq> kw_code KDEFINED" "np_flag (entries s np) AND ISMAC = 0"
    and "np_vp (entries s np) \<noteq> None" "np_ap (entries s np) \<noteq> None"
  shows "expandrow (Some flag) (ts @ tp # nls) s = None"
proof -
  let ?s = "setsource flag False [] s"
  have "calls np tp ?s" using assms by (intro calls_setsource) (simp add: calls_def)
  then have "stuck np tp nls ?s"
    using assms by (simp add: stuck_def setsource_def set_cur_def at_end_def lex_char_def)
  moreover have "list_all (settled ?s) ts" using assms(1) settled_setsource by (auto simp: list_all_iff settled_def)
  ultimately have "expand_from [] (ts @ tp # nls) ?s = None"
    using expand_from_settled [of ?s ts "[]" "tp # nls"] expand_from_stuck by simp
  then show ?thesis by (simp add: expandrow_def in_source_def bind_run_def)
qed

text \<open>A macro g with one parameter.\<close>

definition demo_call :: mcpp where
  "demo_call = demo_mcpp\<lparr>entries := (entries no_names)(1 := (demo_entry ''g'' ''x'')\<lparr>np_ap := Some [name_token ''x'']\<rparr>)\<rparr>"

lemma demo_call_at: "macro_at (name_token ''g'') demo_call = Ret (1, demo_call)"
  by (simp add: macro_at_def demo_call_def demo_mcpp_def demo_entry_def no_names_def lookup_def same_name_def name_token_def c_prefix_def
      quicklook_def name_bit_def second_code_def ISDEFINED_def ISMAC_def)

theorem bare_name_loops_witness: "expandrow (Some ''<if>'') ([] @ name_token ''g'' # [nltoken]) demo_call = None"
  by (rule bare_name_loops [OF _ _ demo_call_at])
    (simp_all add: demo_call_def demo_mcpp_def demo_entry_def nltoken_def ISDEFINED_def ISMAC_def)

section \<open>A full hide set\<close>

lemma text_ok_prefix:
  assumes "text_ok tp"
  shows "c_prefix (tok_len tp) (tok_t tp) = spelling tp" "0 < tok_len tp" "tok_len tp \<le> length (tok_t tp)"
proof -
  show len: "tok_len tp \<le> length (tok_t tp)" using assms by (simp add: text_ok_def spelling_def min_def split: if_splits)
  show "0 < tok_len tp" using assms by (metis is_name_def length_greater_0_conv text_ok_def)
  have "CHR 0x00 \<notin> set (take (tok_len tp) (tok_t tp))" using assms by (simp add: text_ok_def is_name_def spelling_def)
  then have "\<forall>c \<in> set (take (tok_len tp) (tok_t tp)). c \<noteq> CHR 0x00" by metis
  then show "c_prefix (tok_len tp) (tok_t tp) = spelling tp" by (simp add: c_prefix_def spelling_def)
qed

lemma macro_at_cong:
  assumes "tok_type tp' = tok_type tp" "tok_hideset tp' = tok_hideset tp" "tok_len tp' = tok_len tp" "spelling tp' = spelling tp"
    "char_at (tok_t tp') 0 = char_at (tok_t tp) 0" "second_code tp' = second_code tp"
    "c_prefix (tok_len tp) (tok_t tp') = c_prefix (tok_len tp) (tok_t tp)"
  shows "macro_at tp' s = macro_at tp s"
proof -
  have q: "quicklook tp' s = quicklook tp s" using assms(5,6) by (simp add: quicklook_def first_code_def)
  have "same_name tp' e = same_name tp e" for e using assms by (simp add: same_name_def)
  then have l: "lookup tp' False s = lookup tp False s" using assms(4) by (simp add: lookup_def name_hash_def)
  show ?thesis unfolding macro_at_def q l assms(1,2) ..
qed

lemma macro_at_spaced:
  assumes "text_ok tp"
  shows "macro_at (spaced pre tp) s = macro_at tp s"
proof (cases "tok_t (spaced pre tp) = tok_t tp")
  case True
  then show ?thesis by (intro macro_at_cong) (simp_all add: spelling_def second_code_def)
next
  case False
  note t = text_ok_prefix [OF assms]
  have eq: "tok_t (spaced pre tp) = spelling tp" using False t(1) by (auto simp: spaced_def Let_def split: if_splits)
  have at: "char_at (spelling tp) i = char_at (tok_t tp) i" if "i < tok_len tp" for i
    using that t(3) by (simp add: char_at_def spelling_def)
  have "c_prefix (tok_len tp) (spelling tp) = c_prefix (tok_len tp) (tok_t tp)" by (simp add: c_prefix_def spelling_def)
  then show ?thesis using at [of 0] at [of 1] t(2)
    by (intro macro_at_cong) (simp_all add: eq spelling_def second_code_def)
qed

lemma newhideset_unchanged:
  assumes "hideset_inv t" "hs < length (hidesets t)" "np \<noteq> 0" "np \<notin> members t hs" "card (members t hs) = 30"
  shows "newhideset hs np t = Ret (hs, t)"
proof -
  let ?nhs = "inserths (hidesets t ! hs) np"
  have v: "is_set (hidesets t ! hs)" using assms(1,2) by (auto simp: hideset_inv_def is_set_def)
  have "length ?nhs = card (insert np (members t hs))"
    using is_set_length [OF inserths_is_set [OF v assms(3)]] inserths_set [OF assms(3)] by (simp add: members_def)
  then have len: "length ?nhs = 31" using assms(4,5) by (simp add: members_def)
  then have "?nhs \<notin> set (hidesets t)" using assms(1) by (auto simp: hideset_inv_def HSSIZ_def)
  then have "set_index ?nhs (hidesets t) 0 = None" by (simp add: set_index_None)
  then show ?thesis using assms(2) len by (simp add: newhideset_def enter_hideset_def HSSIZ_def)
qed

lemma expand_unchanged:
  assumes e: "np_ap (entries s np) = None" "np_vp (entries s np) = Some [v]" "tok_type v = NAME" "tok_hideset v = 0"
    and n: "newhideset (tok_hideset tp) np (hides s) = Ret (tok_hideset tp, hides s)"
  shows "expand f np pre (tp # tps) s =
    (let v' = spaced pre (v\<lparr>tok_hideset := tok_hideset tp\<rparr>) in Some (Ret ((pre, v' # makespace (pre @ [v']) tps), s)))"
  using e n
  by (simp add: expand_def put_expansion_def bind_run_def bindS_def newhidesetM_def returnS_def mapS_def hide_token_def insertrow_def
      Let_def del: bindS_Ret)

text \<open>
  Claim C35: a hide set has at most 30 names.  A macro whose value is its own name ends when it is
  expanded in other places; where 30 other names are hidden already, it is expanded forever.
\<close>

theorem full_hide_set_loops:
  assumes "hideset_inv (hides s)" "tok_hideset tp \<noteq> 0" "card (members (hides s) (tok_hideset tp)) = 30"
    and "macro_at tp s = Ret (np, s)" "np \<noteq> 0" "np_val (entries s np) \<noteq> kw_code KDEFINED" "np_flag (entries s np) AND ISMAC = 0"
    and "np_ap (entries s np) = None" "np_vp (entries s np) = Some [v]" "tok_type v = NAME" "tok_hideset v = 0" "text_ok v"
    and "macro_at (v\<lparr>tok_hideset := tok_hideset tp\<rparr>) s = Ret (np, s)"
  shows "expandrow None (tp # tps) s = None"
proof -
  let ?h = "tok_hideset tp"
  have "?h < length (hidesets (hides s))" "np \<notin> members (hides s) ?h"
    using assms(2,4,5) by (auto simp: macro_at_def Let_def checkhideset_def members_def split: if_splits)
  then have n: "newhideset ?h np (hides s) = Ret (?h, hides s)"
    using newhideset_unchanged [OF assms(1) _ assms(5)] assms(3) by blast
  have calls: "calls np tp' s" if "macro_at tp' s = Ret (np, s)" for tp' using that assms by (simp add: calls_def)
  have "text_ok (v\<lparr>tok_hideset := ?h\<rparr>)" using assms(12) by (simp add: text_ok_def spelling_def)
  then have sp: "macro_at (spaced pre (v\<lparr>tok_hideset := ?h\<rparr>)) s = Ret (np, s)" for pre
    using macro_at_spaced assms(13) by simp
  have "expand_from [] (tp # tps) s = None"
  proof (rule expand_from_diverges [where P = "\<lambda>pre post s'. s' = s \<and> (\<exists>tp' tps'. post = tp' # tps' \<and> calls np tp' s \<and> tok_hideset tp' = ?h)"])
    show "s = s \<and> (\<exists>tp' tps'. tp # tps = tp' # tps' \<and> calls np tp' s \<and> tok_hideset tp' = ?h)" using calls assms(4) by blast
  next
    fix pre post s' assume "s' = s \<and> (\<exists>tp' tps'. post = tp' # tps' \<and> calls np tp' s \<and> tok_hideset tp' = ?h)"
    then obtain tp' tps' where p: "s' = s" "post = tp' # tps'" "calls np tp' s" "tok_hideset tp' = ?h" by blast
    let ?v = "spaced pre (v\<lparr>tok_hideset := ?h\<rparr>)"
    have "expand f np pre post s' = Some (Ret ((pre, ?v # makespace (pre @ [?v]) tps'), s))" for f
      using expand_unchanged [OF assms(8-11), of tp' f pre tps'] n p by (simp add: Let_def)
    moreover have "calls np ?v s" "tok_hideset ?v = ?h" using calls sp by simp_all
    ultimately show "\<exists>tp1 tps q a s''. post = tp1 # tps \<and> calls q tp1 s' \<and> (\<forall>f. expand f q pre post s' = Some (Ret (a, s''))) \<and>
        s'' = s \<and> (\<exists>tp' tps'. snd a = tp' # tps' \<and> calls np tp' s \<and> tok_hideset tp' = ?h)"
      using p by (intro exI [of _ tp'] exI [of _ tps'] exI [of _ np] exI [of _ "(pre, ?v # makespace (pre @ [?v]) tps')"] exI [of _ s]) simp
  qed
  then show ?thesis by (simp add: expandrow_def)
qed

text \<open>A table with the set of the names 2 to 31, and the macro a whose value is a.\<close>

definition demo_full :: mcpp where
  "demo_full = demo_mcpp\<lparr>entries := (entries no_names)(1 := demo_entry ''a'' ''a''), hides := \<lparr>hidesets = [[], [2..<32]], maxhidesets = 3\<rparr>\<rparr>"

lemma demo_full_at: "macro_at ((name_token ''a'')\<lparr>tok_hideset := 1\<rparr>) demo_full = Ret (1, demo_full)"
  by (simp add: macro_at_def demo_full_def demo_mcpp_def demo_entry_def no_names_def lookup_def same_name_def name_token_def c_prefix_def
      quicklook_def name_bit_def second_code_def ISDEFINED_def ISMAC_def checkhideset_def)

theorem full_hide_set_loops_witness: "expandrow None ((name_token ''a'')\<lparr>tok_hideset := 1\<rparr> # [nltoken]) demo_full = None"
proof (rule full_hide_set_loops [of demo_full _ 1 "name_token ''a''"])
  show "hideset_inv (hides demo_full)" by (simp add: demo_full_def hideset_inv_def HSSIZ_def del: upt_Suc)
  show "card (members (hides demo_full) (tok_hideset ((name_token ''a'')\<lparr>tok_hideset := 1\<rparr>))) = 30"
    by (simp add: demo_full_def members_def del: upt_Suc)
  show "macro_at ((name_token ''a'')\<lparr>tok_hideset := 1\<rparr>) demo_full = Ret (1, demo_full)" by (rule demo_full_at)
  show "macro_at ((name_token ''a'')\<lparr>tok_hideset := tok_hideset ((name_token ''a'')\<lparr>tok_hideset := 1\<rparr>)\<rparr>) demo_full = Ret (1, demo_full)"
    using demo_full_at by (simp del: One_nat_def)
qed (simp_all add: demo_full_def demo_mcpp_def demo_entry_def name_token_def text_ok_def is_name_def spelling_def
    ISDEFINED_def ISMAC_def del: upt_Suc)

end
