(* ===== verification/LCC_List.thy ===== *)
theory LCC_List
  imports C_Monad
begin

text \<open>
  The circular lists of lcc (src/lcc-1.3/src/list.c): a list is the pointer to its last node, whose
  link is the first node.  Nodes are cells of a heap that all lists and the list of free nodes share.
\<close>

section \<open>The heap and the operations\<close>

text \<open>The null pointer is 0; a new node is a cell that was not in use before.\<close>

record 'a list_heap =
  lnk :: "nat \<Rightarrow> nat"
  lx :: "nat \<Rightarrow> 'a"
  freenodes :: nat
  next_node :: nat

definition new_node :: "'a list_heap \<Rightarrow> nat \<times> 'a list_heap" where
  "new_node s =
     (if freenodes s \<noteq> 0 then (freenodes s, s\<lparr>freenodes := lnk s (freenodes s)\<rparr>)
      else (next_node s, s\<lparr>next_node := Suc (next_node s)\<rparr>))"

definition append_c :: "'a \<Rightarrow> nat \<Rightarrow> 'a list_heap \<Rightarrow> nat \<times> 'a list_heap" where
  "append_c x list s =
     (let (new, s) = new_node s;
          h = (if list \<noteq> 0 then (lnk s)(new := lnk s list, list := new) else (lnk s)(new := new))
      in (new, s\<lparr>lnk := h, lx := (lx s)(new := x)\<rparr>))"

partial_function (option) count_nodes :: "(nat \<Rightarrow> nat) \<Rightarrow> nat \<Rightarrow> nat \<Rightarrow> nat \<Rightarrow> nat option" where
  "count_nodes h list lp n =
     (let lp = h lp in if lp \<noteq> list then count_nodes h list lp (Suc n) else Some (Suc n))"

definition length_c :: "nat \<Rightarrow> 'a list_heap \<Rightarrow> nat option" where
  "length_c list s = (if list = 0 then Some 0 else count_nodes (lnk s) list list 0)"

text \<open>The vector has one cell more than the list has nodes; a cell past it is not written.\<close>

partial_function (option) fill_vector ::
  "'a list_heap \<Rightarrow> nat \<Rightarrow> nat \<Rightarrow> nat \<Rightarrow> 'a list \<Rightarrow> 'a list outcome option" where
  "fill_vector s list cap lp vec =
     (let lp = lnk s lp in
      if cap \<le> length vec then Some Undef
      else let vec = vec @ [lx s lp] in if lp \<noteq> list then fill_vector s list cap lp vec else Some (Ret vec))"

text \<open>The vector without its final null pointer; the nodes become free.\<close>

definition ltov :: "nat \<Rightarrow> 'a list_heap \<Rightarrow> ('a list \<times> 'a list_heap) outcome option" where
  "ltov list s =
     Option.bind (length_c list s) (\<lambda>n.
     if list = 0 then Some (Ret ([], s))
     else
       map_option (\<lambda>r. bind_outcome r (\<lambda>vec.
           if length vec < n + 1 then Ret (vec, s\<lparr>lnk := (lnk s)(list := freenodes s), freenodes := lnk s list\<rparr>) else Undef))
         (fill_vector s list (n + 1) list []))"

section \<open>Paths\<close>

fun path :: "(nat \<Rightarrow> nat) \<Rightarrow> nat \<Rightarrow> nat list \<Rightarrow> nat \<Rightarrow> bool" where
  "path h a [] b \<longleftrightarrow> a = b"
| "path h a (n # ns) b \<longleftrightarrow> a = n \<and> path h (h n) ns b"

lemma path_append: "path h a (ns @ ms) b \<longleftrightarrow> (\<exists>c. path h a ns c \<and> path h c ms b)"
  by (induction ns arbitrary: a) auto

lemma path_update [simp]: "n \<notin> set ns \<Longrightarrow> path (h(n := v)) a ns b \<longleftrightarrow> path h a ns b"
  by (induction ns arbitrary: a) auto

text \<open>A list of nodes as a ring; the pointer to it is its last node.\<close>

definition ring :: "(nat \<Rightarrow> nat) \<Rightarrow> nat list \<Rightarrow> bool" where
  "ring h ns \<longleftrightarrow> ns = [] \<or> path h (hd ns) ns (hd ns)"

definition ring_ptr :: "nat list \<Rightarrow> nat" where
  "ring_ptr ns = (if ns = [] then 0 else last ns)"

lemma ring_snoc: "ring h (ns @ [l]) \<longleftrightarrow> path h (hd (ns @ [l])) ns l \<and> h l = hd (ns @ [l])"
  by (auto simp: ring_def path_append)

lemma count_nodes_path:
  "path h (h lp) (ns @ [l]) a \<Longrightarrow> l \<notin> set ns \<Longrightarrow> count_nodes h l lp n = Some (n + length ns + 1)"
proof (induction ns arbitrary: lp n)
  case Nil
  then show ?case by (subst count_nodes.simps) simp
next
  case (Cons m ns)
  then show ?case by (subst count_nodes.simps) auto
qed

lemma fill_vector_path:
  "path (lnk s) (lnk s lp) (ns @ [l]) a \<Longrightarrow> l \<notin> set ns \<Longrightarrow> length vec + length ns < cap \<Longrightarrow>
    fill_vector s l cap lp vec = Some (Ret (vec @ map (lx s) (ns @ [l])))"
proof (induction ns arbitrary: lp vec)
  case Nil
  then show ?case by (subst fill_vector.simps) simp
next
  case (Cons m ns)
  then show ?case by (subst fill_vector.simps) auto
qed

section \<open>Programs on lists\<close>

text \<open>
  Any number of list variables, on which a client appends, counts and converts; what the operations
  return.  The specification has a list of values for every variable.
\<close>

datatype 'a list_op = Append nat 'a | Length nat | Ltov nat

datatype 'a list_result = Done | Count nat | Vector "'a list"

fun spec_op :: "'a list_op \<Rightarrow> (nat \<Rightarrow> 'a list) \<Rightarrow> 'a list_result \<times> (nat \<Rightarrow> 'a list)" where
  "spec_op (Append v x) e = (Done, e(v := e v @ [x]))"
| "spec_op (Length v) e = (Count (length (e v)), e)"
| "spec_op (Ltov v) e = (Vector (e v), e(v := []))"

fun spec_ops :: "'a list_op list \<Rightarrow> (nat \<Rightarrow> 'a list) \<Rightarrow> 'a list_result list \<times> (nat \<Rightarrow> 'a list)" where
  "spec_ops [] e = ([], e)"
| "spec_ops (q # qs) e = (let (r, e) = spec_op q e; (rs, e) = spec_ops qs e in (r # rs, e))"

record 'a list_client =
  vars :: "nat \<Rightarrow> nat"
  lheap :: "'a list_heap"

fun client_op :: "'a list_op \<Rightarrow> 'a list_client \<Rightarrow> ('a list_result \<times> 'a list_client) outcome option" where
  "client_op (Append v x) c =
     (let (p, s) = append_c x (vars c v) (lheap c) in Some (Ret (Done, c\<lparr>vars := (vars c)(v := p), lheap := s\<rparr>)))"
| "client_op (Length v) c = map_option (\<lambda>n. Ret (Count n, c)) (length_c (vars c v) (lheap c))"
| "client_op (Ltov v) c =
     map_option (\<lambda>r. bind_outcome r (\<lambda>(vec, s). Ret (Vector vec, c\<lparr>vars := (vars c)(v := 0), lheap := s\<rparr>))) (ltov (vars c v) (lheap c))"

fun client_ops :: "'a list_op list \<Rightarrow> 'a list_client \<Rightarrow> ('a list_result list \<times> 'a list_client) outcome option" where
  "client_ops [] c = Some (Ret ([], c))"
| "client_ops (q # qs) c =
     bind_run (client_op q c) (\<lambda>r c. bind_run (client_ops qs c) (\<lambda>rs c. Some (Ret (r # rs, c))))"

text \<open>The nodes of the variables and the free nodes are apart from each other.\<close>

definition apart :: "(nat \<Rightarrow> nat list) \<Rightarrow> nat list \<Rightarrow> nat \<Rightarrow> bool" where
  "apart nodes free next \<longleftrightarrow>
     (\<forall>v. distinct (nodes v)) \<and> (\<forall>v. \<forall>u \<in> set (nodes v). 0 < u \<and> u < next \<and> u \<notin> set free) \<and>
     (\<forall>v w u. u \<in> set (nodes v) \<and> u \<in> set (nodes w) \<longrightarrow> v = w) \<and>
     distinct free \<and> (\<forall>u \<in> set free. 0 < u \<and> u < next) \<and> 0 < next"

definition represents :: "'a list_client \<Rightarrow> (nat \<Rightarrow> 'a list) \<Rightarrow> (nat \<Rightarrow> nat list) \<Rightarrow> nat list \<Rightarrow> bool" where
  "represents c e nodes free \<longleftrightarrow>
     apart nodes free (next_node (lheap c)) \<and> path (lnk (lheap c)) (freenodes (lheap c)) free 0 \<and>
     (\<forall>v. ring (lnk (lheap c)) (nodes v) \<and> vars c v = ring_ptr (nodes v) \<and> e v = map (lx (lheap c)) (nodes v))"

text \<open>A node for a new value: a free one or a new one.\<close>

lemma new_node_apart:
  assumes "apart nodes free (next_node s)" "path (lnk s) (freenodes s) free 0" "new_node s = (p, s')"
  obtains free' where "apart nodes free' (next_node s')" "path (lnk s') (freenodes s') free' 0" "lnk s' = lnk s" "lx s' = lx s"
    "p \<notin> set free'" "\<And>v. p \<notin> set (nodes v)" "0 < p" "p < next_node s'"
proof (cases free)
  case Nil
  then have "p = next_node s" "s' = s\<lparr>next_node := Suc (next_node s)\<rparr>" using assms(2,3) by (auto simp: new_node_def)
  moreover have "p \<notin> set (nodes v)" for v using calculation assms(1) by (auto simp: apart_def)
  moreover have "apart nodes [] (Suc (next_node s))" using assms(1) Nil by (auto simp: apart_def less_Suc_eq)
  ultimately show thesis using that [of "[]"] assms(1,2) Nil by (auto simp: apart_def)
next
  case (Cons f fs)
  then have f: "f = freenodes s" "f \<noteq> 0" "path (lnk s) (lnk s f) fs 0" using assms(1,2) by (auto simp: apart_def)
  then have p: "p = f" "s' = s\<lparr>freenodes := lnk s f\<rparr>" using assms(3) by (auto simp: new_node_def)
  moreover have "p \<notin> set (nodes v)" for v using assms(1) Cons p by (auto simp: apart_def)
  moreover have "apart nodes fs (next_node s)" using assms(1) Cons by (auto simp: apart_def)
  ultimately show thesis using that [of fs] assms(1) Cons f by (auto simp: apart_def)
qed

lemma ring_update: "n \<notin> set ns \<Longrightarrow> ring (h(n := v)) ns = ring h ns"
  by (simp add: ring_def)

lemma apartD:
  assumes "apart nodes free n"
  shows "distinct (nodes v)" "u \<in> set (nodes v) \<Longrightarrow> u \<notin> set free" "u \<in> set (nodes v) \<Longrightarrow> 0 < u \<and> u < n"
    "u \<in> set (nodes v) \<Longrightarrow> w \<noteq> v \<Longrightarrow> u \<notin> set (nodes w)" "distinct free" "u \<in> set free \<Longrightarrow> 0 < u \<and> u < n" "0 < n"
  using assms unfolding apart_def by blast+

lemma representsD:
  assumes "represents c e nodes free"
  shows "apart nodes free (next_node (lheap c))" "path (lnk (lheap c)) (freenodes (lheap c)) free 0"
    "ring (lnk (lheap c)) (nodes v)" "vars c v = ring_ptr (nodes v)" "e v = map (lx (lheap c)) (nodes v)"
  using assms by (simp_all add: represents_def)

lemma append_ring:
  assumes "ring h ns" "distinct ns" "p \<notin> set ns" "ns \<noteq> []"
  shows "ring (h(p := h (last ns), last ns := p)) (ns @ [p])"
proof -
  obtain bs l where ns: "ns = bs @ [l]" using assms(4) by (cases ns rule: rev_cases) auto
  have r: "path h (hd ns) bs l" "h l = hd ns" using assms(1) by (auto simp: ns ring_snoc)
  let ?h = "h(p := h l, l := p)"
  have "path ?h (hd ns) bs l" using r(1) assms(2,3) by (simp add: ns)
  then have "path ?h (hd ns) (bs @ [l]) p" by (auto simp: path_append)
  moreover have "?h p = hd ns" using r(2) assms(3) by (auto simp: ns)
  moreover have "hd (ns @ [p]) = hd ns" using assms(4) by simp
  ultimately show ?thesis unfolding ring_snoc ns by simp
qed

lemma represents_append:
  assumes rep: "represents c e nodes free" and app: "append_c x (vars c v) (lheap c) = (p, s')"
  obtains free' where "represents (c\<lparr>vars := (vars c)(v := p), lheap := s'\<rparr>) (e(v := e v @ [x])) (nodes(v := nodes v @ [p])) free'"
proof -
  obtain s1 where n: "new_node (lheap c) = (p, s1)" using app by (auto simp: append_c_def Let_def split: prod.splits)
  obtain free' where f: "apart nodes free' (next_node s1)" "path (lnk s1) (freenodes s1) free' 0" "lnk s1 = lnk (lheap c)" "lx s1 = lx (lheap c)"
    "p \<notin> set free'" "\<And>v. p \<notin> set (nodes v)" "0 < p" "p < next_node s1"
    by (rule new_node_apart [OF representsD(1,2) [OF rep] n]) blast
  let ?l = "ring_ptr (nodes v)"
  have l: "vars c v = ?l" by (rule representsD(4) [OF rep])
  define h where "h = (if ?l \<noteq> 0 then (lnk s1)(p := lnk s1 ?l, ?l := p) else (lnk s1)(p := p))"
  have s': "s' = s1\<lparr>lnk := h, lx := (lx s1)(p := x)\<rparr>" using app n l by (simp add: append_c_def h_def)
  have zero: "?l = 0 \<longleftrightarrow> nodes v = []" using apartD(3) [OF f(1), of "last (nodes v)" v] by (auto simp: ring_ptr_def)
  have lin: "?l \<noteq> 0 \<Longrightarrow> ?l \<in> set (nodes v)" using zero by (simp add: ring_ptr_def)
  have rings: "ring (lnk s1) (nodes w)" "distinct (nodes w)" for w using representsD(3) [OF rep] f(3) apartD(1) [OF f(1)] by simp_all
  have other: "w \<noteq> v \<Longrightarrow> ?l \<noteq> 0 \<Longrightarrow> ?l \<notin> set (nodes w)" "?l \<noteq> 0 \<Longrightarrow> ?l \<notin> set free'" for w
    using lin apartD(2,4) [OF f(1)] by blast+
  have r1: "ring h (nodes w)" if "w \<noteq> v" for w using rings that other f(6) by (simp add: h_def ring_update)
  have r2: "ring h (nodes v @ [p])"
  proof (cases "nodes v = []")
    case True
    then show ?thesis using zero by (simp add: h_def ring_def)
  next
    case False
    then show ?thesis using append_ring [OF rings [of v] f(6) False] zero by (simp add: h_def ring_ptr_def)
  qed
  have fr: "path h (freenodes s1) free' 0" using f(2,5) other(2) by (simp add: h_def)
  have ap: "apart (nodes(v := nodes v @ [p])) free' (next_node s1)"
    using f(1,5,6,7,8) by (auto simp: apart_def) (metis apartD(4) [OF f(1)])+
  have vals: "map ((lx s1)(p := x)) (nodes w) = map (lx (lheap c)) (nodes w)" for w
    unfolding f(4) using f(6) by (intro map_cong) auto
  note ev = representsD(5) [OF rep] and vs = representsD(4) [OF rep]
  have "represents (c\<lparr>vars := (vars c)(v := p), lheap := s'\<rparr>) (e(v := e v @ [x])) (nodes(v := nodes v @ [p])) free'"
    unfolding represents_def s' using ap fr r1 r2 vals ev vs by (auto simp: ring_ptr_def)
  then show thesis using that by blast
qed

lemma represents_length:
  assumes "represents c e nodes free"
  shows "length_c (vars c v) (lheap c) = Some (length (e v))"
proof (cases "nodes v" rule: rev_cases)
  case Nil
  then show ?thesis using assms by (simp add: represents_def length_c_def ring_ptr_def)
next
  case (snoc ns l)
  have r: "ring (lnk (lheap c)) (nodes v)" "vars c v = ring_ptr (nodes v)" "e v = map (lx (lheap c)) (nodes v)" "distinct (nodes v)"
    "l \<noteq> 0"
    using representsD(3,4,5) [OF assms, of v] apartD(1) [OF representsD(1) [OF assms], of v]
      apartD(3) [OF representsD(1) [OF assms], of l v] snoc by simp_all
  have "path (lnk (lheap c)) (lnk (lheap c) l) (ns @ [l]) (hd (ns @ [l]))" using r(1) snoc by (auto simp: ring_snoc path_append)
  then show ?thesis using count_nodes_path [of "lnk (lheap c)" l ns l] r snoc by (simp add: length_c_def ring_ptr_def)
qed

lemma represents_ltov:
  assumes rep: "represents c e nodes free"
  shows "\<exists>s'. ltov (vars c v) (lheap c) = Some (Ret (e v, s')) \<and>
    represents (c\<lparr>vars := (vars c)(v := 0), lheap := s'\<rparr>) (e(v := [])) (nodes(v := [])) (nodes v @ free)"
proof (cases "nodes v" rule: rev_cases)
  case Nil
  then have "ltov (vars c v) (lheap c) = Some (Ret (e v, lheap c))" "e v = []" "vars c v = 0"
    using representsD [OF rep] by (simp_all add: ltov_def length_c_def ring_ptr_def)
  then show ?thesis using rep Nil by (simp add: fun_upd_idem)
next
  case (snoc ns l)
  let ?s = "lheap c" and ?h = "(lnk (lheap c))(l := freenodes (lheap c))"
  note ap = representsD(1) [OF rep]
  have r: "ring (lnk ?s) (ns @ [l])" "vars c v = l" "e v = map (lx ?s) (ns @ [l])" "distinct (ns @ [l])" "l \<noteq> 0"
    using representsD(3,4,5) [OF rep, of v] apartD(1) [OF ap, of v] apartD(3) [OF ap, of l v] snoc by (simp_all add: ring_ptr_def)
  have p: "path (lnk ?s) (hd (ns @ [l])) ns l" "lnk ?s l = hd (ns @ [l])" using r(1) by (simp_all add: ring_snoc)
  have "path (lnk ?s) (lnk ?s l) (ns @ [l]) (hd (ns @ [l]))" using p by (auto simp: path_append)
  then have "fill_vector ?s l (length (e v) + 1) l [] = Some (Ret (map (lx ?s) (ns @ [l])))"
    using fill_vector_path [of ?s l ns l "hd (ns @ [l])" "[]" "length (e v) + 1"] r(3,4) by simp
  then have "ltov (vars c v) ?s = Some (Ret (e v, ?s\<lparr>lnk := ?h, freenodes := lnk ?s l\<rparr>))"
    using represents_length [OF rep, of v] r by (simp add: ltov_def)
  moreover have "represents (c\<lparr>vars := (vars c)(v := 0), lheap := ?s\<lparr>lnk := ?h, freenodes := lnk ?s l\<rparr>\<rparr>) (e(v := [])) (nodes(v := [])) (nodes v @ free)"
  proof -
    have lin: "l \<in> set (nodes v)" using snoc by simp
    have "apart (nodes(v := [])) (nodes v @ free) (next_node ?s)"
      using ap unfolding apart_def by auto (metis apartD(4) [OF ap])
    moreover have "path ?h (lnk ?s l) (nodes v @ free) 0"
      using p r(4) representsD(2) [OF rep] apartD(2) [OF ap lin] by (auto simp: snoc path_append)
    moreover have "ring ?h (nodes w)" if "w \<noteq> v" for w
      using representsD(3) [OF rep] apartD(4) [OF ap lin that] by (simp add: ring_update)
    ultimately show ?thesis using representsD(4,5) [OF rep] by (simp add: represents_def ring_ptr_def ring_def)
  qed
  ultimately show ?thesis by blast
qed

lemma client_op_spec:
  assumes "represents c e nodes free"
  shows "\<exists>c' nodes' free'. client_op q c = Some (Ret (fst (spec_op q e), c')) \<and> represents c' (snd (spec_op q e)) nodes' free'"
proof (cases q)
  case (Append v x)
  obtain p s' where "append_c x (vars c v) (lheap c) = (p, s')" by fastforce
  moreover obtain free' where
    "represents (c\<lparr>vars := (vars c)(v := p), lheap := s'\<rparr>) (e(v := e v @ [x])) (nodes(v := nodes v @ [p])) free'"
    by (rule represents_append [OF assms calculation])
  ultimately show ?thesis using Append by (auto simp: Let_def)
next
  case (Length v)
  then show ?thesis using represents_length [OF assms] assms by auto
next
  case (Ltov v)
  then show ?thesis using represents_ltov [OF assms, of v] by fastforce
qed

lemma client_ops_spec:
  "represents c e nodes free \<Longrightarrow>
    \<exists>c' nodes' free'. client_ops qs c = Some (Ret (fst (spec_ops qs e), c')) \<and> represents c' (snd (spec_ops qs e)) nodes' free'"
proof (induction qs arbitrary: c e nodes free)
  case (Cons q qs)
  obtain c1 n1 f1 where 1: "client_op q c = Some (Ret (fst (spec_op q e), c1))" "represents c1 (snd (spec_op q e)) n1 f1"
    using client_op_spec [OF Cons.prems] by blast
  obtain c2 n2 f2 where "client_ops qs c1 = Some (Ret (fst (spec_ops qs (snd (spec_op q e))), c2))"
      "represents c2 (snd (spec_ops qs (snd (spec_op q e)))) n2 f2"
    using Cons.IH [OF 1(2)] by blast
  then show ?case using 1 by (intro exI [of _ c2] exI [of _ n2] exI [of _ f2]) (simp add: bind_run_def split_beta Let_def)
qed auto

definition no_lists :: "'a list_heap" where
  "no_lists = \<lparr>lnk = (\<lambda>_. 0), lx = (\<lambda>_. undefined), freenodes = 0, next_node = 1\<rparr>"

text \<open>
  Claim C36: the circular lists are sequences.  Whatever appends, counts and conversions to vectors a
  program performs on any number of lists, it gets the results that it would get from sequences of
  values, although the lists share their free nodes; every operation returns, and a vector is
  never written past its end.
\<close>

theorem lists_refine_sequences:
  "\<exists>c'. client_ops qs \<lparr>vars = (\<lambda>_. 0), lheap = no_lists\<rparr> = Some (Ret (fst (spec_ops qs (\<lambda>_. [])), c'))"
proof -
  have "represents \<lparr>vars = (\<lambda>_. 0), lheap = no_lists\<rparr> (\<lambda>_. []) (\<lambda>_. []) []"
    by (simp add: represents_def apart_def ring_def ring_ptr_def no_lists_def)
  then show ?thesis using client_ops_spec by blast
qed

end
