(* ===== verification/LCC_Sym.thy ===== *)
theory LCC_Sym
  imports LCC_List
begin

text \<open>
  The symbol tables of lcc (src/lcc-1.3/src/sym.c) and the removal of types at the end of a scope
  (rmtypes of src/lcc-1.3/src/types.c).  Tables and symbols are cells of a heap; the entries of a
  table are chained by their hash value and in the order of their installation.  Source
  coordinates and the calls to the code generator are not modelled.
\<close>

section \<open>Data\<close>

text \<open>
  A name is the address that the string table gives for it.  The null pointer is 0.  A type is the
  address of its cell; the state has the types that the compiler refers to by name and the metrics
  of pointers.
\<close>

record symbol =
  sy_name :: nat
  sy_scope :: int
  sy_up :: nat
  sy_link :: nat
  sy_sclass :: int
  sy_temporary :: bool
  sy_generated :: bool
  sy_defined :: bool
  sy_type :: nat
  sy_label :: int

record sytable =
  tb_level :: int
  tb_previous :: nat
  tb_buckets :: "nat \<Rightarrow> nat"
  tb_all :: nat

datatype typeop =
  FLOAT | INTt | UNSIGNED | POINTER | VOID | STRUCT | UNION | FUNCTION | ARRAY | ENUM | CONSTt | VOLATILE | CONST_VOLATILE

record type_cell =
  ty_op :: typeop
  ty_type :: nat
  ty_size :: int
  ty_align :: int
  ty_sym :: nat
  ty_oldstyle :: bool
  ty_proto :: "nat list option"

record lcc =
  tabs :: "nat \<Rightarrow> sytable"
  syms :: "nat \<Rightarrow> symbol"
  tys :: "nat \<Rightarrow> type_cell"
  typetable :: "nat \<Rightarrow> nat list"
  maxlevel :: int
  next_tab :: nat
  next_sym :: nat
  next_ty :: nat
  identifiers :: nat
  types_tab :: nat
  labels :: nat
  level :: int
  tempid :: int
  next_label :: int
  warnings :: "string list"
  Aflag :: int
  errors :: "string list"
  chartype :: nat
  signedchar :: nat
  unsignedchar :: nat
  shorttype :: nat
  unsignedshort :: nat
  inttype :: nat
  unsignedtype :: nat
  longtype :: nat
  unsignedlong :: nat
  longlong :: nat
  unsignedlonglong :: nat
  floattype :: nat
  doubletype :: nat
  longdouble :: nat
  voidtype :: nat
  voidptype :: nat
  funcptype :: nat
  pointersym :: nat
  ptr_size :: int
  ptr_align :: int

definition CONSTANTS :: int where "CONSTANTS = 1"
definition LABELS :: int where "LABELS = 2"
definition GLOBAL :: int where "GLOBAL = 3"
definition PARAM :: int where "PARAM = 4"
definition LOCAL :: int where "LOCAL = 5"

definition HASHSIZE :: nat where "HASHSIZE = 256"

definition no_symbol :: symbol where
  "no_symbol = \<lparr>sy_name = 0, sy_scope = 0, sy_up = 0, sy_link = 0, sy_sclass = 0, sy_temporary = False, sy_generated = False,
     sy_defined = False, sy_type = 0, sy_label = 0\<rparr>"

definition no_table :: sytable where
  "no_table = \<lparr>tb_level = 0, tb_previous = 0, tb_buckets = (\<lambda>_. 0), tb_all = 0\<rparr>"

section \<open>Tables\<close>

definition newtable :: "lcc \<Rightarrow> nat \<times> lcc" where
  "newtable s = (next_tab s, s\<lparr>tabs := (tabs s)(next_tab s := no_table), next_tab := Suc (next_tab s)\<rparr>)"

definition table_c :: "nat \<Rightarrow> int \<Rightarrow> lcc \<Rightarrow> nat \<times> lcc" where
  "table_c tp lev s =
     (let (new, s) = newtable s;
          t = no_table\<lparr>tb_previous := tp, tb_level := lev, tb_all := (if tp \<noteq> 0 then tb_all (tabs s tp) else 0)\<rparr>
      in (new, s\<lparr>tabs := (tabs s)(new := t)\<rparr>))"

text \<open>A new entry in a bucket, in front of the others and of all symbols of the table.\<close>

definition enter_symbol :: "nat \<Rightarrow> nat \<Rightarrow> symbol \<Rightarrow> lcc \<Rightarrow> nat \<times> lcc" where
  "enter_symbol tp h y s =
     (let p = next_sym s; t = tabs s tp;
          y = y\<lparr>sy_up := tb_all t, sy_link := tb_buckets t h\<rparr>;
          t = t\<lparr>tb_all := p, tb_buckets := (tb_buckets t)(h := p)\<rparr>
      in (p, s\<lparr>syms := (syms s)(p := y), tabs := (tabs s)(tp := t), next_sym := Suc p\<rparr>))"

text \<open>The table variable is passed and returned.\<close>

definition install :: "nat \<Rightarrow> nat \<Rightarrow> int \<Rightarrow> lcc \<Rightarrow> (nat \<times> nat \<times> lcc) outcome" where
  "install name tp lev s =
     (if tp = 0 then Undef
      else if \<not> (lev = 0 \<or> tb_level (tabs s tp) \<le> lev) then Abort
      else
        let (tp, s) = (if 0 < lev \<and> tb_level (tabs s tp) < lev then table_c tp lev s else (tp, s));
            (p, s) = enter_symbol tp (name mod HASHSIZE) (no_symbol\<lparr>sy_name := name, sy_scope := lev\<rparr>) s
        in Ret (p, tp, s))"

partial_function (option) chain_find :: "(nat \<Rightarrow> symbol) \<Rightarrow> (symbol \<Rightarrow> bool) \<Rightarrow> nat \<Rightarrow> nat option" where
  "chain_find sy P p = (if p = 0 then Some 0 else if P (sy p) then Some p else chain_find sy P (sy_link (sy p)))"

partial_function (option) lookup_from :: "nat \<Rightarrow> nat \<Rightarrow> lcc \<Rightarrow> nat option" where
  "lookup_from name tp s =
     Option.bind (chain_find (syms s) (\<lambda>y. sy_name y = name) (tb_buckets (tabs s tp) (name mod HASHSIZE))) (\<lambda>p.
     if p \<noteq> 0 then Some p
     else let tp = tb_previous (tabs s tp) in if tp \<noteq> 0 then lookup_from name tp s else Some 0)"

definition lookup_c :: "nat \<Rightarrow> nat \<Rightarrow> lcc \<Rightarrow> nat outcome option" where
  "lookup_c name tp s = (if tp = 0 then Some Abort else map_option Ret (lookup_from name tp s))"

section \<open>Scopes\<close>

definition enterscope :: "lcc \<Rightarrow> lcc" where
  "enterscope s = (let l = level s + 1 in s\<lparr>level := l, tempid := (if l = LOCAL then 0 else tempid s)\<rparr>)"

text \<open>The types of a chain that stay, and the highest level among them.\<close>

fun rm_chain :: "int \<Rightarrow> (nat \<Rightarrow> type_cell) \<Rightarrow> (nat \<Rightarrow> symbol) \<Rightarrow> nat list \<Rightarrow> int \<Rightarrow> nat list \<times> int" where
  "rm_chain lev ty sy [] m = ([], m)"
| "rm_chain lev ty sy (tn # tns) m =
     (let u = ty_sym (ty tn) in
      if ty_op (ty tn) = FUNCTION then apfst (\<lambda>r. tn # r) (rm_chain lev ty sy tns m)
      else if u \<noteq> 0 \<and> lev \<le> sy_scope (sy u) then rm_chain lev ty sy tns m
      else apfst (\<lambda>r. tn # r) (rm_chain lev ty sy tns (if u \<noteq> 0 \<and> m < sy_scope (sy u) then sy_scope (sy u) else m)))"

fun rm_buckets :: "int \<Rightarrow> nat list \<Rightarrow> lcc \<Rightarrow> lcc" where
  "rm_buckets lev [] s = s"
| "rm_buckets lev (i # is) s =
     (let (tns, m) = rm_chain lev (tys s) (syms s) (typetable s i) (maxlevel s)
      in rm_buckets lev is (s\<lparr>typetable := (typetable s)(i := tns), maxlevel := m\<rparr>))"

definition rmtypes :: "int \<Rightarrow> lcc \<Rightarrow> lcc" where
  "rmtypes lev s = (if lev \<le> maxlevel s then rm_buckets lev [0..<128] (s\<lparr>maxlevel := 0\<rparr>) else s)"

text \<open>Whether more than 127 symbols of a scope come first; the loop stops at the 128th.\<close>

function many_symbols :: "(nat \<Rightarrow> symbol) \<Rightarrow> int \<Rightarrow> nat \<Rightarrow> nat \<Rightarrow> bool" where
  "many_symbols sy lev p n =
     (if p = 0 \<or> sy_scope (sy p) \<noteq> lev then False else if 127 < n + 1 then True else many_symbols sy lev (sy_up (sy p)) (n + 1))"
  by pat_completeness auto
termination by (relation "measure (\<lambda>(sy, lev, p, n). 128 - n)") auto

declare many_symbols.simps [simp del]

definition exitscope :: "lcc \<Rightarrow> lcc outcome" where
  "exitscope s =
     (let s = rmtypes (level s) s in
      if types_tab s = 0 then Undef
      else
        let s = (if tb_level (tabs s (types_tab s)) = level s then s\<lparr>types_tab := tb_previous (tabs s (types_tab s))\<rparr> else s);
            t = tabs s (identifiers s)
        in if identifiers s = 0 then Undef
           else
             let s = (if tb_level t = level s then
                        (if 2 \<le> Aflag s \<and> many_symbols (syms s) (level s) (tb_all t) 0
                         then s\<lparr>warnings := warnings s @ [''more than 127 identifiers declared in a block'']\<rparr> else s)\<lparr>identifiers := tb_previous t\<rparr>
                      else s)
             in if level s < GLOBAL then Abort else Ret (s\<lparr>level := level s - 1\<rparr>))"

section \<open>Other operations\<close>

text \<open>
  relocate moves an entry from one table to another: the pointer to the entry, in the bucket or in
  another entry, and the pointer to it in the list of all symbols are replaced by its successors.
\<close>

partial_function (option) unlink_chain :: "nat \<Rightarrow> nat \<Rightarrow> (nat \<Rightarrow> symbol) \<Rightarrow> (nat \<times> nat \<times> (nat \<Rightarrow> symbol)) option" where
  "unlink_chain name q sy =
     (if q = 0 then Some (0, 0, sy)
      else if name = sy_name (sy q) then Some (q, sy_link (sy q), sy)
      else Option.bind (unlink_chain name (sy_link (sy q)) sy) (\<lambda>(p, l, sy). Some (p, q, sy(q := (sy q)\<lparr>sy_link := l\<rparr>))))"

partial_function (option) unlink_all :: "nat \<Rightarrow> nat \<Rightarrow> (nat \<Rightarrow> symbol) \<Rightarrow> (bool \<times> nat \<times> (nat \<Rightarrow> symbol)) option" where
  "unlink_all p r sy =
     (if r = 0 then Some (False, 0, sy)
      else if r = p then Some (True, sy_up (sy p), sy)
      else Option.bind (unlink_all p (sy_up (sy r)) sy) (\<lambda>(ok, l, sy). Some (ok, r, sy(r := (sy r)\<lparr>sy_up := l\<rparr>))))"

definition relocate :: "nat \<Rightarrow> nat \<Rightarrow> nat \<Rightarrow> lcc \<Rightarrow> (nat \<times> lcc) outcome option" where
  "relocate name src dst s =
     (let h = name mod HASHSIZE in
      Option.bind (unlink_chain name (tb_buckets (tabs s src) h) (syms s)) (\<lambda>(p, l, sy).
      if p = 0 then Some Abort
      else map_option (\<lambda>(ok, u, sy).
        if \<not> ok then Abort
        else
          let tb = (tabs s)(src := (tabs s src)\<lparr>tb_buckets := (tb_buckets (tabs s src))(h := l), tb_all := u\<rparr>);
              sy = sy(p := (sy p)\<lparr>sy_link := tb_buckets (tb dst) h, sy_up := tb_all (tb dst)\<rparr>);
              tb = tb(dst := (tb dst)\<lparr>tb_buckets := (tb_buckets (tb dst))(h := p), tb_all := p\<rparr>)
          in Ret (p, s\<lparr>tabs := tb, syms := sy\<rparr>)) (unlink_all p (tb_all (tabs s src)) sy)))"

definition genlabel :: "int \<Rightarrow> lcc \<Rightarrow> int \<times> lcc" where
  "genlabel n s = (let l = next_label s + n in (l - n, s\<lparr>next_label := l\<rparr>))"

definition allsymbols :: "nat \<Rightarrow> lcc \<Rightarrow> nat" where
  "allsymbols tp s = tb_all (tabs s tp)"

text \<open>foreach: the symbols that a function is applied to.\<close>

partial_function (option) table_of_level :: "int \<Rightarrow> nat \<Rightarrow> lcc \<Rightarrow> nat option" where
  "table_of_level lev tp s =
     (if tp \<noteq> 0 \<and> lev < tb_level (tabs s tp) then table_of_level lev (tb_previous (tabs s tp)) s else Some tp)"

partial_function (option) scope_symbols :: "int \<Rightarrow> nat \<Rightarrow> lcc \<Rightarrow> nat list option" where
  "scope_symbols lev p s =
     (if p \<noteq> 0 \<and> sy_scope (syms s p) = lev then Option.bind (scope_symbols lev (sy_up (syms s p)) s) (\<lambda>ps. Some (p # ps)) else Some [])"

definition foreach_symbols :: "nat \<Rightarrow> int \<Rightarrow> lcc \<Rightarrow> nat list outcome option" where
  "foreach_symbols tp lev s =
     (if tp = 0 then Some Abort
      else Option.bind (table_of_level lev tp s) (\<lambda>tp.
        if tp \<noteq> 0 \<and> tb_level (tabs s tp) = lev then map_option Ret (scope_symbols lev (tb_all (tabs s tp)) s) else Some (Ret [])))"

section \<open>Invariants\<close>

text \<open>
  Tables of two name spaces, those of the identifiers and those of the tags: \<open>own\<close> tells them
  apart.  A table's predecessor is an older table of the same name space, and every chain ends.
\<close>

definition top_tab :: "bool \<Rightarrow> lcc \<Rightarrow> nat" where
  "top_tab ns s = (if ns then identifiers s else types_tab s)"

definition set_top :: "bool \<Rightarrow> nat \<Rightarrow> lcc \<Rightarrow> lcc" where
  "set_top ns t s = (if ns then s\<lparr>identifiers := t\<rparr> else s\<lparr>types_tab := t\<rparr>)"

abbreviation links :: "lcc \<Rightarrow> nat \<Rightarrow> nat" where
  "links s \<equiv> (\<lambda>p. sy_link (syms s p))"

definition chain_ok :: "lcc \<Rightarrow> nat \<Rightarrow> bool" where
  "chain_ok s a \<longleftrightarrow> (\<exists>ps. path (links s) a ps 0 \<and> (\<forall>p \<in> set ps. 0 < p \<and> p < next_sym s))"

definition heap_ok :: "(nat \<Rightarrow> bool) \<Rightarrow> lcc \<Rightarrow> bool" where
  "heap_ok own s \<longleftrightarrow> 0 < next_sym s \<and> 0 < next_tab s \<and>
     (\<forall>t. 0 < t \<and> t < next_tab s \<longrightarrow>
        tb_previous (tabs s t) < t \<and> (tb_previous (tabs s t) \<noteq> 0 \<longrightarrow> own (tb_previous (tabs s t)) = own t) \<and>
        (\<forall>h. chain_ok s (tb_buckets (tabs s t) h)))"

definition scopes_ok :: "(nat \<Rightarrow> bool) \<Rightarrow> lcc \<Rightarrow> bool" where
  "scopes_ok own s \<longleftrightarrow> heap_ok own s \<and> GLOBAL \<le> level s \<and>
     (\<forall>ns. 0 < top_tab ns s \<and> top_tab ns s < next_tab s \<and> own (top_tab ns s) = ns \<and> tb_level (tabs s (top_tab ns s)) \<le> level s)"

lemma heap_okD:
  assumes "heap_ok own s"
  shows "0 < next_sym s" "0 < next_tab s" "0 < t \<Longrightarrow> t < next_tab s \<Longrightarrow> tb_previous (tabs s t) < t"
    "0 < t \<Longrightarrow> t < next_tab s \<Longrightarrow> tb_previous (tabs s t) \<noteq> 0 \<Longrightarrow> own (tb_previous (tabs s t)) = own t"
    "0 < t \<Longrightarrow> t < next_tab s \<Longrightarrow> chain_ok s (tb_buckets (tabs s t) h)"
  using assms by (simp_all add: heap_ok_def)

text \<open>What a search sees of the heap: the symbols of the chain.\<close>

lemma chain_find_path:
  "path (links s) a ps 0 \<Longrightarrow> \<forall>p \<in> set ps. 0 < p \<Longrightarrow>
    chain_find (syms s) P a = Some (case find (\<lambda>p. P (syms s p)) ps of None \<Rightarrow> 0 | Some p \<Rightarrow> p)"
  by (induction ps arbitrary: a) (subst chain_find.simps; auto)+

lemma path_links_cong:
  "path (links s) a ps b \<Longrightarrow> \<forall>p \<in> set ps. syms s' p = syms s p \<Longrightarrow> path (links s') a ps b"
  by (induction ps arbitrary: a) auto

lemma chain_ok_frame:
  assumes "chain_ok s a" "\<forall>p < next_sym s. syms s' p = syms s p" "next_sym s \<le> next_sym s'"
  shows "chain_ok s' a" "chain_find (syms s') P a = chain_find (syms s) P a"
proof -
  obtain ps where ps: "path (links s) a ps 0" "\<forall>p \<in> set ps. 0 < p \<and> p < next_sym s" using assms(1) by (auto simp: chain_ok_def)
  then have p': "path (links s') a ps 0" using assms(2) by (intro path_links_cong [OF ps(1)]) auto
  then show "chain_ok s' a" using ps(2) assms(3) by (fastforce simp: chain_ok_def)
  have "find (\<lambda>p. P (syms s' p)) ps = find (\<lambda>p. P (syms s p)) ps" using ps(2) assms(2) by (intro find_cong) auto
  then show "chain_find (syms s') P a = chain_find (syms s) P a" using ps p' by (simp add: chain_find_path)
qed

lemma chain_find_total: "chain_ok s a \<Longrightarrow> \<exists>p. chain_find (syms s) P a = Some p"
  by (auto simp: chain_ok_def chain_find_path)

lemma lookup_total: "heap_ok own s \<Longrightarrow> 0 < t \<Longrightarrow> t < next_tab s \<Longrightarrow> \<exists>p. lookup_from name t s = Some p"
proof (induction t rule: less_induct)
  case (less t)
  obtain p where p: "chain_find (syms s) (\<lambda>y. sy_name y = name) (tb_buckets (tabs s t) (name mod HASHSIZE)) = Some p"
    using chain_find_total [OF heap_okD(5) [OF less.prems]] by blast
  have "\<exists>q. lookup_from name (tb_previous (tabs s t)) s = Some q" if "tb_previous (tabs s t) \<noteq> 0"
    using less.IH [OF heap_okD(3) [OF less.prems] less.prems(1)] heap_okD(3) [OF less.prems] less.prems(3) that by simp
  then show ?case using p by (subst lookup_from.simps) (auto simp: Let_def)
qed

lemma lookup_frame:
  "heap_ok own s \<Longrightarrow> 0 < t \<Longrightarrow> t < next_tab s \<Longrightarrow> \<forall>u. 0 < u \<and> u \<le> t \<and> own u = own t \<longrightarrow> tabs s' u = tabs s u \<Longrightarrow>
    \<forall>p < next_sym s. syms s' p = syms s p \<Longrightarrow> next_sym s \<le> next_sym s' \<Longrightarrow> lookup_from name t s' = lookup_from name t s"
proof (induction t rule: less_induct)
  case (less t)
  let ?pr = "tb_previous (tabs s t)"
  have t: "tabs s' t = tabs s t" using less.prems(2,4) by simp
  have c: "chain_find (syms s') P (tb_buckets (tabs s t) h) = chain_find (syms s) P (tb_buckets (tabs s t) h)" for P h
    by (rule chain_ok_frame(2) [OF heap_okD(5) [OF less.prems(1-3)] less.prems(5,6)])
  have lt: "?pr < t" by (rule heap_okD(3) [OF less.prems(1-3)])
  have "lookup_from name ?pr s' = lookup_from name ?pr s" if "?pr \<noteq> 0"
    using less.IH [OF lt less.prems(1)] lt less.prems that heap_okD(4) [OF less.prems(1-3) that] by simp
  then show ?case by (subst (1 2) lookup_from.simps) (simp add: t c Let_def cong: if_cong bind_option_cong)
qed

text \<open>A heap that grew by one symbol that is not yet in a chain, or by an empty table.\<close>

lemma heap_ok_grow:
  assumes h: "heap_ok own s" and y: "\<forall>p < next_sym s. syms s' p = syms s p" "next_sym s \<le> next_sym s'" "next_tab s' = next_tab s"
    and t: "\<And>t. 0 < t \<Longrightarrow> t < next_tab s \<Longrightarrow> tb_previous (tabs s' t) = tb_previous (tabs s t) \<and>
      (\<forall>h. tb_buckets (tabs s' t) h = tb_buckets (tabs s t) h \<or> chain_ok s' (tb_buckets (tabs s' t) h))"
  shows "heap_ok own s'"
  unfolding heap_ok_def
proof (intro conjI allI impI; (elim conjE)?)
  fix t k assume a: "0 < t" "t < next_tab s'"
  then have a': "t < next_tab s" using y(3) by simp
  note o = heap_okD(3-5) [OF h a(1) a']
  show "tb_previous (tabs s' t) < t" using t [OF a(1) a'] o(1) by simp
  show "own (tb_previous (tabs s' t)) = own t" if "tb_previous (tabs s' t) \<noteq> 0" using t [OF a(1) a'] o(2) that by simp
  show "chain_ok s' (tb_buckets (tabs s' t) k)"
    using t [OF a(1) a'] chain_ok_frame(1) [OF o(3) y(1,2), of k] by metis
qed (use heap_okD(1,2) [OF h] y(2,3) in auto)

lemma table_c_heap:
  assumes h: "heap_ok own s" and tp: "0 < tp" "tp < next_tab s" and c: "table_c tp lev s = (new, s')"
  shows "new = next_tab s" "heap_ok (own(new := own tp)) s'" "lookup_from n new s' = lookup_from n tp s"
    "tb_level (tabs s' new) = lev" "tb_previous (tabs s' new) = tp"
    "s' = s\<lparr>tabs := tabs s', next_tab := Suc (next_tab s)\<rparr>" "t < next_tab s \<Longrightarrow> tabs s' t = tabs s t"
proof -
  show new: "new = next_tab s" and s': "s' = s\<lparr>tabs := tabs s', next_tab := Suc (next_tab s)\<rparr>"
    and old: "\<And>t. t < next_tab s \<Longrightarrow> tabs s' t = tabs s t" and l: "tb_level (tabs s' new) = lev" "tb_previous (tabs s' new) = tp"
    using c tp by (auto simp: table_c_def newtable_def Let_def no_table_def)
  have e: "tb_buckets (tabs s' new) k = 0" for k using c by (auto simp: table_c_def newtable_def Let_def no_table_def)
  have sy: "syms s' = syms s" "next_sym s' = next_sym s" "next_tab s' = Suc (next_tab s)" by (subst s', simp)+
  have ok: "chain_ok s' a" if "chain_ok s a" for a using that by (simp add: chain_ok_def sy)
  have "chain_ok s' 0" by (auto simp: chain_ok_def intro: exI [of _ "[]"])
  then show "heap_ok (own(new := own tp)) s'"
    using h tp new old l e ok unfolding heap_ok_def sy by (auto simp: less_Suc_eq)
  have "lookup_from n tp s' = lookup_from n tp s"
    using old tp by (intro lookup_frame [OF h tp]) (auto simp: sy)
  then show "lookup_from n new s' = lookup_from n tp s"
    using tp by (subst lookup_from.simps) (simp add: e l Let_def chain_find.simps)
qed

lemma enter_symbol_heap:
  assumes h: "heap_ok own s" and tp: "0 < tp" "tp < next_tab s" and y: "sy_name y = name"
    and c: "enter_symbol tp (name mod HASHSIZE) y s = (p, s')"
  shows "p = next_sym s" "heap_ok own s'" "lookup_from n tp s' = (if n = name then Some p else lookup_from n tp s)"
    "tb_level (tabs s' tp) = tb_level (tabs s tp)" "tb_previous (tabs s' tp) = tb_previous (tabs s tp)"
    "s' = s\<lparr>tabs := tabs s', syms := syms s', next_sym := Suc (next_sym s)\<rparr>" "t \<noteq> tp \<Longrightarrow> tabs s' t = tabs s t"
    "q < next_sym s \<Longrightarrow> syms s' q = syms s q"
proof -
  let ?a = "tb_buckets (tabs s tp)" and ?h = "name mod HASHSIZE"
  show p: "p = next_sym s" and s': "s' = s\<lparr>tabs := tabs s', syms := syms s', next_sym := Suc (next_sym s)\<rparr>"
    and old: "\<And>t. t \<noteq> tp \<Longrightarrow> tabs s' t = tabs s t" "\<And>q. q < next_sym s \<Longrightarrow> syms s' q = syms s q"
    and l: "tb_level (tabs s' tp) = tb_level (tabs s tp)" "tb_previous (tabs s' tp) = tb_previous (tabs s tp)"
    using c by (auto simp: enter_symbol_def Let_def)
  have b: "tb_buckets (tabs s' tp) = ?a(?h := p)" "syms s' p = y\<lparr>sy_up := tb_all (tabs s tp), sy_link := ?a ?h\<rparr>"
    using c by (auto simp: enter_symbol_def Let_def)
  have ns: "next_sym s' = Suc (next_sym s)" "next_tab s' = next_tab s" by (subst s', simp)+
  note cf = chain_ok_frame [OF heap_okD(5) [OF h tp], of s'] and o = heap_okD [OF h]
  obtain ps where "path (links s') (?a ?h) ps 0" "\<forall>p \<in> set ps. 0 < p \<and> p < next_sym s'"
    using cf(1) [of ?h] old(2) by (auto simp: ns chain_ok_def)
  then have "chain_ok s' p" using o(1) b(2) unfolding chain_ok_def by (intro exI [of _ "p # ps"]) (simp add: p ns)
  then have "tb_previous (tabs s' t) = tb_previous (tabs s t) \<and>
      (\<forall>h. tb_buckets (tabs s' t) h = tb_buckets (tabs s t) h \<or> chain_ok s' (tb_buckets (tabs s' t) h))" for t
    using old(1) [of t] l b(1) by (cases "t = tp") auto
  then show "heap_ok own s'" using old(2) by (intro heap_ok_grow [OF h]) (simp_all add: ns)
  show "lookup_from n tp s' = (if n = name then Some p else lookup_from n tp s)"
  proof (cases "n = name")
    case True
    then show ?thesis using o(1) p y b by (subst lookup_from.simps, subst chain_find.simps) simp
  next
    case False
    let ?P = "\<lambda>y. sy_name y = n"
    have "chain_find (syms s') ?P (tb_buckets (tabs s' tp) (n mod HASHSIZE)) = chain_find (syms s') ?P (?a (n mod HASHSIZE))"
      using False o(1) p y b by (cases "n mod HASHSIZE = ?h") (simp_all add: chain_find.simps [of _ _ "next_sym s"])
    also have "\<dots> = chain_find (syms s) ?P (?a (n mod HASHSIZE))" using old(2) by (intro cf(2)) (simp_all add: ns)
    finally have f: "chain_find (syms s') ?P (tb_buckets (tabs s' tp) (n mod HASHSIZE)) = chain_find (syms s) ?P (?a (n mod HASHSIZE))" .
    have "lookup_from n (tb_previous (tabs s tp)) s' = lookup_from n (tb_previous (tabs s tp)) s" if "tb_previous (tabs s tp) \<noteq> 0"
      using o(3) [OF tp] tp that old by (intro lookup_frame [OF h]) (auto simp: ns)
    with False show ?thesis by (subst (1 2) lookup_from.simps) (simp add: f l Let_def cong: if_cong bind_option_cong)
  qed
qed

lemma install_heap:
  assumes h: "heap_ok own s" and tp: "0 < tp" "tp < next_tab s" and lev: "0 < lev" "tb_level (tabs s tp) \<le> lev"
  obtains tp' s' own' where "install name tp lev s = Ret (next_sym s, tp', s')" "heap_ok own' s'" "\<forall>t < next_tab s. own' t = own t"
    "\<And>n. lookup_from n tp' s' = (if n = name then Some (next_sym s) else lookup_from n tp s)"
    "tb_level (tabs s' tp') = lev" "own' tp' = own tp" "tp' < next_tab s'"
    "tp' = tp \<and> tb_level (tabs s tp) = lev \<or> tb_level (tabs s tp) < lev \<and> next_tab s \<le> tp' \<and> tb_previous (tabs s' tp') = tp"
    "tb_level (tabs s tp) = lev \<Longrightarrow> tp' = tp \<and> tb_previous (tabs s' tp) = tb_previous (tabs s tp)"
    "s' = s\<lparr>tabs := tabs s', syms := syms s', next_sym := Suc (next_sym s), next_tab := next_tab s'\<rparr>"
    "next_tab s \<le> next_tab s'" "\<And>t. t < next_tab s \<Longrightarrow> t \<noteq> tp' \<Longrightarrow> tabs s' t = tabs s t" "\<And>q. q < next_sym s \<Longrightarrow> syms s' q = syms s q"
proof (cases "tb_level (tabs s tp) < lev")
  case True
  obtain s1 where c: "table_c tp lev s = (next_tab s, s1)" using table_c_heap(1) [OF h tp] by (metis prod.exhaust)
  note t = table_c_heap [OF h tp c]
  let ?y = "no_symbol\<lparr>sy_name := name, sy_scope := lev\<rparr>"
  obtain s2 where e: "enter_symbol (next_tab s) (name mod HASHSIZE) ?y s1 = (next_sym s1, s2)" by (auto simp: enter_symbol_def Let_def)
  have n: "next_sym s1 = next_sym s" "next_tab s1 = Suc (next_tab s)" "syms s1 = syms s" by (subst t(6), simp)+
  have nt: "0 < next_tab s" "next_tab s < next_tab s1" using n tp by simp_all
  note r = enter_symbol_heap [OF t(2) nt _ e]
  have n2: "next_tab s2 = next_tab s1" by (subst r(6)) simp_all
  have "s2 = s\<lparr>tabs := tabs s2, syms := syms s2, next_sym := Suc (next_sym s), next_tab := next_tab s2\<rparr>"
    by (subst r(6), simp, subst t(6)) (simp add: n n2)
  moreover have "install name tp lev s = Ret (next_sym s, next_tab s, s2)"
    using True lev tp c e n by (simp add: install_def)
  ultimately show thesis
    using r t n n2 True tp by (intro that [of "next_tab s" s2 "own(next_tab s := own tp)"]) auto
next
  case False
  then have l: "tb_level (tabs s tp) = lev" using lev by simp
  let ?y = "no_symbol\<lparr>sy_name := name, sy_scope := lev\<rparr>"
  obtain s2 where e: "enter_symbol tp (name mod HASHSIZE) ?y s = (next_sym s, s2)" by (auto simp: enter_symbol_def Let_def)
  note r = enter_symbol_heap [OF h tp _ e]
  have n2: "next_tab s2 = next_tab s" by (subst r(6)) simp_all
  have "s2 = s\<lparr>tabs := tabs s2, syms := syms s2, next_sym := Suc (next_sym s), next_tab := next_tab s2\<rparr>"
    by (subst r(6)) (simp_all add: n2)
  moreover have "install name tp lev s = Ret (next_sym s, tp, s2)" using l lev tp e by (simp add: install_def)
  ultimately show thesis using r n2 l tp h by (intro that [of tp s2 own]) auto
qed

section \<open>Block structure\<close>

text \<open>
  What the parser does with names: it declares and looks up identifiers and tags, and it opens and
  closes blocks.  The specification is a function from names to symbols for each of the two name
  spaces, which a block leaves as it was; symbols are numbered in the order of their declarations
  and 0 is the answer for an undeclared name.
\<close>

datatype block_op = Declare bool nat | Find bool nat | Block "block_op list"

fun spec_block :: "block_op \<Rightarrow> (bool \<Rightarrow> nat \<Rightarrow> nat) \<Rightarrow> nat \<Rightarrow> nat list \<times> (bool \<Rightarrow> nat \<Rightarrow> nat) \<times> nat"
  and spec_blocks :: "block_op list \<Rightarrow> (bool \<Rightarrow> nat \<Rightarrow> nat) \<Rightarrow> nat \<Rightarrow> nat list \<times> (bool \<Rightarrow> nat \<Rightarrow> nat) \<times> nat" where
  "spec_block (Declare ns n) e k = ([k], e(ns := (e ns)(n := k)), Suc k)"
| "spec_block (Find ns n) e k = ([e ns n], e, k)"
| "spec_block (Block bs) e k = (let (out, e', k) = spec_blocks bs e k in (out, e, k))"
| "spec_blocks [] e k = ([], e, k)"
| "spec_blocks (b # bs) e k = (let (out, e, k) = spec_block b e k; (outs, e, k) = spec_blocks bs e k in (out @ outs, e, k))"

fun run_block :: "block_op \<Rightarrow> lcc \<Rightarrow> (nat list \<times> lcc) outcome option"
  and run_blocks :: "block_op list \<Rightarrow> lcc \<Rightarrow> (nat list \<times> lcc) outcome option" where
  "run_block (Declare ns n) s = Some (bind_outcome (install n (top_tab ns s) (level s) s) (\<lambda>(p, tp, s). Ret ([p], set_top ns tp s)))"
| "run_block (Find ns n) s = map_option (\<lambda>r. bind_outcome r (\<lambda>p. Ret ([p], s))) (lookup_c n (top_tab ns s) s)"
| "run_block (Block bs) s =
     bind_run (run_blocks bs (enterscope s)) (\<lambda>out s. Some (bind_outcome (exitscope s) (\<lambda>s. Ret (out, s))))"
| "run_blocks [] s = Some (Ret ([], s))"
| "run_blocks (b # bs) s = bind_run (run_block b s) (\<lambda>out s. bind_run (run_blocks bs s) (\<lambda>outs s. Some (Ret (out @ outs, s))))"

definition shows_env :: "(nat \<Rightarrow> bool) \<Rightarrow> lcc \<Rightarrow> (bool \<Rightarrow> nat \<Rightarrow> nat) \<Rightarrow> bool" where
  "shows_env own s e \<longleftrightarrow> scopes_ok own s \<and> (\<forall>ns n. lookup_from n (top_tab ns s) s = Some (e ns n))"

text \<open>
  What the operations of one level keep: the older symbols and tables, apart from the tables of
  this level; the current table is the same or the first one of this level.
\<close>

definition grows :: "(nat \<Rightarrow> bool) \<Rightarrow> lcc \<Rightarrow> (nat \<Rightarrow> bool) \<Rightarrow> lcc \<Rightarrow> bool" where
  "grows own s own' s' \<longleftrightarrow>
     next_tab s \<le> next_tab s' \<and> next_sym s \<le> next_sym s' \<and> level s' = level s \<and> (\<forall>t < next_tab s. own' t = own t) \<and>
     (\<forall>p < next_sym s. syms s' p = syms s p) \<and>
     (\<forall>t < next_tab s. (\<forall>ns. t = top_tab ns s \<longrightarrow> tb_level (tabs s t) < level s) \<longrightarrow> tabs s' t = tabs s t) \<and>
     (\<forall>ns. top_tab ns s' = top_tab ns s \<and> tb_level (tabs s' (top_tab ns s)) = tb_level (tabs s (top_tab ns s)) \<and>
             tb_previous (tabs s' (top_tab ns s)) = tb_previous (tabs s (top_tab ns s)) \<or>
           tb_level (tabs s (top_tab ns s)) < level s \<and> next_tab s \<le> top_tab ns s' \<and> tb_level (tabs s' (top_tab ns s')) = level s \<and>
             tb_previous (tabs s' (top_tab ns s')) = top_tab ns s)"

lemma growsD:
  assumes "grows own s own' s'"
  shows "next_tab s \<le> next_tab s'" "next_sym s \<le> next_sym s'" "level s' = level s" "t < next_tab s \<Longrightarrow> own' t = own t"
    "p < next_sym s \<Longrightarrow> syms s' p = syms s p"
    "t < next_tab s \<Longrightarrow> (\<And>ns. t = top_tab ns s \<Longrightarrow> tb_level (tabs s t) < level s) \<Longrightarrow> tabs s' t = tabs s t"
    "top_tab ns s' = top_tab ns s \<and> tb_level (tabs s' (top_tab ns s)) = tb_level (tabs s (top_tab ns s)) \<and>
             tb_previous (tabs s' (top_tab ns s)) = tb_previous (tabs s (top_tab ns s)) \<or>
           tb_level (tabs s (top_tab ns s)) < level s \<and> next_tab s \<le> top_tab ns s' \<and> tb_level (tabs s' (top_tab ns s')) = level s \<and>
             tb_previous (tabs s' (top_tab ns s')) = top_tab ns s"
  using assms unfolding grows_def by blast+

lemma scopes_okD:
  assumes "scopes_ok own s"
  shows "heap_ok own s" "GLOBAL \<le> level s" "0 < top_tab ns s" "top_tab ns s < next_tab s" "own (top_tab ns s) = ns" "tb_level (tabs s (top_tab ns s)) \<le> level s"
  using assms by (simp_all add: scopes_ok_def)

lemma grows_refl: "grows own s own s"
  by (simp add: grows_def)

lemma grows_trans:
  assumes "grows own1 s1 own2 s2" "grows own2 s2 own3 s3" "scopes_ok own1 s1"
  shows "grows own1 s1 own3 s3"
proof -
  note g1 = growsD [OF assms(1)] and g2 = growsD [OF assms(2)] and tp = scopes_okD(4) [OF assms(3)]
  have "tabs s3 t = tabs s1 t" if t: "t < next_tab s1" "\<And>ns. t = top_tab ns s1 \<Longrightarrow> tb_level (tabs s1 t) < level s1" for t
  proof -
    have "tabs s2 t = tabs s1 t" by (rule g1(6) [OF t])
    moreover have "tb_level (tabs s2 t) < level s2" if "t = top_tab ns s2" for ns
      using g1(7) [of ns] t that g1(3) calculation by auto
    ultimately show ?thesis using g2(6) [of t] t(1) g1(1) by fastforce
  qed
  moreover have "top_tab ns s3 = top_tab ns s1 \<and> tb_level (tabs s3 (top_tab ns s1)) = tb_level (tabs s1 (top_tab ns s1)) \<and>
             tb_previous (tabs s3 (top_tab ns s1)) = tb_previous (tabs s1 (top_tab ns s1)) \<or>
           tb_level (tabs s1 (top_tab ns s1)) < level s1 \<and> next_tab s1 \<le> top_tab ns s3 \<and> tb_level (tabs s3 (top_tab ns s3)) = level s1 \<and>
             tb_previous (tabs s3 (top_tab ns s3)) = top_tab ns s1" for ns
    using g1(7) [of ns] g2(7) [of ns] g1(1,3) by auto
  ultimately show ?thesis using g1(1-5) g2(1-5) unfolding grows_def by auto
qed

lemma rm_buckets_frame: "\<exists>tt m. rm_buckets lev is s = s\<lparr>typetable := tt, maxlevel := m\<rparr>"
proof (induction "is" arbitrary: s)
  case Nil
  show ?case by (intro exI [of _ "typetable s"] exI [of _ "maxlevel s"]) simp
next
  case (Cons i "is")
  obtain tns m where "rm_chain lev (tys s) (syms s) (typetable s i) (maxlevel s) = (tns, m)" by fastforce
  then show ?case using Cons [of "s\<lparr>typetable := (typetable s)(i := tns), maxlevel := m\<rparr>"] by simp
qed

lemma rmtypes_frame: obtains tt m where "rmtypes lev s = s\<lparr>typetable := tt, maxlevel := m\<rparr>"
proof (cases "lev \<le> maxlevel s")
  case True
  then show ?thesis using rm_buckets_frame [of lev "[0..<128]" "s\<lparr>maxlevel := 0\<rparr>"] that by (auto simp: rmtypes_def)
next
  case False
  then show ?thesis using that [where tt = "typetable s" and m = "maxlevel s"] by (simp add: rmtypes_def)
qed

lemma exitscope_frame:
  assumes "0 < identifiers s" "0 < types_tab s" "GLOBAL \<le> level s"
  obtains s' where "exitscope s = Ret s'" "tabs s' = tabs s" "syms s' = syms s" "next_tab s' = next_tab s" "next_sym s' = next_sym s"
    "level s' = level s - 1"
    "\<And>ns. top_tab ns s' = (if tb_level (tabs s (top_tab ns s)) = level s then tb_previous (tabs s (top_tab ns s)) else top_tab ns s)"
proof -
  obtain tt m where r: "rmtypes (level s) s = s\<lparr>typetable := tt, maxlevel := m\<rparr>" by (rule rmtypes_frame)
  show thesis using assms by (intro that [of "case exitscope s of Ret s' \<Rightarrow> s'"]) (simp_all add: exitscope_def r Let_def top_tab_def)
qed

lemma exitscope_env:
  assumes e0: "shows_env own0 s0 e0" and g: "grows own0 (enterscope s0) own2 s2" and e2: "scopes_ok own2 s2"
  obtains s3 where "exitscope s2 = Ret s3" "next_sym s3 = next_sym s2" "shows_env own2 s3 e0" "grows own0 s0 own2 s3"
proof -
  have ok: "scopes_ok own0 s0" using e0 by (simp add: shows_env_def)
  have en: "tabs (enterscope s0) = tabs s0" "syms (enterscope s0) = syms s0" "next_tab (enterscope s0) = next_tab s0"
    "next_sym (enterscope s0) = next_sym s0" "level (enterscope s0) = level s0 + 1" "top_tab ns (enterscope s0) = top_tab ns s0" for ns
    by (simp_all add: enterscope_def Let_def top_tab_def)
  note gD = growsD [OF g, unfolded en] and o = scopes_okD [OF ok] and o2 = scopes_okD [OF e2]
  have l: "tb_level (tabs s0 (top_tab ns s0)) < level s0 + 1" for ns using o(6) [of ns] by simp
  have tb: "tabs s2 t = tabs s0 t" if "t < next_tab s0" for t using gD(6) [OF that] l by blast
  obtain s3 where x: "exitscope s2 = Ret s3" "tabs s3 = tabs s2" "syms s3 = syms s2" "next_tab s3 = next_tab s2" "next_sym s3 = next_sym s2"
    "level s3 = level s2 - 1" "\<And>ns. top_tab ns s3 = (if tb_level (tabs s2 (top_tab ns s2)) = level s2 then tb_previous (tabs s2 (top_tab ns s2)) else top_tab ns s2)"
    using exitscope_frame [of s2] o2(2) o2(3) [of True] o2(3) [of False] by (auto simp: top_tab_def)
  have top: "top_tab ns s3 = top_tab ns s0" for ns using gD(7) [of ns] gD(3) l [of ns] x(7) [of ns] by auto
  have lv: "level s3 = level s0" using x(6) gD(3) by simp
  have heap: "heap_ok own2 s3" using o2(1) by (simp add: heap_ok_def chain_ok_def x(2-5))
  have look: "lookup_from n (top_tab ns s0) s3 = lookup_from n (top_tab ns s0) s0" for n ns
    using o(3,4) [of ns] tb gD(2,5) by (intro lookup_frame [OF o(1)]) (auto simp: x)
  have "scopes_ok own2 s3"
    unfolding scopes_ok_def using heap o(2) o(3,4,5,6) gD(1,4) by (auto simp: top lv x tb intro: order_less_le_trans)
  then have "shows_env own2 s3 e0" using e0 look by (simp add: shows_env_def top)
  moreover have "grows own0 s0 own2 s3"
    unfolding grows_def using gD(1,2,4,5) o(4) by (auto simp: top lv x tb)
  ultimately show thesis using that x(1,5) by blast
qed

lemma set_top_simps [simp]:
  "tabs (set_top ns t s) = tabs s" "syms (set_top ns t s) = syms s" "next_tab (set_top ns t s) = next_tab s"
  "next_sym (set_top ns t s) = next_sym s" "level (set_top ns t s) = level s" "top_tab ms (set_top ns t s) = (if ms = ns then t else top_tab ms s)"
  by (auto simp: set_top_def top_tab_def)

lemma declare_env:
  assumes e: "shows_env own s e"
  obtains s' own' where "run_block (Declare ns n) s = Some (Ret ([next_sym s], s'))" "next_sym s' = Suc (next_sym s)"
    "shows_env own' s' (e(ns := (e ns)(n := next_sym s)))" "grows own s own' s'"
proof -
  have ok: "scopes_ok own s" using e by (simp add: shows_env_def)
  note o = scopes_okD [OF ok]
  have lev: "0 < level s" using o(2) by (simp add: GLOBAL_def)
  let ?tp = "top_tab ns s"
  obtain tp s1 own' where i: "install n ?tp (level s) s = Ret (next_sym s, tp, s1)" "heap_ok own' s1" "\<forall>t < next_tab s. own' t = own t"
    and look: "\<And>m. lookup_from m tp s1 = (if m = n then Some (next_sym s) else lookup_from m ?tp s)"
    and tp: "tb_level (tabs s1 tp) = level s" "own' tp = own ?tp" "tp < next_tab s1"
      "tp = ?tp \<and> tb_level (tabs s ?tp) = level s \<or> tb_level (tabs s ?tp) < level s \<and> next_tab s \<le> tp \<and> tb_previous (tabs s1 tp) = ?tp"
      "tb_level (tabs s ?tp) = level s \<Longrightarrow> tp = ?tp \<and> tb_previous (tabs s1 ?tp) = tb_previous (tabs s ?tp)"
    and s1: "s1 = s\<lparr>tabs := tabs s1, syms := syms s1, next_sym := Suc (next_sym s), next_tab := next_tab s1\<rparr>"
    and old: "next_tab s \<le> next_tab s1" "\<And>t. t < next_tab s \<Longrightarrow> t \<noteq> tp \<Longrightarrow> tabs s1 t = tabs s t" "\<And>q. q < next_sym s \<Longrightarrow> syms s1 q = syms s q"
    by (rule install_heap [OF o(1,3,4) lev o(6)]) blast
  have f: "level s1 = level s" "next_sym s1 = Suc (next_sym s)" "top_tab ms s1 = top_tab ms s" for ms by (subst s1, simp add: top_tab_def)+
  have same: "tp = ?tp \<longleftrightarrow> tb_level (tabs s ?tp) = level s" using tp(4,5) o(4) [of ns] by auto
  have ne: "top_tab ms s \<noteq> tp" if "ms \<noteq> ns" for ms using o(4) [of ms] o(5) [of ms] o(5) [of ns] that tp(4) by auto
  have other: "lookup_from m (top_tab ms s) s1 = Some (e ms m)" if "ms \<noteq> ns" for m ms
  proof -
    have "tabs s1 u = tabs s u" if "u \<le> top_tab ms s" "own u = own (top_tab ms s)" for u
      using that \<open>ms \<noteq> ns\<close> o(4,5) [of ms] o(5) [of ns] i(3) tp(2) by (intro old(2)) auto
    then have "lookup_from m (top_tab ms s) s1 = lookup_from m (top_tab ms s) s"
      using old(3) f(2) by (intro lookup_frame [OF o(1,3,4)]) auto
    then show ?thesis using e by (simp add: shows_env_def)
  qed
  have pos: "0 < tp" using tp(4) o(3,4) [of ns] by auto
  have bound: "top_tab ms s < next_tab s1" for ms using o(4) old(1) by (rule order_less_le_trans)
  have set: "lookup_from m t (set_top ns tp s1) = lookup_from m t s1" if "0 < t" "t < next_tab s1" for m t
    by (rule lookup_frame [OF i(2) that]) simp_all
  have heap: "heap_ok own' (set_top ns tp s1)" using i(2) by (simp add: heap_ok_def chain_ok_def)
  have lv: "tb_level (tabs s1 (top_tab ms s)) \<le> level s" if "ms \<noteq> ns" for ms
    using old(2) [OF o(4) ne [OF that]] o(6) [of ms] by simp
  have ow: "own' (top_tab ms s) = ms" for ms using i(3) o(4,5) by simp
  have "scopes_ok own' (set_top ns tp s1)"
    unfolding scopes_ok_def using heap o(2,3) pos bound lv ow tp(1,2,3) o(5) [of ns] by (simp add: f)
  moreover have "lookup_from m (top_tab ms (set_top ns tp s1)) (set_top ns tp s1) = Some ((e(ns := (e ns)(n := next_sym s))) ms m)" for ms m
    using set [OF pos tp(3), of m] set [OF o(3) bound, of m ms] other [of ms m] look [of m] e
    by (cases "ms = ns") (simp_all add: f shows_env_def)
  ultimately have "shows_env own' (set_top ns tp s1) (e(ns := (e ns)(n := next_sym s)))"
    unfolding shows_env_def by blast
  moreover have "tabs s1 t = tabs s t" if "t < next_tab s" "\<forall>ms. t = top_tab ms s \<longrightarrow> tb_level (tabs s t) < level s" for t
    using that tp(4) by (intro old(2)) auto
  then have "grows own s own' (set_top ns tp s1)"
    unfolding grows_def using old i(3) tp same ne o(4) by (auto simp: f)
  ultimately show thesis using that [of "set_top ns tp s1"] i(1) f(2) by simp
qed

lemma enterscope_env: "shows_env own s e \<Longrightarrow> shows_env own (enterscope s) e"
proof -
  assume e: "shows_env own s e"
  note o = scopes_okD [of own s]
  have f: "tabs (enterscope s) = tabs s" "syms (enterscope s) = syms s" "next_tab (enterscope s) = next_tab s"
    "next_sym (enterscope s) = next_sym s" "level (enterscope s) = level s + 1" "top_tab ns (enterscope s) = top_tab ns s" for ns
    by (simp_all add: enterscope_def Let_def top_tab_def)
  have "lookup_from n (top_tab ns s) (enterscope s) = lookup_from n (top_tab ns s) s" for n ns
    using e o by (intro lookup_frame [of own]) (simp_all add: f shows_env_def)
  then show ?thesis using e by (auto simp: shows_env_def scopes_ok_def heap_ok_def chain_ok_def f add_increasing2 intro: order_trans)
qed

lemma run_block_spec:
  "shows_env own s e \<Longrightarrow> \<exists>s' own'. run_block b s = Some (Ret (fst (spec_block b e (next_sym s)), s')) \<and>
     next_sym s' = snd (snd (spec_block b e (next_sym s))) \<and> shows_env own' s' (fst (snd (spec_block b e (next_sym s)))) \<and> grows own s own' s'"
  "shows_env own s e \<Longrightarrow> \<exists>s' own'. run_blocks bs s = Some (Ret (fst (spec_blocks bs e (next_sym s)), s')) \<and>
     next_sym s' = snd (snd (spec_blocks bs e (next_sym s))) \<and> shows_env own' s' (fst (snd (spec_blocks bs e (next_sym s)))) \<and> grows own s own' s'"
proof (induction b s and bs s arbitrary: own e and own e rule: run_block_run_blocks.induct)
  case (1 ns n s)
  show ?case by (rule declare_env [OF 1, of ns n]) (simp del: run_block.simps(1) fun_upd_apply, blast)
next
  case (2 ns n s)
  then show ?case using scopes_okD(3) [of own s ns] by (auto simp: shows_env_def lookup_c_def intro!: exI [of _ own] grows_refl)
next
  case (3 bs s)
  obtain s2 own2 where 1: "run_blocks bs (enterscope s) = Some (Ret (fst (spec_blocks bs e (next_sym s)), s2))"
    "next_sym s2 = snd (snd (spec_blocks bs e (next_sym s)))" "shows_env own2 s2 (fst (snd (spec_blocks bs e (next_sym s))))"
    "grows own (enterscope s) own2 s2"
    using 3(1) [OF enterscope_env [OF 3(2)]] by (auto simp: enterscope_def Let_def)
  then have "scopes_ok own2 s2" by (simp add: shows_env_def)
  with 3(2) 1(4) obtain s3 where "exitscope s2 = Ret s3" "next_sym s3 = next_sym s2" "shows_env own2 s3 e" "grows own s own2 s3"
    by (rule exitscope_env)
  then show ?case using 1 by (intro exI [of _ s3] exI [of _ own2]) (simp add: bind_run_def split_beta Let_def)
next
  case (4 s)
  then show ?case by (auto intro: grows_refl)
next
  case (5 b bs s)
  obtain s1 own1 where 1: "run_block b s = Some (Ret (fst (spec_block b e (next_sym s)), s1))"
    "next_sym s1 = snd (snd (spec_block b e (next_sym s)))" "shows_env own1 s1 (fst (snd (spec_block b e (next_sym s))))" "grows own s own1 s1"
    using 5(1) [OF 5(3)] by blast
  obtain s2 own2 where 2: "run_blocks bs s1 = Some (Ret (fst (spec_blocks bs (fst (snd (spec_block b e (next_sym s)))) (next_sym s1)), s2))"
    "next_sym s2 = snd (snd (spec_blocks bs (fst (snd (spec_block b e (next_sym s)))) (next_sym s1)))"
    "shows_env own2 s2 (fst (snd (spec_blocks bs (fst (snd (spec_block b e (next_sym s)))) (next_sym s1))))" "grows own1 s1 own2 s2"
    using 5(2) [OF 1(3)] by blast
  have "grows own s own2 s2" using grows_trans [OF 1(4) 2(4)] 5(3) by (simp add: shows_env_def)
  then show ?case using 1 2 by (intro exI [of _ s2] exI [of _ own2]) (simp add: bind_run_def split_beta Let_def)
qed

text \<open>The compiler's tables before the first declaration: one empty table for the file scope of each name space.\<close>

definition no_symbols :: lcc where
  "no_symbols =
     \<lparr>tabs = (\<lambda>_. no_table\<lparr>tb_level := GLOBAL\<rparr>), syms = (\<lambda>_. no_symbol), tys = (\<lambda>_. \<lparr>ty_op = INTt, ty_type = 0, ty_size = 0, ty_align = 0, ty_sym = 0, ty_oldstyle = False, ty_proto = None\<rparr>),
      typetable = (\<lambda>_. []), maxlevel = 0, next_tab = 3, next_sym = 1, next_ty = 1, identifiers = 1, types_tab = 2, labels = 0,
      level = GLOBAL, tempid = 0, next_label = 1, warnings = [], Aflag = 0, errors = [],
      chartype = 0, signedchar = 0, unsignedchar = 0, shorttype = 0, unsignedshort = 0, inttype = 0, unsignedtype = 0, longtype = 0,
      unsignedlong = 0, longlong = 0, unsignedlonglong = 0, floattype = 0, doubletype = 0, longdouble = 0, voidtype = 0, voidptype = 0,
      funcptype = 0, pointersym = 0, ptr_size = 0, ptr_align = 0\<rparr>"

lemma no_symbols_env: "shows_env (\<lambda>t. t = 1) no_symbols (\<lambda>_ _. 0)"
proof -
  have "chain_ok no_symbols 0" by (auto simp: chain_ok_def intro: exI [of _ "[]"])
  moreover have "lookup_from n (top_tab ns no_symbols) no_symbols = Some 0" for n ns
    by (subst lookup_from.simps, subst chain_find.simps) (simp add: no_symbols_def no_table_def)
  ultimately show ?thesis
    by (auto simp: shows_env_def scopes_ok_def heap_ok_def no_symbols_def no_table_def top_tab_def)
qed

text \<open>
  Claim C11: the symbol tables implement block structure.  Whatever declarations and references of
  identifiers and tags a program has in whatever nesting of blocks, every operation returns, no
  assertion of the tables fails, and a reference gets the symbol of the innermost declaration of
  its name in its name space that is in scope, or none when there is none; a declaration in a block
  hides and does not change the declarations outside, which are visible again after the block.
\<close>

theorem scopes_refine_blocks:
  "\<exists>s'. run_blocks bs no_symbols = Some (Ret (fst (spec_blocks bs (\<lambda>_ _. 0) 1), s'))"
  using run_block_spec(2) [OF no_symbols_env, of bs] by (auto simp: no_symbols_def)

end
