(* ===== verification/LCC_Switch.thy ===== *)
theory LCC_Switch
  imports C_Monad
begin

text \<open>
  The code that lcc generates for a switch statement (src/lcc-1.3/src/stmt.c): the collection of the case
  labels, their division into dense buckets, the decision tree over the buckets, and the labels and
  jumps of the code list with the optimisations that are made on the fly; the tables are emitted
  by emitcode of dag.c.  An expression tree is modelled where the decision code has one: the
  comparison of the switch variable with a constant and the jump through a table.
\<close>

section \<open>Code lists\<close>

datatype relop = EQ | GT | LT

text \<open>A label is its number.  A comparison jumps to the label if it holds; the jump through a table subtracts the lowest case.\<close>

datatype node = Compare relop int int | TableJump int int

datatype code =
  Blockbeg | Blockend | Local | Address | Defpoint | Label int | Start | Gen "node list" | Jump int
| Switch int "int list" "int list" int

fun kind :: "code \<Rightarrow> nat" where
  "kind Blockbeg = 0" | "kind Blockend = 1" | "kind Local = 2" | "kind Address = 3" | "kind Defpoint = 4"
| "kind (Label l) = 5" | "kind Start = 6" | "kind (Gen ns) = 7" | "kind (Jump l) = 8" | "kind (Switch t vs ls d) = 9"

text \<open>
  The code list with its last element last, the nodes that are not yet in it, the label counter, the
  reference counts, the labels that were equated to another one, and the messages.
\<close>

record emitter =
  em_code :: "code list"
  em_forest :: "node list"
  em_label :: int
  em_ref :: "int \<Rightarrow> int"
  em_equated :: "(int \<times> int) list"
  em_Aflag :: int
  em_msgs :: "string list"

type_synonym emission = "(unit, emitter) cfun"

definition message :: "string \<Rightarrow> emission" where
  "message m = putS (\<lambda>s. s\<lparr>em_msgs := em_msgs s @ [m]\<rparr>)"

definition assertS :: "bool \<Rightarrow> emission" where
  "assertS b s = (if b then Ret ((), s) else Abort)"

definition genlabel_e :: "int \<Rightarrow> (int, emitter) cfun" where
  "genlabel_e n s = (let l = em_label s + n in Ret (l - n, s\<lparr>em_label := l\<rparr>))"

definition reachable :: "nat \<Rightarrow> code list \<Rightarrow> bool" where
  "reachable k cs \<longleftrightarrow>
     \<not> (kind Start < k \<and> (case find (\<lambda>c. kind (Label 0) \<le> kind c) (rev cs) of Some (Jump _) \<Rightarrow> True | Some (Switch _ _ _ _) \<Rightarrow> True | _ \<Rightarrow> False))"

definition code_c :: "code \<Rightarrow> emission" where
  "code_c c s =
     seqS (whenS (\<not> reachable (kind c) (em_code s)) (message ''unreachable code''))
       (putS (\<lambda>s. s\<lparr>em_code := em_code s @ [c]\<rparr>)) s"

text \<open>walk without a tree: the pending nodes become an element of the code list.\<close>

definition flush :: emission where
  "flush s = (if em_forest s \<noteq> [] then seqS (code_c (Gen (em_forest s))) (putS (\<lambda>s. s\<lparr>em_forest := []\<rparr>)) s else Ret ((), s))"

definition list_node :: "node \<Rightarrow> emission" where
  "list_node n = putS (\<lambda>s. s\<lparr>em_forest := em_forest s @ [n]\<rparr>)"

definition add_ref :: "int \<Rightarrow> int \<Rightarrow> emission" where
  "add_ref lab n = putS (\<lambda>s. s\<lparr>em_ref := (em_ref s)(lab := em_ref s lab + n)\<rparr>)"

section \<open>Labels and jumps\<close>

text \<open>Whether a label is on the chain of equated labels that starts at another one.\<close>

function equal :: "(int \<times> int) list \<Rightarrow> int \<Rightarrow> int \<Rightarrow> bool" where
  "equal eqs l d \<longleftrightarrow>
     l = d \<or> (case map_of eqs d of None \<Rightarrow> False | Some d' \<Rightarrow> equal (filter (\<lambda>p. fst p \<noteq> d) eqs) l d')"
  by pat_completeness auto
termination
proof (relation "measure (\<lambda>(eqs, l, d). length eqs)", simp)
  fix eqs :: "(int \<times> int) list" and l d d'
  assume "map_of eqs d = Some d'"
  then have "(d, d') \<in> set eqs" by (rule map_of_SomeD)
  then show "((filter (\<lambda>p. fst p \<noteq> d) eqs, l, d'), (eqs, l, d)) \<in> measure (\<lambda>(eqs, l, d). length eqs)"
    by (auto intro!: length_filter_less)
qed

declare equal.simps [simp del]

text \<open>Labels right before a jump are replaced by its target; the code list is given in reverse.\<close>

fun equate_labels :: "int \<Rightarrow> code list \<Rightarrow> emitter \<Rightarrow> (code list \<times> emitter) outcome" where
  "equate_labels lab [] s = Ret ([], s)"
| "equate_labels lab (c # r) s =
     (if kind c < kind (Label 0) then bind_outcome (equate_labels lab r s) (\<lambda>(r, s). Ret (c # r, s))
      else case c of
        Label l \<Rightarrow>
          if equal (em_equated s) l lab then Ret (c # r, s)
          else if map_of (em_equated s) l \<noteq> None then Abort
          else equate_labels lab r (s\<lparr>em_equated := (l, lab) # em_equated s, em_ref := (em_ref s)(lab := em_ref s lab + 1)\<rparr>)
      | _ \<Rightarrow> Ret (c # r, s))"

definition last_code :: "code list \<Rightarrow> code option" where
  "last_code cs = find (\<lambda>c. kind (Label 0) \<le> kind c) (rev cs)"

definition put_jump :: "int \<Rightarrow> emission" where
  "put_jump lab s =
     bind_outcome (equate_labels lab (rev (em_code s)) s) (\<lambda>(r, s).
     let cs = rev r; s = s\<lparr>em_code := cs\<rparr> in
     case last_code cs of
       Some (Jump _) \<Rightarrow> add_ref lab (-1) s
     | Some (Switch _ _ _ _) \<Rightarrow> add_ref lab (-1) s
     | Some (Label l) \<Rightarrow>
         seqS (putS (\<lambda>s. s\<lparr>em_code := cs @ [Jump lab]\<rparr>))
           (whenS (equal (em_equated s) l lab) (message ''source code specifies an infinite loop'')) s
     | _ \<Rightarrow> putS (\<lambda>s. s\<lparr>em_code := cs @ [Jump lab]\<rparr>) s)"

definition branch :: "int \<Rightarrow> emission" where
  "branch lab = seqS (assertS (lab \<noteq> 0)) (seqS flush (seqS (add_ref lab 1) (put_jump lab)))"

text \<open>Jumps right before the label to which they go are removed.\<close>

fun drop_jumps :: "int \<Rightarrow> code list \<Rightarrow> (int \<Rightarrow> int) \<Rightarrow> code list \<times> (int \<Rightarrow> int)" where
  "drop_jumps lab [] ref = ([], ref)"
| "drop_jumps lab (c # r) ref =
     (if kind c \<le> kind (Label 0) then apfst (\<lambda>r. c # r) (drop_jumps lab r ref)
      else if c = Jump lab then drop_jumps lab r (ref(lab := ref lab - 1))
      else (c # r, ref))"

definition definelab :: "int \<Rightarrow> emission" where
  "definelab lab =
     seqS (assertS (lab \<noteq> 0)) (seqS flush (putS (\<lambda>s.
       let (r, ref) = drop_jumps lab (rev (em_code s)) (em_ref s) in s\<lparr>em_code := rev r @ [Label lab], em_ref := ref\<rparr>)))"

section \<open>Cases\<close>

text \<open>The cases of a switch statement, sorted; whether the type of the expression is unsigned.\<close>

record swtch =
  sw_unsigned :: bool
  sw_deflab :: int
  sw_size :: nat
  sw_values :: "int list"
  sw_labels :: "int list"

definition SWSIZE :: nat where "SWSIZE = 512"

text \<open>The sign extension of c.h, which takes a unit of size to be 8 bits.\<close>

definition extend :: "64 word \<Rightarrow> nat \<Rightarrow> 64 word" where
  "extend x tsize =
     (if x AND push_bit (8 * tsize - 1) 1 \<noteq> 0 then x OR push_bit (8 * tsize - 1) (NOT 0) else x AND mask (8 * tsize))"

definition case_value :: "bool \<Rightarrow> nat \<Rightarrow> int \<Rightarrow> int" where
  "case_value uns tsize v = (if uns then sint (extend (word_of_int v) tsize) else v)"

fun case_pos :: "int list \<Rightarrow> int \<Rightarrow> nat \<Rightarrow> nat" where
  "case_pos vs val 0 = 0"
| "case_pos vs val (Suc k) = (if val \<le> vs ! k then case_pos vs val k else Suc k)"

definition caselabel :: "int \<Rightarrow> int \<Rightarrow> swtch \<Rightarrow> (swtch, emitter) cfun" where
  "caselabel val lab sw =
     (let n = length (sw_values sw);
          size = (if sw_size sw \<le> n then sw_size sw * 2 else sw_size sw);
          k = case_pos (sw_values sw) val n;
          sw' = sw\<lparr>sw_size := size, sw_values := take k (sw_values sw) @ [val] @ drop k (sw_values sw),
                   sw_labels := take k (sw_labels sw) @ [lab] @ drop k (sw_labels sw)\<rparr>
      in seqS (whenS (k < n \<and> sw_values sw ! k = val) (message ''duplicate case label''))
           (seqS (\<lambda>s. whenS (2 \<le> em_Aflag s \<and> n + 1 = 258) (message ''more than 257 cases in a switch'') s)
             (returnS sw')))"

section \<open>Buckets and the decision tree\<close>

text \<open>
  The starts of the buckets, the last one first: the new case is a bucket of its own, which is
  joined with the ones before as long as the bucket before is dense with it.  \<open>dense a b\<close> tells
  whether the quotient of two numbers is at least the density that the options require.
\<close>

fun join_buckets :: "(int \<Rightarrow> int \<Rightarrow> bool) \<Rightarrow> int list \<Rightarrow> nat \<Rightarrow> nat list \<Rightarrow> nat list" where
  "join_buckets dense v k (t # a # bs) =
     (if dense (int k - int a + 1) (v ! k - v ! a + 1) then join_buckets dense v k (a # bs) else t # a # bs)"
| "join_buckets dense v k bs = bs"

fun make_buckets :: "(int \<Rightarrow> int \<Rightarrow> bool) \<Rightarrow> int list \<Rightarrow> nat list \<Rightarrow> nat list \<Rightarrow> nat list" where
  "make_buckets dense v [] bs = bs"
| "make_buckets dense v (k # ks) bs = make_buckets dense v ks (join_buckets dense v k (k # bs))"

definition cmp :: "relop \<Rightarrow> int \<Rightarrow> int \<Rightarrow> emission" where
  "cmp r n lab = seqS (list_node (Compare r n lab)) (add_ref lab 1)"

text \<open>The code of one bucket: the cases from l to u.\<close>

definition few_cases :: "swtch \<Rightarrow> nat \<Rightarrow> nat \<Rightarrow> bool \<Rightarrow> bool \<Rightarrow> int \<Rightarrow> int \<Rightarrow> emission" where
  "few_cases sw l u low high lolab hilab =
     seqS (forS (\<lambda>i. cmp EQ (sw_values sw ! i) (sw_labels sw ! i)) [l..<Suc u])
       (seqS (if low \<and> high then cmp GT (sw_values sw ! u) hilab
              else if low then cmp GT (sw_values sw ! u) hilab
              else if high then cmp LT (sw_values sw ! l) lolab
              else seqS (assertS (lolab = hilab)) (branch lolab))
         flush)"

definition case_table :: "swtch \<Rightarrow> nat \<Rightarrow> nat \<Rightarrow> int \<Rightarrow> int \<Rightarrow> emission" where
  "case_table sw l u lolab hilab =
     bindS (genlabel_e 1) (\<lambda>table.
     seqS (whenS (\<not> sw_unsigned sw \<or> sw_values sw ! l \<noteq> 0) (cmp LT (sw_values sw ! l) lolab))
       (seqS (cmp GT (sw_values sw ! u) hilab)
         (seqS (list_node (TableJump table (sw_values sw ! l)))
           (seqS flush
             (seqS (code_c (Switch table (map ((!) (sw_values sw)) [l..<Suc u]) (map ((!) (sw_labels sw)) [l..<Suc u]) (sw_deflab sw)))
               (whenS (10000 \<le> sw_values sw ! u - sw_values sw ! l + 1) (message ''switch generates a huge table'')))))))"

definition tree_labels :: "bool \<Rightarrow> bool \<Rightarrow> int \<Rightarrow> (int \<times> int, emitter) cfun" where
  "tree_labels low high deflab =
     (if low \<and> high then bindS (genlabel_e 1) (\<lambda>lolab. mapS (\<lambda>hilab. (lolab, hilab)) (genlabel_e 1))
      else if low then mapS (\<lambda>lolab. (lolab, deflab)) (genlabel_e 1)
      else if high then mapS (\<lambda>hilab. (deflab, hilab)) (genlabel_e 1)
      else returnS (deflab, deflab))"

function swcode :: "swtch \<Rightarrow> nat list \<Rightarrow> nat \<Rightarrow> nat \<Rightarrow> emission" where
  "swcode sw b lb ub =
     (let k = (lb + ub) div 2; l = b ! k; u = b ! (k + 1) - 1 in
      bindS (tree_labels (lb < k) (k < ub) (sw_deflab sw)) (\<lambda>(lolab, hilab).
      seqS (if u - l + 1 \<le> 3 then few_cases sw l u (lb < k) (k < ub) lolab hilab else case_table sw l u lolab hilab)
        (seqS (if lb < k then seqS (assertS (lolab \<noteq> sw_deflab sw)) (seqS (definelab lolab) (swcode sw b lb (k - 1))) else returnS ())
           (if k < ub then seqS (assertS (hilab \<noteq> sw_deflab sw)) (seqS (definelab hilab) (swcode sw b (k + 1) ub)) else returnS ()))))"
  by pat_completeness auto
termination by (relation "measure (\<lambda>(sw, b, lb, ub). ub - lb)") auto

declare swcode.simps [simp del]

definition swgen :: "(int \<Rightarrow> int \<Rightarrow> bool) \<Rightarrow> swtch \<Rightarrow> emission" where
  "swgen dense sw =
     (let n = length (sw_values sw); b = rev (make_buckets dense (sw_values sw) [0..<n] [])
      in swcode sw (b @ [n]) 0 (length b - 1))"

text \<open>
  The end of a switch statement: the element at index n of the code list stands for the dispatch, which
  is generated now that the cases are known, between the code before and the body.
\<close>

definition put_dispatch :: "(int \<Rightarrow> int \<Rightarrow> bool) \<Rightarrow> swtch \<Rightarrow> nat \<Rightarrow> emission" where
  "put_dispatch dense sw n s =
     (let cs = em_code s in
      seqS (putS (\<lambda>s. s\<lparr>em_code := take n cs\<rparr>))
        (seqS (whenS (sw_values sw \<noteq> []) (swgen dense sw))
          (seqS (branch (sw_deflab sw)) (putS (\<lambda>s. s\<lparr>em_code := em_code s @ drop (Suc n) cs\<rparr>)))) s)"

section \<open>Running decision code\<close>

text \<open>The entries of a table as emitcode writes them: the default label for the values between two cases.\<close>

fun table_rest :: "int \<Rightarrow> int list \<Rightarrow> int list \<Rightarrow> int \<Rightarrow> int list" where
  "table_rest k (v # vs) (l # ls) d = replicate (nat (v - k - 1)) d @ l # table_rest v vs ls d"
| "table_rest k _ _ d = []"

fun table_entries :: "int list \<Rightarrow> int list \<Rightarrow> int \<Rightarrow> int list" where
  "table_entries (v # vs) (l # ls) d = l # table_rest v vs ls d"
| "table_entries _ _ d = []"

fun holds :: "relop \<Rightarrow> int \<Rightarrow> int \<Rightarrow> bool" where
  "holds EQ x n \<longleftrightarrow> x = n" | "holds GT x n \<longleftrightarrow> n < x" | "holds LT x n \<longleftrightarrow> x < n"

text \<open>A node that jumps gives a label, or nothing when it reads outside of its table.\<close>

fun table_of :: "int \<Rightarrow> code list \<Rightarrow> int list" where
  "table_of t [] = []"
| "table_of t (Switch t' vs ls d # cs) = (if t' = t then table_entries vs ls d else table_of t cs)"
| "table_of t (_ # cs) = table_of t cs"

fun node_jump :: "code list \<Rightarrow> int \<Rightarrow> node \<Rightarrow> int option option" where
  "node_jump all x (Compare r n l) = (if holds r x n then Some (Some l) else None)"
| "node_jump all x (TableJump t n) =
     Some (if 0 \<le> x - n \<and> x - n < int (length (table_of t all)) then Some (table_of t all ! nat (x - n)) else None)"

fun nodes_jump :: "code list \<Rightarrow> int \<Rightarrow> node list \<Rightarrow> int option option" where
  "nodes_jump all x [] = None"
| "nodes_jump all x (n # ns) = (case node_jump all x n of None \<Rightarrow> nodes_jump all x ns | Some j \<Rightarrow> Some j)"

fun code_jump :: "code list \<Rightarrow> int \<Rightarrow> code \<Rightarrow> int option option" where
  "code_jump all x (Gen ns) = nodes_jump all x ns"
| "code_jump all x (Jump l) = Some (Some l)"
| "code_jump all x _ = None"

fun after_label :: "int \<Rightarrow> code list \<Rightarrow> code list option" where
  "after_label l [] = None"
| "after_label l (c # cs) = (if c = Label l then Some cs else after_label l cs)"

text \<open>Where the control goes for a value of the switch variable; no result when it stays in the code.\<close>

datatype dest = Leaves int | Falls | BadIndex

partial_function (option) exec_code :: "code list \<Rightarrow> code list \<Rightarrow> int \<Rightarrow> dest option" where
  "exec_code all cs x =
     (case cs of
        [] \<Rightarrow> Some Falls
      | c # cs \<Rightarrow>
          (case code_jump all x c of
             None \<Rightarrow> exec_code all cs x
           | Some None \<Rightarrow> Some BadIndex
           | Some (Some l) \<Rightarrow> (case after_label l all of None \<Rightarrow> Some (Leaves l) | Some cs' \<Rightarrow> exec_code all cs' x)))"

section \<open>Emitting without optimisation\<close>

text \<open>
  \<open>adds f s cs ns n\<close>: f returns; it appends cs to the code list, and then ns are the pending nodes and n
  is the label counter.
\<close>

definition adds :: "('a, emitter) cfun \<Rightarrow> emitter \<Rightarrow> code list \<Rightarrow> node list \<Rightarrow> int \<Rightarrow> bool" where
  "adds f s cs ns n \<longleftrightarrow> (\<exists>a s'. f s = Ret (a, s') \<and> em_code s' = em_code s @ cs \<and> em_forest s' = ns \<and> em_label s' = n)"

lemma adds_seqS:
  assumes "adds f s cs ns n" "\<And>s'. em_code s' = em_code s @ cs \<Longrightarrow> em_forest s' = ns \<Longrightarrow> em_label s' = n \<Longrightarrow> adds g s' ds ms m"
    "es = cs @ ds"
  shows "adds (seqS f g) s es ms m"
  using assms by (fastforce simp: adds_def seqS_def bindS_def)

lemma adds_bindS:
  assumes "f s = Ret (a, s')" "adds (g a) s' cs ns n" "em_code s' = em_code s"
  shows "adds (bindS f g) s cs ns n"
  using assms by (fastforce simp: adds_def bindS_def)

lemma adds_return: "em_forest s = ns \<Longrightarrow> em_label s = n \<Longrightarrow> adds (returnS a) s [] ns n"
  by (simp add: adds_def returnS_def)

lemma adds_assert: "b \<Longrightarrow> em_forest s = ns \<Longrightarrow> em_label s = n \<Longrightarrow> adds (assertS b) s [] ns n"
  by (simp add: adds_def assertS_def)

lemma adds_when_message: "em_forest s = ns \<Longrightarrow> em_label s = n \<Longrightarrow> adds (whenS b (message m)) s [] ns n"
  by (simp add: adds_def cfun_defs message_def)

lemma adds_code: "em_forest s = ns \<Longrightarrow> em_label s = n \<Longrightarrow> adds (code_c c) s [c] ns n"
  by (simp add: adds_def code_c_def cfun_defs message_def)

lemma adds_flush: "em_forest s = ns \<Longrightarrow> ns \<noteq> [] \<Longrightarrow> em_label s = n \<Longrightarrow> adds flush s [Gen ns] [] n"
  using adds_code [of s ns n "Gen ns"] by (auto simp: adds_def flush_def cfun_defs)

lemma flush_nothing [simp]: "em_forest s = [] \<Longrightarrow> flush s = Ret ((), s)"
  by (simp add: flush_def)

lemma adds_list_node: "em_forest s = ns \<Longrightarrow> em_label s = n \<Longrightarrow> adds (list_node x) s [] (ns @ [x]) n"
  by (simp add: adds_def list_node_def cfun_defs)

lemma adds_cmp: "em_forest s = ns \<Longrightarrow> em_label s = n \<Longrightarrow> adds (cmp r v lab) s [] (ns @ [Compare r v lab]) n"
  by (simp add: adds_def cmp_def list_node_def add_ref_def cfun_defs)

lemma adds_when_cmp:
  "em_forest s = ns \<Longrightarrow> em_label s = n \<Longrightarrow> adds (whenS b (cmp r v lab)) s [] (ns @ (if b then [Compare r v lab] else [])) n"
  using adds_cmp [of s ns n r v lab] adds_return [of s ns n "()"] by (simp add: whenS_def)

lemma adds_compares:
  "em_forest s = ns \<Longrightarrow> em_label s = n \<Longrightarrow>
    adds (forS (\<lambda>i. cmp EQ (f i) (g i)) is) s [] (ns @ map (\<lambda>i. Compare EQ (f i) (g i)) is) n"
proof (induction "is" arbitrary: s ns)
  case Nil
  then show ?case using adds_return [of s ns n "()"] by simp
next
  case (Cons i "is")
  show ?case unfolding forS.simps
    by (rule adds_seqS [OF adds_cmp [OF Cons.prems]]) (use Cons.IH in fastforce)+
qed

text \<open>An element of the code list at which the optimisations stop.\<close>

fun solid :: "code \<Rightarrow> bool" where
  "solid (Gen ns) \<longleftrightarrow> True" | "solid (Jump l) \<longleftrightarrow> True" | "solid (Switch t vs ls d) \<longleftrightarrow> True" | "solid _ \<longleftrightarrow> False"

lemma adds_definelab:
  assumes "em_forest s = []" "em_code s = cs @ [c]" "solid c" "c \<noteq> Jump lab" "lab \<noteq> 0"
  shows "adds (definelab lab) s [Label lab] [] (em_label s)"
  using assms by (cases c) (simp_all add: adds_def definelab_def assertS_def cfun_defs)

lemma adds_branch:
  assumes "em_forest s = ns" "ns \<noteq> []" "lab \<noteq> 0"
  shows "adds (branch lab) s [Gen ns, Jump lab] [] (em_label s)"
proof -
  obtain s' where "flush s = Ret ((), s')" "em_code s' = em_code s @ [Gen ns]" "em_forest s' = []" "em_label s' = em_label s"
    using adds_flush [OF assms(1,2) refl] by (auto simp: adds_def)
  then show ?thesis using assms(3)
    by (simp add: adds_def branch_def assertS_def cfun_defs put_jump_def add_ref_def last_code_def Let_def)
qed

lemma branch_dropped:
  assumes "em_forest s = []" "em_code s = cs @ [c]" "c = Jump l \<or> c = Switch t vs ls d" "lab \<noteq> 0"
  shows "adds (branch lab) s [] [] (em_label s)"
  using assms by (auto simp: adds_def branch_def assertS_def cfun_defs put_jump_def add_ref_def last_code_def Let_def)

section \<open>The code of a bucket\<close>

text \<open>The cases of a range of indices.\<close>

definition eq_nodes :: "swtch \<Rightarrow> nat \<Rightarrow> nat \<Rightarrow> node list" where
  "eq_nodes sw l u = map (\<lambda>i. Compare EQ (sw_values sw ! i) (sw_labels sw ! i)) [l..<Suc u]"

definition few_code :: "swtch \<Rightarrow> nat \<Rightarrow> nat \<Rightarrow> bool \<Rightarrow> bool \<Rightarrow> int \<Rightarrow> int \<Rightarrow> code list" where
  "few_code sw l u low high lolab hilab =
     (if low then [Gen (eq_nodes sw l u @ [Compare GT (sw_values sw ! u) hilab])]
      else if high then [Gen (eq_nodes sw l u @ [Compare LT (sw_values sw ! l) lolab])]
      else [Gen (eq_nodes sw l u), Jump lolab])"

definition table_code :: "swtch \<Rightarrow> nat \<Rightarrow> nat \<Rightarrow> int \<Rightarrow> int \<Rightarrow> int \<Rightarrow> code list" where
  "table_code sw l u lolab hilab table =
     [Gen ((if \<not> sw_unsigned sw \<or> sw_values sw ! l \<noteq> 0 then [Compare LT (sw_values sw ! l) lolab] else []) @
        [Compare GT (sw_values sw ! u) hilab, TableJump table (sw_values sw ! l)]),
      Switch table (map ((!) (sw_values sw)) [l..<Suc u]) (map ((!) (sw_labels sw)) [l..<Suc u]) (sw_deflab sw)]"

lemma eq_nodes_nonempty: "l \<le> u \<Longrightarrow> eq_nodes sw l u \<noteq> []"
  by (simp add: eq_nodes_def)

lemma adds_few_cases:
  assumes s: "em_forest s = []" and lu: "l \<le> u" and d: "\<not> low \<Longrightarrow> \<not> high \<Longrightarrow> lolab = hilab \<and> lolab \<noteq> 0"
  shows "adds (few_cases sw l u low high lolab hilab) s (few_code sw l u low high lolab hilab) [] (em_label s)"
proof -
  let ?e = "eq_nodes sw l u"
  have c: "adds (seqS (cmp r v lab) flush) s' [Gen (?e @ [Compare r v lab])] [] (em_label s)"
    if "em_forest s' = ?e" "em_label s' = em_label s" for s' r v lab
    by (rule adds_seqS [OF adds_cmp [OF that] adds_flush]) simp_all
  have b: "adds (seqS (seqS (assertS True) (branch lolab)) flush) s' [Gen ?e, Jump lolab] [] (em_label s)"
    if "em_forest s' = ?e" "em_label s' = em_label s" "lolab \<noteq> 0" for s'
    using adds_branch [OF that(1) eq_nodes_nonempty [OF lu] that(3)] that(2) by (auto simp: adds_def assertS_def cfun_defs)
  have "adds (seqS (if low \<and> high then cmp GT (sw_values sw ! u) hilab
              else if low then cmp GT (sw_values sw ! u) hilab
              else if high then cmp LT (sw_values sw ! l) lolab
              else seqS (assertS (lolab = hilab)) (branch lolab)) flush) s' (few_code sw l u low high lolab hilab) [] (em_label s)"
    if "em_forest s' = ?e" "em_label s' = em_label s" for s'
    using c [OF that] b [OF that] d by (auto simp: few_code_def)
  then show ?thesis unfolding few_cases_def
    by (intro adds_seqS [OF adds_compares [OF s refl]]) (simp_all add: eq_nodes_def)
qed

lemma adds_case_table:
  assumes s: "em_forest s = []"
  shows "adds (case_table sw l u lolab hilab) s (table_code sw l u lolab hilab (em_label s)) [] (em_label s + 1)"
  unfolding case_table_def
proof (rule adds_bindS [of _ _ "em_label s" "s\<lparr>em_label := em_label s + 1\<rparr>"], goal_cases)
  case 2
  show ?case unfolding table_code_def
    apply (rule adds_seqS, rule adds_when_cmp, simp add: s, simp)
     apply (rule adds_seqS, rule adds_cmp, assumption, assumption)
      apply (rule adds_seqS, rule adds_list_node, assumption, assumption)
       apply (rule adds_seqS, rule adds_flush, assumption, simp, assumption)
        apply (rule adds_seqS, rule adds_code, assumption, assumption, rule adds_when_message, assumption, assumption, rule refl)
       apply (rule refl)+
    by simp_all
qed (simp_all add: genlabel_e_def)

section \<open>Decisions\<close>

text \<open>The label for a value among the cases of a range of indices.\<close>

definition pick :: "swtch \<Rightarrow> nat \<Rightarrow> nat \<Rightarrow> int \<Rightarrow> int" where
  "pick sw lo hi x = (case find (\<lambda>i. x = sw_values sw ! i) [lo..<hi] of Some i \<Rightarrow> sw_labels sw ! i | None \<Rightarrow> sw_deflab sw)"

definition absent :: "swtch \<Rightarrow> nat \<Rightarrow> nat \<Rightarrow> int \<Rightarrow> bool" where
  "absent sw lo hi x \<longleftrightarrow> (\<forall>i. lo \<le> i \<and> i < hi \<longrightarrow> x \<noteq> sw_values sw ! i)"

lemma find_append: "find P (xs @ ys) = (case find P xs of None \<Rightarrow> find P ys | Some x \<Rightarrow> Some x)"
  by (induction xs) auto

lemma absent_find: "absent sw lo hi x \<longleftrightarrow> find (\<lambda>i. x = sw_values sw ! i) [lo..<hi] = None"
  by (auto simp: absent_def find_None_iff)

lemma pick_low:
  assumes "absent sw lo m x" "lo \<le> m" "m \<le> hi"
  shows "pick sw lo hi x = pick sw m hi x"
  using assms upt_add_eq_append [of lo m "hi - m"] by (simp add: pick_def absent_find find_append)

lemma pick_high:
  assumes "absent sw m hi x" "lo \<le> m" "m \<le> hi"
  shows "pick sw lo hi x = pick sw lo m x"
  using assms upt_add_eq_append [of lo m "hi - m"] by (simp add: pick_def absent_find find_append split: option.splits)

lemma pick_absent: "absent sw lo hi x \<Longrightarrow> pick sw lo hi x = sw_deflab sw"
  by (simp add: pick_def absent_find)

lemma pick_present: "\<not> absent sw lo hi x \<Longrightarrow> hi \<le> length (sw_labels sw) \<Longrightarrow> pick sw lo hi x \<in> set (sw_labels sw)"
proof -
  assume "\<not> absent sw lo hi x" and hi: "hi \<le> length (sw_labels sw)"
  then obtain i where i: "find (\<lambda>i. x = sw_values sw ! i) [lo..<hi] = Some i" by (auto simp: absent_find)
  then have "i \<in> set [lo..<hi]" by (metis find_Some_iff nth_mem)
  then show ?thesis using i hi by (simp add: pick_def)
qed

text \<open>Jumps.\<close>

definition goto :: "code list \<Rightarrow> int \<Rightarrow> int \<Rightarrow> dest option" where
  "goto all l x = (case after_label l all of None \<Rightarrow> Some (Leaves l) | Some cs \<Rightarrow> exec_code all cs x)"

lemma exec_code_simps [simp]:
  "exec_code all [] x = Some Falls"
  "exec_code all (Gen ns # cs) x = (case nodes_jump all x ns of None \<Rightarrow> exec_code all cs x | Some None \<Rightarrow> Some BadIndex | Some (Some l) \<Rightarrow> goto all l x)"
  "exec_code all (Jump l # cs) x = goto all l x"
  "exec_code all (Label l # cs) x = exec_code all cs x"
  "exec_code all (Switch t vs ls d # cs) x = exec_code all cs x"
  by (subst exec_code.simps, simp add: goto_def split: option.splits)+

lemma nodes_jump_eq:
  "nodes_jump all x (eq_nodes sw l u @ ns) =
    (if absent sw l (Suc u) x then nodes_jump all x ns else Some (Some (pick sw l (Suc u) x)))"
proof -
  have "nodes_jump all x (map (\<lambda>i. Compare EQ (sw_values sw ! i) (sw_labels sw ! i)) is @ ns) =
      (case find (\<lambda>i. x = sw_values sw ! i) is of None \<Rightarrow> nodes_jump all x ns | Some i \<Rightarrow> Some (Some (sw_labels sw ! i)))" for "is"
    by (induction "is") auto
  then show ?thesis by (simp add: eq_nodes_def absent_find pick_def split: option.splits)
qed

definition labs :: "code list \<Rightarrow> int set" where
  "labs cs = {l. Label l \<in> set cs}"

definition tabs :: "code list \<Rightarrow> int set" where
  "tabs cs = {t. \<exists>vs ls d. Switch t vs ls d \<in> set cs}"

lemma labs_simps [simp]:
  "labs [] = {}" "labs (a @ b) = labs a \<union> labs b" "labs (Label l # cs) = insert l (labs cs)" "labs (Gen ns # cs) = labs cs"
  "labs (Jump l # cs) = labs cs" "labs (Switch t vs ls d # cs) = labs cs"
  by (auto simp: labs_def)

lemma tabs_simps [simp]:
  "tabs [] = {}" "tabs (a @ b) = tabs a \<union> tabs b" "tabs (Label l # cs) = tabs cs" "tabs (Gen ns # cs) = tabs cs"
  "tabs (Jump l # cs) = tabs cs" "tabs (Switch t vs ls d # cs) = insert t (tabs cs)"
  by (auto simp: tabs_def)

lemma goto_outside: "l \<notin> labs all \<Longrightarrow> goto all l x = Some (Leaves l)"
proof -
  have "l \<notin> labs cs \<Longrightarrow> after_label l cs = None" for cs by (induction cs) (auto simp: labs_def)
  then show "l \<notin> labs all \<Longrightarrow> ?thesis" by (simp add: goto_def)
qed

lemma goto_label: "all = a @ Label l # b \<Longrightarrow> l \<notin> labs a \<Longrightarrow> goto all l x = exec_code all b x"
proof -
  have "l \<notin> labs a \<Longrightarrow> after_label l (a @ Label l # b) = Some b" by (induction a) (auto simp: labs_def)
  then show "all = a @ Label l # b \<Longrightarrow> l \<notin> labs a \<Longrightarrow> ?thesis" by (simp add: goto_def)
qed

lemma table_of_here: "t \<notin> tabs a \<Longrightarrow> table_of t (a @ Switch t vs ls d # b) = table_entries vs ls d"
proof (induction a)
  case (Cons c a)
  then show ?case by (cases c) (auto simp: tabs_def)
qed simp

section \<open>Tables\<close>

lemma table_rest_entry:
  "sorted_wrt (<) (k # vs) \<Longrightarrow> length ls = length vs \<Longrightarrow> k < x \<Longrightarrow> x \<le> last (k # vs) \<Longrightarrow>
    nat (x - k - 1) < length (table_rest k vs ls d) \<and>
    table_rest k vs ls d ! nat (x - k - 1) = (case map_of (zip vs ls) x of Some l \<Rightarrow> l | None \<Rightarrow> d)"
proof (induction vs arbitrary: k ls)
  case (Cons v vs)
  obtain l ls' where ls: "ls = l # ls'" "length ls' = length vs" using Cons.prems(2) by (cases ls) auto
  consider "x < v" | "x = v" | "v < x" by linarith
  then show ?case
  proof cases
    case 1
    have "x \<notin> set vs" using 1 Cons.prems(1) by auto
    then have m: "map_of (zip vs ls') x = None" using ls by simp
    show ?thesis using 1 Cons.prems(3) by (simp add: ls nth_append m del: map_of_zip_is_None)
  next
    case 2
    then show ?thesis using Cons.prems(3) by (simp add: ls nth_append)
  next
    case 3
    have x: "x \<le> last (v # vs)" using Cons.prems(4) by simp
    have e: "nat (x - k - 1) = nat (v - k - 1) + Suc (nat (x - v - 1))" using 3 Cons.prems(1) by auto
    show ?thesis using Cons.IH [OF _ ls(2) 3 x] Cons.prems(1) 3 by (simp add: ls nth_append e)
  qed
qed simp

lemma map_of_find: "map_of (zip (map f is) (map g is)) x = map_option g (find (\<lambda>i. x = f i) is)"
  by (induction "is") auto

lemma table_entry:
  assumes sv: "sorted_wrt (<) (map ((!) (sw_values sw)) [l..<Suc u])" and lu: "l \<le> u" and x: "sw_values sw ! l \<le> x" "x \<le> sw_values sw ! u"
  defines "t \<equiv> table_entries (map ((!) (sw_values sw)) [l..<Suc u]) (map ((!) (sw_labels sw)) [l..<Suc u]) (sw_deflab sw)"
  shows "nat (x - sw_values sw ! l) < length t" "t ! nat (x - sw_values sw ! l) = pick sw l (Suc u) x"
proof -
  let ?v = "(!) (sw_values sw)" and ?g = "(!) (sw_labels sw)" and ?is = "[Suc l..<Suc u]"
  have e: "[l..<Suc u] = l # ?is" using lu by (simp add: upt_conv_Cons)
  have t: "t = ?g l # table_rest (?v l) (map ?v ?is) (map ?g ?is) (sw_deflab sw)" unfolding t_def e by simp
  have la: "last (?v l # map ?v ?is) = ?v u" using lu by (cases "l = u") (simp_all add: last_map)
  have "nat (x - ?v l) < length t \<and> t ! nat (x - ?v l) = pick sw l (Suc u) x"
  proof (cases "x = ?v l")
    case True
    then show ?thesis unfolding pick_def e by (simp add: t)
  next
    case False
    then have lt: "?v l < x" and n: "nat (x - ?v l) = Suc (nat (x - ?v l - 1))" using x(1) by simp_all
    have "map_of (zip (map ?v ?is) (map ?g ?is)) x = map_option ?g (find (\<lambda>i. x = ?v i) ?is)" by (rule map_of_find)
    then have "(case map_of (zip (map ?v ?is) (map ?g ?is)) x of Some l \<Rightarrow> l | None \<Rightarrow> sw_deflab sw) = pick sw l (Suc u) x"
      using False unfolding pick_def e by (simp split: option.splits)
    then show ?thesis
      using table_rest_entry [of "?v l" "map ?v ?is" "map ?g ?is" x "sw_deflab sw"] sv lt x(2) la unfolding e t n by simp
  qed
  then show "nat (x - ?v l) < length t" "t ! nat (x - ?v l) = pick sw l (Suc u) x" by simp_all
qed

section \<open>The decision tree\<close>

text \<open>
  A bucket with the cases from l to u among those from lo to hi: the control goes to the right
  label if the code for the lower and for the higher buckets does.
\<close>

definition sorted_cases :: "swtch \<Rightarrow> bool" where
  "sorted_cases sw \<longleftrightarrow> sorted_wrt (<) (sw_values sw) \<and> length (sw_labels sw) = length (sw_values sw)"

lemma value_less: "sorted_cases sw \<Longrightarrow> a < b \<Longrightarrow> b < length (sw_values sw) \<Longrightarrow> sw_values sw ! a < sw_values sw ! b"
  by (simp add: sorted_cases_def sorted_wrt_nth_less)

lemma value_le: "sorted_cases sw \<Longrightarrow> a \<le> b \<Longrightarrow> b < length (sw_values sw) \<Longrightarrow> sw_values sw ! a \<le> sw_values sw ! b"
  using value_less [of sw a b] by (cases "a = b") auto

lemma absentI: "(\<And>i. lo \<le> i \<Longrightarrow> i < hi \<Longrightarrow> x \<noteq> sw_values sw ! i) \<Longrightarrow> absent sw lo hi x"
  by (simp add: absent_def)

lemma absentD: "absent sw lo hi x \<Longrightarrow> lo \<le> i \<Longrightarrow> i < hi \<Longrightarrow> x \<noteq> sw_values sw ! i"
  by (simp add: absent_def)

lemma absent_below:
  assumes "sorted_cases sw" "m < length (sw_values sw)" "sw_values sw ! m < x"
  shows "absent sw lo (Suc m) x"
proof (rule absentI)
  fix i assume "i < Suc m"
  then show "x \<noteq> sw_values sw ! i" using value_le [OF assms(1) _ assms(2), of i] assms(3) by simp
qed

lemma absent_above:
  assumes "sorted_cases sw" "hi \<le> length (sw_values sw)" "x < sw_values sw ! m"
  shows "absent sw m hi x"
proof (rule absentI)
  fix i assume "m \<le> i" "i < hi"
  then show "x \<noteq> sw_values sw ! i" using value_le [OF assms(1), of m i] assms(2,3) by simp
qed

lemma absent_join:
  assumes "absent sw a b x" "absent sw b c x"
  shows "absent sw a c x"
proof (rule absentI)
  fix i assume "a \<le> i" "i < c"
  then show "x \<noteq> sw_values sw ! i" using absentD [OF assms(1), of i] absentD [OF assms(2), of i] by (cases "i < b") simp_all
qed

lemma absent_mono: "absent sw a b x \<Longrightarrow> a \<le> a' \<Longrightarrow> b' \<le> b \<Longrightarrow> absent sw a' b' x"
  by (simp add: absent_def)

lemma present_elsewhere:
  assumes "sorted_cases sw" "\<not> absent sw l (Suc u) x" "hi \<le> length (sw_values sw)" "u < hi"
  shows "absent sw lo l x" "absent sw (Suc u) hi x" "sw_values sw ! l \<le> x" "x \<le> sw_values sw ! u"
proof -
  obtain i where i: "l \<le> i" "i \<le> u" "x = sw_values sw ! i" using assms(2) by (auto simp: absent_def less_Suc_eq_le)
  have il: "i < length (sw_values sw)" using i assms(3,4) by simp
  show "absent sw lo l x" using value_less [OF assms(1) _ il] i(1,3) by (intro absentI) (metis less_irrefl order_less_le_trans)
  show "absent sw (Suc u) hi x"
  proof (rule absentI)
    fix a assume "Suc u \<le> a" "a < hi"
    then show "x \<noteq> sw_values sw ! a" using value_less [OF assms(1), of i a] i(2,3) assms(3) by simp
  qed
  show "sw_values sw ! l \<le> x" "x \<le> sw_values sw ! u"
    using value_le [OF assms(1)] i assms(3,4) by simp_all
qed

lemma pick_bucket:
  assumes "sorted_cases sw" "lo \<le> l" "l \<le> u" "u < hi" "hi \<le> length (sw_values sw)"
  shows "\<not> absent sw l (Suc u) x \<Longrightarrow> pick sw lo hi x = pick sw l (Suc u) x"
    "absent sw l (Suc u) x \<Longrightarrow> x < sw_values sw ! u \<Longrightarrow> pick sw lo hi x = pick sw lo l x"
    "absent sw l (Suc u) x \<Longrightarrow> sw_values sw ! l < x \<Longrightarrow> pick sw lo hi x = pick sw (Suc u) hi x"
proof -
  show "pick sw lo hi x = pick sw l (Suc u) x" if "\<not> absent sw l (Suc u) x"
    using present_elsewhere [OF assms(1) that assms(5,4)] assms by (simp add: pick_low [of sw lo l] pick_high [of sw "Suc u" hi])
  show "pick sw lo hi x = pick sw lo l x" if a: "absent sw l (Suc u) x" "x < sw_values sw ! u"
    using absent_join [OF a(1) absent_mono [OF absent_above [OF assms(1,5) a(2)], of "Suc u" hi]] assms
    by (intro pick_high) auto
  show "pick sw lo hi x = pick sw (Suc u) hi x" if a: "absent sw l (Suc u) x" "sw_values sw ! l < x"
    using absent_join [OF absent_mono [OF absent_below [OF assms(1) _ a(2)], of lo lo l] a(1)] assms
    by (intro pick_low) auto
qed

lemma few_code_exec:
  assumes sw: "sorted_cases sw" and r: "lo \<le> l" "l \<le> u" "u < hi" "hi \<le> length (sw_values sw)"
    and ext: "labs all \<inter> insert (sw_deflab sw) (set (sw_labels sw)) = {}"
    and low: "if low then high \<and> exec_code all C x = Some (Leaves (pick sw lo l x)) else lo = l \<and> lolab = sw_deflab sw"
    and high: "if high then goto all hilab x = Some (Leaves (pick sw (Suc u) hi x)) \<and>
      (\<not> low \<longrightarrow> exec_code all C x = Some (Leaves (pick sw (Suc u) hi x))) else hi = Suc u \<and> hilab = sw_deflab sw"
  shows "exec_code all (few_code sw l u low high lolab hilab @ C) x = Some (Leaves (pick sw lo hi x))"
proof (cases "absent sw l (Suc u) x")
  case False
  have "pick sw l (Suc u) x \<in> set (sw_labels sw)" using pick_present [OF False] r sw by (simp add: sorted_cases_def)
  then have "goto all (pick sw l (Suc u) x) x = Some (Leaves (pick sw l (Suc u) x))" using ext by (intro goto_outside) auto
  then show ?thesis using False pick_bucket(1) [OF sw r False] nodes_jump_eq [of all x sw l u "[]"]
    by (simp add: few_code_def nodes_jump_eq)
next
  case True
  have d: "goto all (sw_deflab sw) x = Some (Leaves (sw_deflab sw))" using ext by (intro goto_outside) auto
  have ne: "x \<noteq> sw_values sw ! u" "x \<noteq> sw_values sw ! l" using True r by (auto simp: absent_def)
  note j = nodes_jump_eq [of all x sw l u] and pb = pick_bucket(2,3) [OF sw r True]
  have gt: "pick sw lo hi x = pick sw (Suc u) hi x" if "sw_values sw ! u < x"
    using absent_below [OF sw _ that, of lo] r by (intro pick_low) auto
  have lt: "pick sw lo hi x = sw_deflab sw" if "x < sw_values sw ! l" "lo = l"
    using absent_above [OF sw r(4) that(1)] that(2) by (simp add: pick_absent)
  show ?thesis
    using low high d ne True pb gt lt r(2) pick_absent [OF True]
    by (cases low; cases high; cases "x < sw_values sw ! u"; cases "x < sw_values sw ! l")
      (auto simp: few_code_def j j [of "[]", simplified])
qed

lemma table_code_exec:
  assumes sw: "sorted_cases sw" and r: "lo \<le> l" "l \<le> u" "u < hi" "hi \<le> length (sw_values sw)"
    and ext: "labs all \<inter> insert (sw_deflab sw) (set (sw_labels sw)) = {}"
    and all: "all = A @ table_code sw l u lolab hilab t @ C" "t \<notin> tabs A" and x: "sw_unsigned sw \<Longrightarrow> 0 \<le> x"
    and low: "if low then goto all lolab x = Some (Leaves (pick sw lo l x)) else lo = l \<and> lolab = sw_deflab sw"
    and high: "if high then goto all hilab x = Some (Leaves (pick sw (Suc u) hi x)) else hi = Suc u \<and> hilab = sw_deflab sw"
  shows "exec_code all (table_code sw l u lolab hilab t @ C) x = Some (Leaves (pick sw lo hi x))"
proof -
  let ?v = "(!) (sw_values sw)"
  have d: "goto all (sw_deflab sw) x = Some (Leaves (sw_deflab sw))" using ext by (intro goto_outside) auto
  have tb: "table_of t all = table_entries (map ?v [l..<Suc u]) (map ((!) (sw_labels sw)) [l..<Suc u]) (sw_deflab sw)"
    unfolding all(1) table_code_def using table_of_here [of t "A @ [Gen ns]" for ns] all(2) by simp
  have sv: "sorted_wrt (<) (map ?v [l..<Suc u])"
    using value_less [OF sw] r by (auto simp: sorted_wrt_iff_nth_less simp del: upt_Suc)
  consider (less) "x < ?v l" | (greater) "?v u < x" | (inside) "?v l \<le> x" "x \<le> ?v u" by linarith
  then show ?thesis
  proof cases
    case less
    have "absent sw l hi x" by (rule absent_above [OF sw r(4) less])
    then have p: "pick sw lo hi x = pick sw lo l x" "lo = l \<Longrightarrow> pick sw lo hi x = sw_deflab sw" using r
      by (simp_all add: pick_high [of sw l hi] pick_absent)
    have "\<not> sw_unsigned sw \<or> ?v l \<noteq> 0" using x less by linarith
    then show ?thesis using less p low d by (cases low) (simp_all add: table_code_def)
  next
    case greater
    have a: "absent sw lo (Suc u) x" using r by (intro absent_below [OF sw _ greater]) simp
    then have p: "pick sw lo hi x = pick sw (Suc u) hi x" "hi = Suc u \<Longrightarrow> pick sw lo hi x = sw_deflab sw" using r
      by (simp_all add: pick_low [OF a] pick_absent)
    have "\<not> x < ?v l" using greater value_le [OF sw r(2)] r by simp
    then show ?thesis using greater p high d by (cases high) (simp_all add: table_code_def)
  next
    case inside
    note e = table_entry [OF sv r(2) inside]
    have p: "pick sw lo hi x = pick sw l (Suc u) x"
    proof (cases "absent sw l (Suc u) x")
      case True
      then have "x < ?v u" "?v l < x" using inside r absentD [OF True, of u] absentD [OF True, of l] by simp_all
      then have "absent sw lo hi x"
        using absent_join [OF absent_mono [OF absent_below [OF sw _ \<open>?v l < x\<close>], of lo lo l] absent_join [OF True absent_mono [OF absent_above [OF sw r(4) \<open>x < ?v u\<close>], of "Suc u" hi]]] r by simp
      then show ?thesis using True by (simp add: pick_absent)
    qed (rule pick_bucket(1) [OF sw r])
    have "goto all (pick sw l (Suc u) x) x = Some (Leaves (pick sw l (Suc u) x))"
      using d pick_absent pick_present [of sw l "Suc u" x] r sw ext
      by (cases "absent sw l (Suc u) x") (auto simp: sorted_cases_def intro!: goto_outside)
    moreover have "node_jump all x (TableJump t (?v l)) = Some (Some (pick sw l (Suc u) x))"
      using e inside unfolding node_jump.simps tb by (simp add: nat_less_iff del: upt_Suc)
    ultimately show ?thesis using inside p unfolding table_code_def by (auto simp del: upt_Suc node_jump.simps(2))
  qed
qed

definition bucket_emit :: "swtch \<Rightarrow> nat \<Rightarrow> nat \<Rightarrow> bool \<Rightarrow> bool \<Rightarrow> int \<Rightarrow> int \<Rightarrow> emission" where
  "bucket_emit sw l u low high lolab hilab =
     (if u - l + 1 \<le> 3 then few_cases sw l u low high lolab hilab else case_table sw l u lolab hilab)"

text \<open>What the code of a bucket does in any code of which it is a part.\<close>

definition bucket_ok :: "swtch \<Rightarrow> nat \<Rightarrow> nat \<Rightarrow> bool \<Rightarrow> bool \<Rightarrow> int \<Rightarrow> int \<Rightarrow> int \<Rightarrow> int \<Rightarrow> code list \<Rightarrow> bool" where
  "bucket_ok sw l u low high lolab hilab n m X \<longleftrightarrow>
     labs X = {} \<and> tabs X \<subseteq> {n..<m} \<and> n \<le> m \<and>
     (\<exists>cs c. X = cs @ [c] \<and> (low \<or> high \<longrightarrow> solid c \<and> (\<forall>l. c \<noteq> Jump l)) \<and> (\<not> low \<and> \<not> high \<longrightarrow> c = Jump lolab \<or> (\<exists>t vs ls d. c = Switch t vs ls d))) \<and>
     (\<forall>A C x lo hi. tabs A \<inter> {n..<m} = {} \<longrightarrow> labs (A @ X @ C) \<inter> insert (sw_deflab sw) (set (sw_labels sw)) = {} \<longrightarrow>
        lo \<le> l \<and> u < hi \<and> hi \<le> length (sw_values sw) \<longrightarrow> (sw_unsigned sw \<longrightarrow> 0 \<le> x) \<longrightarrow>
        (if low then high \<and> goto (A @ X @ C) lolab x = Some (Leaves (pick sw lo l x)) \<and> exec_code (A @ X @ C) C x = Some (Leaves (pick sw lo l x))
         else lo = l \<and> lolab = sw_deflab sw) \<longrightarrow>
        (if high then goto (A @ X @ C) hilab x = Some (Leaves (pick sw (Suc u) hi x)) \<and>
           (\<not> low \<longrightarrow> exec_code (A @ X @ C) C x = Some (Leaves (pick sw (Suc u) hi x))) else hi = Suc u \<and> hilab = sw_deflab sw) \<longrightarrow>
        exec_code (A @ X @ C) (X @ C) x = Some (Leaves (pick sw lo hi x)))"

lemma bucket_okD:
  assumes "bucket_ok sw l u low high lolab hilab n m X"
  shows "labs X = {}" "tabs X \<subseteq> {n..<m}" "n \<le> m"
    "\<exists>cs c. X = cs @ [c] \<and> (low \<or> high \<longrightarrow> solid c \<and> (\<forall>l. c \<noteq> Jump l)) \<and> (\<not> low \<and> \<not> high \<longrightarrow> c = Jump lolab \<or> (\<exists>t vs ls d. c = Switch t vs ls d))"
    "tabs A \<inter> {n..<m} = {} \<Longrightarrow> labs (A @ X @ C) \<inter> insert (sw_deflab sw) (set (sw_labels sw)) = {} \<Longrightarrow>
        lo \<le> l \<Longrightarrow> u < hi \<Longrightarrow> hi \<le> length (sw_values sw) \<Longrightarrow> (sw_unsigned sw \<Longrightarrow> 0 \<le> x) \<Longrightarrow>
        (if low then high \<and> goto (A @ X @ C) lolab x = Some (Leaves (pick sw lo l x)) \<and> exec_code (A @ X @ C) C x = Some (Leaves (pick sw lo l x))
         else lo = l \<and> lolab = sw_deflab sw) \<Longrightarrow>
        (if high then goto (A @ X @ C) hilab x = Some (Leaves (pick sw (Suc u) hi x)) \<and>
           (\<not> low \<longrightarrow> exec_code (A @ X @ C) C x = Some (Leaves (pick sw (Suc u) hi x))) else hi = Suc u \<and> hilab = sw_deflab sw) \<Longrightarrow>
        exec_code (A @ X @ C) (X @ C) x = Some (Leaves (pick sw lo hi x))"
  using assms unfolding bucket_ok_def by blast+

lemma bucket_ok_few:
  assumes sw: "sorted_cases sw" and lu: "l \<le> u"
  shows "bucket_ok sw l u low high lolab hilab n n (few_code sw l u low high lolab hilab)"
  unfolding bucket_ok_def
proof (intro conjI allI impI; (elim conjE)?)
  let ?X = "few_code sw l u low high lolab hilab"
  show "labs (?X) = {}" "tabs (?X) \<subseteq> {n..<n}"
    by (auto simp: few_code_def)
  show "\<exists>cs c. ?X = cs @ [c] \<and> (low \<or> high \<longrightarrow> solid c \<and> (\<forall>l. c \<noteq> Jump l)) \<and>
      (\<not> low \<and> \<not> high \<longrightarrow> c = Jump lolab \<or> (\<exists>t vs ls d. c = Switch t vs ls d))"
    by (auto simp: few_code_def)
next
  let ?X = "few_code sw l u low high lolab hilab"
  fix A C x lo hi
  assume "labs (A @ ?X @ C) \<inter> insert (sw_deflab sw) (set (sw_labels sw)) = {}" "lo \<le> l" "u < hi"
    "hi \<le> length (sw_values sw)"
    "if low then high \<and> goto (A @ ?X @ C) lolab x = Some (Leaves (pick sw lo l x)) \<and>
       exec_code (A @ ?X @ C) C x = Some (Leaves (pick sw lo l x)) else lo = l \<and> lolab = sw_deflab sw"
    "if high then goto (A @ ?X @ C) hilab x = Some (Leaves (pick sw (Suc u) hi x)) \<and>
       (\<not> low \<longrightarrow> exec_code (A @ ?X @ C) C x = Some (Leaves (pick sw (Suc u) hi x))) else hi = Suc u \<and> hilab = sw_deflab sw"
  then show "exec_code (A @ ?X @ C) (?X @ C) x = Some (Leaves (pick sw lo hi x))"
    by (intro few_code_exec [OF sw _ lu]) (auto split: if_splits)
qed simp

lemma bucket_ok_table:
  assumes sw: "sorted_cases sw" and lu: "l \<le> u"
  shows "bucket_ok sw l u low high lolab hilab n (n + 1) (table_code sw l u lolab hilab n)"
  unfolding bucket_ok_def
proof (intro conjI allI impI; (elim conjE)?)
  let ?X = "table_code sw l u lolab hilab n"
  show "labs ?X = {}" "tabs ?X \<subseteq> {n..<n + 1}" by (auto simp: table_code_def)
  show "\<exists>cs c. ?X = cs @ [c] \<and> (low \<or> high \<longrightarrow> solid c \<and> (\<forall>l. c \<noteq> Jump l)) \<and>
      (\<not> low \<and> \<not> high \<longrightarrow> c = Jump lolab \<or> (\<exists>t vs ls d. c = Switch t vs ls d))"
    by (auto simp: table_code_def)
next
  let ?X = "table_code sw l u lolab hilab n"
  fix A C x lo hi
  assume "tabs A \<inter> {n..<n + 1} = {}" "labs (A @ ?X @ C) \<inter> insert (sw_deflab sw) (set (sw_labels sw)) = {}" "lo \<le> l" "u < hi"
    "hi \<le> length (sw_values sw)" "sw_unsigned sw \<longrightarrow> 0 \<le> x"
    "if low then high \<and> goto (A @ ?X @ C) lolab x = Some (Leaves (pick sw lo l x)) \<and>
       exec_code (A @ ?X @ C) C x = Some (Leaves (pick sw lo l x)) else lo = l \<and> lolab = sw_deflab sw"
    "if high then goto (A @ ?X @ C) hilab x = Some (Leaves (pick sw (Suc u) hi x)) \<and>
       (\<not> low \<longrightarrow> exec_code (A @ ?X @ C) C x = Some (Leaves (pick sw (Suc u) hi x))) else hi = Suc u \<and> hilab = sw_deflab sw"
  then show "exec_code (A @ ?X @ C) (?X @ C) x = Some (Leaves (pick sw lo hi x))"
    by (intro table_code_exec [OF sw _ lu, where A = A and low = low and high = high]) (auto split: if_splits)
qed simp

lemma bucket_emit_adds:
  assumes sw: "sorted_cases sw" and lu: "l \<le> u" and d: "\<not> low \<Longrightarrow> \<not> high \<Longrightarrow> lolab = hilab \<and> lolab \<noteq> 0"
  obtains X m where "\<And>s. em_forest s = [] \<Longrightarrow> em_label s = n \<Longrightarrow> adds (bucket_emit sw l u low high lolab hilab) s X [] m"
    "bucket_ok sw l u low high lolab hilab n m X"
proof (cases "u - l + 1 \<le> 3")
  case True
  have "adds (few_cases sw l u low high lolab hilab) s (few_code sw l u low high lolab hilab) [] n"
    if "em_forest s = []" "em_label s = n" for s using adds_few_cases [OF that(1) lu d] that(2) by simp
  then show ?thesis using True by (intro that [OF _ bucket_ok_few [OF sw lu]]) (simp add: bucket_emit_def)
next
  case False
  have "adds (case_table sw l u lolab hilab) s (table_code sw l u lolab hilab n) [] (n + 1)" if "em_forest s = []" "em_label s = n" for s
    using adds_case_table [OF that(1)] that(2) by simp
  then show ?thesis using False by (intro that [OF _ bucket_ok_table [OF sw lu]]) (simp add: bucket_emit_def)
qed

text \<open>What the code of a range of buckets does in any code of which it is a part.\<close>

definition decides :: "swtch \<Rightarrow> int \<Rightarrow> int \<Rightarrow> nat \<Rightarrow> nat \<Rightarrow> code list \<Rightarrow> bool" where
  "decides sw n m lo hi S \<longleftrightarrow>
     labs S \<subseteq> {n..<m} \<and> tabs S \<subseteq> {n..<m} \<and> n \<le> m \<and>
     (\<exists>cs c. S = cs @ [c] \<and> (c = Jump (sw_deflab sw) \<or> (\<exists>t vs ls d. c = Switch t vs ls d))) \<and>
     (\<forall>A C x. (labs A \<union> labs C \<union> tabs A) \<inter> {n..<m} = {} \<longrightarrow> labs (A @ S @ C) \<inter> insert (sw_deflab sw) (set (sw_labels sw)) = {} \<longrightarrow>
        (sw_unsigned sw \<longrightarrow> 0 \<le> x) \<longrightarrow> exec_code (A @ S @ C) (S @ C) x = Some (Leaves (pick sw lo hi x)))"

lemma decidesD:
  assumes "decides sw n m lo hi S"
  shows "labs S \<subseteq> {n..<m}" "tabs S \<subseteq> {n..<m}" "n \<le> m"
    "\<exists>cs c. S = cs @ [c] \<and> (c = Jump (sw_deflab sw) \<or> (\<exists>t vs ls d. c = Switch t vs ls d))"
    "(labs A \<union> labs C \<union> tabs A) \<inter> {n..<m} = {} \<Longrightarrow> labs (A @ S @ C) \<inter> insert (sw_deflab sw) (set (sw_labels sw)) = {} \<Longrightarrow>
        (sw_unsigned sw \<Longrightarrow> 0 \<le> x) \<Longrightarrow> exec_code (A @ S @ C) (S @ C) x = Some (Leaves (pick sw lo hi x))"
  using assms unfolding decides_def by blast+

lemma decides_leaf:
  assumes X: "bucket_ok sw l u False False (sw_deflab sw) (sw_deflab sw) n m X" and r: "Suc u \<le> length (sw_values sw)"
  shows "decides sw n m l (Suc u) X"
  unfolding decides_def
proof (intro conjI allI impI)
  note o = bucket_okD [OF X]
  show "labs X \<subseteq> {n..<m}" "tabs X \<subseteq> {n..<m}" "n \<le> m" using o(1-3) by auto
  show "\<exists>cs c. X = cs @ [c] \<and> (c = Jump (sw_deflab sw) \<or> (\<exists>t vs ls d. c = Switch t vs ls d))"
    using o(4) by blast
  fix A C and x :: int
  assume "(labs A \<union> labs C \<union> tabs A) \<inter> {n..<m} = {}" "labs (A @ X @ C) \<inter> insert (sw_deflab sw) (set (sw_labels sw)) = {}" "sw_unsigned sw \<longrightarrow> 0 \<le> x"
  then show "exec_code (A @ X @ C) (X @ C) x = Some (Leaves (pick sw l (Suc u) x))"
    using r by (intro o(5)) auto
qed

lemma decides_pair:
  assumes X: "bucket_ok sw l u False True (sw_deflab sw) n (n + 1) m X" and S2: "decides sw m k (Suc u) hi S2"
    and r: "u < hi" "hi \<le> length (sw_values sw)"
  shows "decides sw n k l hi (X @ Label n # S2)"
  unfolding decides_def
proof (intro conjI allI impI)
  note o = bucket_okD [OF X] and d2 = decidesD [OF S2]
  show "labs (X @ Label n # S2) \<subseteq> {n..<k}" "tabs (X @ Label n # S2) \<subseteq> {n..<k}" "n \<le> k" using o(1-3) d2(1-3) by auto
  show "\<exists>cs c. X @ Label n # S2 = cs @ [c] \<and> (c = Jump (sw_deflab sw) \<or> (\<exists>t vs ls d. c = Switch t vs ls d))"
    using d2(4) by (metis append_assoc append_Cons)
  fix A C and x :: int
  let ?all = "A @ (X @ Label n # S2) @ C"
  assume a: "(labs A \<union> labs C \<union> tabs A) \<inter> {n..<k} = {}" "labs ?all \<inter> insert (sw_deflab sw) (set (sw_labels sw)) = {}" "sw_unsigned sw \<longrightarrow> 0 \<le> x"
  have out: "l \<in> labs A \<or> l \<in> labs C \<or> l \<in> tabs A \<Longrightarrow> l < n \<or> k \<le> l" for l using a(1) by (auto simp: disjoint_iff)
  have "(labs (A @ X @ [Label n]) \<union> labs C \<union> tabs (A @ X @ [Label n])) \<inter> {m..<k} = {}"
    using out o(1-3) d2(3) by (force simp: disjoint_iff)
  then have e2: "exec_code ?all (S2 @ C) x = Some (Leaves (pick sw (Suc u) hi x))"
    using d2(5) [of "A @ X @ [Label n]" C x] a(2,3) by simp
  have "n \<notin> labs A" using a(1) o(3) d2(3) by auto
  then have "goto ?all n x = exec_code ?all (S2 @ C) x" using o(1) by (intro goto_label [of _ "A @ X"]) auto
  moreover have "tabs A \<inter> {n + 1..<m} = {}" using out d2(3) by (force simp: disjoint_iff)
  ultimately show "exec_code ?all ((X @ Label n # S2) @ C) x = Some (Leaves (pick sw l hi x))"
    using o(5) [of A "Label n # S2 @ C" l hi x] e2 a(2,3) r by simp
qed

lemma decides_triple:
  assumes X: "bucket_ok sw l u True True n (n + 1) (n + 2) m X" and S1: "decides sw m k lo l S1" and S2: "decides sw k j (Suc u) hi S2"
    and r: "lo \<le> l" "u < hi" "hi \<le> length (sw_values sw)"
  shows "decides sw n j lo hi (X @ Label n # S1 @ Label (n + 1) # S2)"
  unfolding decides_def
proof (intro conjI allI impI)
  let ?S = "X @ Label n # S1 @ Label (n + 1) # S2"
  note o = bucket_okD [OF X] and d1 = decidesD [OF S1] and d2 = decidesD [OF S2]
  show "labs ?S \<subseteq> {n..<j}" "tabs ?S \<subseteq> {n..<j}" "n \<le> j" using o(1-3) d1(1-3) d2(1-3) by auto
  show "\<exists>cs c. ?S = cs @ [c] \<and> (c = Jump (sw_deflab sw) \<or> (\<exists>t vs ls d. c = Switch t vs ls d))"
    using d2(4) by (metis append_assoc append_Cons)
  fix A C and x :: int
  let ?all = "A @ ?S @ C"
  assume a: "(labs A \<union> labs C \<union> tabs A) \<inter> {n..<j} = {}" "labs ?all \<inter> insert (sw_deflab sw) (set (sw_labels sw)) = {}" "sw_unsigned sw \<longrightarrow> 0 \<le> x"
  have out: "l \<in> labs A \<or> l \<in> labs C \<or> l \<in> tabs A \<Longrightarrow> l < n \<or> j \<le> l" for l using a(1) by (auto simp: disjoint_iff)
  have "(labs (A @ X @ Label n # S1 @ [Label (n + 1)]) \<union> labs C \<union> tabs (A @ X @ Label n # S1 @ [Label (n + 1)])) \<inter> {k..<j} = {}"
    using out o(1-3) d1(1-3) d2(3) by (force simp: disjoint_iff)
  then have e2: "exec_code ?all (S2 @ C) x = Some (Leaves (pick sw (Suc u) hi x))"
    using d2(5) [of "A @ X @ Label n # S1 @ [Label (n + 1)]" C x] a(2,3) by simp
  have "(labs (A @ X @ [Label n]) \<union> labs (Label (n + 1) # S2 @ C) \<union> tabs (A @ X @ [Label n])) \<inter> {m..<k} = {}"
    using out o(1-3) d1(3) d2(1,3) by (force simp: disjoint_iff)
  then have e1: "exec_code ?all (S1 @ Label (n + 1) # S2 @ C) x = Some (Leaves (pick sw lo l x))"
    using d1(5) [of "A @ X @ [Label n]" "Label (n + 1) # S2 @ C" x] a(2,3) by simp
  have "goto ?all n x = exec_code ?all (S1 @ Label (n + 1) # S2 @ C) x"
    using out [of n] o(1,3) d1(3) d2(3) by (intro goto_label [of _ "A @ X"]) auto
  moreover have "goto ?all (n + 1) x = exec_code ?all (S2 @ C) x"
    using out [of "n + 1"] o(1,3) d1(1,3) d2(3) by (intro goto_label [of _ "A @ X @ Label n # S1"]) force+
  moreover have "tabs A \<inter> {n + 2..<m} = {}" using out d1(3) d2(3) by (force simp: disjoint_iff)
  ultimately show "exec_code ?all (?S @ C) x = Some (Leaves (pick sw lo hi x))"
    using o(5) [of A "Label n # S1 @ Label (n + 1) # S2 @ C" lo hi x] e1 e2 a(2,3) r by simp
qed

definition buckets_ok :: "swtch \<Rightarrow> nat list \<Rightarrow> bool" where
  "buckets_ok sw b \<longleftrightarrow> sorted_wrt (<) b \<and> (\<forall>i < length b. b ! i \<le> length (sw_values sw))"

lemma swcode_unfold:
  "swcode sw b lb ub =
     (let k = (lb + ub) div 2 in
      bindS (tree_labels (lb < k) (k < ub) (sw_deflab sw)) (\<lambda>(lolab, hilab).
      seqS (bucket_emit sw (b ! k) (b ! (k + 1) - 1) (lb < k) (k < ub) lolab hilab)
        (seqS (if lb < k then seqS (assertS (lolab \<noteq> sw_deflab sw)) (seqS (definelab lolab) (swcode sw b lb (k - 1))) else returnS ())
           (if k < ub then seqS (assertS (hilab \<noteq> sw_deflab sw)) (seqS (definelab hilab) (swcode sw b (k + 1) ub)) else returnS ()))))"
  unfolding swcode.simps [of sw b lb ub] Let_def bucket_emit_def by simp

text \<open>A label that is defined after code that ends in a jump to another label, and the code for a range after it.\<close>

lemma adds_part:
  assumes s: "em_forest s = []" "em_code s = cs @ [c]" "solid c" "c \<noteq> Jump lab" "lab \<noteq> 0" "lab \<noteq> d" "em_label s = n"
    and g: "\<And>s'. em_forest s' = [] \<Longrightarrow> em_label s' = n \<Longrightarrow> adds g s' S [] m"
  shows "adds (seqS (assertS (lab \<noteq> d)) (seqS (definelab lab) g)) s (Label lab # S) [] m"
  by (rule adds_seqS [OF adds_assert [OF s(6,1,7)]], rule adds_seqS [OF adds_definelab g])
    (use s in \<open>simp_all add: assertS_def\<close>)

lemma solid_last:
  "\<exists>cs c. S = cs @ [c] \<and> (c = Jump d \<or> (\<exists>t vs ls e. c = Switch t vs ls e)) \<Longrightarrow> lab \<noteq> d \<Longrightarrow> \<exists>cs c. S = cs @ [c] \<and> solid c \<and> c \<noteq> Jump lab"
  by fastforce

text \<open>The code for the higher buckets, and for the lower and the higher ones.\<close>

lemma adds_high:
  assumes s: "em_forest s = []" "em_code s = cs @ S" "\<exists>cs c. S = cs @ [c] \<and> solid c \<and> c \<noteq> Jump hilab" "hilab \<noteq> d" "0 < hilab" "em_label s = n"
    and g: "\<And>s'. em_forest s' = [] \<Longrightarrow> em_label s' = n \<Longrightarrow> adds g s' S2 [] m"
  shows "adds (seqS (returnS ()) (seqS (assertS (hilab \<noteq> d)) (seqS (definelab hilab) g))) s (Label hilab # S2) [] m"
proof -
  obtain es c where c: "em_code s = es @ [c]" "solid c" "c \<noteq> Jump hilab" using s(2,3) by (metis append_assoc)
  show ?thesis
    by (rule adds_seqS [OF adds_return [OF s(1,6)] adds_part [of _ es c]]) (use s c g in simp_all)
qed

lemma adds_both:
  assumes s: "em_forest s = []" "em_code s = cs @ S" "\<exists>cs c. S = cs @ [c] \<and> solid c \<and> c \<noteq> Jump lolab" "lolab \<noteq> d" "0 < lolab" "em_label s = n"
    and f: "\<And>s'. em_forest s' = [] \<Longrightarrow> em_label s' = n \<Longrightarrow> adds f s' S1 [] k"
      "\<exists>cs c. S1 = cs @ [c] \<and> solid c \<and> c \<noteq> Jump hilab"
    and g: "\<And>s'. em_forest s' = [] \<Longrightarrow> em_label s' = k \<Longrightarrow> adds g s' S2 [] m" "hilab \<noteq> d" "0 < hilab"
  shows "adds (seqS (seqS (assertS (lolab \<noteq> d)) (seqS (definelab lolab) f)) (seqS (assertS (hilab \<noteq> d)) (seqS (definelab hilab) g))) s
    (Label lolab # S1 @ Label hilab # S2) [] m"
proof -
  obtain es c where c: "em_code s = es @ [c]" "solid c" "c \<noteq> Jump lolab" using s(2,3) by (metis append_assoc)
  obtain fs e where e: "S1 = fs @ [e]" "solid e" "e \<noteq> Jump hilab" using f(2) by blast
  have 1: "adds (seqS (assertS (lolab \<noteq> d)) (seqS (definelab lolab) f)) s (Label lolab # S1) [] k"
    by (rule adds_part [of _ es c]) (use s c f(1) in simp_all)
  show ?thesis
    by (rule adds_seqS [OF 1 adds_part [of _ "em_code s @ Label lolab # fs" e]]) (use e g in simp_all)
qed

lemma swcode_pair:
  assumes k: "(lb + ub) div 2 = lb" "lb < ub" and d: "0 < sw_deflab sw" "sw_deflab sw < n"
    and X: "\<And>s. em_forest s = [] \<Longrightarrow> em_label s = n + 1 \<Longrightarrow> adds (bucket_emit sw (b ! lb) (b ! (lb + 1) - 1) False True (sw_deflab sw) n) s X [] m"
      "\<exists>cs c. X = cs @ [c] \<and> solid c \<and> (\<forall>l. c \<noteq> Jump l)"
    and S2: "\<forall>s. em_forest s = [] \<longrightarrow> em_label s = m \<longrightarrow> adds (swcode sw b (lb + 1) ub) s S2 [] j"
    and s: "em_forest s = []" "em_label s = n"
  shows "adds (swcode sw b lb ub) s (X @ Label n # S2) [] j"
proof -
  let ?d = "sw_deflab sw"
  have "adds (seqS (bucket_emit sw (b ! lb) (b ! (lb + 1) - 1) False True ?d n)
     (seqS (returnS ()) (seqS (assertS (n \<noteq> ?d)) (seqS (definelab n) (swcode sw b (lb + 1) ub))))) (s\<lparr>em_label := n + 1\<rparr>) (X @ Label n # S2) [] j"
    by (rule adds_seqS [OF X(1) adds_high [of _ "em_code s" X]]) (use s X(2) S2 d in auto)
  moreover have tl: "tree_labels False True ?d s = Ret ((?d, n), s\<lparr>em_label := n + 1\<rparr>)"
    using s by (simp add: tree_labels_def genlabel_e_def cfun_defs)
  ultimately show ?thesis unfolding swcode_unfold [of sw b lb ub] Let_def k(1) using k(2)
    by (simp only: less_irrefl if_False if_True) (intro adds_bindS [where f = "tree_labels False True ?d" and s = s, OF tl]; simp)
qed

lemma swcode_triple:
  assumes k: "(lb + ub) div 2 = k" "lb < k" "k < ub" and d: "0 < sw_deflab sw" "sw_deflab sw < n"
    and X: "\<And>s. em_forest s = [] \<Longrightarrow> em_label s = n + 2 \<Longrightarrow> adds (bucket_emit sw (b ! k) (b ! (k + 1) - 1) True True n (n + 1)) s X [] m"
      "\<exists>cs c. X = cs @ [c] \<and> solid c \<and> (\<forall>l. c \<noteq> Jump l)"
    and S1: "\<forall>s. em_forest s = [] \<longrightarrow> em_label s = m \<longrightarrow> adds (swcode sw b lb (k - 1)) s S1 [] i"
      "\<exists>cs c. S1 = cs @ [c] \<and> (c = Jump (sw_deflab sw) \<or> (\<exists>t vs ls d. c = Switch t vs ls d))"
    and S2: "\<forall>s. em_forest s = [] \<longrightarrow> em_label s = i \<longrightarrow> adds (swcode sw b (k + 1) ub) s S2 [] j"
    and s: "em_forest s = []" "em_label s = n"
  shows "adds (swcode sw b lb ub) s (X @ Label n # S1 @ Label (n + 1) # S2) [] j"
proof -
  let ?d = "sw_deflab sw"
  have "adds (seqS (bucket_emit sw (b ! k) (b ! (k + 1) - 1) True True n (n + 1))
     (seqS (seqS (assertS (n \<noteq> ?d)) (seqS (definelab n) (swcode sw b lb (k - 1))))
       (seqS (assertS (n + 1 \<noteq> ?d)) (seqS (definelab (n + 1)) (swcode sw b (k + 1) ub))))) (s\<lparr>em_label := n + 2\<rparr>)
     (X @ Label n # S1 @ Label (n + 1) # S2) [] j"
    by (rule adds_seqS [OF X(1) adds_both [of _ "em_code s" X _ _ m _ S1 i "n + 1"]])
      (use s X(2) S1(1) S2 d solid_last [OF S1(2), of "n + 1"] in auto)
  moreover have tl: "tree_labels True True ?d s = Ret ((n, n + 1), s\<lparr>em_label := n + 2\<rparr>)"
    using s by (simp add: tree_labels_def genlabel_e_def cfun_defs)
  ultimately show ?thesis unfolding swcode_unfold [of sw b lb ub] Let_def k(1) using k(2,3)
    by (simp only: if_True) (intro adds_bindS [where f = "tree_labels True True ?d" and s = s, OF tl]; simp)
qed

text \<open>swcode for a range of buckets returns, and its code decides among the cases from lo to hi.\<close>

definition makes :: "swtch \<Rightarrow> nat list \<Rightarrow> nat \<Rightarrow> nat \<Rightarrow> int \<Rightarrow> nat \<Rightarrow> nat \<Rightarrow> bool" where
  "makes sw b lb ub n lo hi \<longleftrightarrow>
     (\<exists>S m. (\<forall>s. em_forest s = [] \<longrightarrow> em_label s = n \<longrightarrow> adds (swcode sw b lb ub) s S [] m) \<and> decides sw n m lo hi S)"

lemma makes_leaf:
  assumes sw: "sorted_cases sw" and d: "0 < sw_deflab sw" and b: "b ! lb < b ! (lb + 1)" "b ! (lb + 1) \<le> length (sw_values sw)"
  shows "makes sw b lb lb n (b ! lb) (b ! (lb + 1))"
proof -
  let ?d = "sw_deflab sw" and ?l = "b ! lb" and ?u = "b ! (lb + 1) - 1"
  obtain X m where X: "\<And>s. em_forest s = [] \<Longrightarrow> em_label s = n \<Longrightarrow> adds (bucket_emit sw ?l ?u False False ?d ?d) s X [] m"
    "bucket_ok sw ?l ?u False False ?d ?d n m X"
    by (rule bucket_emit_adds [OF sw, of ?l ?u False False ?d ?d n]) (use b d in auto)
  have "adds (swcode sw b lb lb) s X [] m" if "em_forest s = []" "em_label s = n" for s
    unfolding swcode_unfold [of sw b lb lb] using X(1) [OF that] by (auto simp: tree_labels_def adds_def cfun_defs Let_def)
  moreover have "decides sw n m ?l (b ! (lb + 1)) X" using decides_leaf [OF X(2)] b by simp
  ultimately show ?thesis unfolding makes_def by blast
qed

lemma makes_pair:
  assumes sw: "sorted_cases sw" and d: "0 < sw_deflab sw" "sw_deflab sw < n" and k: "(lb + ub) div 2 = lb" "lb < ub"
    and b: "b ! lb < b ! (lb + 1)" "b ! (lb + 1) \<le> hi" "b ! (lb + 1) - 1 < hi" "hi \<le> length (sw_values sw)"
    and high: "\<And>i. sw_deflab sw < i \<Longrightarrow> makes sw b (lb + 1) ub i (b ! (lb + 1)) hi"
  shows "makes sw b lb ub n (b ! lb) hi"
proof -
  let ?d = "sw_deflab sw" and ?l = "b ! lb" and ?u = "b ! (lb + 1) - 1"
  have u: "Suc ?u = b ! (lb + 1)" "?l \<le> ?u" using b(1) by auto
  obtain X m where X: "\<And>s. em_forest s = [] \<Longrightarrow> em_label s = n + 1 \<Longrightarrow> adds (bucket_emit sw ?l ?u False True ?d n) s X [] m"
    "bucket_ok sw ?l ?u False True ?d n (n + 1) m X"
    by (rule bucket_emit_adds [OF sw u(2), of False True ?d n]) auto
  note Xo = bucket_okD [OF X(2)]
  obtain S2 j where S2: "\<forall>s. em_forest s = [] \<longrightarrow> em_label s = m \<longrightarrow> adds (swcode sw b (lb + 1) ub) s S2 [] j" "decides sw m j (Suc ?u) hi S2"
    using high [of m] d(2) Xo(3) unfolding makes_def u(1) by auto
  have "adds (swcode sw b lb ub) s (X @ Label n # S2) [] j" if s: "em_forest s = []" "em_label s = n" for s
    by (rule swcode_pair [OF k d, where m = m]) (use X(1) Xo(4) S2(1) s in simp_all)
  moreover have "decides sw n j ?l hi (X @ Label n # S2)" by (rule decides_pair [OF X(2) S2(2) b(3,4)])
  ultimately show ?thesis unfolding makes_def by blast
qed

lemma makes_triple:
  assumes sw: "sorted_cases sw" and d: "0 < sw_deflab sw" "sw_deflab sw < n" and k: "(lb + ub) div 2 = k" "lb < k" "k < ub"
    and b: "lo \<le> b ! k" "b ! k < b ! (k + 1)" "b ! (k + 1) - 1 < hi" "hi \<le> length (sw_values sw)"
    and low: "\<And>i. sw_deflab sw < i \<Longrightarrow> makes sw b lb (k - 1) i lo (b ! k)"
    and high: "\<And>i. sw_deflab sw < i \<Longrightarrow> makes sw b (k + 1) ub i (b ! (k + 1)) hi"
  shows "makes sw b lb ub n lo hi"
proof -
  let ?d = "sw_deflab sw" and ?l = "b ! k" and ?u = "b ! (k + 1) - 1"
  have u: "Suc ?u = b ! (k + 1)" "?l \<le> ?u" using b(2) by auto
  obtain X m where X: "\<And>s. em_forest s = [] \<Longrightarrow> em_label s = n + 2 \<Longrightarrow> adds (bucket_emit sw ?l ?u True True n (n + 1)) s X [] m"
    "bucket_ok sw ?l ?u True True n (n + 1) (n + 2) m X"
    by (rule bucket_emit_adds [OF sw u(2), of True True n "n + 1"]) auto
  note Xo = bucket_okD [OF X(2)]
  obtain S1 i where S1: "\<forall>s. em_forest s = [] \<longrightarrow> em_label s = m \<longrightarrow> adds (swcode sw b lb (k - 1)) s S1 [] i" "decides sw m i lo ?l S1"
    using low [of m] d(2) Xo(3) unfolding makes_def by auto
  note d1 = decidesD [OF S1(2)]
  obtain S2 j where S2: "\<forall>s. em_forest s = [] \<longrightarrow> em_label s = i \<longrightarrow> adds (swcode sw b (k + 1) ub) s S2 [] j" "decides sw i j (Suc ?u) hi S2"
    using high [of i] d(2) Xo(3) d1(3) unfolding makes_def u(1) by auto
  have "adds (swcode sw b lb ub) s (X @ Label n # S1 @ Label (n + 1) # S2) [] j" if s: "em_forest s = []" "em_label s = n" for s
    by (rule swcode_triple [OF k d, where m = m and i = i]) (use X(1) Xo(4) S1(1) d1(4) S2(1) s in simp_all)
  moreover have "decides sw n j lo hi (X @ Label n # S1 @ Label (n + 1) # S2)" by (rule decides_triple [OF X(2) S1(2) S2(2) b(1,3,4)])
  ultimately show ?thesis unfolding makes_def by blast
qed

lemma swcode_decides:
  assumes sw: "sorted_cases sw" and b: "buckets_ok sw b" and d: "0 < sw_deflab sw"
  shows "lb \<le> ub \<Longrightarrow> ub + 1 < length b \<Longrightarrow> sw_deflab sw < n \<Longrightarrow> makes sw b lb ub n (b ! lb) (b ! (ub + 1))"
proof (induction "ub - lb" arbitrary: lb ub n rule: less_induct)
  case less
  note prem = less.prems
  define k where "k = (lb + ub) div 2"
  have k: "lb \<le> k" "k \<le> ub" "lb < ub \<Longrightarrow> k < ub" using prem(1) by (auto simp: k_def)
  have bs: "i < j \<Longrightarrow> j < length b \<Longrightarrow> b ! i < b ! j" for i j using b by (simp add: buckets_ok_def sorted_wrt_nth_less)
  have le: "b ! i \<le> b ! j" if "i \<le> j" "j < length b" for i j using bs [of i j] that by (cases "i = j") auto
  have hi: "b ! (ub + 1) \<le> length (sw_values sw)" using b prem(2) by (simp add: buckets_ok_def)
  have kb: "b ! k < b ! (k + 1)" "b ! (k + 1) \<le> b ! (ub + 1)" "b ! lb \<le> b ! k" using bs [of k "k + 1"] le k prem(2) by simp_all
  have high: "makes sw b (k + 1) ub i (b ! (k + 1)) (b ! (ub + 1))" if "k < ub" "sw_deflab sw < i" for i
    using less.hyps [of ub "k + 1" i] that k prem by simp
  have low: "makes sw b lb (k - 1) i (b ! lb) (b ! k)" if "lb < k" "sw_deflab sw < i" for i
    using less.hyps [of "k - 1" lb i] that k prem by simp
  consider (leaf) "lb = ub" | (pair) "k = lb" "lb < ub" | (triple) "lb < k" "k < ub" using k by linarith
  then show ?case
  proof cases
    case leaf
    then have kk: "k = lb" using k by simp
    show ?thesis using kb(1) hi unfolding kk leaf [symmetric] by (rule makes_leaf [OF sw d])
  next
    case pair
    have uh: "b ! (lb + 1) - 1 < b ! (ub + 1)" using kb(1,2) unfolding pair(1) by linarith
    have kk: "(lb + ub) div 2 = lb" using pair(1) k_def by simp
    show ?thesis
      by (rule makes_pair [OF sw d prem(3) kk pair(2) kb(1,2) [unfolded pair(1)] uh hi high [unfolded pair(1)]]) (rule pair(2))
  next
    case triple
    have uh: "b ! (k + 1) - 1 < b ! (ub + 1)" using kb(1,2) by linarith
    show ?thesis
      by (rule makes_triple [OF sw d prem(3) k_def [symmetric] triple kb(3,1) uh hi low [OF triple(1)] high [OF triple(2)]])
  qed
qed

section \<open>Buckets\<close>

definition starts_ok :: "nat list \<Rightarrow> nat \<Rightarrow> bool" where
  "starts_ok bs k \<longleftrightarrow> sorted_wrt (>) bs \<and> (\<forall>x \<in> set bs. x < k) \<and> (0 < k \<longrightarrow> bs \<noteq> [] \<and> last bs = 0)"

lemma join_buckets_ok: "starts_ok bs k \<Longrightarrow> starts_ok (join_buckets dense v j bs) k"
  by (induction dense v j bs rule: join_buckets.induct) (auto simp: starts_ok_def)

lemma starts_ok_Cons: "starts_ok bs k \<Longrightarrow> starts_ok (k # bs) (Suc k)"
  by (cases "k = 0") (auto simp: starts_ok_def)

lemma make_buckets_ok: "starts_ok bs k \<Longrightarrow> starts_ok (make_buckets dense v [k..<k + n] bs) (k + n)"
proof (induction n arbitrary: k bs)
  case (Suc n)
  have e: "[k..<k + Suc n] = k # [Suc k..<Suc k + n]" by (simp add: upt_conv_Cons)
  show ?case using Suc.IH [OF join_buckets_ok [OF starts_ok_Cons [OF Suc.prems]]] unfolding e by simp
qed simp

lemma swgen_decides:
  assumes sw: "sorted_cases sw" "sw_values sw \<noteq> []" and d: "0 < sw_deflab sw" "sw_deflab sw < n"
  obtains S m where "\<And>s. em_forest s = [] \<Longrightarrow> em_label s = n \<Longrightarrow> adds (swgen dense sw) s S [] m"
    "decides sw n m 0 (length (sw_values sw)) S"
proof -
  let ?N = "length (sw_values sw)"
  define bs where "bs = make_buckets dense (sw_values sw) [0..<?N] []"
  have "starts_ok bs ?N" using make_buckets_ok [of "[]" 0 dense "sw_values sw" ?N] by (simp add: bs_def starts_ok_def)
  then have o: "sorted_wrt (>) bs" "\<forall>x \<in> set bs. x < ?N" "bs \<noteq> []" "last bs = 0" using sw(2) by (simp_all add: starts_ok_def)
  let ?b = "rev bs @ [?N]"
  have ge: "\<forall>i < length ?b. ?b ! i \<le> ?N"
  proof (intro allI impI)
    fix i assume "i < length ?b"
    then have "?b ! i \<in> set ?b" by (rule nth_mem)
    then show "?b ! i \<le> ?N" using o(2) by auto
  qed
  have "sorted_wrt (<) ?b" using o(1,2) by (simp add: sorted_wrt_append sorted_wrt_rev)
  then have b: "buckets_ok sw ?b" using ge by (simp add: buckets_ok_def)
  have e: "?b ! 0 = 0" "?b ! (length bs - 1 + 1) = ?N" using o(3,4) by (simp_all add: nth_append rev_nth last_conv_nth)
  obtain S m where "\<forall>s. em_forest s = [] \<longrightarrow> em_label s = n \<longrightarrow> adds (swcode sw ?b 0 (length bs - 1)) s S [] m"
      "decides sw n m (?b ! 0) (?b ! (length bs - 1 + 1)) S"
    using swcode_decides [OF sw(1) b d(1), of 0 "length bs - 1" n] o(3) d(2) unfolding makes_def by auto
  then show thesis using that [of S m] unfolding e by (simp add: swgen_def bs_def Let_def)
qed

section \<open>The sorted cases\<close>

fun add_cases :: "(int \<times> int) list \<Rightarrow> swtch \<Rightarrow> (swtch, emitter) cfun" where
  "add_cases [] sw = returnS sw"
| "add_cases ((v, l) # cs) sw = bindS (caselabel v l sw) (add_cases cs)"

definition new_switch :: "bool \<Rightarrow> int \<Rightarrow> swtch" where
  "new_switch uns lab = \<lparr>sw_unsigned = uns, sw_deflab = lab, sw_size = SWSIZE, sw_values = [], sw_labels = []\<rparr>"

lemma case_pos_spec:
  "k \<le> length vs \<Longrightarrow> case_pos vs val k \<le> k \<and> (\<forall>i. case_pos vs val k \<le> i \<and> i < k \<longrightarrow> val \<le> vs ! i) \<and>
    (0 < case_pos vs val k \<longrightarrow> vs ! (case_pos vs val k - 1) < val)"
  by (induction k) (auto simp: less_Suc_eq)

lemma case_pos_bounds:
  assumes sw: "sorted_cases sw" and v: "val \<notin> set (sw_values sw)"
  shows "case_pos (sw_values sw) val (length (sw_values sw)) \<le> length (sw_values sw)"
    "\<forall>x \<in> set (take (case_pos (sw_values sw) val (length (sw_values sw))) (sw_values sw)). x < val"
    "\<forall>x \<in> set (drop (case_pos (sw_values sw) val (length (sw_values sw))) (sw_values sw)). val < x"
proof -
  let ?vs = "sw_values sw" and ?k = "case_pos (sw_values sw) val (length (sw_values sw))"
  have k: "?k \<le> length ?vs" "?k \<le> i \<Longrightarrow> i < length ?vs \<Longrightarrow> val \<le> ?vs ! i" "0 < ?k \<Longrightarrow> ?vs ! (?k - 1) < val" for i
    using case_pos_spec [of "length ?vs" ?vs val] by simp_all
  show "?k \<le> length ?vs" by (rule k(1))
  show "\<forall>x \<in> set (take ?k ?vs). x < val"
  proof
    fix x assume "x \<in> set (take ?k ?vs)"
    then obtain i where i: "i < ?k" "x = ?vs ! i" using k(1) by (auto simp: in_set_conv_nth)
    then have "?vs ! i \<le> ?vs ! (?k - 1)" using k(1) by (intro value_le [OF sw]) auto
    then show "x < val" using k(3) i by simp
  qed
  show "\<forall>x \<in> set (drop ?k ?vs). val < x"
  proof
    fix x assume x: "x \<in> set (drop ?k ?vs)"
    obtain i where "i < length (drop ?k ?vs)" "x = drop ?k ?vs ! i" using x by (metis in_set_conv_nth)
    then have "?k + i < length ?vs" "x = ?vs ! (?k + i)" using k(1) by simp_all
    then have "val \<le> x" using k(2) [of "?k + i"] by simp
    moreover have "x \<in> set ?vs" using x by (rule in_set_dropD)
    ultimately show "val < x" using v by (cases "val = x") auto
  qed
qed

lemma caselabel_result:
  "\<exists>ms. caselabel val lab sw s =
     (let vs = sw_values sw; ls = sw_labels sw; k = case_pos vs val (length vs) in
      Ret (sw\<lparr>sw_size := if sw_size sw \<le> length vs then sw_size sw * 2 else sw_size sw,
        sw_values := take k vs @ [val] @ drop k vs, sw_labels := take k ls @ [lab] @ drop k ls\<rparr>, s\<lparr>em_msgs := ms\<rparr>))"
proof -
  let ?vs = "sw_values sw"
  define k where "k = case_pos ?vs val (length ?vs)"
  have w: "\<exists>ms. whenS b (message m) s = Ret ((), s\<lparr>em_msgs := ms\<rparr>)" for b m and s :: emitter
    by (cases b) (auto simp: cfun_defs message_def intro: exI [of _ "em_msgs s"])
  obtain ms where 1: "whenS (k < length ?vs \<and> ?vs ! k = val) (message ''duplicate case label'') s = Ret ((), s\<lparr>em_msgs := ms\<rparr>)"
    using w by blast
  obtain ms' where 2: "whenS (2 \<le> em_Aflag (s\<lparr>em_msgs := ms\<rparr>) \<and> length ?vs + 1 = 258) (message ''more than 257 cases in a switch'') (s\<lparr>em_msgs := ms\<rparr>) =
      Ret ((), s\<lparr>em_msgs := ms, em_msgs := ms'\<rparr>)" using w by blast
  show ?thesis
    unfolding caselabel_def Let_def k_def [symmetric] seqS_def bindS_def 1
    by (rule exI [of _ ms'], simp only: bind_outcome.simps prod.case 2, simp add: returnS_def)
qed

lemma caselabel_sorted:
  assumes sw: "sorted_cases sw" and v: "val \<notin> set (sw_values sw)"
  obtains sw' ms where "caselabel val lab sw s = Ret (sw', s\<lparr>em_msgs := ms\<rparr>)" "sorted_cases sw'"
    "sw_unsigned sw' = sw_unsigned sw" "sw_deflab sw' = sw_deflab sw"
    "set (zip (sw_values sw') (sw_labels sw')) = insert (val, lab) (set (zip (sw_values sw) (sw_labels sw)))"
    "set (sw_values sw') = insert val (set (sw_values sw))"
proof -
  let ?vs = "sw_values sw" and ?ls = "sw_labels sw"
  define k where "k = case_pos ?vs val (length ?vs)"
  have len: "length ?ls = length ?vs" using sw by (simp add: sorted_cases_def)
  note b = case_pos_bounds [OF sw v, folded k_def]
  let ?sw = "sw\<lparr>sw_size := if sw_size sw \<le> length ?vs then sw_size sw * 2 else sw_size sw,
     sw_values := take k ?vs @ [val] @ drop k ?vs, sw_labels := take k ?ls @ [lab] @ drop k ?ls\<rparr>"
  have "sorted_wrt (<) (take k ?vs @ drop k ?vs)" using sw by (simp add: sorted_cases_def)
  then have so: "sorted_cases ?sw" using b(2,3) len b(1) unfolding sorted_cases_def
    by (fastforce simp: sorted_wrt_append simp del: append_take_drop_id)
  have zz: "zip ?vs ?ls = zip (take k ?vs) (take k ?ls) @ zip (drop k ?vs) (drop k ?ls)"
    using len b(1) by (subst zip_append [symmetric]) simp_all
  have z: "set (zip (take k ?vs @ [val] @ drop k ?vs) (take k ?ls @ [lab] @ drop k ?ls)) = insert (val, lab) (set (zip ?vs ?ls))"
    using len b(1) unfolding zz by (simp add: zip_append)
  have st: "set (take k ?vs @ [val] @ drop k ?vs) = insert val (set ?vs)" by (metis Un_insert_right append_Cons append_Nil append_take_drop_id list.simps(15) set_append)
  have fields: "sw_unsigned ?sw = sw_unsigned sw" "sw_deflab ?sw = sw_deflab sw"
    "sw_values ?sw = take k ?vs @ [val] @ drop k ?vs" "sw_labels ?sw = take k ?ls @ [lab] @ drop k ?ls" by simp_all
  obtain ms where "caselabel val lab sw s = Ret (?sw, s\<lparr>em_msgs := ms\<rparr>)" using caselabel_result [of val lab sw s] unfolding Let_def k_def [symmetric] by blast
  then show thesis by (rule that [OF _ so fields(1,2)]) (simp_all only: fields z st)
qed

lemma add_cases_sorted:
  "sorted_cases sw \<Longrightarrow> distinct (map fst cases) \<Longrightarrow> set (map fst cases) \<inter> set (sw_values sw) = {} \<Longrightarrow>
    \<exists>sw' ms. add_cases cases sw s = Ret (sw', s\<lparr>em_msgs := ms\<rparr>) \<and> sorted_cases sw' \<and> sw_unsigned sw' = sw_unsigned sw \<and>
      sw_deflab sw' = sw_deflab sw \<and> set (zip (sw_values sw') (sw_labels sw')) = set cases \<union> set (zip (sw_values sw) (sw_labels sw)) \<and>
      set (sw_values sw') = set (map fst cases) \<union> set (sw_values sw)"
proof (induction cases arbitrary: sw s)
  case Nil
  then show ?case by (auto simp: cfun_defs intro: exI [of _ "em_msgs s"])
next
  case (Cons c cases)
  obtain v l where c: "c = (v, l)" by fastforce
  obtain sw1 ms where 1: "caselabel v l sw s = Ret (sw1, s\<lparr>em_msgs := ms\<rparr>)" "sorted_cases sw1"
    "sw_unsigned sw1 = sw_unsigned sw" "sw_deflab sw1 = sw_deflab sw"
    "set (zip (sw_values sw1) (sw_labels sw1)) = insert (v, l) (set (zip (sw_values sw) (sw_labels sw)))"
    "set (sw_values sw1) = insert v (set (sw_values sw))"
    using caselabel_sorted [OF Cons.prems(1), of v l s] Cons.prems(3) c by auto
  obtain sw2 ms2 where 2: "add_cases cases sw1 (s\<lparr>em_msgs := ms\<rparr>) = Ret (sw2, s\<lparr>em_msgs := ms, em_msgs := ms2\<rparr>)" "sorted_cases sw2"
    "sw_unsigned sw2 = sw_unsigned sw1" "sw_deflab sw2 = sw_deflab sw1"
    "set (zip (sw_values sw2) (sw_labels sw2)) = set cases \<union> set (zip (sw_values sw1) (sw_labels sw1))"
    "set (sw_values sw2) = set (map fst cases) \<union> set (sw_values sw1)"
    using Cons.IH [OF 1(2), of "s\<lparr>em_msgs := ms\<rparr>"] Cons.prems(2,3) 1(6) c by auto
  have "add_cases (c # cases) sw s = Ret (sw2, s\<lparr>em_msgs := ms2\<rparr>)" using 1(1) 2(1) by (simp add: c bindS_def)
  then show ?case using 1 2 c by (intro exI [of _ sw2] exI [of _ ms2]) auto
qed

lemma sorted_distinct: "sorted_cases sw \<Longrightarrow> distinct (sw_values sw)"
  by (auto simp: distinct_conv_nth) (metis linorder_neqE_nat order_less_irrefl value_less)

lemma pick_cases:
  assumes sw: "sorted_cases sw" and c: "set (zip (sw_values sw) (sw_labels sw)) = set cases" "distinct (map fst cases)"
  shows "pick sw 0 (length (sw_values sw)) x = (case map_of cases x of Some l \<Rightarrow> l | None \<Rightarrow> sw_deflab sw)"
proof -
  let ?n = "length (sw_values sw)"
  have l: "length (sw_labels sw) = ?n" using sw by (simp add: sorted_cases_def)
  have z: "zip (map ((!) (sw_values sw)) [0..<?n]) (map ((!) (sw_labels sw)) [0..<?n]) = zip (sw_values sw) (sw_labels sw)"
    by (metis l map_nth)
  have "map_of (zip (sw_values sw) (sw_labels sw)) = map_of cases"
    using map_of_inject_set [of "zip (sw_values sw) (sw_labels sw)" cases] c sorted_distinct [OF sw] l by simp
  moreover have "map_of (zip (sw_values sw) (sw_labels sw)) x = map_option ((!) (sw_labels sw)) (find (\<lambda>i. x = sw_values sw ! i) [0..<?n])"
    using map_of_find [of "(!) (sw_values sw)" "[0..<?n]" "(!) (sw_labels sw)" x] unfolding z .
  ultimately show ?thesis by (simp add: pick_def split: option.splits)
qed

section \<open>The switch statement\<close>

lemma put_dispatch_adds:
  assumes "\<And>s'. em_forest s' = [] \<Longrightarrow> em_label s' = em_label s \<Longrightarrow> adds (swgen dense sw) s' S [] m"
    and c: "\<exists>cs c. S = cs @ [c] \<and> (c = Jump (sw_deflab sw) \<or> (\<exists>t vs ls d. c = Switch t vs ls d))"
    and "sw_values sw \<noteq> []" "sw_deflab sw \<noteq> 0" "em_forest s = []"
  shows "\<exists>s'. put_dispatch dense sw n s = Ret ((), s') \<and> em_code s' = take n (em_code s) @ S @ drop (Suc n) (em_code s)"
proof -
  let ?s1 = "s\<lparr>em_code := take n (em_code s)\<rparr>"
  obtain s2 where 2: "swgen dense sw ?s1 = Ret ((), s2)" "em_code s2 = take n (em_code s) @ S" "em_forest s2 = []"
    using assms(1) [of ?s1] assms(5) by (auto simp: adds_def)
  obtain cs c where c: "S = cs @ [c]" "c = Jump (sw_deflab sw) \<or> (\<exists>t vs ls d. c = Switch t vs ls d)" using c by blast
  then have "adds (branch (sw_deflab sw)) s2 [] [] (em_label s2)"
    using branch_dropped [OF 2(3), of "take n (em_code s) @ cs" c] 2(2) assms(4) by auto
  then obtain s3 where "branch (sw_deflab sw) s2 = Ret ((), s3)" "em_code s3 = em_code s2" by (auto simp: adds_def)
  then show ?thesis
    using 2 assms(3) by (simp add: put_dispatch_def Let_def seqS_def bindS_def putS_def whenS_def)
qed

lemma put_dispatch_decides:
  assumes sw: "sorted_cases sw" "sw_values sw \<noteq> []" and d: "0 < sw_deflab sw" "sw_deflab sw < em_label s"
    and l: "\<forall>l \<in> set (sw_labels sw). l < em_label s" and s: "em_forest s = []" and x: "sw_unsigned sw \<Longrightarrow> 0 \<le> x"
  shows "\<exists>s' D. put_dispatch dense sw n s = Ret ((), s') \<and> em_code s' = take n (em_code s) @ D @ drop (Suc n) (em_code s) \<and>
    exec_code D D x = Some (Leaves (pick sw 0 (length (sw_values sw)) x))"
proof -
  obtain S m where S: "\<And>s'. em_forest s' = [] \<Longrightarrow> em_label s' = em_label s \<Longrightarrow> adds (swgen dense sw) s' S [] m"
    "decides sw (em_label s) m 0 (length (sw_values sw)) S"
    by (rule swgen_decides [OF sw d, of dense]) blast
  note o = decidesD [OF S(2)]
  have "labs S \<inter> insert (sw_deflab sw) (set (sw_labels sw)) = {}" using o(1) d(2) l by fastforce
  then have "exec_code S S x = Some (Leaves (pick sw 0 (length (sw_values sw)) x))" using o(5) [of "[]" "[]" x] x by simp
  then show ?thesis using put_dispatch_adds [OF S(1) o(4) sw(2) _ s, of n] d(1) by auto
qed

lemma switch_reaches:
  assumes c: "cases \<noteq> []" "distinct (map fst cases)" and d: "0 < d" "d < em_label s" "\<forall>l \<in> snd ` set cases. l < em_label s"
    and s: "em_forest s = []" and x: "uns \<Longrightarrow> 0 \<le> x"
  shows "\<exists>sw s1 s2 D. add_cases cases (new_switch uns d) s = Ret (sw, s1) \<and> put_dispatch dense sw n s1 = Ret ((), s2) \<and>
    em_code s2 = take n (em_code s) @ D @ drop (Suc n) (em_code s) \<and>
    exec_code D D x = Some (Leaves (case map_of cases x of Some l \<Rightarrow> l | None \<Rightarrow> d))"
proof -
  obtain sw ms where 1: "add_cases cases (new_switch uns d) s = Ret (sw, s\<lparr>em_msgs := ms\<rparr>)" "sorted_cases sw" "sw_unsigned sw = uns"
    "sw_deflab sw = d" "set (zip (sw_values sw) (sw_labels sw)) = set cases" "set (sw_values sw) = set (map fst cases)"
    using add_cases_sorted [of "new_switch uns d" cases s] c(2) by (auto simp: new_switch_def sorted_cases_def)
  have len: "length (sw_labels sw) = length (sw_values sw)" using 1(2) by (simp add: sorted_cases_def)
  have lab: "\<forall>l \<in> set (sw_labels sw). l < em_label s"
  proof
    fix l assume "l \<in> set (sw_labels sw)"
    then have "l \<in> snd ` set (zip (sw_values sw) (sw_labels sw))" using len by (metis map_snd_zip set_map)
    then show "l < em_label s" using d(3) unfolding 1(5) by blast
  qed
  have ne: "sw_values sw \<noteq> []" using 1(6) c(1) by auto
  show ?thesis
    using put_dispatch_decides [OF 1(2) ne, of "s\<lparr>em_msgs := ms\<rparr>" x dense n] 1 d(1,2) lab s x pick_cases [OF 1(2,5) c(2), of x]
    by (auto intro!: exI [of _ sw])
qed

lemma case_value_negative:
  assumes "128 \<le> v" "v < 256"
  shows "case_value True 1 v < 0"
proof -
  let ?x = "word_of_int v :: 64 word"
  have "v div 128 = 1" using assms by simp
  then have "bit v 7" by (simp add: bit_iff_odd)
  then have "bit (?x AND push_bit 7 1) 7" by (simp add: bit_and_iff bit_push_bit_iff bit_word_of_int_iff)
  then have "?x AND push_bit 7 1 \<noteq> 0" by auto
  moreover have "bit (?x OR push_bit 7 (NOT 0)) 63" by (simp add: bit_or_iff bit_push_bit_iff bit_not_iff bit_mask_iff)
  ultimately have "bit (extend ?x 1) (LENGTH(64) - Suc 0)" by (simp add: extend_def)
  then show ?thesis unfolding case_value_def bit_last_iff by simp
qed

definition half :: "int \<Rightarrow> int \<Rightarrow> bool" where
  "half a b \<longleftrightarrow> b \<le> 2 * a"

definition demo_emitter :: emitter where
  "demo_emitter =
     \<lparr>em_code = [Start, Switch 0 [] [] 0, Label 2, Label 3], em_forest = [], em_label = 10, em_ref = (\<lambda>_. 0), em_equated = [],
      em_Aflag = 0, em_msgs = []\<rparr>"

text \<open>
  Claim C12: a switch statement goes to the right label.  Whatever cases with different values a switch
  statement has, in whatever order they come and with whatever density, the code that is put in
  place of the dispatch leaves the code before and the body as they are, and for every value of an
  expression of a signed type it reaches the label of the case with this value, or the default
  label if there is none; for an unsigned type this holds for the values that are not negative
  when they are read as signed ones.
\<close>

theorem switch_dispatches:
  assumes "cases \<noteq> []" "distinct (map fst cases)" "0 < d" "d < em_label s" "\<forall>l \<in> snd ` set cases. l < em_label s"
    and "em_forest s = []" "uns \<longrightarrow> 0 \<le> x"
  shows "\<exists>sw s1 s2 D. add_cases cases (new_switch uns d) s = Ret (sw, s1) \<and> put_dispatch dense sw n s1 = Ret ((), s2) \<and>
    em_code s2 = take n (em_code s) @ D @ drop (Suc n) (em_code s) \<and>
    exec_code D D x = Some (Leaves (case map_of cases x of Some l \<Rightarrow> l | None \<Rightarrow> d))"
  using switch_reaches [of cases d s uns x dense n] assms by blast

theorem switch_dispatches_witness:
  "\<exists>sw s1 s2 D. add_cases [(7, 2), (- 1, 3)] (new_switch False 5) demo_emitter = Ret (sw, s1) \<and>
    put_dispatch half sw 1 s1 = Ret ((), s2) \<and>
    em_code s2 = take 1 (em_code demo_emitter) @ D @ drop (Suc 1) (em_code demo_emitter) \<and>
    exec_code D D (- 1) = Some (Leaves (case map_of [(7 :: int, 2), (- 1, 3)] (- 1) of Some l \<Rightarrow> l | None \<Rightarrow> 5))"
  by (rule switch_dispatches) (simp_all add: demo_emitter_def)

text \<open>
  Claim C37: some cases of an unsigned type are lost.  The constant of a case is extended as if a unit
  of size had 8 bits; on the LC-3 an unsigned int has one unit of 16 bits, and a case from 128 to
  255 becomes a negative number, so that the statement goes to the default label for it.
\<close>

theorem unsigned_case_lost:
  assumes "128 \<le> v" "v < 256" "0 < d" "d < em_label s" "l < em_label s" "em_forest s = []"
  shows "\<exists>sw s1 s2 D. add_cases [(case_value True 1 v, l)] (new_switch True d) s = Ret (sw, s1) \<and> put_dispatch dense sw n s1 = Ret ((), s2) \<and>
    em_code s2 = take n (em_code s) @ D @ drop (Suc n) (em_code s) \<and> exec_code D D v = Some (Leaves d)"
proof -
  have "case_value True 1 v < 0" by (rule case_value_negative [OF assms(1,2)])
  then have "case_value True 1 v \<noteq> v" using assms(1) by simp
  then show ?thesis using switch_reaches [of "[(case_value True 1 v, l)]" d s True v dense n] assms by simp
qed

theorem unsigned_case_lost_witness:
  "\<exists>sw s1 s2 D. add_cases [(case_value True 1 200, 2)] (new_switch True 5) demo_emitter = Ret (sw, s1) \<and> put_dispatch half sw 1 s1 = Ret ((), s2) \<and>
    em_code s2 = take 1 (em_code demo_emitter) @ D @ drop (Suc 1) (em_code demo_emitter) \<and> exec_code D D 200 = Some (Leaves 5)"
  by (rule unsigned_case_lost) (simp_all add: demo_emitter_def)

text \<open>
  Claim C38: a switch on an unsigned expression can jump outside of its table.  The test for values below
  the lowest case is left out when the type is unsigned and the lowest case is 0, but the other test
  compares signed values: for the cases 0 to 3 and a value with its top bit set, which is negative
  when it is read as a signed one, the table is read before its first entry.
\<close>

theorem unsigned_switch_leaves_table:
  assumes "x < 0" "0 < d" "em_forest s = []"
  shows "\<exists>sw s1 s2 D. add_cases [(0, l0), (1, l1), (2, l2), (3, l3)] (new_switch True d) s = Ret (sw, s1) \<and>
    put_dispatch half sw n s1 = Ret ((), s2) \<and> em_code s2 = take n (em_code s) @ D @ drop (Suc n) (em_code s) \<and>
    exec_code D D x = Some BadIndex"
proof -
  define sw where "sw = \<lparr>sw_unsigned = True, sw_deflab = d, sw_size = SWSIZE, sw_values = [0, 1, 2, 3], sw_labels = [l0, l1, l2, l3]\<rparr>"
  have 1: "add_cases [(0, l0), (1, l1), (2, l2), (3, l3)] (new_switch True d) s = Ret (sw, s)"
    by (simp add: sw_def new_switch_def caselabel_def Let_def cfun_defs SWSIZE_def del: bindS_Ret bind_outcome_eq_Ret)
  have g: "swgen half sw = swcode sw [0, 4] 0 0"
    by (simp add: swgen_def Let_def sw_def half_def eval_nat_numeral)
  let ?S = "table_code sw 0 3 d d (em_label s)"
  have "adds (swgen half sw) s' ?S [] (em_label s + 1)" if s': "em_forest s' = []" "em_label s' = em_label s" for s'
  proof -
    have "adds (case_table sw 0 3 d d) s' ?S [] (em_label s + 1)" using adds_case_table [OF s'(1), of sw 0 3 d d] s'(2) by simp
    moreover have "swcode sw [0, 4] 0 0 s' = case_table sw 0 3 d d s'"
      by (cases "case_table sw 0 3 d d s'") (simp_all add: swcode_unfold tree_labels_def bucket_emit_def cfun_defs sw_def split_beta prod_eq_iff del: bindS_Ret bind_outcome_eq_Ret)
    ultimately show ?thesis unfolding g by (simp add: adds_def)
  qed
  then obtain s2 where "put_dispatch half sw n s = Ret ((), s2)" "em_code s2 = take n (em_code s) @ ?S @ drop (Suc n) (em_code s)"
    using put_dispatch_adds [of s half sw ?S "em_label s + 1" n] assms(2,3) by (auto simp: sw_def table_code_def)
  moreover have "exec_code ?S ?S x = Some BadIndex" using assms(1) by (simp add: table_code_def sw_def)
  ultimately show ?thesis using 1 by blast
qed

theorem unsigned_switch_leaves_table_witness:
  "\<exists>sw s1 s2 D. add_cases [(0, 2), (1, 3), (2, 2), (3, 3)] (new_switch True 5) demo_emitter = Ret (sw, s1) \<and>
    put_dispatch half sw 1 s1 = Ret ((), s2) \<and> em_code s2 = take 1 (em_code demo_emitter) @ D @ drop (Suc 1) (em_code demo_emitter) \<and>
    exec_code D D (- 1) = Some BadIndex"
  by (rule unsigned_switch_leaves_table) (simp_all add: demo_emitter_def)

end
