(* ===== verification/LCC_Types.thy ===== *)
theory LCC_Types
  imports LCC_Sym LCC_Intern "HOL-Library.Signed_Division"
begin

text \<open>
  The types of lcc (src/lcc-1.3/src/types.c): the table in which every type but function types and
  arrays without a size is entered once, the constructors of types with their error messages, and
  the comparison of types.  The heap of type cells is that of LCC\_Sym.
\<close>

section \<open>The table of types\<close>

fun op_code :: "typeop \<Rightarrow> nat" where
  "op_code FLOAT = 1" | "op_code INTt = 5" | "op_code UNSIGNED = 6" | "op_code POINTER = 7" | "op_code VOID = 8"
| "op_code STRUCT = 9" | "op_code UNION = 10" | "op_code FUNCTION = 11" | "op_code ARRAY = 12" | "op_code ENUM = 13"
| "op_code CONSTt = 15" | "op_code VOLATILE = 16" | "op_code CONST_VOLATILE = 31"

definition type_hash :: "typeop \<Rightarrow> nat \<Rightarrow> nat" where
  "type_hash op t = (op_code op XOR drop_bit 3 t) AND 127"

definition hashed :: "typeop \<Rightarrow> int \<Rightarrow> bool" where
  "hashed op sz \<longleftrightarrow> op \<noteq> FUNCTION \<and> (op \<noteq> ARRAY \<or> 0 < sz)"

definition same_type :: "type_cell \<Rightarrow> typeop \<Rightarrow> nat \<Rightarrow> int \<Rightarrow> int \<Rightarrow> nat \<Rightarrow> bool" where
  "same_type c op t sz align sy \<longleftrightarrow> ty_op c = op \<and> ty_type c = t \<and> ty_size c = sz \<and> ty_align c = align \<and> ty_sym c = sy"

definition type_c :: "typeop \<Rightarrow> nat \<Rightarrow> int \<Rightarrow> int \<Rightarrow> nat \<Rightarrow> lcc \<Rightarrow> nat \<times> lcc" where
  "type_c op t sz align sy s =
     (let h = type_hash op t in
      case (if hashed op sz then find (\<lambda>tn. same_type (tys s tn) op t sz align sy) (typetable s h) else None) of
        Some tn \<Rightarrow> (tn, s)
      | None \<Rightarrow>
          let tn = next_ty s;
              c = \<lparr>ty_op = op, ty_type = t, ty_size = sz, ty_align = align, ty_sym = sy, ty_oldstyle = False, ty_proto = None\<rparr>
          in (tn, s\<lparr>tys := (tys s)(tn := c), typetable := (typetable s)(h := tn # typetable s h), next_ty := Suc tn\<rparr>))"

section \<open>Properties of a type\<close>

type_synonym 'a tyact = "('a, lcc) cfun"

definition opof :: "lcc \<Rightarrow> nat \<Rightarrow> typeop" where
  "opof s t = ty_op (tys s t)"

definition isqual :: "lcc \<Rightarrow> nat \<Rightarrow> bool" where
  "isqual s t \<longleftrightarrow> op_code CONSTt \<le> op_code (opof s t)"

definition unqual :: "lcc \<Rightarrow> nat \<Rightarrow> nat" where
  "unqual s t = (if isqual s t then ty_type (tys s t) else t)"

definition is_op :: "typeop \<Rightarrow> lcc \<Rightarrow> nat \<Rightarrow> bool" where
  "is_op op s t \<longleftrightarrow> opof s (unqual s t) = op"

abbreviation isarray :: "lcc \<Rightarrow> nat \<Rightarrow> bool" where "isarray \<equiv> is_op ARRAY"
abbreviation isfunc :: "lcc \<Rightarrow> nat \<Rightarrow> bool" where "isfunc \<equiv> is_op FUNCTION"
abbreviation isptr :: "lcc \<Rightarrow> nat \<Rightarrow> bool" where "isptr \<equiv> is_op POINTER"
abbreviation isenum :: "lcc \<Rightarrow> nat \<Rightarrow> bool" where "isenum \<equiv> is_op ENUM"

definition isconst :: "lcc \<Rightarrow> nat \<Rightarrow> bool" where
  "isconst s t \<longleftrightarrow> opof s t = CONSTt \<or> opof s t = CONST_VOLATILE"

definition isvolatile :: "lcc \<Rightarrow> nat \<Rightarrow> bool" where
  "isvolatile s t \<longleftrightarrow> opof s t = VOLATILE \<or> opof s t = CONST_VOLATILE"

definition error_t :: "string \<Rightarrow> unit tyact" where
  "error_t m = putS (\<lambda>s. s\<lparr>errors := errors s @ [m]\<rparr>)"

definition warning_t :: "string \<Rightarrow> unit tyact" where
  "warning_t m = putS (\<lambda>s. s\<lparr>warnings := warnings s @ [m]\<rparr>)"

definition typeS :: "typeop \<Rightarrow> nat \<Rightarrow> int \<Rightarrow> int \<Rightarrow> nat \<Rightarrow> nat tyact" where
  "typeS op t sz align sy s = Ret (type_c op t sz align sy s)"

section \<open>Constructors\<close>

definition ptr_c :: "nat \<Rightarrow> nat tyact" where
  "ptr_c t s = typeS POINTER t (ptr_size s) (ptr_align s) (pointersym s) s"

definition deref :: "nat \<Rightarrow> nat tyact" where
  "deref t =
     bindS (\<lambda>s. if isptr s t then Ret (ty_type (tys s t), s) else seqS (error_t ''type error: pointer expected'') (returnS t) s)
       (\<lambda>t s. Ret (if isenum s t then ty_type (tys s (unqual s t)) else t, s))"

definition INT_MAX :: int where "INT_MAX = 2 ^ 31 - 1"

definition array_of :: "nat \<Rightarrow> int \<Rightarrow> int \<Rightarrow> nat tyact" where
  "array_of t n a s =
     seqS (whenS (isarray s t \<and> ty_size (tys s t) = 0) (error_t ''missing array size''))
       (bindS (if ty_size (tys s t) = 0 then
                 if unqual s t = voidtype s then seqS (error_t ''illegal type array of'') (returnS n)
                 else if 2 \<le> Aflag s then seqS (warning_t ''declaring type array of is undefined'') (returnS n)
                 else returnS n
               else if INT_MAX sdiv ty_size (tys s t) < n then seqS (error_t ''size of array exceeds the limit'') (returnS 1)
               else returnS n)
         (\<lambda>n. typeS ARRAY t (n * ty_size (tys s t)) (if a \<noteq> 0 then a else ty_align (tys s t)) 0)) s"

text \<open>An array of functions is an error and becomes an array of int.\<close>

definition array_c :: "nat \<Rightarrow> int \<Rightarrow> int \<Rightarrow> nat tyact" where
  "array_c t n a s =
     (if t = 0 then Abort
      else if isfunc s t then seqS (error_t ''illegal type array of'') (array_of (inttype s) n 0) s
      else array_of t n a s)"

definition atop :: "nat \<Rightarrow> nat tyact" where
  "atop t s = (if isarray s t then ptr_c (ty_type (tys s t)) s else seqS (error_t ''type error: array expected'') (ptr_c t) s)"

fun add_qual :: "typeop \<Rightarrow> typeop \<Rightarrow> typeop" where
  "add_qual CONSTt VOLATILE = CONST_VOLATILE" | "add_qual VOLATILE CONSTt = CONST_VOLATILE" | "add_qual op _ = op"

definition qual_scalar :: "typeop \<Rightarrow> nat \<Rightarrow> nat tyact" where
  "qual_scalar op t s =
     (if isfunc s t then seqS (warning_t ''qualified function type ignored'') (returnS t) s
      else if isconst s t \<and> op = CONSTt \<or> isvolatile s t \<and> op = VOLATILE then seqS (error_t ''illegal type'') (returnS t) s
      else
        let (op, t) = (if isqual s t then (add_qual op (opof s t), ty_type (tys s t)) else (op, t))
        in typeS op t (ty_size (tys s t)) (ty_align (tys s t)) 0 s)"

partial_function (option) qual_c :: "typeop \<Rightarrow> nat \<Rightarrow> lcc \<Rightarrow> (nat \<times> lcc) outcome option" where
  "qual_c op t s =
     (if isarray s t then
        bind_run (qual_c op (ty_type (tys s t)) s) (\<lambda>e s. Some (typeS ARRAY e (ty_size (tys s t)) (ty_align (tys s t)) 0 s))
      else Some (qual_scalar op t s))"

definition func_c :: "nat \<Rightarrow> nat list option \<Rightarrow> bool \<Rightarrow> nat tyact" where
  "func_c t proto style s =
     seqS (whenS (t \<noteq> 0 \<and> (isarray s t \<or> isfunc s t)) (error_t ''illegal return type''))
       (bindS (typeS FUNCTION t 0 0 0) (\<lambda>f.
        seqS (putS (\<lambda>s. s\<lparr>tys := (tys s)(f := (tys s f)\<lparr>ty_proto := proto, ty_oldstyle := style\<rparr>)\<rparr>)) (returnS f))) s"

definition freturn :: "nat \<Rightarrow> nat tyact" where
  "freturn t s =
     (if isfunc s t then Ret (ty_type (tys s t), s)
      else seqS (error_t ''type error: function expected'') (\<lambda>s. Ret (inttype s, s)) s)"

definition variadic :: "lcc \<Rightarrow> nat \<Rightarrow> bool" where
  "variadic s t \<longleftrightarrow>
     isfunc s t \<and> (case ty_proto (tys s t) of None \<Rightarrow> False | Some ps \<Rightarrow> 1 < length ps \<and> last ps = voidtype s)"

definition promote :: "lcc \<Rightarrow> nat \<Rightarrow> nat" where
  "promote s t =
     (let t = unqual s t; sz = ty_size (tys s t) in
      case opof s t of
        ENUM \<Rightarrow> inttype s
      | INTt \<Rightarrow> if sz < ty_size (tys s (inttype s)) then inttype s else t
      | UNSIGNED \<Rightarrow> if sz < ty_size (tys s (inttype s)) then inttype s
                    else if sz < ty_size (tys s (unsignedtype s)) then unsignedtype s else t
      | FLOAT \<Rightarrow> if sz < ty_size (tys s (doubletype s)) then doubletype s else t
      | _ \<Rightarrow> t)"

definition signedint :: "lcc \<Rightarrow> nat \<Rightarrow> nat outcome" where
  "signedint s t =
     (let sz = ty_size (tys s t) in
      if opof s t = INTt then Ret t
      else if opof s t \<noteq> UNSIGNED then Abort
      else if sz = ty_size (tys s (inttype s)) then Ret (inttype s)
      else if sz = ty_size (tys s (longtype s)) then Ret (longtype s)
      else if sz = ty_size (tys s (longlong s)) then Ret (longlong s)
      else Abort)"

section \<open>Comparison\<close>

text \<open>The parameters of two prototypes, and those of a prototype against a function without one.\<close>

fun all_params :: "(nat \<Rightarrow> nat \<Rightarrow> bool outcome option) \<Rightarrow> nat list \<Rightarrow> nat list \<Rightarrow> bool outcome option" where
  "all_params eq (p # ps) (q # qs) =
     Option.bind (eq p q) (\<lambda>r. case r of Ret True \<Rightarrow> all_params eq ps qs | _ \<Rightarrow> Some r)"
| "all_params eq ps qs = Some (Ret (ps = [] \<and> qs = []))"

definition default_params :: "lcc \<Rightarrow> nat list \<Rightarrow> bool" where
  "default_params s ps \<longleftrightarrow>
     (\<forall>p \<in> set ps. let t = unqual s p in promote s t = (if isenum s t then ty_type (tys s t) else t))"

lemma all_params_mono [partial_function_mono]:
  assumes "\<And>p q. monotone (fun_ord option_ord) option_ord (\<lambda>f. G f p q)"
  shows "monotone (fun_ord option_ord) option_ord (\<lambda>f. all_params (G f) ps qs)"
proof (induction ps qs rule: list_induct2')
  case (4 p ps q qs)
  have "monotone (fun_ord option_ord) option_ord (\<lambda>f. case r of Ret True \<Rightarrow> all_params (G f) ps qs | _ \<Rightarrow> Some r)" for r :: "bool outcome"
    using 4 by (cases r; cases "r = Ret True") (auto simp: monotone_def flat_ord_def fun_ord_def split: bool.split)
  then show ?case unfolding all_params.simps by (intro bind_mono assms)
qed (simp_all add: monotone_def flat_ord_def)

text \<open>Two prototypes are the same pointer or have the same parameters; equal lists stand for both.\<close>

partial_function (option) eqtype :: "lcc \<Rightarrow> nat \<Rightarrow> nat \<Rightarrow> bool \<Rightarrow> bool outcome option" where
  "eqtype s t1 t2 ret =
     (if t1 = t2 then Some (Ret True)
      else if opof s t1 \<noteq> opof s t2 then Some (Ret False)
      else if opof s t1 \<in> {ENUM, UNION, STRUCT, UNSIGNED, INTt, FLOAT} then Some (Ret False)
      else if opof s t1 \<in> {POINTER, VOLATILE, CONST_VOLATILE, CONSTt} then eqtype s (ty_type (tys s t1)) (ty_type (tys s t2)) True
      else if opof s t1 = ARRAY then
        Option.bind (eqtype s (ty_type (tys s t1)) (ty_type (tys s t2)) True) (\<lambda>r.
        if r = Ret True then
          Some (Ret (ty_size (tys s t1) = ty_size (tys s t2) \<or> (ty_size (tys s t1) = 0 \<or> ty_size (tys s t2) = 0) \<and> ret))
        else Some r)
      else if opof s t1 = FUNCTION then
        Option.bind (eqtype s (ty_type (tys s t1)) (ty_type (tys s t2)) True) (\<lambda>r.
        if r = Ret True then
          (let p1 = ty_proto (tys s t1); p2 = ty_proto (tys s t2) in
           if p1 = p2 then Some (Ret True)
           else if p1 \<noteq> None \<and> p2 \<noteq> None then all_params (\<lambda>p q. eqtype s (unqual s p) (unqual s q) True) (the p1) (the p2)
           else if variadic s (if p1 \<noteq> None then t1 else t2) then Some (Ret False)
           else Some (Ret (default_params s (if p1 \<noteq> None then the p1 else the p2))))
        else Some r)
      else Some Abort)"

section \<open>Unique types\<close>

type_synonym type_desc = "typeop \<times> nat \<times> int \<times> int \<times> nat"

definition desc_of :: "lcc \<Rightarrow> nat \<Rightarrow> type_desc" where
  "desc_of s t = (let c = tys s t in (ty_op c, ty_type c, ty_size c, ty_align c, ty_sym c))"

definition desc_hash :: "type_desc \<Rightarrow> nat" where
  "desc_hash d = type_hash (fst d) (fst (snd d))"

definition desc_hashed :: "type_desc \<Rightarrow> bool" where
  "desc_hashed d \<longleftrightarrow> hashed (fst d) (fst (snd (snd d)))"

text \<open>Entering a type that is looked for in the table.\<close>

definition enter_type :: "type_desc \<Rightarrow> lcc \<Rightarrow> (nat \<times> lcc) option" where
  "enter_type d s =
     (if desc_hashed d then (case d of (op, t, sz, align, sy) \<Rightarrow> Some (type_c op t sz align sy s)) else None)"

definition types_ok :: "lcc \<Rightarrow> bool" where
  "types_ok s \<longleftrightarrow>
     (\<forall>h. \<forall>i \<in> set (typetable s h). i < next_ty s \<and> desc_hash (desc_of s i) = h) \<and>
     (\<forall>h. \<forall>i \<in> set (typetable s h). \<forall>j \<in> set (typetable s h). desc_hashed (desc_of s i) \<and> desc_of s i = desc_of s j \<longrightarrow> i = j)"

definition holds_type :: "lcc \<Rightarrow> nat \<Rightarrow> type_desc \<Rightarrow> bool" where
  "holds_type s i d \<longleftrightarrow> desc_hashed d \<and> i \<in> set (typetable s (desc_hash d)) \<and> desc_of s i = d"

lemma same_type_desc: "same_type (tys s i) op t sz align sy \<longleftrightarrow> desc_of s i = (op, t, sz, align, sy)"
  by (auto simp: same_type_def desc_of_def Let_def)

lemma type_c_cases:
  assumes "type_c op t sz align sy s = (i, s')"
  shows "s' = s \<and> hashed op sz \<and> i \<in> set (typetable s (type_hash op t)) \<and> desc_of s i = (op, t, sz, align, sy) \<or>
    i = next_ty s \<and> next_ty s' = Suc (next_ty s) \<and> desc_of s' i = (op, t, sz, align, sy) \<and> (\<forall>j. j \<noteq> i \<longrightarrow> tys s' j = tys s j) \<and>
      typetable s' = (typetable s)(type_hash op t := i # typetable s (type_hash op t)) \<and>
      (hashed op sz \<longrightarrow> (\<forall>j \<in> set (typetable s (type_hash op t)). desc_of s j \<noteq> (op, t, sz, align, sy)))"
proof (cases "if hashed op sz then find (\<lambda>tn. same_type (tys s tn) op t sz align sy) (typetable s (type_hash op t)) else None")
  case None
  then have "hashed op sz \<longrightarrow> (\<forall>j \<in> set (typetable s (type_hash op t)). desc_of s j \<noteq> (op, t, sz, align, sy))"
    by (auto simp: same_type_desc find_None_iff split: if_splits)
  then show ?thesis using assms None by (auto simp: type_c_def Let_def desc_of_def)
next
  case (Some tn)
  then have "tn \<in> set (typetable s (type_hash op t))" "desc_of s tn = (op, t, sz, align, sy)" "hashed op sz"
    by (auto simp: same_type_desc find_Some_iff split: if_splits)
  then show ?thesis using assms Some by (auto simp: type_c_def Let_def)
qed

lemma desc_frame: "tys s' j = tys s j \<Longrightarrow> desc_of s' j = desc_of s j"
  by (simp add: desc_of_def)

lemma types_ok_type_c:
  assumes ok: "types_ok s" and c: "type_c op t sz align sy s = (i, s')"
  shows "types_ok s'"
  using type_c_cases [OF c]
proof (elim disjE conjE)
  let ?h = "type_hash op t" and ?d = "(op, t, sz, align, sy)"
  assume i: "i = next_ty s" "next_ty s' = Suc (next_ty s)" "desc_of s' i = ?d" "\<forall>j. j \<noteq> i \<longrightarrow> tys s' j = tys s j"
    and tt: "typetable s' = (typetable s)(?h := i # typetable s ?h)"
    and new: "hashed op sz \<longrightarrow> (\<forall>j \<in> set (typetable s ?h). desc_of s j \<noteq> ?d)"
  have ne: "j \<noteq> i" if "j \<in> set (typetable s h)" for j h using ok that i(1) by (auto simp: types_ok_def)
  have lt: "j \<noteq> i" "desc_of s' j = desc_of s j" if "j \<in> set (typetable s h)" for j h
    using ne [OF that] desc_frame [of s' j s] i(4) by blast+
  have d: "desc_hash ?d = ?h" "desc_hashed ?d \<longleftrightarrow> hashed op sz" by (simp_all add: desc_hash_def desc_hashed_def)
  have mem: "j \<in> set (typetable s' h) \<longleftrightarrow> j = i \<and> h = ?h \<or> j \<in> set (typetable s h)" for j h by (auto simp: tt)
  have o: "j < next_ty s" "desc_hash (desc_of s j) = h" if "j \<in> set (typetable s h)" for j h using ok that by (simp_all add: types_ok_def)
  show ?thesis unfolding types_ok_def
  proof (intro conjI allI ballI impI; (elim conjE)?)
    fix h j assume "j \<in> set (typetable s' h)"
    then show "j < next_ty s'" "desc_hash (desc_of s' j) = h" using o lt i(1-3) d(1) mem [of j h] by (auto simp: less_Suc_eq)
  next
    fix h j k assume jk: "j \<in> set (typetable s' h)" "k \<in> set (typetable s' h)" "desc_hashed (desc_of s' j)" "desc_of s' j = desc_of s' k"
    consider "j = i" "k = i" | "j = i" "k \<in> set (typetable s ?h)" | "k = i" "j \<in> set (typetable s ?h)"
      | "j \<in> set (typetable s h)" "k \<in> set (typetable s h)"
      using jk(1) [unfolded mem] jk(2) [unfolded mem] by auto
    then show "j = k"
    proof cases
      case 2
      then show ?thesis using jk(3,4) i(3) lt(2) [OF 2(2)] new d(2) by auto
    next
      case 3
      then show ?thesis using jk(3,4) i(3) lt(2) [OF 3(2)] new d(2) by simp
    next
      case 4
      then show ?thesis using jk(3,4) lt(2) ok unfolding types_ok_def by metis
    qed simp
  qed
qed (use ok in simp)

interpretation type_table: interning holds_type enter_type types_ok
proof (unfold_locales, goal_cases)
  case (1 s d i s')
  then show ?case using types_ok_type_c by (auto simp: enter_type_def split: if_splits prod.splits)
next
  case (2 s d i s')
  obtain op t sz align sy where d: "d = (op, t, sz, align, sy)" by (cases d) auto
  have "type_c op t sz align sy s = (i, s')" "hashed op sz" using 2(2) d by (auto simp: enter_type_def desc_hashed_def split: if_splits)
  then show ?case using type_c_cases [of op t sz align sy s i s'] d by (auto simp: holds_type_def desc_hashed_def desc_hash_def)
next
  case (3 s d i s' j e)
  obtain op t sz align sy where d: "d = (op, t, sz, align, sy)" by (cases d) auto
  have c: "type_c op t sz align sy s = (i, s')" using 3(2) d by (auto simp: enter_type_def split: if_splits)
  have "j < next_ty s" using 3(1,3) by (auto simp: types_ok_def holds_type_def)
  then show ?case using type_c_cases [OF c] 3(3) desc_frame [of s' j s] by (auto simp: holds_type_def)
next
  case (4 s i d j)
  then show ?case unfolding types_ok_def holds_type_def by metis
next
  case (5 s i d e)
  then show ?case by (simp add: holds_type_def)
qed

text \<open>
  Claim C39: types are unique.  Whatever types are entered in the table one after the other, two of them
  have the same address if and only if they have the same operator, operand, size, alignment and symbol;
  the compiler compares types by their addresses.
\<close>

theorem type_addresses:
  assumes "intern_list enter_type ds no_symbols = Some (ts, s)" "i < length ds" "j < length ds"
  shows "ts ! i = ts ! j \<longleftrightarrow> ds ! i = ds ! j"
proof -
  have "types_ok no_symbols" by (simp add: types_ok_def no_symbols_def)
  then show ?thesis by (rule type_table.handles_decide [OF _ assms])
qed

theorem type_addresses_witness:
  "\<exists>ts s. intern_list enter_type [(INTt, 0, 1, 1, 3), (UNSIGNED, 0, 1, 1, 4), (INTt, 0, 1, 1, 3)] no_symbols = Some (ts, s) \<and>
    (ts ! 0 = ts ! 2 \<longleftrightarrow> (INTt, 0, 1, 1, 3) = (INTt, 0, 1, 1, 3 :: nat))"
proof -
  obtain ts s where "intern_list enter_type [(INTt, 0, 1, 1, 3), (UNSIGNED, 0, 1, 1, 4), (INTt, 0, 1, 1, 3)] no_symbols = Some (ts, s)"
    by (simp add: enter_type_def desc_hashed_def hashed_def split_beta)
  with type_addresses [OF this, of 0 2] show ?thesis by auto
qed

section \<open>Comparison ends and is symmetric\<close>

text \<open>The parts of a type are older than the type, and there is one type void.\<close>

definition types_wf :: "lcc \<Rightarrow> bool" where
  "types_wf s \<longleftrightarrow> (\<forall>t < next_ty s.
     (opof s t \<in> {POINTER, VOLATILE, CONST_VOLATILE, CONSTt, ARRAY, FUNCTION} \<longrightarrow> ty_type (tys s t) < t) \<and>
     (opof s t = VOID \<longrightarrow> t = voidtype s) \<and>
     (opof s t = FUNCTION \<longrightarrow> (\<forall>ps. ty_proto (tys s t) = Some ps \<longrightarrow> (\<forall>p \<in> set ps. p < t))))"

lemma types_wfD:
  assumes "types_wf s" "t < next_ty s"
  shows "opof s t \<in> {POINTER, VOLATILE, CONST_VOLATILE, CONSTt, ARRAY, FUNCTION} \<Longrightarrow> ty_type (tys s t) < t"
    "opof s t = VOID \<Longrightarrow> t = voidtype s" "opof s t = FUNCTION \<Longrightarrow> ty_proto (tys s t) = Some ps \<Longrightarrow> p \<in> set ps \<Longrightarrow> p < t"
  using assms unfolding types_wf_def by blast+

text \<open>The constructors keep this: a new type is built of an older one.\<close>

lemma types_wf_type_c:
  assumes w: "types_wf s" and t: "t < next_ty s" "op \<noteq> VOID" and c: "type_c op t sz align sy s = (i, s')"
  shows "types_wf s'"
proof (cases "s' = s")
  case False
  then have "s' = s\<lparr>tys := (tys s)(next_ty s := \<lparr>ty_op = op, ty_type = t, ty_size = sz, ty_align = align, ty_sym = sy, ty_oldstyle = False, ty_proto = None\<rparr>),
      typetable := typetable s', next_ty := Suc (next_ty s)\<rparr>"
    using c by (auto simp: type_c_def Let_def split: option.splits)
  then obtain tt where s': "s' = s\<lparr>tys := (tys s)(next_ty s := \<lparr>ty_op = op, ty_type = t, ty_size = sz, ty_align = align, ty_sym = sy, ty_oldstyle = False, ty_proto = None\<rparr>),
      typetable := tt, next_ty := Suc (next_ty s)\<rparr>" by blast
  show ?thesis using w t unfolding types_wf_def s' by (auto simp: opof_def less_Suc_eq)
qed (use w in simp)

lemma types_wf_func_c:
  assumes w: "types_wf s" and t: "t < next_ty s" "\<forall>ps. proto = Some ps \<longrightarrow> (\<forall>p \<in> set ps. p < next_ty s)" and c: "func_c t proto style s = Ret (f, s')"
  shows "types_wf s'"
proof -
  have h: "\<not> hashed FUNCTION 0" by (simp add: hashed_def)
  have "f = next_ty s \<and> s' = s\<lparr>tys := (tys s)(next_ty s := \<lparr>ty_op = FUNCTION, ty_type = t, ty_size = 0, ty_align = 0, ty_sym = 0,
      ty_oldstyle = style, ty_proto = proto\<rparr>), typetable := typetable s', next_ty := Suc (next_ty s), errors := errors s'\<rparr>"
    using c h by (cases "t \<noteq> 0 \<and> (isarray s t \<or> isfunc s t)") (auto simp: func_c_def typeS_def type_c_def Let_def cfun_defs error_t_def)
  then obtain tt er where s': "s' = s\<lparr>tys := (tys s)(next_ty s := \<lparr>ty_op = FUNCTION, ty_type = t, ty_size = 0, ty_align = 0, ty_sym = 0,
      ty_oldstyle = style, ty_proto = proto\<rparr>), typetable := tt, next_ty := Suc (next_ty s), errors := er\<rparr>" by blast
  show ?thesis using w t unfolding types_wf_def s' by (auto simp: opof_def less_Suc_eq)
qed

lemma unqual_le: "types_wf s \<Longrightarrow> t < next_ty s \<Longrightarrow> unqual s t \<le> t"
proof -
  assume w: "types_wf s" "t < next_ty s"
  have "isqual s t \<Longrightarrow> opof s t \<in> {VOLATILE, CONST_VOLATILE, CONSTt}" by (cases "opof s t") (simp_all add: isqual_def)
  then show ?thesis using types_wfD(1) [OF w] by (auto simp: unqual_def)
qed

definition answers :: "bool outcome option \<Rightarrow> bool outcome option \<Rightarrow> bool" where
  "answers a b \<longleftrightarrow> (\<exists>r. a = Some (Ret r) \<and> b = Some (Ret r))"

lemma all_params_sym:
  "\<forall>p \<in> set ps. \<forall>q \<in> set qs. answers (f p q) (f q p) \<Longrightarrow> answers (all_params f ps qs) (all_params f qs ps)"
proof (induction ps qs rule: list_induct2')
  case (4 p ps q qs)
  have a: "answers (all_params f ps qs) (all_params f qs ps)" using 4 by simp
  obtain r where "f p q = Some (Ret r)" "f q p = Some (Ret r)" using 4(2) by (auto simp: answers_def)
  then show ?case using a by (cases r) (auto simp: answers_def)
qed (auto simp: answers_def)

lemma eqtype_trivial:
  "t1 = t2 \<or> opof s t1 \<noteq> opof s t2 \<or> opof s t1 \<in> {ENUM, UNION, STRUCT, UNSIGNED, INTt, FLOAT} \<Longrightarrow> eqtype s t1 t2 ret = Some (Ret (t1 = t2))"
  by (subst eqtype.simps) auto

lemma eqtype_one:
  "t1 \<noteq> t2 \<Longrightarrow> opof s t1 = opof s t2 \<Longrightarrow> opof s t1 \<in> {POINTER, VOLATILE, CONST_VOLATILE, CONSTt} \<Longrightarrow>
    eqtype s t1 t2 ret = eqtype s (ty_type (tys s t1)) (ty_type (tys s t2)) True"
  by (subst eqtype.simps) auto

lemma eqtype_array:
  assumes "t1 \<noteq> t2" "opof s t1 = ARRAY" "opof s t2 = ARRAY" "eqtype s (ty_type (tys s t1)) (ty_type (tys s t2)) True = Some (Ret r)"
  shows "eqtype s t1 t2 ret =
    Some (Ret (r \<and> (ty_size (tys s t1) = ty_size (tys s t2) \<or> (ty_size (tys s t1) = 0 \<or> ty_size (tys s t2) = 0) \<and> ret)))"
  using assms by (subst eqtype.simps) simp

lemma eqtype_func:
  assumes "t1 \<noteq> t2" "opof s t1 = FUNCTION" "opof s t2 = FUNCTION" "eqtype s (ty_type (tys s t1)) (ty_type (tys s t2)) True = Some (Ret r)"
  shows "eqtype s t1 t2 ret =
    (if r then
       (case (ty_proto (tys s t1), ty_proto (tys s t2)) of
          (None, None) \<Rightarrow> Some (Ret True)
        | (Some ps, Some qs) \<Rightarrow>
            if ps = qs then Some (Ret True) else all_params (\<lambda>p q. eqtype s (unqual s p) (unqual s q) True) ps qs
        | (Some ps, None) \<Rightarrow> Some (Ret (\<not> variadic s t1 \<and> default_params s ps))
        | (None, Some qs) \<Rightarrow> Some (Ret (\<not> variadic s t2 \<and> default_params s qs)))
     else Some (Ret False))"
  using assms by (subst eqtype.simps) (cases "ty_proto (tys s t1)"; cases "ty_proto (tys s t2)"; simp add: Let_def)

lemma eqtype_func_sym:
  assumes ne: "t1 \<noteq> t2" "t2 \<noteq> t1" and o: "opof s t1 = FUNCTION" "opof s t2 = FUNCTION"
    and r: "answers (eqtype s (ty_type (tys s t1)) (ty_type (tys s t2)) True) (eqtype s (ty_type (tys s t2)) (ty_type (tys s t1)) True)"
    and ps: "\<And>ps qs p q. ty_proto (tys s t1) = Some ps \<Longrightarrow> ty_proto (tys s t2) = Some qs \<Longrightarrow> p \<in> set ps \<Longrightarrow> q \<in> set qs \<Longrightarrow>
      answers (eqtype s (unqual s p) (unqual s q) True) (eqtype s (unqual s q) (unqual s p) True)"
  shows "answers (eqtype s t1 t2 ret) (eqtype s t2 t1 ret)"
proof -
  obtain r where r: "eqtype s (ty_type (tys s t1)) (ty_type (tys s t2)) True = Some (Ret r)"
    "eqtype s (ty_type (tys s t2)) (ty_type (tys s t1)) True = Some (Ret r)" using r by (auto simp: answers_def)
  have "answers (all_params (\<lambda>p q. eqtype s (unqual s p) (unqual s q) True) ps qs) (all_params (\<lambda>p q. eqtype s (unqual s p) (unqual s q) True) qs ps)"
    if "ty_proto (tys s t1) = Some ps" "ty_proto (tys s t2) = Some qs" for ps qs using ps [OF that] by (intro all_params_sym ballI)
  moreover note f = eqtype_func [OF ne(1) o r(1), of ret] eqtype_func [OF ne(2) o(2,1) r(2), of ret]
  ultimately show ?thesis unfolding f
    by (cases "ty_proto (tys s t1)"; cases "ty_proto (tys s t2)"; cases r) (auto simp: answers_def)
qed

lemma eqtype_sym:
  assumes w: "types_wf s"
  shows "t1 < next_ty s \<Longrightarrow> t2 < next_ty s \<Longrightarrow> answers (eqtype s t1 t2 ret) (eqtype s t2 t1 ret)"
proof (induction t1 arbitrary: t2 ret rule: less_induct)
  case (less t1)
  note d1 = types_wfD [OF w less.prems(1)] and d2 = types_wfD [OF w less.prems(2)]
  let ?o1 = "opof s t1" and ?o2 = "opof s t2"
  show ?case
  proof (cases "t1 = t2 \<or> ?o1 \<noteq> ?o2 \<or> ?o1 \<in> {ENUM, UNION, STRUCT, UNSIGNED, INTt, FLOAT}")
    case True
    then have "eqtype s t1 t2 ret = Some (Ret (t1 = t2))" "eqtype s t2 t1 ret = Some (Ret (t2 = t1))"
      by (intro eqtype_trivial; auto)+
    then show ?thesis by (auto simp: answers_def)
  next
    case base: False
    then have ne: "t1 \<noteq> t2" "t2 \<noteq> t1" and same: "?o1 = ?o2" "?o2 = ?o1" by auto
    have part: "answers (eqtype s (ty_type (tys s t1)) (ty_type (tys s t2)) True) (eqtype s (ty_type (tys s t2)) (ty_type (tys s t1)) True)"
      if "?o1 \<in> {POINTER, VOLATILE, CONST_VOLATILE, CONSTt, ARRAY, FUNCTION}"
      using less.IH [OF d1(1) [OF that]] d1(1) [OF that] d2(1) less.prems that base by simp
    consider (one) "?o1 \<in> {POINTER, VOLATILE, CONST_VOLATILE, CONSTt}" | (array) "?o1 = ARRAY" | (func) "?o1 = FUNCTION" | (void) "?o1 = VOID"
      using base by (cases ?o1) auto
    then show ?thesis
    proof cases
      case one
      note e = eqtype_one [OF ne(1) same(1) one] eqtype_one [OF ne(2) same(2) one [unfolded same(1)]]
      show ?thesis unfolding e using part one by blast
    next
      case array
      have o2: "?o2 = ARRAY" using array same(1) by simp
      obtain r where r: "eqtype s (ty_type (tys s t1)) (ty_type (tys s t2)) True = Some (Ret r)"
        "eqtype s (ty_type (tys s t2)) (ty_type (tys s t1)) True = Some (Ret r)" using part array by (auto simp: answers_def)
      then have "eqtype s t1 t2 ret = Some (Ret (r \<and> (ty_size (tys s t1) = ty_size (tys s t2) \<or> (ty_size (tys s t1) = 0 \<or> ty_size (tys s t2) = 0) \<and> ret)))"
        "eqtype s t2 t1 ret = Some (Ret (r \<and> (ty_size (tys s t2) = ty_size (tys s t1) \<or> (ty_size (tys s t2) = 0 \<or> ty_size (tys s t1) = 0) \<and> ret)))"
        using eqtype_array [OF ne(1) array o2 r(1)] eqtype_array [OF ne(2) o2 array r(2)] by blast+
      then show ?thesis unfolding answers_def by auto
    next
      case func
      have "answers (eqtype s (unqual s p) (unqual s q) True) (eqtype s (unqual s q) (unqual s p) True)"
        if pq: "ty_proto (tys s t1) = Some ps" "ty_proto (tys s t2) = Some qs" "p \<in> set ps" "q \<in> set qs" for ps qs p q
      proof -
        have p: "p < t1" "q < t2" using d1(3) [OF func pq(1,3)] d2(3) [OF _ pq(2,4)] func base by auto
        then have "p < next_ty s" "q < next_ty s" using less.prems by simp_all
        then have "unqual s p < t1" "unqual s q < next_ty s" "unqual s p < next_ty s" using unqual_le [OF w, of p] unqual_le [OF w, of q] p by simp_all
        then show ?thesis by (intro less.IH)
      qed
      then show ?thesis using func same(1) part by (intro eqtype_func_sym [OF ne]) auto
    next
      case void
      then show ?thesis using d1(2) d2(2) base by auto
    qed
  qed
qed

definition demo_types :: lcc where
  "demo_types =
     no_symbols\<lparr>next_ty := 5, inttype := 1, unsignedtype := 1, doubletype := 1,
       tys := (tys no_symbols)(1 := \<lparr>ty_op = INTt, ty_type = 0, ty_size = 1, ty_align = 1, ty_sym = 1, ty_oldstyle = False, ty_proto = None\<rparr>,
         2 := \<lparr>ty_op = POINTER, ty_type = 1, ty_size = 1, ty_align = 1, ty_sym = 2, ty_oldstyle = False, ty_proto = None\<rparr>,
         3 := \<lparr>ty_op = FUNCTION, ty_type = 2, ty_size = 0, ty_align = 0, ty_sym = 0, ty_oldstyle = False, ty_proto = Some [1]\<rparr>,
         4 := \<lparr>ty_op = FUNCTION, ty_type = 2, ty_size = 0, ty_align = 0, ty_sym = 0, ty_oldstyle = True, ty_proto = None\<rparr>)\<rparr>"

lemma demo_types_wf: "types_wf demo_types"
proof -
  have "t < 5 \<Longrightarrow> t = 0 \<or> t = 1 \<or> t = 2 \<or> t = 3 \<or> t = (4 :: nat)" for t by linarith
  then show ?thesis by (auto simp: types_wf_def demo_types_def opof_def no_symbols_def)
qed

text \<open>
  Claim C40: the comparison of types ends, without a failed assertion, and does not depend on the order
  of the two types, for all types that are built of older ones; this includes function types with
  prototypes, without them, and with one of each kind.
\<close>

theorem eqtype_symmetric:
  assumes "types_wf s" "t1 < next_ty s" "t2 < next_ty s"
  shows "\<exists>r. eqtype s t1 t2 ret = Some (Ret r) \<and> eqtype s t2 t1 ret = Some (Ret r)"
  using eqtype_sym [OF assms] by (simp add: answers_def)

theorem eqtype_symmetric_witness:
  "\<exists>r. eqtype demo_types 3 4 True = Some (Ret r) \<and> eqtype demo_types 4 3 True = Some (Ret r)"
  by (rule eqtype_symmetric [OF demo_types_wf]) (simp_all add: demo_types_def)

end
