(* ===== verification/Spec2Isabelle.thy ===== *)
theory Spec2Isabelle
  imports VM_ISA Sim_ISA Sim_Control PP_Resolve Source_Paste LCC_String CPP_Hideset LCC_Fold CPP_Eval_Safe CPP_Cond CPP_Lex_Text CPP_Macro_Call LCC_List LCC_Sym LCC_Switch LCC_Types
begin

text \<open>
  The LC-3 tools: a verification of the C programs of the repository.

  The repository is a tool chain for the LC-3, a 16-bit teaching computer.  A C program is
  compiled by lcc (src/lcc-1.3/src, with the preprocessor in src/lcc-1.3/cpp) to assembly with
  directives; lc3pp (src/lcc-1.3/lc3pp/lc3pp.c) links the assembly files at the text level and
  replaces the directives; SourcePaste (src/lcc-1.3/lc3pp/SourcePaste.c) inserts the C source as
  comments; an assembler makes object and symbol files; and two simulators run them, the virtual
  machine lc3sim-c (src/lc3sim-c) and the interactive lc3sim (src/lc3tools).  The parts meet in
  formats: object files, symbol files, assembly text, and in the instruction set.

  \<^bold>\<open>Shared theories.\<close>  LC3_Prelude names the integer types and the outcomes of a C function: it returns
  (\<open>Ret\<close>), leaves the process (\<open>Exit\<close>), fails an assertion (\<open>Abort\<close>) or does something undefined
  (\<open>Undef\<close>).  C_Monad has functions on a state with such an outcome, the rules for invariants
  (\<open>preserves\<close>) and for the absence of undefined behaviour (\<open>safe\<close>), and the composition \<open>bind_run\<close> for
  functions with loops that may not end, whose value is then \<open>None\<close>.  C_Strings has the part of the
  C library on characters, numbers and lines that the sources use; a conversion whose value does
  not fit its type, and isspace or tolower on a plain char from 128 on, are \<open>Undef\<close>.

  \<^bold>\<open>The virtual machine\<close> (src/lc3sim-c/vm.c, vm.h, main.c).  VM_Machine: memory and registers as the record
  \<open>vm_impl\<close>, one definition per operation and per opcode of vm_perform, the loop vm_run, loading of
  object files, main with its exit codes.  VM_Correct: when a run ends and with what, what a
  run may touch, that one condition flag is set, what loading places where, sign extension.

  \<^bold>\<open>The simulator lc3sim\<close> (src/lc3tools/lc3sim.c, lc3sim.h, lc3.def, symbol.c).  Sim_Symbols: the symbol table as
  nodes in hash and location chains.  Sim_State: the globals as the record \<open>sim\<close>, streams and the
  environment (poll, random) as fields, the instruction table of lc3.def.  Sim_Disasm: disassembly
  and displays.  Sim_Exec: memory with its device registers, execute_instruction and
  run_until_stopped.  Sim_Commands: the commands that do not run the machine.  Sim_Loop: files, the
  commands that run it, scripts, the command loop and main.  Sim_Safety: one instruction, and a
  run of instructions, has undefined behaviour exactly in the named divisions and shifts, and
  keeps 16-bit values.  Sim_Text: printed addresses,
  symbol files and object files are read back.  Sim_Control: which word selects which command, when
  discarding input ends, and that the commands which do not run the machine are safe on ASCII
  arguments with numbers of up to seven digits; Sim_Text has words on which parse_address is not.

  \<^bold>\<open>The instruction set.\<close>  LC3_ISA is the specification both simulators share, a partial step function
  on abstract machines, and the interface \<open>lc3_simulator\<close>; VM_ISA and Sim_ISA interpret it on the two
  simulators, and this theory puts them together: they agree on every program that stays within
  the specification.

  \<^bold>\<open>The linker lc3pp.\<close>  PP_Lines: Readline and Getword with the capacities of their buffers, strtol,
  check_ldr.  PP_Address: calculate_address, which emits the code that reaches a global variable, and the
  proof that this code does so on the LC-3 of LC3_ISA.  PP_Link: the tables of .global and .extern
  names and resolve_externs.  PP_Main: the split into code and variables, the replacement of the
  directives, main.  PP_Text, PP_Globals, PP_Output and PP_Resolve: what Readline returns and when
  the scan of an input file ends, with the old bytes of the line buffer that a directive with no name
  reads, the table of variables and the place of each in the global data, the replacement of directives as the
  compiler prints them, and the import of a variable from another file.

  \<^bold>\<open>SourcePaste.\<close>  Source_Paste: the tool and the facts that it keeps the assembly and pastes every source
  line once.

  \<^bold>\<open>The preprocessor\<close> (src/lcc-1.3/cpp).  CPP_Token: tokens, errors and the messages.  CPP_Nlist (nlist.c): the
  table of names with its bit table; a name has one entry and is found again.  CPP_Lex (lex.c): the
  table of the automaton, its expansion to the table bigfsm, and gettokens; CPP_Lex_Total: it returns
  on every input; CPP_Lex_Rows and CPP_Lex_Text: names are whole identifiers, the tokens of a line cover
  its text, and what the two wrong cells of the table do.  CPP_Eval (eval.c): the conditions of \#if;
  CPP_Expr: a well-formed expression has the value that its tree has, CPP_Eval_Safe: when the
  stacks are kept, and how equal operators associate.  CPP_Control (cpp.c, dodefine of macro.c, genline of
  include.c): the control lines and process; CPP_Cond: they refine a stack of open conditionals.
  CPP_Hideset (hideset.c): hide sets are sets.  CPP_Row (tokens.c): rows of tokens and sources of
  characters.  CPP_Macro (macro.c): the calls of macros, their arguments, \# and \#\#, the
  built-in names, the definitions of the command line, and expandrow; CPP_Macro_Object: the
  expansion of macros without parameters ends; CPP_Macro_Call: how a call is cut into arguments, and
  two kinds of input for which the expansion does not end.

  \<^bold>\<open>The compiler\<close> (src/lcc-1.3/src).  LCC_Intern is the interface \<open>interning\<close> of a table of unique values, which
  hide sets, strings and types implement.  LCC_String (string.c): strings are equal exactly when their
  addresses are.  LCC_List (list.c): the circular lists with their shared free nodes are
  sequences.  LCC_Sym (sym.c, rmtypes of types.c): tables and symbols on a heap; whatever a program
  declares and looks up in nested blocks, it sees what block structure prescribes.  LCC_Types
  (types.c): types are entered once, and their comparison ends and is symmetric.  LCC_Switch (stmt.c,
  the tables of dag.c): the code list with labels and jumps, case labels, buckets and the decision
  tree of a switch statement; running the generated code, with the jumps through tables, reaches
  the label of the case.  Two theorems show where it does not, both for unsigned types.  LCC_Fold (simp.c):
  the overflow tests of constant folding.

  \<^bold>\<open>Bounds.\<close>  Loops with a decreasing measure are functions with a termination proof; loops that may run
  forever are partial functions into \<open>option\<close>, and there is no fuel.  The integers of the virtual
  machine are 16-bit words; lc3sim, lc3pp and the compiler compute in int and long, with the wrap-around
  or the undefined overflow written out where it can occur.  Buffers of fixed or growing size are modelled
  where their capacity can be exceeded, but not the buffers of the preprocessor for input and
  generated text.  Text has no NUL characters, except in the preprocessor's sources; files are texts that
  do not change while a program reads them.  In CPP_Row the field \<open>past\<close> is the type that a read past the
  end of a row finds.  In CPP_Control the expansion of rows and the opening of include files are
  arguments of the definitions; in LCC_Switch the comparison of two floating numbers with the
  density of a switch is one.

  \<^bold>\<open>Not modelled.\<close>  The connection of lc3sim to its GUI and the terminal settings of lc3sim-c are system
  I/O.  The assembler lc3as and lc3convert are lex specifications, not C.  lc3sim_cpp is C++.  Of the
  preprocessor, the opening of include files, the options (unix.c), the characters of white space and the
  copies of token rows between buffers are left out.  Of lcc, the driver and the run-time library are I/O,
  the instruction selectors and the grammar of lburg are generated; the lexer and the parser
  (lex.c, decl.c, expr.c, the other statements of stmt.c), initializers and trees, the constants and temporaries
  of sym.c, which call the code generator, composite types and fields of types.c, dags and register
  allocation are not modelled; source coordinates are left out everywhere in lcc.
\<close>

section \<open>The two simulators\<close>

interpretation both: two_simulators vm_step vm_abstract vm_enabled sim_step sim_abstract sim_ready
  by unfold_locales

text \<open>
  Claim C1: the two simulators of the repository agree.  Started on the same machine state,
  each with its own representation, they run the same program through the same states for as
  long as the program stays within the instruction set and away from the devices.
\<close>

theorem simulators_agree:
  assumes "vm_enabled vm" "sim_ready s" "vm_abstract vm = sim_abstract s"
    and "run_steps isa_step n (vm_abstract vm) \<noteq> None"
  shows "\<exists>vm' s'. run_steps vm_step n vm = Some vm' \<and> run_steps sim_step n s = Some s' \<and>
    vm_abstract vm' = sim_abstract s'"
  using assms by (rule both.agree)

definition demo_vm :: vm_process where
  "demo_vm = (vm_start [] (\<lambda>_. 0))\<lparr>mem := (mem vm_create)(0x3000 := 0x1025)\<rparr>"

lemma demo_vm_enabled: "vm_enabled demo_vm"
  by (simp add: demo_vm_def vm_enabled_def vm_psr_ok_def vm_start_def vm_create_def vm_const_defs vm_addr_special_defs)

lemma uint_3000: "uint (a :: u16) = 0x3000 \<longleftrightarrow> a = 0x3000"
  using word_uint_eq_iff [of a "0x3000"] by simp

lemma demo_same: "vm_abstract demo_vm = sim_abstract (demo_sim 0x1025)"
  by (auto simp: demo_vm_def demo_sim_def vm_abstract_def sim_abstract_def vm_start_def vm_create_def sim_globals_def
      reg_num_defs vm_const_defs vm_addr_special_defs vm_cc_def sim_cc_def fun_eq_iff plain_def uint_3000 bit_simps)

theorem simulators_agree_witness:
  "\<exists>vm' s'. run_steps vm_step 1 demo_vm = Some vm' \<and> run_steps sim_step 1 (demo_sim 0x1025) = Some s' \<and>
    vm_abstract vm' = sim_abstract s'"
  using simulators_agree [OF demo_vm_enabled demo_sim_ready demo_same, of 1] demo_sim_step
  by (simp add: demo_same loc_in_range_def)

end
